(* ===== verification/Prelude.thy ===== *)
theory Prelude
  imports Main "HOL-Library.AList"
begin

text \<open>
  Shared vocabulary of the development: identifiers and times, the result type in
  which every raise and early return of the Python source is a value, the bind that
  sequences such results, insertion-ordered Python dictionaries as association lists,
  and the generic list facts the components share.
\<close>

named_theorems result_simps "equations of the result bind"
named_theorems dict_simps "lookup laws of insertion-ordered dictionaries"
named_theorems sum_simps "sums over appended and filtered lists"

section \<open>Identifiers and times\<close>

text \<open>A \<open>uuid.UUID\<close> is an opaque number; only equality and order are ever used.\<close>

type_synonym uuid = nat

text \<open>A UTC \<open>datetime\<close> is its number of microseconds.\<close>

type_synonym timestamp = int

abbreviation seconds :: "int \<Rightarrow> timestamp" where
  "seconds n \<equiv> n * 1000000"

section \<open>Results\<close>

text \<open>An exception is \<open>Inl\<close>, a returned value \<open>Inr\<close>.\<close>

fun rbind :: "'e + 'a \<Rightarrow> ('a \<Rightarrow> 'e + 'b) \<Rightarrow> 'e + 'b" where
  "rbind (Inl e) f = Inl e"
| "rbind (Inr x) f = f x"

definition guard :: "bool \<Rightarrow> 'e \<Rightarrow> 'e + unit" where
  "guard ok e = (if ok then Inr () else Inl e)"

lemma rbind_Inr_iff [result_simps]:
  "rbind r f = Inr y \<longleftrightarrow> (\<exists>x. r = Inr x \<and> f x = Inr y)"
  by (cases r) auto

lemma rbind_Inl_iff [result_simps]:
  "rbind r f = Inl e \<longleftrightarrow> r = Inl e \<or> (\<exists>x. r = Inr x \<and> f x = Inl e)"
  by (cases r) auto

lemma guard_iff [result_simps]:
  "guard ok e = Inr u \<longleftrightarrow> ok"
  "guard ok e = Inl e' \<longleftrightarrow> \<not> ok \<and> e' = e"
  by (auto simp: guard_def)

fun is_ok :: "'e + 'a \<Rightarrow> bool" where
  "is_ok (Inl e) = False"
| "is_ok (Inr x) = True"

lemma is_ok_iff [result_simps]: "is_ok r \<longleftrightarrow> (\<exists>x. r = Inr x)"
  by (cases r) auto

section \<open>Python dictionaries\<close>

text \<open>
  A \<open>dict\<close> keeps insertion order: storing under an existing key keeps the key's
  position, a new key goes to the end. That is \<open>AList.update\<close>; \<open>pop\<close> is
  \<open>AList.delete\<close>.
\<close>

type_synonym ('k, 'v) dict = "('k \<times> 'v) list"

abbreviation dict_get :: "('k, 'v) dict \<Rightarrow> 'k \<Rightarrow> 'v option" where
  "dict_get d k \<equiv> map_of d k"

abbreviation dict_set :: "'k \<Rightarrow> 'v \<Rightarrow> ('k, 'v) dict \<Rightarrow> ('k, 'v) dict" where
  "dict_set k v d \<equiv> AList.update k v d"

abbreviation dict_pop :: "'k \<Rightarrow> ('k, 'v) dict \<Rightarrow> ('k, 'v) dict" where
  "dict_pop k d \<equiv> AList.delete k d"

abbreviation dict_keys :: "('k, 'v) dict \<Rightarrow> 'k list" where
  "dict_keys d \<equiv> map fst d"

definition dict_get_or :: "('k, 'v) dict \<Rightarrow> 'k \<Rightarrow> 'v \<Rightarrow> 'v" where
  "dict_get_or d k v = (case dict_get d k of None \<Rightarrow> v | Some w \<Rightarrow> w)"

lemma dict_get_set [dict_simps]:
  "dict_get (dict_set k v d) k' = (if k' = k then Some v else dict_get d k')"
  by (simp add: update_conv')

lemma dict_get_pop [dict_simps]:
  "dict_get (dict_pop k d) k' = (if k' = k then None else dict_get d k')"
  by (simp add: delete_conv')

lemma dict_get_or_set [dict_simps]:
  "dict_get_or (dict_set k v d) k' w = (if k' = k then v else dict_get_or d k' w)"
  by (simp add: dict_get_or_def dict_simps)

lemma dict_keys_distinct [intro]:
  "distinct (dict_keys d) \<Longrightarrow> distinct (dict_keys (dict_set k v d))"
  "distinct (dict_keys d) \<Longrightarrow> distinct (dict_keys (dict_pop k d))"
  by (auto intro: distinct_update distinct_delete)

lemma dict_keys_set [dict_simps]:
  "fst ` set (dict_set k v d) = insert k (fst ` set d)"
  by (induction d) auto

lemma dict_keys_pop [dict_simps]:
  "fst ` set (dict_pop k d) = fst ` set d - {k}"
  by (induction d) (auto simp: AList.delete_eq)

lemma dict_set_new [dict_simps]:
  "k \<notin> set (dict_keys d) \<Longrightarrow> dict_set k v d = d @ [(k, v)]"
  by (induction d) auto

lemma dict_pop_absent [dict_simps]:
  "k \<notin> set (dict_keys d) \<Longrightarrow> dict_pop k d = d"
  by (induction d) (auto simp: AList.delete_eq)

section \<open>Numbers as text\<close>

text \<open>The decimal text of a natural number, as an f-string writes it.\<close>

fun nat_str :: "nat \<Rightarrow> string" where
  "nat_str n = (if n < 10 then [char_of (48 + n)] else nat_str (n div 10) @ [char_of (48 + n mod 10)])"

declare nat_str.simps [simp del]

text \<open>Reading the digits back gives the number.\<close>

definition digits_value :: "string \<Rightarrow> nat" where
  "digits_value s = foldl (\<lambda>n c. 10 * n + (of_char c - 48)) 0 s"

lemma digits_value_nat_str: "digits_value (nat_str n) = n"
proof (induction n rule: nat_str.induct)
  case (1 n)
  have d: "of_char (char_of (48 + m) :: char) - 48 = m" if "m < 10" for m :: nat
    using that by (simp add: of_char_of)
  show ?case
  proof (cases "n < 10")
    case True
    then show ?thesis using d [OF True] by (simp add: nat_str.simps [of n] digits_value_def)
  next
    case False
    have "digits_value (nat_str n) = 10 * digits_value (nat_str (n div 10)) + (of_char (char_of (48 + n mod 10) :: char) - 48)"
      using False by (simp add: nat_str.simps [of n] digits_value_def)
    then show ?thesis using 1 [OF False] d [of "n mod 10"] by simp
  qed
qed

lemma nat_str_inject [simp]: "nat_str m = nat_str n \<longleftrightarrow> m = n"
  by (metis digits_value_nat_str)

lemma nat_str_digits: "c \<in> set (nat_str n) \<Longrightarrow> 48 \<le> (of_char c :: nat) \<and> (of_char c :: nat) \<le> 57"
proof (induction n rule: nat_str.induct)
  case (1 n)
  have d: "48 \<le> (of_char (char_of (48 + m) :: char) :: nat) \<and> (of_char (char_of (48 + m) :: char) :: nat) \<le> 57"
    if "m < 10" for m :: nat
    using that by (simp add: of_char_of)
  show ?case
    using 1 d [of n] d [of "n mod 10"] by (cases "n < 10") (auto simp: nat_str.simps [of n])
qed

lemma nat_str_nonempty [simp]: "nat_str n \<noteq> []"
  by (subst nat_str.simps) simp

text \<open>
  \<open>str.rpartition\<close>: the text before the last separator, and the text after it; with no
  separator, nothing and the whole string.
\<close>

definition rpartition :: "char \<Rightarrow> string \<Rightarrow> string \<times> string" where
  "rpartition sep s =
     (if sep \<in> set s
      then (rev (tl (dropWhile (\<lambda>x. x \<noteq> sep) (rev s))), rev (takeWhile (\<lambda>x. x \<noteq> sep) (rev s)))
      else ([], s))"

lemma rpartition_last:
  "sep \<notin> set b \<Longrightarrow> rpartition sep (a @ sep # b) = (a, b)"
  by (simp add: rpartition_def takeWhile_append dropWhile_append)

section \<open>Lists\<close>

text \<open>\<open>sep.join(xs)\<close>\<close>

fun py_join :: "'a list \<Rightarrow> 'a list list \<Rightarrow> 'a list" where
  "py_join sep [] = []"
| "py_join sep [x] = x"
| "py_join sep (x # y # zs) = x @ sep @ py_join sep (y # zs)"

lemma sum_list_filter_append [sum_simps]:
  "(\<Sum>x\<leftarrow>filter P (xs @ ys). f x)
     = (\<Sum>x\<leftarrow>filter P xs. f x) + (\<Sum>x\<leftarrow>filter P ys. (f x :: 'b :: monoid_add))"
  by simp

lemma sum_list_filter_one [sum_simps]:
  "(\<Sum>x\<leftarrow>filter P [a]. f x) = (if P a then (f a :: 'b :: monoid_add) else 0)"
  by simp

lemma sum_list_filter_none:
  "(\<And>x. x \<in> set xs \<Longrightarrow> \<not> P x) \<Longrightarrow> (\<Sum>x\<leftarrow>filter P xs. (f x :: 'b :: monoid_add)) = 0"
  by (metis filter_False list.simps(8) sum_list.Nil)

lemma set_map_filter_iff: "y \<in> set (List.map_filter f xs) \<longleftrightarrow> (\<exists>x \<in> set xs. f x = Some y)"
  by (force simp: List.map_filter_def)

text \<open>An invariant of a loop over a list.\<close>

lemma foldl_inv:
  "P acc \<Longrightarrow> (\<And>acc x. x \<in> set xs \<Longrightarrow> P acc \<Longrightarrow> P (f acc x)) \<Longrightarrow> P (foldl f acc xs)"
  by (induction xs arbitrary: acc) auto

lemma foldl_reaches:
  assumes "P acc" "\<And>acc x. x \<in> set xs \<Longrightarrow> P acc \<Longrightarrow> P (f acc x)"
    and "\<And>acc x. x \<in> set xs \<Longrightarrow> P acc \<Longrightarrow> Q x (f acc x)"
    and "\<And>acc x y. x \<in> set xs \<Longrightarrow> y \<in> set xs \<Longrightarrow> P acc \<Longrightarrow> Q y acc \<Longrightarrow> Q y (f acc x)"
  shows "P (foldl f acc xs) \<and> (\<forall>x \<in> set xs. Q x (foldl f acc xs))"
  using assms by (induction xs rule: rev_induct) auto

lemma foldl_stays: "(\<And>x. x \<in> set xs \<Longrightarrow> f acc x = acc) \<Longrightarrow> foldl f acc xs = acc"
  by (induction xs) auto

lemma foldl_append_map: "foldl (\<lambda>acc x. acc @ [f x]) acc xs = acc @ map f xs"
  by (induction xs arbitrary: acc) auto

text \<open>Python's \<open>next((x for x in xs if p x), None)\<close> is \<open>List.find\<close>.\<close>

lemma find_SomeD: "List.find P xs = Some x \<Longrightarrow> P x \<and> x \<in> set xs"
  by (auto simp: find_Some_iff)

lemma find_None_all: "List.find P xs = None \<longleftrightarrow> (\<forall>x \<in> set xs. \<not> P x)"
  by (auto simp: find_None_iff)

text \<open>
  A list whose keys are distinct, updated in place at one key: the Python idiom of
  fetching a row object and assigning its attributes.
\<close>

definition map_at :: "('a \<Rightarrow> 'k) \<Rightarrow> 'k \<Rightarrow> ('a \<Rightarrow> 'a) \<Rightarrow> 'a list \<Rightarrow> 'a list" where
  "map_at key k f xs = map (\<lambda>x. if key x = k then f x else x) xs"

lemma map_at_keys:
  "(\<And>x. key (f x) = key x) \<Longrightarrow> map key (map_at key k f xs) = map key xs"
  by (simp add: map_at_def)

lemma map_at_length [simp]: "length (map_at key k f xs) = length xs"
  by (simp add: map_at_def)

lemma set_map_at:
  "set (map_at key k f xs) = f ` {x \<in> set xs. key x = k} \<union> {x \<in> set xs. key x \<noteq> k}"
  by (auto simp: map_at_def)

lemma find_map_at:
  assumes "\<And>x. key (f x) = key x"
  shows "List.find (\<lambda>x. key x = k') (map_at key k f xs)
    = map_option (\<lambda>x. if k' = k then f x else x) (List.find (\<lambda>x. key x = k') xs)"
  using assms by (induction xs) (auto simp: map_at_def)

lemma distinct_map_sort: "distinct (map f (sort_key k xs)) = distinct (map f xs)"
  by (simp add: distinct_map)

end
