(* ===== verification/Floats.thy ===== *)
theory Floats
  imports Prelude "HOL-Library.Log_Nat" Complex_Main
begin

text \<open>
  Python's \<open>float\<close>. A float is a rational number; every arithmetic operation is the
  exact operation followed by rounding to 53 significant bits, ties to even, which is
  what IEEE 754 binary64 prescribes. The exponent range is not bounded: overflow to
  infinity (beyond about 1.8e308) and gradual underflow are outside the model.
\<close>

section \<open>Round to nearest, ties to even\<close>

definition round_half_even :: "rat \<Rightarrow> int" where
  "round_half_even x =
     (let f = \<lfloor>x\<rfloor>; d = x - of_int f
      in if d < 1 / 2 then f
         else if d > 1 / 2 then f + 1
         else if even f then f else f + 1)"

text \<open>The binary exponent \<open>e\<close> of a positive number: \<open>2^e \<le> x < 2^(e+1)\<close>.\<close>

definition bin_exp :: "rat \<Rightarrow> int" where
  "bin_exp x = (if 1 \<le> x then bitlen \<lfloor>x\<rfloor> - 1 else - bitlen (\<lceil>1 / x\<rceil> - 1))"

definition pow2 :: "int \<Rightarrow> rat" where
  "pow2 e = (if 0 \<le> e then 2 ^ nat e else 1 / 2 ^ nat (- e))"

definition fl_pos :: "rat \<Rightarrow> rat" where
  "fl_pos x = of_int (round_half_even (x * pow2 (52 - bin_exp x))) * pow2 (bin_exp x - 52)"

definition fl64 :: "rat \<Rightarrow> rat" where
  "fl64 x = (if x = 0 then 0 else if 0 < x then fl_pos x else - fl_pos (- x))"

definition fadd :: "rat \<Rightarrow> rat \<Rightarrow> rat" where "fadd a b = fl64 (a + b)"
definition fsub :: "rat \<Rightarrow> rat \<Rightarrow> rat" where "fsub a b = fl64 (a - b)"
definition fmul :: "rat \<Rightarrow> rat \<Rightarrow> rat" where "fmul a b = fl64 (a * b)"
definition fdiv :: "rat \<Rightarrow> rat \<Rightarrow> rat" where "fdiv a b = fl64 (a / b)"

text \<open>\<open>float(n)\<close> of an int, and the predicate "is a float".\<close>

definition float_of_int :: "int \<Rightarrow> rat" where "float_of_int n = fl64 (of_int n)"

definition is_float :: "rat \<Rightarrow> bool" where "is_float x \<longleftrightarrow> fl64 x = x"

section \<open>The rounding is monotone and exact where it should be\<close>

lemma pow2_pos [simp]: "0 < pow2 e"
  by (simp add: pow2_def)

lemma pow2_powi: "pow2 e = 2 powi e"
  by (simp add: pow2_def power_int_def field_simps)

lemma pow2_add: "pow2 (a + b) = pow2 a * pow2 b"
  by (simp add: pow2_powi power_int_add)

lemma pow2_inverse [simp]: "pow2 e * pow2 (- e) = 1"
  by (metis add.right_inverse pow2_add pow2_def order_refl nat_zero_as_int nat_0 power_0)

lemma pow2_shift: "2 ^ 52 * pow2 (e - 52) = pow2 e" "2 ^ 53 * pow2 (e - 52) = pow2 (e + 1)"
proof -
  have "pow2 52 * pow2 (e - 52) = pow2 e" "pow2 53 * pow2 (e - 52) = pow2 (e + 1)"
    unfolding pow2_add [symmetric] by (simp_all add: algebra_simps)
  moreover have "pow2 52 = 2 ^ 52" "pow2 53 = 2 ^ 53" by (simp_all add: pow2_def)
  ultimately show "2 ^ 52 * pow2 (e - 52) = pow2 e" "2 ^ 53 * pow2 (e - 52) = pow2 (e + 1)"
    by (simp_all only:)
qed

lemma pow2_cancel: "pow2 (a - b) * pow2 (b - a) = 1"
  unfolding pow2_add [symmetric] by (simp add: pow2_def)

lemma pow2_mono: "a \<le> b \<Longrightarrow> pow2 a \<le> pow2 b"
  by (simp add: pow2_powi power_int_increasing)

lemma pow2_of_nat [simp]: "0 \<le> e \<Longrightarrow> pow2 e = of_int (2 ^ nat e)"
  by (simp add: pow2_def)

lemma round_half_even_mono: "x \<le> y \<Longrightarrow> round_half_even x \<le> round_half_even y"
proof -
  assume le: "x \<le> y"
  have fl: "\<lfloor>x\<rfloor> \<le> \<lfloor>y\<rfloor>" by (rule floor_mono [OF le])
  show ?thesis
  proof (cases "\<lfloor>x\<rfloor> = \<lfloor>y\<rfloor>")
    case True
    then show ?thesis using le by (auto simp: round_half_even_def Let_def)
  next
    case False
    with fl have "\<lfloor>x\<rfloor> + 1 \<le> \<lfloor>y\<rfloor>" by simp
    then show ?thesis by (auto simp: round_half_even_def Let_def)
  qed
qed

lemma round_half_even_int [simp]: "round_half_even (of_int n) = n"
  by (simp add: round_half_even_def)

lemma bin_exp_ge1:
  assumes "1 \<le> x"
  shows "pow2 (bin_exp x) \<le> x \<and> x < pow2 (bin_exp x + 1)"
proof -
  define n where "n = \<lfloor>x\<rfloor>"
  have n: "1 \<le> n" using assms by (simp add: n_def le_floor_iff)
  have b: "0 < bitlen n" using n bitlen_eq_zero_iff [of n] bitlen_nonneg [of n] by linarith
  have lo: "2 ^ nat (bitlen n - 1) \<le> n" and hi: "n < 2 ^ nat (bitlen n)"
    using bitlen_bounds [of n] n by auto
  have e: "bin_exp x = bitlen n - 1" using assms by (simp add: bin_exp_def n_def)
  have "pow2 (bin_exp x) = of_int (2 ^ nat (bitlen n - 1))" using b by (simp add: e)
  also have "\<dots> \<le> of_int n" using lo by (simp only: of_int_le_iff)
  also have "\<dots> \<le> x" by (simp add: n_def)
  finally have 1: "pow2 (bin_exp x) \<le> x" .
  have "n + 1 \<le> 2 ^ nat (bitlen n)" using hi by simp
  then have "of_int (n + 1) \<le> (of_int (2 ^ nat (bitlen n)) :: rat)" by (simp only: of_int_le_iff)
  moreover have "x < of_int (n + 1)" unfolding n_def using floor_correct [of x] by simp
  moreover have "pow2 (bin_exp x + 1) = of_int (2 ^ nat (bitlen n))" using b by (simp add: e)
  ultimately show ?thesis using 1 by simp
qed


lemma bin_exp_lt1:
  assumes "0 < x" "x < 1"
  shows "pow2 (bin_exp x) \<le> x \<and> x < pow2 (bin_exp x + 1)"
proof -
  define n where "n = \<lceil>1 / x\<rceil> - 1"
  have inv: "1 < 1 / x" using assms by simp
  have n: "1 \<le> n" using inv unfolding n_def by linarith
  have b: "0 < bitlen n" using n bitlen_eq_zero_iff [of n] bitlen_nonneg [of n] by linarith
  have lo: "2 ^ nat (bitlen n - 1) \<le> n" and hi: "n < 2 ^ nat (bitlen n)"
    using bitlen_bounds [of n] n by auto
  have e: "bin_exp x = - bitlen n" using assms by (simp add: bin_exp_def n_def)
  have "1 / x \<le> of_int (n + 1)" unfolding n_def by (simp add: le_of_int_ceiling)
  also have "\<dots> \<le> of_int (2 ^ nat (bitlen n))" using hi by (simp only: of_int_le_iff)
  finally have 1: "1 / x \<le> 2 ^ nat (bitlen n)" by simp
  have "of_int n < 1 / x" unfolding n_def using ceiling_correct [of "1 / x"] by simp
  moreover have "of_int (2 ^ nat (bitlen n - 1)) \<le> (of_int n :: rat)" using lo by (simp only: of_int_le_iff)
  ultimately have "of_int (2 ^ nat (bitlen n - 1)) < 1 / x" by (rule le_less_trans [rotated])
  then have 2: "2 ^ nat (bitlen n - 1) < 1 / x" by simp
  have p: "pow2 (bin_exp x) = 1 / 2 ^ nat (bitlen n)" using b by (simp add: e pow2_def)
  have q: "pow2 (bin_exp x + 1) = 1 / 2 ^ nat (bitlen n - 1)"
    using b by (auto simp: e pow2_def algebra_simps)
  from 1 2 assms show ?thesis unfolding p q by (simp add: field_simps)
qed

lemma bin_exp_bounds: "0 < x \<Longrightarrow> pow2 (bin_exp x) \<le> x \<and> x < pow2 (bin_exp x + 1)"
  by (cases "1 \<le> x") (simp_all add: bin_exp_ge1 bin_exp_lt1)

lemma pow2_less_cancel: "pow2 a < pow2 b \<Longrightarrow> a < b"
  by (meson pow2_mono linorder_not_le)

lemma bin_exp_mono: "0 < x \<Longrightarrow> x \<le> y \<Longrightarrow> bin_exp x \<le> bin_exp y"
proof -
  assume "0 < x" "x \<le> y"
  then have "pow2 (bin_exp x) < pow2 (bin_exp y + 1)"
    using bin_exp_bounds [of x] bin_exp_bounds [of y] by linarith
  then show ?thesis using pow2_less_cancel by fastforce
qed

lemma bin_exp_unique:
  assumes "pow2 e \<le> x" "x < pow2 (e + 1)"
  shows "bin_exp x = e"
proof -
  have x: "0 < x" using assms(1) pow2_pos [of e] by linarith
  have "pow2 (bin_exp x) < pow2 (e + 1)" "pow2 e < pow2 (bin_exp x + 1)"
    using assms bin_exp_bounds [OF x] by linarith+
  then have "bin_exp x < e + 1" "e < bin_exp x + 1" by (auto dest: pow2_less_cancel)
  then show ?thesis by simp
qed

text \<open>The scaled significand lies in \<open>[2^52, 2^53)\<close>, so its rounding in \<open>[2^52, 2^53]\<close>.\<close>

lemma significand_bounds:
  assumes "0 < x"
  shows "2 ^ 52 \<le> round_half_even (x * pow2 (52 - bin_exp x))"
    and "round_half_even (x * pow2 (52 - bin_exp x)) \<le> 2 ^ 53"
proof -
  let ?e = "bin_exp x"
  have s: "pow2 ?e * pow2 (52 - ?e) = 2 ^ 52" "pow2 (?e + 1) * pow2 (52 - ?e) = 2 ^ 53"
    unfolding pow2_add [symmetric] by simp_all
  have lo: "2 ^ 52 \<le> x * pow2 (52 - ?e)"
    using mult_right_mono [of "pow2 ?e" x "pow2 (52 - ?e)"] bin_exp_bounds [OF assms]
      pow2_pos [of "52 - ?e"] s by simp
  have hi: "x * pow2 (52 - ?e) \<le> 2 ^ 53"
    using mult_right_mono [of x "pow2 (?e + 1)" "pow2 (52 - ?e)"] bin_exp_bounds [OF assms]
      pow2_pos [of "52 - ?e"] s by simp
  show "2 ^ 52 \<le> round_half_even (x * pow2 (52 - bin_exp x))"
    using round_half_even_mono [of "of_int (2 ^ 52)" "x * pow2 (52 - ?e)"] lo
    by (simp only: round_half_even_int) simp
  show "round_half_even (x * pow2 (52 - bin_exp x)) \<le> 2 ^ 53"
    using round_half_even_mono [of "x * pow2 (52 - ?e)" "of_int (2 ^ 53)"] hi
    by (simp only: round_half_even_int) simp
qed

lemma fl_pos_bounds:
  assumes "0 < x"
  shows "pow2 (bin_exp x) \<le> fl_pos x" "fl_pos x \<le> pow2 (bin_exp x + 1)"
proof -
  let ?e = "bin_exp x" and ?m = "round_half_even (x * pow2 (52 - bin_exp x))"
  have "of_int (2 ^ 52) \<le> (of_int ?m :: rat)" "of_int ?m \<le> (of_int (2 ^ 53) :: rat)"
    using significand_bounds [OF assms] by (simp_all only: of_int_le_iff)
  then have "2 ^ 52 * pow2 (?e - 52) \<le> fl_pos x" "fl_pos x \<le> 2 ^ 53 * pow2 (?e - 52)"
    using pow2_pos [of "?e - 52"] by (simp_all add: fl_pos_def mult_right_mono)
  then show "pow2 ?e \<le> fl_pos x" "fl_pos x \<le> pow2 (?e + 1)" by (simp_all only: pow2_shift)
qed

lemma fl_pos_pos: "0 < x \<Longrightarrow> 0 < fl_pos x"
  using fl_pos_bounds(1) [of x] pow2_pos [of "bin_exp x"] by linarith

lemma fl_pos_mono:
  assumes "0 < x" "x \<le> y"
  shows "fl_pos x \<le> fl_pos y"
proof (cases "bin_exp x = bin_exp y")
  case True
  have "x * pow2 (52 - bin_exp x) \<le> y * pow2 (52 - bin_exp x)"
    using assms(2) pow2_pos [of "52 - bin_exp x"] by (simp add: mult_right_mono)
  then have "of_int (round_half_even (x * pow2 (52 - bin_exp x)))
      \<le> (of_int (round_half_even (y * pow2 (52 - bin_exp y))) :: rat)"
    using round_half_even_mono True by simp
  then show ?thesis using pow2_pos [of "bin_exp y - 52"] by (simp add: fl_pos_def True mult_right_mono)
next
  case False
  then have "bin_exp x + 1 \<le> bin_exp y" using bin_exp_mono [OF assms] by simp
  then have "pow2 (bin_exp x + 1) \<le> pow2 (bin_exp y)" by (rule pow2_mono)
  then show ?thesis using fl_pos_bounds [of x] fl_pos_bounds [of y] assms by simp
qed

lemma fl64_0 [simp]: "fl64 0 = 0"
  by (simp add: fl64_def)

lemma fl64_pos: "0 < x \<Longrightarrow> 0 < fl64 x"
  by (simp add: fl64_def fl_pos_pos)

lemma fl64_minus: "fl64 (- x) = - fl64 x"
  by (simp add: fl64_def)

lemma fl64_mono: "x \<le> y \<Longrightarrow> fl64 x \<le> fl64 y"
proof -
  assume le: "x \<le> y"
  consider "0 < x" | "x \<le> 0" "0 \<le> y" | "y < 0" by linarith
  then show ?thesis
  proof cases
    case 1
    then show ?thesis using le by (simp add: fl64_def fl_pos_mono)
  next
    case 2
    then show ?thesis using fl_pos_pos [of "- x"] fl_pos_pos [of y] by (auto simp: fl64_def)
  next
    case 3
    then show ?thesis using le fl_pos_mono [of "- y" "- x"] by (simp add: fl64_def)
  qed
qed

text \<open>A 53-bit integer times a power of two is a float.\<close>

lemma fl_pos_significand:
  assumes "2 ^ 52 \<le> m" "m < 2 ^ 53"
  shows "fl_pos (of_int m * pow2 (e - 52)) = of_int m * pow2 (e - 52)"
proof -
  have c: "(2 ^ 52 :: rat) \<le> of_int m" "of_int m < (2 ^ 53 :: rat)"
    using assms of_int_le_iff [of "2 ^ 52" m, where 'a = rat]
      of_int_less_iff [of m "2 ^ 53", where 'a = rat] by simp_all
  have "pow2 e \<le> of_int m * pow2 (e - 52)" "of_int m * pow2 (e - 52) < pow2 (e + 1)"
    using c pow2_pos [of "e - 52"] by (simp_all only: pow2_shift(1) [symmetric, of e]
      pow2_shift(2) [symmetric, of e] mult_right_mono mult_strict_right_mono less_imp_le)
  then have be: "bin_exp (of_int m * pow2 (e - 52)) = e" by (rule bin_exp_unique)
  have "of_int m * pow2 (e - 52) * pow2 (52 - e) = of_int m"
    by (simp add: mult.assoc pow2_cancel)
  then show ?thesis unfolding fl_pos_def be by (simp only: round_half_even_int)
qed

lemma fl_pos_idem:
  assumes "0 < x"
  shows "fl_pos (fl_pos x) = fl_pos x"
proof -
  let ?e = "bin_exp x" and ?m = "round_half_even (x * pow2 (52 - bin_exp x))"
  have m: "2 ^ 52 \<le> ?m" "?m \<le> 2 ^ 53" using significand_bounds [OF assms] by simp_all
  show ?thesis
  proof (cases "?m = 2 ^ 53")
    case True
    have "fl_pos x = of_int (2 ^ 52) * pow2 (?e + 1 - 52)"
      using pow2_add [of 1 "?e - 52"] unfolding fl_pos_def True by (simp add: algebra_simps)
    then show ?thesis using fl_pos_significand [of "2 ^ 52" "?e + 1"] by simp
  next
    case False
    with m have "?m < 2 ^ 53" by simp
    then show ?thesis using fl_pos_significand [OF m(1)] unfolding fl_pos_def [of x] by blast
  qed
qed

lemma fl64_idem: "fl64 (fl64 x) = fl64 x"
proof -
  consider "x = 0" | "0 < x" | "x < 0" by linarith
  then show ?thesis
  proof cases
    case 2
    then show ?thesis using fl_pos_pos [of x] fl_pos_idem [of x] by (simp add: fl64_def)
  next
    case 3
    then show ?thesis using fl_pos_pos [of "- x"] fl_pos_idem [of "- x"] by (auto simp: fl64_def)
  qed simp
qed

lemma is_float_fl64 [simp]: "is_float (fl64 x)"
  by (simp add: is_float_def fl64_idem)

section \<open>The interface the cost arithmetic uses\<close>

text \<open>
  What metering and charging rely on, stated once: a rounding that is monotone, keeps
  zero and is the identity on its own results.
\<close>

locale rounding =
  fixes rnd :: "rat \<Rightarrow> rat"
  assumes rnd_mono: "x \<le> y \<Longrightarrow> rnd x \<le> rnd y"
    and rnd_0: "rnd 0 = 0"
    and rnd_idem: "rnd (rnd x) = rnd x"
begin

lemma nonneg: "0 \<le> x \<Longrightarrow> 0 \<le> rnd x"
  using rnd_mono [of 0 x] by (simp add: rnd_0)

lemma add_grows: "rnd a = a \<Longrightarrow> 0 \<le> b \<Longrightarrow> a \<le> rnd (a + b)"
  using rnd_mono [of a "a + b"] by simp

lemma diff_nonneg: "b \<le> a \<Longrightarrow> 0 \<le> rnd (a - b)"
  by (rule nonneg) simp

lemma scale_mono: "0 \<le> k \<Longrightarrow> a \<le> b \<Longrightarrow> rnd (a * k) \<le> rnd (b * k)"
  by (rule rnd_mono) (rule mult_right_mono)

lemma ceil_scale_mono: "0 \<le> k \<Longrightarrow> a \<le> b \<Longrightarrow> \<lceil>rnd (a * k)\<rceil> \<le> \<lceil>rnd (b * k)\<rceil>"
  by (rule ceiling_mono) (rule scale_mono)

end

interpretation binary64: rounding fl64
  by unfold_locales (auto intro: fl64_mono fl64_idem)

lemma fadd_float [simp]: "is_float (fadd a b)"
  by (simp add: fadd_def)

lemma fadd_grows: "is_float a \<Longrightarrow> 0 \<le> b \<Longrightarrow> a \<le> fadd a b"
  unfolding fadd_def is_float_def by (rule binary64.add_grows)

lemma fsub_nonneg: "b \<le> a \<Longrightarrow> 0 \<le> fsub a b"
  unfolding fsub_def by (rule binary64.diff_nonneg)

lemma fmul_nonneg: "0 \<le> a \<Longrightarrow> 0 \<le> b \<Longrightarrow> 0 \<le> fmul a b"
  unfolding fmul_def by (simp add: binary64.nonneg)

text \<open>Every integer of at most 53 bits is a float.\<close>

lemma fl64_int:
  assumes "\<bar>n\<bar> < 2 ^ 53"
  shows "fl64 (of_int n) = of_int n"
proof -
  have pos: "fl_pos (of_int n) = of_int n" if n: "1 \<le> n" "n < 2 ^ 53" for n
  proof -
    let ?e = "bin_exp (of_int n)"
    have e: "pow2 ?e \<le> of_int n" "of_int n < pow2 (?e + 1)"
      using bin_exp_bounds [of "of_int n"] n(1) by simp_all
    have "pow2 ?e < pow2 53" using e(1) n(2)
      of_int_less_iff [of n "2 ^ 53", where 'a = rat] by simp
    then have "?e \<le> 52" using pow2_less_cancel by fastforce
    then have i: "pow2 (52 - ?e) = of_int (2 ^ nat (52 - ?e))" by simp
    have "of_int n * pow2 (52 - ?e) = (of_int (n * 2 ^ nat (52 - ?e)) :: rat)" unfolding i by simp
    then have "fl_pos (of_int n) = of_int n * pow2 (52 - ?e) * pow2 (?e - 52)"
      unfolding fl_pos_def by (simp only: round_half_even_int)
    also have "\<dots> = of_int n" by (simp add: mult.assoc pow2_cancel)
    finally show ?thesis .
  qed
  consider "n = 0" | "1 \<le> n" | "n \<le> -1" by linarith
  then show ?thesis
  proof cases
    case 2
    then show ?thesis using pos [of n] assms by (simp add: fl64_def)
  next
    case 3
    then show ?thesis using pos [of "- n"] assms by (simp add: fl64_def)
  qed simp
qed

end
