(* ===== verification/Credits.thy ===== *)
theory Credits
  imports Floats
begin

text \<open>
  The pure layer of the credit system (\<open>backend/app/credits.py\<close>): the policy built
  from settings, the charge formula, and the alphabet, rendering and normalisation of
  redeem codes. Text is a list of code points; the Unicode tables behind
  \<open>unicodedata.normalize\<close>, \<open>str.upper\<close> and \<open>str.isalnum\<close> and the keyed hash of
  \<open>hmac\<close> are parameters.
\<close>

section \<open>Policy\<close>

record credit_policy =
  enforced :: bool
  credits_per_usd :: rat
  credits_per_1k_tokens :: rat
  signup_bonus :: int
  max_adjust :: int
  max_codes_per_batch :: int
  max_credits_per_turn :: int
  turn_reserve :: int

text \<open>The dataclass defaults.\<close>

definition default_credit_policy :: credit_policy where
  "default_credit_policy = \<lparr>
     enforced = False, credits_per_usd = 1000, credits_per_1k_tokens = 1,
     signup_bonus = 0, max_adjust = 10000000, max_codes_per_batch = 5000,
     max_credits_per_turn = 200000, turn_reserve = 50\<rparr>"

text \<open>The attributes \<open>from_settings\<close> reads; \<open>None\<close> is an absent attribute.\<close>

record credit_settings =
  set_ENV :: string
  set_CREDITS_ENFORCED :: "bool option"
  set_CREDITS_PER_USD :: "rat option"
  set_CREDITS_PER_1K_TOKENS_FALLBACK :: "rat option"
  set_CREDITS_SIGNUP_BONUS :: "int option"
  set_CREDITS_MAX_ADJUST :: "int option"
  set_REDEEM_MAX_CODES_PER_BATCH :: "int option"
  set_CREDITS_MAX_CHARGE_PER_TURN :: "int option"
  set_CREDITS_TURN_RESERVE :: "int option"

fun getattr :: "'a option \<Rightarrow> 'a \<Rightarrow> 'a" where
  "getattr None d = d"
| "getattr (Some v) d = v"

definition from_settings :: "credit_settings \<Rightarrow> credit_policy" where
  "from_settings s = \<lparr>
     enforced = (getattr (set_CREDITS_ENFORCED s) False \<and> set_ENV s \<noteq> ''test''),
     credits_per_usd = fl64 (getattr (set_CREDITS_PER_USD s) 1000),
     credits_per_1k_tokens = fl64 (getattr (set_CREDITS_PER_1K_TOKENS_FALLBACK s) 1),
     signup_bonus = max 0 (getattr (set_CREDITS_SIGNUP_BONUS s) 0),
     max_adjust = max 1 (getattr (set_CREDITS_MAX_ADJUST s) 10000000),
     max_codes_per_batch = max 1 (getattr (set_REDEEM_MAX_CODES_PER_BATCH s) 5000),
     max_credits_per_turn = max 1 (getattr (set_CREDITS_MAX_CHARGE_PER_TURN s) 200000),
     turn_reserve = max 0 (getattr (set_CREDITS_TURN_RESERVE s) 50)\<rparr>"

text \<open>What every policy built from settings satisfies.\<close>

definition wf_policy :: "credit_policy \<Rightarrow> bool" where
  "wf_policy p \<longleftrightarrow> 0 \<le> signup_bonus p \<and> 1 \<le> max_adjust p \<and> 1 \<le> max_codes_per_batch p
     \<and> 1 \<le> max_credits_per_turn p \<and> 0 \<le> turn_reserve p"

lemma wf_policy_from_settings: "wf_policy (from_settings s)"
  by (simp add: wf_policy_def from_settings_def)

text \<open>
  The process-wide singleton: \<open>get\<close> builds it on first use, \<open>set\<close> overrides or
  (with \<open>None\<close>) resets it.
\<close>

definition get_credit_policy ::
  "credit_settings \<Rightarrow> credit_policy option \<Rightarrow> credit_policy \<times> credit_policy option" where
  "get_credit_policy s singleton =
     (case singleton of
        None \<Rightarrow> (from_settings s, Some (from_settings s))
      | Some p \<Rightarrow> (p, Some p))"

definition set_credit_policy ::
  "credit_policy option \<Rightarrow> credit_policy option \<Rightarrow> credit_policy option" where
  "set_credit_policy policy singleton = policy"

lemma get_credit_policy_stable:
  "get_credit_policy s singleton = (p, singleton') \<Longrightarrow> get_credit_policy s' singleton' = (p, singleton')"
  by (auto simp: get_credit_policy_def split: option.splits)

section \<open>The charge of one turn\<close>

definition token_charge :: "int option \<Rightarrow> credit_policy \<Rightarrow> int" where
  "token_charge total_tokens p =
     (let tokens = (case total_tokens of None \<Rightarrow> 0 | Some n \<Rightarrow> n)
      in if tokens > 0
         then max 1 \<lceil>fmul (fdiv (float_of_int tokens) 1000) (credits_per_1k_tokens p)\<rceil>
         else 0)"

definition uncapped_charge :: "rat option \<Rightarrow> int option \<Rightarrow> credit_policy \<Rightarrow> int" where
  "uncapped_charge cost_usd total_tokens p =
     (case cost_usd of
        Some c \<Rightarrow>
          (if c > 0 then max 1 \<lceil>fmul c (credits_per_usd p)\<rceil> else token_charge total_tokens p)
      | None \<Rightarrow> token_charge total_tokens p)"

definition compute_charge :: "rat option \<Rightarrow> int option \<Rightarrow> credit_policy \<Rightarrow> int" where
  "compute_charge cost_usd total_tokens p =
     min (uncapped_charge cost_usd total_tokens p) (max_credits_per_turn p)"

text \<open>A turn that consumed something the server could see.\<close>

definition consumed :: "rat option \<Rightarrow> int option \<Rightarrow> bool" where
  "consumed cost_usd total_tokens \<longleftrightarrow>
     (\<exists>c. cost_usd = Some c \<and> 0 < c) \<or> (\<exists>n. total_tokens = Some n \<and> 0 < n)"

lemma uncapped_charge_consumed:
  "(1 \<le> uncapped_charge c n p) = consumed c n" "0 \<le> uncapped_charge c n p"
  by (auto simp: uncapped_charge_def token_charge_def consumed_def Let_def split: option.splits)

lemma compute_charge_zero_iff:
  "1 \<le> max_credits_per_turn p \<Longrightarrow> (compute_charge c n p = 0) = (\<not> consumed c n)"
  using uncapped_charge_consumed [of c n p] by (auto simp: compute_charge_def min_def)

text \<open>For every policy built from settings, the charge of a turn lies between 0 and the
  per-turn cap, and it is positive exactly when the turn consumed something: a turn with a
  known positive cost or with tokens is never free, an empty turn always is.\<close>

theorem compute_charge_bounds:
  "0 \<le> compute_charge cost toks (from_settings s)
   \<and> compute_charge cost toks (from_settings s) \<le> max_credits_per_turn (from_settings s)
   \<and> (1 \<le> compute_charge cost toks (from_settings s)) = consumed cost toks"
  using wf_policy_from_settings [of s] uncapped_charge_consumed [of cost toks "from_settings s"]
  by (auto simp: compute_charge_def wf_policy_def min_def)

lemma ceil_scale_mono64: "0 \<le> k \<Longrightarrow> a \<le> b \<Longrightarrow> \<lceil>fmul a k\<rceil> \<le> \<lceil>fmul b k\<rceil>"
  unfolding fmul_def by (rule binary64.ceil_scale_mono)

lemma token_charge_mono:
  assumes "0 \<le> credits_per_1k_tokens p" "m \<le> n"
  shows "token_charge (Some m) p \<le> token_charge (Some n) p"
proof -
  have "fdiv (float_of_int m) 1000 \<le> fdiv (float_of_int n) 1000"
    unfolding fdiv_def float_of_int_def using assms(2) by (auto intro!: fl64_mono divide_right_mono)
  from ceil_scale_mono64 [OF assms(1) this] assms(2) show ?thesis
    by (auto simp: token_charge_def Let_def)
qed

text \<open>Charging is monotone: with non-negative rates, a turn that costs at least as much (both
  costs positive), or that used at least as many tokens when no cost is known, is charged at
  least as many credits. Rounding to binary64 and the cap do not break the order.\<close>

theorem compute_charge_mono:
  assumes "0 \<le> credits_per_usd p" "0 \<le> credits_per_1k_tokens p"
    and "0 < c" "c \<le> c'" "m \<le> n"
  shows "compute_charge (Some c) toks p \<le> compute_charge (Some c') toks' p
    \<and> compute_charge None (Some m) p \<le> compute_charge None (Some n) p"
proof -
  have "uncapped_charge (Some c) toks p \<le> uncapped_charge (Some c') toks' p"
    using ceil_scale_mono64 [OF assms(1,4)] assms(3,4) by (auto simp: uncapped_charge_def)
  moreover have "uncapped_charge None (Some m) p \<le> uncapped_charge None (Some n) p"
    using token_charge_mono [OF assms(2,5)] by (simp add: uncapped_charge_def)
  ultimately show ?thesis by (auto simp: compute_charge_def min_def)
qed

theorem compute_charge_mono_witness:
  "compute_charge (Some (1 / 100)) None default_credit_policy
     \<le> compute_charge (Some (1 / 10)) None default_credit_policy
   \<and> compute_charge None (Some 1500) default_credit_policy
     \<le> compute_charge None (Some 2500) default_credit_policy"
  by (rule compute_charge_mono) (simp_all add: default_credit_policy_def)

section \<open>Redeem codes\<close>

type_synonym pystr = "nat list"

abbreviation lit :: "string \<Rightarrow> pystr" where
  "lit s \<equiv> map of_char s"

definition CROCKFORD_ALPHABET :: pystr where
  "CROCKFORD_ALPHABET = lit ''0123456789ABCDEFGHJKMNPQRSTVWXYZ''"

definition CODE_LENGTH :: nat where "CODE_LENGTH = 16"
definition CODE_GROUP :: nat where "CODE_GROUP = 4"
definition PREFIX_LENGTH :: nat where "PREFIX_LENGTH = 6"

text \<open>
  \<open>secrets.choice\<close> draws positions of the alphabet; the draws are the argument. The
  groups are the slices \<open>chars[i : i + CODE_GROUP]\<close>.
\<close>

definition drawn_chars :: "nat list \<Rightarrow> pystr" where
  "drawn_chars draws = map (\<lambda>d. CROCKFORD_ALPHABET ! d) draws"

definition code_groups :: "pystr \<Rightarrow> pystr list" where
  "code_groups chars =
     map (\<lambda>j. take CODE_GROUP (drop (j * CODE_GROUP) chars)) [0..<CODE_LENGTH div CODE_GROUP]"

definition generate_code :: "nat list \<Rightarrow> pystr" where
  "generate_code draws = py_join (lit ''-'') (code_groups (drawn_chars draws))"

definition valid_draws :: "nat list \<Rightarrow> bool" where
  "valid_draws draws \<longleftrightarrow> length draws = CODE_LENGTH \<and> (\<forall>d \<in> set draws. d < length CROCKFORD_ALPHABET)"

text \<open>The Unicode tables \<open>normalize_code\<close> consults.\<close>

record unicode_db =
  nfkc :: "pystr \<Rightarrow> pystr"
  str_upper :: "pystr \<Rightarrow> pystr"
  ch_isalnum :: "nat \<Rightarrow> bool"

text \<open>\<open>_CHAR_FIXES.get(ch, ch)\<close>\<close>

definition CHAR_FIXES :: "(nat, nat) dict" where
  "CHAR_FIXES = [(of_char CHR ''I'', of_char CHR ''1''), (of_char CHR ''L'', of_char CHR ''1''),
     (of_char CHR ''O'', of_char CHR ''0'')]"

definition normalize_code :: "unicode_db \<Rightarrow> pystr \<Rightarrow> pystr" where
  "normalize_code db raw =
     (let folded = nfkc db raw
      in map (\<lambda>ch. dict_get_or CHAR_FIXES ch ch) (filter (ch_isalnum db) (str_upper db folded)))"

definition code_prefix :: "pystr \<Rightarrow> pystr" where
  "code_prefix normalized = take PREFIX_LENGTH normalized"

text \<open>
  The pepper of \<open>hash_code\<close>: the configured one, or a key derived from the JWT
  secret. The keyed hash itself is the parameter \<open>hmac_hex\<close>.
\<close>

definition redeem_pepper :: "pystr \<Rightarrow> pystr \<Rightarrow> pystr" where
  "redeem_pepper configured jwt_secret =
     (if configured = [] then lit ''redeem-code-pepper:'' @ jwt_secret else configured)"

definition hash_code :: "(pystr \<Rightarrow> pystr \<Rightarrow> 'h) \<Rightarrow> pystr \<Rightarrow> pystr \<Rightarrow> pystr \<Rightarrow> 'h" where
  "hash_code hmac_hex configured jwt_secret normalized =
     hmac_hex (redeem_pepper configured jwt_secret) normalized"

lemma redeem_pepper_nonempty: "redeem_pepper c j \<noteq> []"
  by (simp add: redeem_pepper_def)

section \<open>Normalisation recovers the drawn code\<close>

definition ascii_upper :: "nat \<Rightarrow> nat" where
  "ascii_upper c = (if 97 \<le> c \<and> c \<le> 122 then c - 32 else c)"

definition ascii_lower :: "nat \<Rightarrow> nat" where
  "ascii_lower c = (if 65 \<le> c \<and> c \<le> 90 then c + 32 else c)"

definition ascii_alnum :: "nat \<Rightarrow> bool" where
  "ascii_alnum c \<longleftrightarrow> (48 \<le> c \<and> c \<le> 57) \<or> (65 \<le> c \<and> c \<le> 90) \<or> (97 \<le> c \<and> c \<le> 122)"

text \<open>
  What the Unicode standard documents for ASCII text: it is its own NFKC form, upper
  casing acts letter by letter, and the alphanumerics are the digits and letters.
\<close>

definition unicode_on_ascii :: "unicode_db \<Rightarrow> bool" where
  "unicode_on_ascii db \<longleftrightarrow>
     (\<forall>s. (\<forall>c \<in> set s. c < 128) \<longrightarrow> nfkc db s = s \<and> str_upper db s = map ascii_upper s)
     \<and> (\<forall>c < 128. ch_isalnum db c = ascii_alnum c)"

definition ascii_db :: unicode_db where
  "ascii_db = \<lparr>nfkc = (\<lambda>s. s), str_upper = map ascii_upper, ch_isalnum = ascii_alnum\<rparr>"

lemma unicode_on_ascii_db: "unicode_on_ascii ascii_db"
  by (simp add: unicode_on_ascii_def ascii_db_def)

text \<open>How a user may write one character of a code: either case, or a look-alike.\<close>

definition spellings :: "nat \<Rightarrow> nat list" where
  "spellings c = [c, ascii_lower c]
     @ (if c = of_char CHR ''1'' then lit ''IiLl'' else if c = of_char CHR ''0'' then lit ''Oo'' else [])"

text \<open>A transcription of a code: its characters in some spelling, separators anywhere.\<close>

inductive transcribes :: "pystr \<Rightarrow> pystr \<Rightarrow> bool" where
  nothing: "transcribes [] []"
| separator: "transcribes typed code \<Longrightarrow> c < 128 \<Longrightarrow> \<not> ascii_alnum c \<Longrightarrow> transcribes (c # typed) code"
| spelled: "transcribes typed code \<Longrightarrow> v \<in> set (spellings c) \<Longrightarrow> transcribes (v # typed) (c # code)"

inductive_simps transcribes_Nil: "transcribes [] code"
inductive_simps transcribes_Cons: "transcribes (v # typed) code"

lemma spellings_fixed:
  "\<forall>c \<in> set CROCKFORD_ALPHABET. \<forall>v \<in> set (spellings c).
     v < 128 \<and> ascii_alnum v \<and> ascii_alnum (ascii_upper v)
     \<and> dict_get_or CHAR_FIXES (ascii_upper v) (ascii_upper v) = c"
  by code_simp

lemma ascii_alnum_upper: "ascii_alnum (ascii_upper c) = ascii_alnum c"
  by (auto simp: ascii_alnum_def ascii_upper_def)

lemma ascii_upper_128: "c < 128 \<Longrightarrow> ascii_upper c < 128"
  by (auto simp: ascii_upper_def)

lemma transcribes_ascii:
  "transcribes typed code \<Longrightarrow> set code \<subseteq> set CROCKFORD_ALPHABET \<Longrightarrow> \<forall>c \<in> set typed. c < 128"
  by (induction rule: transcribes.induct) (use spellings_fixed in auto)

lemma normalize_code_ascii:
  assumes "unicode_on_ascii db" "\<forall>c \<in> set s. c < 128"
  shows "normalize_code db s
    = map (\<lambda>ch. dict_get_or CHAR_FIXES ch ch) (filter ascii_alnum (map ascii_upper s))"
proof -
  have "nfkc db s = s" "str_upper db s = map ascii_upper s"
    using assms by (auto simp: unicode_on_ascii_def)
  moreover have "filter (ch_isalnum db) (map ascii_upper s) = filter ascii_alnum (map ascii_upper s)"
    using assms by (intro filter_cong) (auto simp: unicode_on_ascii_def ascii_upper_128)
  ultimately show ?thesis by (simp add: normalize_code_def Let_def)
qed

lemma transcribes_normal_form:
  assumes "unicode_on_ascii db" "set code \<subseteq> set CROCKFORD_ALPHABET" "transcribes typed code"
  shows "normalize_code db typed = code"
proof -
  have "map (\<lambda>ch. dict_get_or CHAR_FIXES ch ch) (filter ascii_alnum (map ascii_upper typed)) = code"
    using assms(3,2)
    by (induction rule: transcribes.induct) (use spellings_fixed in \<open>auto simp: ascii_alnum_upper\<close>)
  then show ?thesis using normalize_code_ascii [OF assms(1) transcribes_ascii [OF assms(3,2)]] by simp
qed

text \<open>Redeem codes survive being copied by hand: any ASCII transcription of a code, in
  upper or lower case, with I, L or O written for 1 or 0 and with any separators between
  the characters, normalises to exactly the drawn characters.\<close>

theorem normalize_transcription:
  assumes "unicode_on_ascii db" "set code \<subseteq> set CROCKFORD_ALPHABET" "transcribes typed code"
  shows "normalize_code db typed = code"
  using assms by (rule transcribes_normal_form)

theorem normalize_transcription_witness:
  "normalize_code ascii_db (lit ''o-1 Il'') = lit ''0111''"
proof (rule normalize_transcription)
  show "unicode_on_ascii ascii_db" by (rule unicode_on_ascii_db)
  show "set (lit ''0111'') \<subseteq> set CROCKFORD_ALPHABET" by code_simp
  show "transcribes (lit ''o-1 Il'') (lit ''0111'')"
    by (auto simp: transcribes_Cons transcribes_Nil ascii_alnum_def spellings_def ascii_lower_def)
qed

text \<open>The displayed form is one such transcription of the drawn characters.\<close>

lemma transcribes_self: "transcribes xs xs"
  by (induction xs) (auto intro!: transcribes.intros simp: spellings_def)

lemma transcribes_append:
  "transcribes t c \<Longrightarrow> transcribes t' c' \<Longrightarrow> transcribes (t @ t') (c @ c')"
  by (induction rule: transcribes.induct) (auto intro: transcribes.intros)

lemma transcribes_join: "transcribes (py_join (lit ''-'') gs) (concat gs)"
proof (induction "lit ''-''" gs rule: py_join.induct)
  case (3 x y zs)
  have "transcribes (lit ''-'' @ py_join (lit ''-'') (y # zs)) (concat (y # zs))"
    using transcribes.separator [OF 3] by (simp add: ascii_alnum_def)
  from transcribes_append [OF transcribes_self this, of x] show ?case by simp
qed (auto intro: transcribes.intros transcribes_self)

lemma concat_code_groups:
  assumes "length chars = CODE_LENGTH"
  shows "concat (code_groups chars) = chars"
proof -
  have "length chars = 16" using assms by (simp add: CODE_LENGTH_def)
  moreover have "[0..<CODE_LENGTH div CODE_GROUP] = [0, 1, 2, 3]" by code_simp
  moreover have "take (4 + (4 + (4 + 4))) chars
      = take 4 chars @ take 4 (drop 4 chars) @ take 4 (drop 8 chars) @ take 4 (drop 12 chars)"
    unfolding take_add by simp
  ultimately show ?thesis by (simp add: code_groups_def CODE_GROUP_def)
qed

lemma drawn_chars_alphabet: "valid_draws draws \<Longrightarrow> set (drawn_chars draws) \<subseteq> set CROCKFORD_ALPHABET"
  by (auto simp: valid_draws_def drawn_chars_def)

text \<open>Round trip of a generated code: normalising the displayed form
  \<open>XXXX-XXXX-XXXX-XXXX\<close> gives back the sixteen drawn characters, so the hash stored at
  creation is the hash computed when the code is redeemed, and its prefix is the drawn prefix.\<close>

theorem normalize_generate_code:
  assumes "unicode_on_ascii db" "valid_draws draws"
  shows "normalize_code db (generate_code draws) = drawn_chars draws
    \<and> length (normalize_code db (generate_code draws)) = CODE_LENGTH
    \<and> code_prefix (normalize_code db (generate_code draws)) = take 6 (drawn_chars draws)"
proof -
  have len: "length (drawn_chars draws) = CODE_LENGTH"
    using assms(2) by (simp add: valid_draws_def drawn_chars_def)
  have "transcribes (generate_code draws) (drawn_chars draws)"
    using transcribes_join [of "code_groups (drawn_chars draws)"] concat_code_groups [OF len]
    by (simp add: generate_code_def)
  then have "normalize_code db (generate_code draws) = drawn_chars draws"
    by (rule transcribes_normal_form [OF assms(1) drawn_chars_alphabet [OF assms(2)]])
  then show ?thesis using len by (simp add: code_prefix_def PREFIX_LENGTH_def)
qed

theorem normalize_generate_code_witness:
  "normalize_code ascii_db (generate_code [0..<16]) = drawn_chars [0..<16]"
proof -
  have "valid_draws [0..<16]" by code_simp
  from normalize_generate_code [OF unicode_on_ascii_db this] show ?thesis by simp
qed

end
