(* ===== verification/Ledger.thy ===== *)
theory Ledger
  imports Credits "HOL-Library.Product_Lexorder"
begin

text \<open>
  The credit accounts and the append-only ledger
  (\<open>backend/app/services/credit_service.py\<close> over the tables of
  \<open>models/credit_account.py\<close> and \<open>models/credit_ledger.py\<close>). The database is a value:
  the account rows by user and the ledger rows in insertion order. The partial unique
  index of the ledger is enforced by \<open>write_entry\<close>, which is the only writer. What
  \<open>datetime.now\<close> and \<open>uuid4\<close> return is the argument \<open>stamp\<close> of each operation.
\<close>

section \<open>Rows and tables\<close>

record account =
  acc_balance :: int
  lifetime_granted :: int
  lifetime_consumed :: int

record ledger_entry =
  le_id :: uuid
  le_user :: uuid
  le_delta :: int
  balance_after :: int
  reason :: string
  ref_type :: "string option"
  ref_id :: "string option"
  actor_id :: "uuid option"
  le_note :: "string option"
  created_at :: timestamp

record credit_db =
  accounts :: "(uuid, account) dict"
  ledger :: "ledger_entry list"

record stamp =
  st_now :: timestamp
  st_uuid :: uuid

datatype credit_error = CreditError (err_code: string) (err_status: int)

definition new_account :: account where
  "new_account = \<lparr>acc_balance = 0, lifetime_granted = 0, lifetime_consumed = 0\<rparr>"

definition empty_db :: credit_db where
  "empty_db = \<lparr>accounts = [], ledger = []\<rparr>"

text \<open>
  \<open>uq_credit_ledger_ref\<close>: unique over (ref_type, ref_id, reason) where ref_type is not
  NULL; NULLs in ref_id never collide.
\<close>

definition ref_conflict :: "ledger_entry \<Rightarrow> ledger_entry \<Rightarrow> bool" where
  "ref_conflict e e' \<longleftrightarrow> ref_type e \<noteq> None \<and> ref_id e \<noteq> None
     \<and> ref_type e' = ref_type e \<and> ref_id e' = ref_id e \<and> reason e' = reason e"

definition violates_ref_index :: "ledger_entry \<Rightarrow> ledger_entry list \<Rightarrow> bool" where
  "violates_ref_index e rows \<longleftrightarrow> list_ex (ref_conflict e) rows"

section \<open>Accounts and the one writer\<close>

definition read_account :: "uuid \<Rightarrow> credit_db \<Rightarrow> account option" where
  "read_account u db = dict_get (accounts db) u"

definition get_or_create_account :: "uuid \<Rightarrow> credit_db \<Rightarrow> account \<times> credit_db" where
  "get_or_create_account u db =
     (case read_account u db of
        Some a \<Rightarrow> (a, db)
      | None \<Rightarrow> (new_account, db\<lparr>accounts := dict_set u new_account (accounts db)\<rparr>))"

text \<open>
  The row lock serialises the transactions that reach this point; the value returned is
  the row as the lock found it (\<open>populate_existing\<close>).
\<close>

definition locked_account :: "uuid \<Rightarrow> credit_db \<Rightarrow> account \<times> credit_db" where
  "locked_account u db = get_or_create_account u db"

record entry_args =
  ea_delta :: int
  ea_reason :: string
  ea_ref_type :: "string option"
  ea_ref_id :: "string option"
  ea_actor_id :: "uuid option"
  ea_note :: "string option"
  ea_lifetime :: bool

definition apply_delta :: "entry_args \<Rightarrow> account \<Rightarrow> account" where
  "apply_delta a acct =
     (let acct1 = acct\<lparr>acc_balance := acc_balance acct + ea_delta a\<rparr>
      in if ea_lifetime a then
           if ea_delta a > 0
           then acct1\<lparr>lifetime_granted := lifetime_granted acct1 + ea_delta a\<rparr>
           else if ea_delta a < 0
           then acct1\<lparr>lifetime_consumed := lifetime_consumed acct1 + (- ea_delta a)\<rparr>
           else acct1
         else acct1)"

definition write_entry ::
  "stamp \<Rightarrow> uuid \<Rightarrow> account \<Rightarrow> entry_args \<Rightarrow> credit_db \<Rightarrow> ledger_entry option \<times> credit_db" where
  "write_entry st u acct a db =
     (let new_balance = acc_balance acct + ea_delta a;
          entry = \<lparr>le_id = st_uuid st, le_user = u, le_delta = ea_delta a,
                   balance_after = new_balance, reason = ea_reason a,
                   ref_type = ea_ref_type a, ref_id = ea_ref_id a,
                   actor_id = ea_actor_id a, le_note = ea_note a, created_at = st_now st\<rparr>
      in if violates_ref_index entry (ledger db) then (None, db)
         else (Some entry, db\<lparr>accounts := dict_set u (apply_delta a acct) (accounts db),
                            ledger := ledger db @ [entry]\<rparr>))"

text \<open>Lock the account, then write: how every operation below reaches the tables.\<close>

definition post_entry ::
  "stamp \<Rightarrow> uuid \<Rightarrow> entry_args \<Rightarrow> credit_db \<Rightarrow> ledger_entry option \<times> credit_db" where
  "post_entry st u a db =
     (let (acct, db1) = locked_account u db in write_entry st u acct a db1)"

section \<open>Granting, charging, adjusting\<close>

definition grant ::
  "stamp \<Rightarrow> uuid \<Rightarrow> int \<Rightarrow> string \<Rightarrow> string option \<Rightarrow> string option \<Rightarrow> uuid option
    \<Rightarrow> string option \<Rightarrow> credit_db \<Rightarrow> credit_error + (ledger_entry option \<times> credit_db)" where
  "grant st u amount rsn rtype rid actor nt db =
     (if amount \<le> 0 then Inl (CreditError ''credit_grant_invalid'' 400)
      else Inr (post_entry st u
        \<lparr>ea_delta = amount, ea_reason = rsn, ea_ref_type = rtype, ea_ref_id = rid,
         ea_actor_id = actor, ea_note = nt, ea_lifetime = True\<rparr> db))"

definition charge_usage ::
  "stamp \<Rightarrow> uuid \<Rightarrow> int \<Rightarrow> string \<Rightarrow> string \<Rightarrow> string option \<Rightarrow> credit_db
    \<Rightarrow> ledger_entry option \<times> credit_db" where
  "charge_usage st u amount rtype rid nt db =
     (if amount \<le> 0 then (None, db)
      else post_entry st u
        \<lparr>ea_delta = - amount, ea_reason = ''usage'', ea_ref_type = Some rtype,
         ea_ref_id = Some rid, ea_actor_id = None, ea_note = nt, ea_lifetime = True\<rparr> db)"

definition adjust ::
  "stamp \<Rightarrow> credit_policy \<Rightarrow> uuid \<Rightarrow> int \<Rightarrow> uuid \<Rightarrow> string option \<Rightarrow> credit_db
    \<Rightarrow> credit_error + (ledger_entry \<times> credit_db)" where
  "adjust st p u delta actor nt db =
     (if delta = 0 then Inl (CreditError ''credit_adjust_zero'' 400)
      else if \<bar>delta\<bar> > max_adjust p then Inl (CreditError ''credit_adjust_too_large'' 400)
      else
        (case post_entry st u
           \<lparr>ea_delta = delta, ea_reason = ''admin_adjust'', ea_ref_type = None,
            ea_ref_id = None, ea_actor_id = Some actor, ea_note = nt, ea_lifetime = True\<rparr> db of
           (None, _) \<Rightarrow> Inl (CreditError ''credit_adjust_failed'' 400)
         | (Some entry, db') \<Rightarrow> Inr (entry, db')))"

section \<open>Turn admission\<close>

record turn_hold =
  th_user :: uuid
  turn_key :: string
  th_amount :: int

definition reserve_of :: "credit_policy \<Rightarrow> int" where
  "reserve_of p = (if turn_reserve p \<le> 0 then 1 else turn_reserve p)"

definition hold_args :: "int \<Rightarrow> string \<Rightarrow> entry_args" where
  "hold_args amount key =
     \<lparr>ea_delta = - amount, ea_reason = ''turn_hold'', ea_ref_type = Some ''turn_hold'',
      ea_ref_id = Some key, ea_actor_id = None, ea_note = None, ea_lifetime = False\<rparr>"

definition release_args :: "turn_hold \<Rightarrow> entry_args" where
  "release_args h =
     \<lparr>ea_delta = th_amount h, ea_reason = ''turn_hold_release'',
      ea_ref_type = Some ''turn_hold_release'', ea_ref_id = Some (turn_key h),
      ea_actor_id = None, ea_note = None, ea_lifetime = False\<rparr>"

text \<open>
  The admission runs in a session of its own: a raise leaves that session uncommitted, so
  the error branch carries no database. \<open>turn_key or str(uuid4())\<close> takes the fresh key
  also for the empty string.
\<close>

definition admit_turn ::
  "stamp \<Rightarrow> credit_policy \<Rightarrow> uuid \<Rightarrow> string option \<Rightarrow> string \<Rightarrow> credit_db
    \<Rightarrow> credit_error + (turn_hold option \<times> credit_db)" where
  "admit_turn st p u key_arg fresh_key db =
     (if \<not> enforced p then Inr (None, db)
      else
        (let reserve = reserve_of p;
             key = (case key_arg of None \<Rightarrow> fresh_key | Some k \<Rightarrow> if k = [] then fresh_key else k);
             (acct, db1) = locked_account u db
         in if acc_balance acct < reserve then Inl (CreditError ''insufficient_credits'' 402)
            else
              (let (entry, db2) = write_entry st u acct (hold_args reserve key) db1
               in Inr (Some \<lparr>th_user = u, turn_key = key, th_amount = reserve\<rparr>, db2))))"

definition release_hold_in ::
  "stamp \<Rightarrow> turn_hold \<Rightarrow> credit_db \<Rightarrow> ledger_entry option \<times> credit_db" where
  "release_hold_in st h db = post_entry st (th_user h) (release_args h) db"

definition release_turn_hold ::
  "stamp \<Rightarrow> turn_hold option \<Rightarrow> credit_db \<Rightarrow> ledger_entry option \<times> credit_db" where
  "release_turn_hold st hold db =
     (case hold of None \<Rightarrow> (None, db) | Some h \<Rightarrow> release_hold_in st h db)"

section \<open>The sweep of dangling holds\<close>

definition released_keys :: "credit_db \<Rightarrow> string set" where
  "released_keys db =
     set (List.map_filter (\<lambda>e. if reason e = ''turn_hold_release'' then ref_id e else None) (ledger db))"

definition is_old_hold :: "timestamp \<Rightarrow> ledger_entry \<Rightarrow> bool" where
  "is_old_hold cutoff e \<longleftrightarrow> reason e = ''turn_hold'' \<and> created_at e < cutoff"

text \<open>
  The query has a LIMIT and no ORDER BY: \<open>scan\<close> is the order in which the database
  happens to return the matching rows.
\<close>

definition stale_holds ::
  "(ledger_entry list \<Rightarrow> ledger_entry list) \<Rightarrow> timestamp \<Rightarrow> credit_db \<Rightarrow> ledger_entry list" where
  "stale_holds scan cutoff db = take 500 (scan (filter (is_old_hold cutoff) (ledger db)))"

definition hold_of_entry :: "ledger_entry \<Rightarrow> string \<Rightarrow> turn_hold" where
  "hold_of_entry e key = \<lparr>th_user = le_user e, turn_key = key, th_amount = - le_delta e\<rparr>"

definition release_one ::
  "stamp \<Rightarrow> string set \<Rightarrow> nat \<times> credit_db \<Rightarrow> ledger_entry \<Rightarrow> nat \<times> credit_db" where
  "release_one st done_keys acc e =
     (case ref_id e of
        None \<Rightarrow> acc
      | Some key \<Rightarrow>
          if key \<in> done_keys then acc
          else
            (case release_hold_in st (hold_of_entry e key) (snd acc) of
               (None, db') \<Rightarrow> (fst acc, db')
             | (Some _, db') \<Rightarrow> (Suc (fst acc), db')))"

definition release_stale_turn_holds ::
  "(ledger_entry list \<Rightarrow> ledger_entry list) \<Rightarrow> stamp \<Rightarrow> int \<Rightarrow> credit_db \<Rightarrow> nat \<times> credit_db" where
  "release_stale_turn_holds scan st older_than_seconds db =
     (let cutoff = st_now st - seconds (max older_than_seconds 60)
      in foldl (release_one st (released_keys db)) (0, db) (stale_holds scan cutoff db))"

section \<open>Charging a chat message\<close>

record message_usage =
  msg_id :: string
  cost_usd :: "rat option"
  total_tokens :: "int option"
  prompt_tokens :: "int option"
  completion_tokens :: "int option"

text \<open>\<open>a or b\<close> on optional ints: a falls through when it is None or 0.\<close>

definition int_or :: "int option \<Rightarrow> int \<Rightarrow> int" where
  "int_or a b = (case a of None \<Rightarrow> b | Some n \<Rightarrow> if n = 0 then b else n)"

definition message_amount :: "credit_policy \<Rightarrow> message_usage \<Rightarrow> int" where
  "message_amount p m =
     compute_charge (cost_usd m)
       (Some (int_or (total_tokens m)
          (int_or (prompt_tokens m) 0 + int_or (completion_tokens m) 0))) p"

definition charge_message_credits ::
  "stamp \<Rightarrow> credit_policy \<Rightarrow> uuid \<Rightarrow> message_usage \<Rightarrow> credit_db \<Rightarrow> int \<times> credit_db" where
  "charge_message_credits st p u m db =
     (let amount = message_amount p m
      in if amount \<le> 0 then (0, db)
         else
           (case charge_usage st u amount ''message'' (msg_id m) None db of
              (Some _, db') \<Rightarrow> (amount, db')
            | (None, db') \<Rightarrow> (0, db')))"

section \<open>The ledger invariant\<close>

abbreviation acct_of :: "uuid \<Rightarrow> credit_db \<Rightarrow> account" where
  "acct_of u db \<equiv> fst (locked_account u db)"

definition hold_reason :: "string \<Rightarrow> bool" where
  "hold_reason r \<longleftrightarrow> r = ''turn_hold'' \<or> r = ''turn_hold_release''"

definition user_sum :: "uuid \<Rightarrow> (string \<Rightarrow> bool) \<Rightarrow> ledger_entry list \<Rightarrow> int" where
  "user_sum u P rows = (\<Sum>e\<leftarrow>filter (\<lambda>e. le_user e = u \<and> P (reason e)) rows. le_delta e)"

definition snapshots_ok :: "ledger_entry list \<Rightarrow> bool" where
  "snapshots_ok rows \<longleftrightarrow>
     (\<forall>i < length rows. balance_after (rows ! i) = user_sum (le_user (rows ! i)) (\<lambda>_. True) (take (Suc i) rows))"

definition ref_index_ok :: "ledger_entry list \<Rightarrow> bool" where
  "ref_index_ok rows \<longleftrightarrow> sorted_wrt (\<lambda>e e'. \<not> ref_conflict e' e) rows"

definition account_ok :: "credit_db \<Rightarrow> uuid \<Rightarrow> bool" where
  "account_ok db u \<longleftrightarrow>
     acc_balance (acct_of u db) = user_sum u (\<lambda>_. True) (ledger db)
     \<and> lifetime_granted (acct_of u db) - lifetime_consumed (acct_of u db)
         = user_sum u (\<lambda>r. \<not> hold_reason r) (ledger db)
     \<and> 0 \<le> lifetime_granted (acct_of u db) \<and> 0 \<le> lifetime_consumed (acct_of u db)"

definition ledger_inv :: "credit_db \<Rightarrow> bool" where
  "ledger_inv db \<longleftrightarrow> (\<forall>u. account_ok db u) \<and> snapshots_ok (ledger db) \<and> ref_index_ok (ledger db)"

lemma user_sum_append [simp]: "user_sum u P (xs @ ys) = user_sum u P xs + user_sum u P ys"
  by (simp add: user_sum_def)

lemma user_sum_one [simp]:
  "user_sum u P [e] = (if le_user e = u \<and> P (reason e) then le_delta e else 0)"
  by (simp add: user_sum_def)

lemma user_sum_Nil [simp]: "user_sum u P [] = 0"
  by (simp add: user_sum_def)

lemma user_sum_split:
  "user_sum u (\<lambda>_. True) rows = user_sum u P rows + user_sum u (\<lambda>r. \<not> P r) rows"
  by (induction rows) (auto simp: user_sum_def)

lemma locked_account_snd:
  "ledger (snd (locked_account u db)) = ledger db"
  "acct_of v (snd (locked_account u db)) = acct_of v db"
  by (auto simp: locked_account_def get_or_create_account_def read_account_def dict_simps split: option.splits)

text \<open>The entry \<open>post_entry\<close> appends, and the account row it leaves.\<close>

definition entry_for :: "stamp \<Rightarrow> uuid \<Rightarrow> entry_args \<Rightarrow> credit_db \<Rightarrow> ledger_entry" where
  "entry_for st u a db =
     \<lparr>le_id = st_uuid st, le_user = u, le_delta = ea_delta a,
      balance_after = acc_balance (acct_of u db) + ea_delta a, reason = ea_reason a,
      ref_type = ea_ref_type a, ref_id = ea_ref_id a, actor_id = ea_actor_id a,
      le_note = ea_note a, created_at = st_now st\<rparr>"

lemma entry_for_simps [simp]:
  "le_user (entry_for st u a db) = u" "le_delta (entry_for st u a db) = ea_delta a"
  "reason (entry_for st u a db) = ea_reason a" "ref_type (entry_for st u a db) = ea_ref_type a"
  "ref_id (entry_for st u a db) = ea_ref_id a" "created_at (entry_for st u a db) = st_now st"
  "le_id (entry_for st u a db) = st_uuid st"
  "balance_after (entry_for st u a db) = acc_balance (acct_of u db) + ea_delta a"
  by (simp_all add: entry_for_def)

lemma post_entry_conflict:
  "violates_ref_index (entry_for st u a db) (ledger db) \<Longrightarrow>
     post_entry st u a db = (None, snd (locked_account u db))"
  by (simp add: post_entry_def write_entry_def entry_for_def case_prod_beta Let_def locked_account_snd)

lemma apply_delta_fields [simp]:
  "acc_balance (apply_delta a acct) = acc_balance acct + ea_delta a"
  "lifetime_granted (apply_delta a acct)
     = lifetime_granted acct + (if ea_lifetime a \<and> ea_delta a > 0 then ea_delta a else 0)"
  "lifetime_consumed (apply_delta a acct)
     = lifetime_consumed acct + (if ea_lifetime a \<and> ea_delta a < 0 then - ea_delta a else 0)"
  by (simp_all add: apply_delta_def Let_def)

lemma acct_of_lookup:
  "acct_of u db = (case dict_get (accounts db) u of None \<Rightarrow> new_account | Some a \<Rightarrow> a)"
  by (simp add: locked_account_def get_or_create_account_def read_account_def split: option.split)

lemma post_entry_fresh:
  assumes "\<not> violates_ref_index (entry_for st u a db) (ledger db)"
  obtains db' where "post_entry st u a db = (Some (entry_for st u a db), db')"
    "ledger db' = ledger db @ [entry_for st u a db]"
    "\<And>v. v \<noteq> u \<Longrightarrow> acct_of v db' = acct_of v db"
    "acct_of u db' = apply_delta a (acct_of u db)"
proof
  let ?db1 = "snd (locked_account u db)"
  let ?db' = "?db1\<lparr>accounts := dict_set u (apply_delta a (acct_of u db)) (accounts ?db1),
    ledger := ledger ?db1 @ [entry_for st u a db]\<rparr>"
  show "post_entry st u a db = (Some (entry_for st u a db), ?db')"
    using assms
    by (simp add: post_entry_def write_entry_def entry_for_def case_prod_beta Let_def locked_account_snd)
  show "ledger ?db' = ledger db @ [entry_for st u a db]" by (simp add: locked_account_snd)
  show "acct_of u ?db' = apply_delta a (acct_of u db)" by (simp add: acct_of_lookup dict_simps)
  show "acct_of v ?db' = acct_of v db" if "v \<noteq> u" for v
    using that locked_account_snd(2) [of v u db] by (simp add: acct_of_lookup dict_simps)
qed

lemma post_entry_cases:
  obtains (conflict) "violates_ref_index (entry_for st u a db) (ledger db)"
      "post_entry st u a db = (None, snd (locked_account u db))"
  | (fresh) db' where "\<not> violates_ref_index (entry_for st u a db) (ledger db)"
      "post_entry st u a db = (Some (entry_for st u a db), db')"
      "ledger db' = ledger db @ [entry_for st u a db]"
      "\<And>v. v \<noteq> u \<Longrightarrow> acct_of v db' = acct_of v db"
      "acct_of u db' = apply_delta a (acct_of u db)"
  by (metis post_entry_conflict post_entry_fresh)

lemma ledger_inv_locked: "ledger_inv (snd (locked_account u db)) = ledger_inv db"
  by (simp add: ledger_inv_def account_ok_def locked_account_snd)

lemma snapshots_ok_append:
  "snapshots_ok rows \<Longrightarrow> balance_after e = user_sum (le_user e) (\<lambda>_. True) rows + le_delta e
    \<Longrightarrow> snapshots_ok (rows @ [e])"
  by (auto simp: snapshots_ok_def nth_append less_Suc_eq)

lemma ref_index_ok_append:
  "ref_index_ok rows \<Longrightarrow> \<not> violates_ref_index e rows \<Longrightarrow> ref_index_ok (rows @ [e])"
  by (auto simp: ref_index_ok_def violates_ref_index_def sorted_wrt_append list_ex_iff)

lemma post_entry_inv:
  assumes "ledger_inv db" "ea_lifetime a \<longleftrightarrow> \<not> hold_reason (ea_reason a)"
  shows "ledger_inv (snd (post_entry st u a db))"
proof (cases rule: post_entry_cases [of st u a db])
  case conflict
  then show ?thesis using assms(1) by (simp add: ledger_inv_locked)
next
  case (fresh db')
  have ok: "account_ok db v" for v using assms(1) by (simp add: ledger_inv_def)
  have "account_ok db' v" for v
    using ok [of v] fresh assms(2) by (cases "v = u") (auto simp: account_ok_def)
  moreover have "snapshots_ok (ledger db')" "ref_index_ok (ledger db')"
    using assms(1) fresh ok [of u]
    by (auto simp: ledger_inv_def account_ok_def intro!: snapshots_ok_append ref_index_ok_append)
  ultimately show ?thesis using fresh(2) by (simp add: ledger_inv_def)
qed

lemma ledger_inv_empty: "ledger_inv empty_db"
  by (simp add: ledger_inv_def empty_db_def account_ok_def snapshots_ok_def ref_index_ok_def
      locked_account_def get_or_create_account_def read_account_def new_account_def)

text \<open>Every operation posts at most one entry, or several in a sweep.\<close>

lemma grant_cases:
  assumes "grant st u amt rsn rt rid act nt db = Inr (r, db')"
  shows "0 < amt" "(r, db') = post_entry st u
    \<lparr>ea_delta = amt, ea_reason = rsn, ea_ref_type = rt, ea_ref_id = rid,
     ea_actor_id = act, ea_note = nt, ea_lifetime = True\<rparr> db"
  using assms by (auto simp: grant_def split: if_splits)

lemma admit_turn_enforced:
  "enforced p \<Longrightarrow> admit_turn st p u k fresh db =
    (let key = (case k of None \<Rightarrow> fresh | Some k \<Rightarrow> if k = [] then fresh else k)
     in if acc_balance (acct_of u db) < reserve_of p then Inl (CreditError ''insufficient_credits'' 402)
        else Inr (Some \<lparr>th_user = u, turn_key = key, th_amount = reserve_of p\<rparr>,
                  snd (post_entry st u (hold_args (reserve_of p) key) db)))"
  by (simp add: admit_turn_def post_entry_def case_prod_beta Let_def)

lemma reserve_pos: "0 < reserve_of p"
  by (simp add: reserve_of_def)

end
