(* ===== verification/Ledger_Runs.thy ===== *)
theory Ledger_Runs
  imports Ledger
begin

text \<open>
  Runs of the credit service: every interleaving of grants, usage charges, adjustments,
  turn admissions, releases of issued handles and sweeps, serialised by the account row
  lock. The invariant ties balances, lifetime totals and outstanding holds to the ledger.
\<close>

section \<open>Holds and releases by key\<close>

definition keys_with :: "string \<Rightarrow> uuid \<Rightarrow> credit_db \<Rightarrow> string set" where
  "keys_with rsn u db =
     set (List.map_filter (\<lambda>e. if le_user e = u \<and> reason e = rsn then ref_id e else None) (ledger db))"

abbreviation hold_keys :: "uuid \<Rightarrow> credit_db \<Rightarrow> string set" where
  "hold_keys \<equiv> keys_with ''turn_hold''"

abbreviation release_keys :: "uuid \<Rightarrow> credit_db \<Rightarrow> string set" where
  "release_keys \<equiv> keys_with ''turn_hold_release''"

text \<open>The number of turns of a user that are admitted and not yet released.\<close>

definition outstanding :: "uuid \<Rightarrow> credit_db \<Rightarrow> nat" where
  "outstanding u db = card (hold_keys u db - release_keys u db)"

lemma keys_with_iff:
  "k \<in> keys_with r u db \<longleftrightarrow> (\<exists>e \<in> set (ledger db). le_user e = u \<and> reason e = r \<and> ref_id e = Some k)"
  by (auto simp: keys_with_def set_map_filter_iff split: if_splits)

lemma keys_with_append:
  "ledger db' = ledger db @ [e] \<Longrightarrow> keys_with r u db'
    = keys_with r u db \<union> (if le_user e = u \<and> reason e = r then set_option (ref_id e) else {})"
  by (auto simp: keys_with_iff split: if_splits)

lemma finite_keys_with [simp]: "finite (keys_with r u db)"
  by (simp add: keys_with_def)

lemma keys_with_locked [simp]: "keys_with r v (snd (locked_account u db)) = keys_with r v db"
  by (simp add: keys_with_def locked_account_snd)

text \<open>The shape of the entries that place and release a reserve of \<open>R\<close>.\<close>

definition holds_ok :: "int \<Rightarrow> credit_db \<Rightarrow> bool" where
  "holds_ok R db \<longleftrightarrow> (\<forall>e \<in> set (ledger db).
     (reason e = ''turn_hold'' \<longrightarrow>
        le_delta e = - R \<and> ref_type e = Some ''turn_hold'' \<and> ref_id e \<noteq> None)
     \<and> (reason e = ''turn_hold_release'' \<longrightarrow>
        le_delta e = R \<and> ref_type e = Some ''turn_hold_release''
        \<and> (\<exists>k \<in> hold_keys (le_user e) db. ref_id e = Some k)))"

definition holds_sum_ok :: "int \<Rightarrow> credit_db \<Rightarrow> bool" where
  "holds_sum_ok R db \<longleftrightarrow>
     (\<forall>u. user_sum u hold_reason (ledger db) = - R * int (outstanding u db))"

definition credit_inv :: "int \<Rightarrow> credit_db \<Rightarrow> bool" where
  "credit_inv R db \<longleftrightarrow> ledger_inv db \<and> holds_ok R db \<and> holds_sum_ok R db"

lemma credit_inv_locked [simp]: "credit_inv R (snd (locked_account u db)) = credit_inv R db"
  by (simp add: credit_inv_def ledger_inv_locked holds_ok_def holds_sum_ok_def outstanding_def
      locked_account_snd)

lemma post_plain_inv:
  assumes "credit_inv R db" "\<not> hold_reason (ea_reason a)" "ea_lifetime a"
  shows "credit_inv R (snd (post_entry st u a db))"
proof (cases rule: post_entry_cases [of st u a db])
  case (fresh db')
  note k = keys_with_append [OF fresh(3)]
  have "holds_ok R db'" "holds_sum_ok R db'"
    using assms fresh(3)
    by (auto simp: credit_inv_def holds_ok_def holds_sum_ok_def outstanding_def k hold_reason_def)
  then show ?thesis using post_entry_inv [of db a st u] assms fresh(2) by (simp add: credit_inv_def)
qed (use assms in simp)

lemma post_hold_inv:
  assumes "credit_inv R db"
  shows "credit_inv R (snd (post_entry st u (hold_args R key) db))"
proof (cases rule: post_entry_cases [of st u "hold_args R key" db])
  case (fresh db')
  note k = keys_with_append [OF fresh(3)]
  have ok: "holds_ok R db" and sum: "holds_sum_ok R db" using assms by (simp_all add: credit_inv_def)
  have new: "key \<notin> hold_keys v db" for v
    using fresh(1) ok
    by (auto simp: keys_with_iff violates_ref_index_def list_ex_iff ref_conflict_def hold_args_def holds_ok_def)
  then have rel: "key \<notin> release_keys v db" for v using ok by (fastforce simp: keys_with_iff holds_ok_def)
  have out: "outstanding v db' = (if v = u then Suc (outstanding v db) else outstanding v db)" for v
    using new [of v] rel [of v] by (auto simp: outstanding_def k hold_args_def insert_Diff_if)
  have "holds_ok R db'" using ok fresh(3) by (fastforce simp: holds_ok_def k hold_args_def)
  moreover have "holds_sum_ok R db'"
    using sum fresh(3) by (auto simp: holds_sum_ok_def out hold_args_def hold_reason_def algebra_simps)
  ultimately show ?thesis
    using post_entry_inv [of db "hold_args R key" st u] assms fresh(2)
    by (simp add: credit_inv_def hold_args_def hold_reason_def)
qed (use assms in simp)

lemma post_release_inv:
  assumes "credit_inv R db" "th_amount h = R" "turn_key h \<in> hold_keys (th_user h) db"
  shows "credit_inv R (snd (post_entry st (th_user h) (release_args h) db))"
proof (cases rule: post_entry_cases [of st "th_user h" "release_args h" db])
  case (fresh db')
  note k = keys_with_append [OF fresh(3)]
  have ok: "holds_ok R db" and sum: "holds_sum_ok R db" using assms by (simp_all add: credit_inv_def)
  have new: "turn_key h \<notin> release_keys v db" for v
    using fresh(1) ok
    by (auto simp: keys_with_iff violates_ref_index_def list_ex_iff ref_conflict_def release_args_def holds_ok_def)
  have out: "int (outstanding v db')
      = (if v = th_user h then int (outstanding v db) - 1 else int (outstanding v db))" for v
  proof (cases "v = th_user h")
    case True
    have "hold_keys v db' - release_keys v db' = hold_keys v db - release_keys v db - {turn_key h}"
      using True by (auto simp: k release_args_def)
    moreover have "turn_key h \<in> hold_keys v db - release_keys v db" using True assms(3) new by simp
    ultimately have "Suc (outstanding v db') = outstanding v db"
      unfolding outstanding_def by (metis card_Suc_Diff1 finite_Diff finite_keys_with)
    then show ?thesis using True by simp
  qed (simp add: outstanding_def k)
  have "holds_ok R db'" using ok fresh(3) assms(2,3) by (fastforce simp: holds_ok_def k release_args_def)
  moreover have "holds_sum_ok R db'"
    using sum fresh(3) assms(2)
    by (auto simp: holds_sum_ok_def out release_args_def hold_reason_def algebra_simps)
  ultimately show ?thesis
    using post_entry_inv [of db "release_args h" st "th_user h"] assms fresh(2)
    by (simp add: credit_inv_def release_args_def hold_reason_def)
qed (use assms in simp)

section \<open>The ledger only grows\<close>

definition extends :: "credit_db \<Rightarrow> credit_db \<Rightarrow> bool" where
  "extends db db' \<longleftrightarrow> (\<exists>more. ledger db' = ledger db @ more)
     \<and> fst ` set (accounts db) \<subseteq> fst ` set (accounts db')"

lemma extends_refl [simp]: "extends db db"
  by (simp add: extends_def)

lemma extends_trans: "extends a b \<Longrightarrow> extends b c \<Longrightarrow> extends a c"
  by (auto simp: extends_def)

lemma extends_keys: "extends db db' \<Longrightarrow> keys_with r u db \<subseteq> keys_with r u db'"
  by (auto simp: extends_def keys_with_iff)

lemma extends_locked: "extends db (snd (locked_account u db))"
  by (auto simp: extends_def locked_account_def get_or_create_account_def dict_simps split: option.split)

lemma extends_post: "extends db (snd (post_entry st u a db))"
proof -
  have "extends (snd (locked_account u db)) (snd (post_entry st u a db))"
    by (auto simp: extends_def post_entry_def write_entry_def case_prod_beta Let_def dict_simps)
  with extends_locked show ?thesis by (rule extends_trans)
qed

lemma release_one_db:
  "snd (release_one st ks acc e)
    = (case ref_id e of
         None \<Rightarrow> snd acc
       | Some key \<Rightarrow> if key \<in> ks then snd acc
           else snd (post_entry st (le_user e) (release_args (hold_of_entry e key)) (snd acc)))"
  by (simp add: release_one_def release_hold_in_def hold_of_entry_def split: option.split prod.split)

lemma release_one_extends: "extends (snd acc) (snd (release_one st ks acc e))"
  by (simp add: release_one_db extends_post split: option.split)

lemma sweep_extends: "extends db (snd (release_stale_turn_holds scan st secs db))"
  unfolding release_stale_turn_holds_def Let_def
  by (rule foldl_inv) (auto intro: extends_trans release_one_extends)

lemma release_one_inv:
  assumes "credit_inv R (snd acc)" "e \<in> set (ledger (snd acc))" "reason e = ''turn_hold''"
  shows "credit_inv R (snd (release_one st ks acc e))"
proof -
  have "le_delta e = - R" "\<And>k. ref_id e = Some k \<Longrightarrow> k \<in> hold_keys (le_user e) (snd acc)"
    using assms by (auto simp: credit_inv_def holds_ok_def keys_with_iff)
  then show ?thesis
    using post_release_inv [OF assms(1), of "hold_of_entry e (the (ref_id e))" st] assms(1)
    by (auto simp: release_one_db hold_of_entry_def split: option.split)
qed

lemma sweep_inv:
  assumes "credit_inv R db" "\<forall>xs. set (scan xs) \<subseteq> set xs"
  shows "credit_inv R (snd (release_stale_turn_holds scan st secs db))"
proof -
  let ?P = "\<lambda>acc :: nat \<times> credit_db. credit_inv R (snd acc) \<and> extends db (snd acc)"
  have "?P (foldl (release_one st (released_keys db)) (0, db) (stale_holds scan cutoff db))" for cutoff
  proof (rule foldl_inv)
    show "?P (0, db)" using assms(1) by simp
    fix acc e
    assume "e \<in> set (stale_holds scan cutoff db)" and P: "?P acc"
    then have "e \<in> set (ledger db)" "reason e = ''turn_hold''"
      using assms(2) [rule_format, of "filter (is_old_hold cutoff) (ledger db)"]
      by (auto simp: stale_holds_def is_old_hold_def dest!: in_set_takeD)
    moreover from this P have "e \<in> set (ledger (snd acc))" by (auto simp: extends_def)
    ultimately show "?P (release_one st (released_keys db) acc e)"
      using P release_one_inv release_one_extends extends_trans by blast
  qed
  then show ?thesis by (simp add: release_stale_turn_holds_def Let_def)
qed

section \<open>Steps and reachable states\<close>

text \<open>
  A state is the database and the handles issued so far. A turn key belongs to one user:
  the callers pass fresh UUIDs, so a key found in the ledger is a retry of that user's turn.
\<close>

type_synonym credit_world = "credit_db \<times> turn_hold list"

definition key_owned :: "credit_db \<Rightarrow> uuid \<Rightarrow> string \<Rightarrow> bool" where
  "key_owned db u key \<longleftrightarrow> (\<forall>v. key \<in> hold_keys v db \<longrightarrow> v = u)"

inductive credit_step :: "credit_policy \<Rightarrow> credit_world \<Rightarrow> credit_world \<Rightarrow> bool" for p where
  open_account: "credit_step p (db, hs) (snd (get_or_create_account u db), hs)"
| granted: "grant st u amt rsn rt rid act nt db = Inr (r, db') \<Longrightarrow> \<not> hold_reason rsn \<Longrightarrow>
     credit_step p (db, hs) (db', hs)"
| charged: "charge_usage st u amt rt rid nt db = (r, db') \<Longrightarrow> credit_step p (db, hs) (db', hs)"
| adjusted: "adjust st p u delta act nt db = Inr (e, db') \<Longrightarrow> credit_step p (db, hs) (db', hs)"
| admitted: "admit_turn st p u k fresh db = Inr (Some h, db') \<Longrightarrow> key_owned db u (turn_key h) \<Longrightarrow>
     credit_step p (db, hs) (db', h # hs)"
| released: "h \<in> set hs \<Longrightarrow> release_turn_hold st (Some h) db = (r, db') \<Longrightarrow>
     credit_step p (db, hs) (db', hs)"
| swept: "release_stale_turn_holds scan st secs db = (n, db') \<Longrightarrow> \<forall>xs. set (scan xs) \<subseteq> set xs \<Longrightarrow>
     credit_step p (db, hs) (db', hs)"

inductive credit_run :: "credit_policy \<Rightarrow> credit_world \<Rightarrow> credit_world \<Rightarrow> bool" for p where
  run_refl: "credit_run p w w"
| run_step: "credit_run p w w' \<Longrightarrow> credit_step p w' w'' \<Longrightarrow> credit_run p w w''"

definition handles_ok :: "int \<Rightarrow> credit_world \<Rightarrow> bool" where
  "handles_ok R w \<longleftrightarrow>
     (\<forall>h \<in> set (snd w). th_amount h = R \<and> turn_key h \<in> hold_keys (th_user h) (fst w))"

definition world_inv :: "credit_policy \<Rightarrow> credit_world \<Rightarrow> bool" where
  "world_inv p w \<longleftrightarrow> credit_inv (reserve_of p) (fst w) \<and> handles_ok (reserve_of p) w"

lemma handles_ok_extends:
  "handles_ok R (db, hs) \<Longrightarrow> extends db db' \<Longrightarrow> handles_ok R (db', hs)"
  unfolding handles_ok_def using extends_keys by fastforce

text \<open>Every successful operation, as one posting (the sweep is several).\<close>

lemma admit_turn_SomeD:
  assumes "admit_turn st p u k fresh db = Inr (Some h, db')"
  shows "th_user h = u" "th_amount h = reserve_of p" "reserve_of p \<le> acc_balance (acct_of u db)"
    "db' = snd (post_entry st u (hold_args (reserve_of p) (turn_key h)) db)"
proof -
  have "enforced p" using assms by (auto simp: admit_turn_def split: if_splits)
  from admit_turn_enforced [OF this, of st u k fresh db] assms
  show "th_user h = u" "th_amount h = reserve_of p" "reserve_of p \<le> acc_balance (acct_of u db)"
    "db' = snd (post_entry st u (hold_args (reserve_of p) (turn_key h)) db)"
    by (auto simp: Let_def split: if_splits)
qed

lemma post_hold_key:
  assumes "credit_inv R db" "key_owned db u key"
  shows "key \<in> hold_keys u (snd (post_entry st u (hold_args R key) db))"
proof (cases rule: post_entry_cases [of st u "hold_args R key" db])
  case conflict
  then obtain v where "key \<in> hold_keys v db"
    by (auto simp: violates_ref_index_def list_ex_iff ref_conflict_def hold_args_def keys_with_iff)
  then show ?thesis using assms(2) conflict(2) by (auto simp: key_owned_def)
next
  case (fresh db')
  then show ?thesis by (simp add: keys_with_append [OF fresh(3)] hold_args_def)
qed

lemma adjust_post:
  "adjust st p u delta act nt db = Inr (e, db') \<Longrightarrow> (Some e, db') = post_entry st u
     \<lparr>ea_delta = delta, ea_reason = ''admin_adjust'', ea_ref_type = None, ea_ref_id = None,
      ea_actor_id = Some act, ea_note = nt, ea_lifetime = True\<rparr> db"
  by (auto simp: adjust_def split: if_splits prod.splits option.splits)

lemma charge_usage_post:
  "charge_usage st u amt rt rid nt db = (r, db') \<Longrightarrow> db' = db \<or> (r, db') = post_entry st u
     \<lparr>ea_delta = - amt, ea_reason = ''usage'', ea_ref_type = Some rt, ea_ref_id = Some rid,
      ea_actor_id = None, ea_note = nt, ea_lifetime = True\<rparr> db"
  by (auto simp: charge_usage_def split: if_splits)

lemma credit_step_extends: "credit_step p w w' \<Longrightarrow> extends (fst w) (fst w')"
proof (induction rule: credit_step.induct)
  case (open_account db hs u)
  then show ?case using extends_locked by (simp add: locked_account_def)
next
  case (granted st u amt rsn rt rid act nt db r db' hs)
  then show ?case using grant_cases(2) extends_post by (metis fst_conv snd_conv)
next
  case (charged st u amt rt rid nt db r db' hs)
  then show ?case using charge_usage_post extends_post extends_refl by (metis fst_conv snd_conv)
next
  case (adjusted st u delta act nt db e db' hs)
  then show ?case using adjust_post extends_post by (metis fst_conv snd_conv)
next
  case (admitted st u k fresh db h db' hs)
  then show ?case using admit_turn_SomeD(4) extends_post by (metis fst_conv)
next
  case (released h hs st db r db')
  then show ?case using extends_post
    by (metis fst_conv snd_conv option.simps(5) release_hold_in_def release_turn_hold_def)
next
  case (swept scan st secs db n db' hs)
  then show ?case using sweep_extends by (metis fst_conv snd_conv)
qed

lemma hold_reason_plain:
  "\<not> hold_reason ''usage''" "\<not> hold_reason ''admin_adjust''" "\<not> hold_reason ''redeem''"
  "\<not> hold_reason ''signup_bonus''"
  by (simp_all add: hold_reason_def)

lemma credit_step_inv: "credit_step p w w' \<Longrightarrow> credit_inv (reserve_of p) (fst w)
    \<Longrightarrow> handles_ok (reserve_of p) w \<Longrightarrow> credit_inv (reserve_of p) (fst w')"
proof (induction rule: credit_step.induct)
  case (open_account db hs u)
  then show ?case using credit_inv_locked by (simp add: locked_account_def)
next
  case (granted st u amt rsn rt rid act nt db r db' hs)
  then have "db' = snd (post_entry st u
    \<lparr>ea_delta = amt, ea_reason = rsn, ea_ref_type = rt, ea_ref_id = rid,
     ea_actor_id = act, ea_note = nt, ea_lifetime = True\<rparr> db)" using grant_cases(2) by (metis snd_conv)
  then show ?case using granted by (auto intro: post_plain_inv)
next
  case (charged st u amt rt rid nt db r db' hs)
  from charge_usage_post [OF charged(1)] show ?case
    using charged hold_reason_plain post_plain_inv
    by (metis (no_types, lifting) entry_args.select_convs(2,7) fst_conv snd_conv)
next
  case (adjusted st u delta act nt db e db' hs)
  from adjust_post [OF adjusted(1)] show ?case
    using adjusted hold_reason_plain post_plain_inv
    by (metis (no_types, lifting) entry_args.select_convs(2,7) fst_conv snd_conv)
next
  case (admitted st u k fresh db h db' hs)
  then show ?case using admit_turn_SomeD(4) [OF admitted(1)] post_hold_inv by simp
next
  case (released h hs st db r db')
  then have "db' = snd (post_entry st (th_user h) (release_args h) db)"
    by (simp add: release_turn_hold_def release_hold_in_def)
  then show ?case using released post_release_inv by (auto simp: handles_ok_def)
next
  case (swept scan st secs db n db' hs)
  then show ?case using sweep_inv by (metis fst_conv snd_conv)
qed

lemma handles_ok_step:
  "credit_step p (db, hs) (db', hs) \<Longrightarrow> handles_ok R (db, hs) \<Longrightarrow> handles_ok R (db', hs)"
  using credit_step_extends handles_ok_extends by fastforce

lemma credit_step_handles:
  "credit_step p w w' \<Longrightarrow> credit_inv (reserve_of p) (fst w) \<Longrightarrow> handles_ok (reserve_of p) w
    \<Longrightarrow> handles_ok (reserve_of p) w'"
proof (induction rule: credit_step.induct)
  case (admitted st u k fresh db h db' hs)
  have "handles_ok (reserve_of p) (db', hs)"
    using admitted(4) extends_post admit_turn_SomeD(4) [OF admitted(1)] by (auto intro: handles_ok_extends)
  then show ?case
    using admit_turn_SomeD [OF admitted(1)] post_hold_key [OF _ admitted(2)] admitted(3)
    by (auto simp: handles_ok_def)
next
  case (open_account db hs u)
  then show ?case by (blast intro: handles_ok_step credit_step.open_account)
next
  case (granted st u amt rsn rt rid act nt db r db' hs)
  then show ?case by (blast intro: handles_ok_step credit_step.granted)
next
  case (charged st u amt rt rid nt db r db' hs)
  then show ?case by (blast intro: handles_ok_step credit_step.charged)
next
  case (adjusted st u delta act nt db e db' hs)
  then show ?case by (blast intro: handles_ok_step credit_step.adjusted)
next
  case (released h hs st db r db')
  then show ?case by (blast intro: handles_ok_step credit_step.released)
next
  case (swept scan st secs db n db' hs)
  then show ?case by (blast intro: handles_ok_step credit_step.swept)
qed

lemma credit_run_inv: "credit_run p w w' \<Longrightarrow> world_inv p w \<Longrightarrow> world_inv p w'"
  by (induction rule: credit_run.induct)
    (auto simp: world_inv_def intro: credit_step_inv credit_step_handles)

lemma credit_run_extends: "credit_run p w w' \<Longrightarrow> extends (fst w) (fst w')"
  by (induction rule: credit_run.induct) (auto intro: extends_trans credit_step_extends)

lemma world_inv_init: "world_inv p (empty_db, [])"
  using ledger_inv_empty
  by (simp add: world_inv_def credit_inv_def handles_ok_def holds_ok_def
      holds_sum_ok_def outstanding_def keys_with_def empty_db_def List.map_filter_def)

end
