(* ===== verification/Ledger_Claims.thy ===== *)
theory Ledger_Claims
  imports Ledger_Runs
begin

text \<open>
  What the credit service promises: reachable balances, charges that happen once,
  admission that cannot overdraw, holds that are neutral, and what the sweep of dangling
  holds reaches under its row limit.
\<close>

section \<open>Reachable accounts\<close>

lemma world_inv_account:
  assumes "world_inv p (db, hs)"
  shows "acc_balance (acct_of u db) = lifetime_granted (acct_of u db)
    - lifetime_consumed (acct_of u db) - reserve_of p * int (outstanding u db)"
proof -
  have "account_ok db u" and "user_sum u hold_reason (ledger db) = - reserve_of p * int (outstanding u db)"
    using assms by (auto simp: world_inv_def credit_inv_def ledger_inv_def holds_sum_ok_def)
  then show ?thesis using user_sum_split [of u "ledger db" hold_reason] by (simp add: account_ok_def)
qed


definition demo_stamp :: stamp where
  "demo_stamp = \<lparr>st_now = seconds 1000, st_uuid = 1\<rparr>"

definition strict_policy :: credit_policy where
  "strict_policy = default_credit_policy\<lparr>enforced := True\<rparr>"

definition demo_grant_db :: credit_db where
  "demo_grant_db = snd (post_entry demo_stamp 7
     \<lparr>ea_delta = 120, ea_reason = ''redeem'', ea_ref_type = Some ''redeem_code'',
      ea_ref_id = Some ''c'', ea_actor_id = Some 7, ea_note = None, ea_lifetime = True\<rparr> empty_db)"

lemma demo_run: "credit_run strict_policy (empty_db, []) (demo_grant_db, [])"
proof (rule credit_run.run_step [OF credit_run.run_refl])
  show "credit_step strict_policy (empty_db, []) (demo_grant_db, [])"
  proof (rule credit_step.granted)
    show "grant demo_stamp 7 120 ''redeem'' (Some ''redeem_code'') (Some ''c'') (Some 7) None empty_db
        = Inr (fst (post_entry demo_stamp 7
            \<lparr>ea_delta = 120, ea_reason = ''redeem'', ea_ref_type = Some ''redeem_code'',
             ea_ref_id = Some ''c'', ea_actor_id = Some 7, ea_note = None, ea_lifetime = True\<rparr> empty_db),
          demo_grant_db)"
      by (simp add: grant_def demo_grant_db_def)
  qed (rule hold_reason_plain)
qed


section \<open>Charging once\<close>

definition has_ref :: "string \<Rightarrow> string \<Rightarrow> string \<Rightarrow> credit_db \<Rightarrow> bool" where
  "has_ref rt rid rsn db \<longleftrightarrow>
     (\<exists>e \<in> set (ledger db). ref_type e = Some rt \<and> ref_id e = Some rid \<and> reason e = rsn)"

lemma has_ref_extends: "has_ref rt rid rsn db \<Longrightarrow> extends db db' \<Longrightarrow> has_ref rt rid rsn db'"
  by (auto simp: has_ref_def extends_def)

lemma post_entry_has_ref:
  assumes "ea_ref_type a = Some rt" "ea_ref_id a = Some rid"
  shows "has_ref rt rid (ea_reason a) (snd (post_entry st u a db))"
    and "has_ref rt rid (ea_reason a) db \<Longrightarrow> post_entry st u a db = (None, snd (locked_account u db))"
proof -
  have viol: "violates_ref_index (entry_for st u a db) (ledger db) = has_ref rt rid (ea_reason a) db"
    using assms by (auto simp: violates_ref_index_def list_ex_iff ref_conflict_def has_ref_def)
  then show "has_ref rt rid (ea_reason a) db \<Longrightarrow> post_entry st u a db = (None, snd (locked_account u db))"
    by (simp add: post_entry_conflict)
  show "has_ref rt rid (ea_reason a) (snd (post_entry st u a db))"
    using assms viol
    by (cases rule: post_entry_cases [of st u a db]) (auto simp: has_ref_def locked_account_snd)
qed

lemma charge_usage_repeat:
  assumes "has_ref rt rid ''usage'' db"
  shows "\<exists>db'. charge_usage st u amt rt rid nt db = (None, db') \<and> ledger db' = ledger db
    \<and> (\<forall>w. acct_of w db' = acct_of w db)"
  using post_entry_has_ref(2) [where a = "\<lparr>ea_delta = - amt, ea_reason = ''usage'',
      ea_ref_type = Some rt, ea_ref_id = Some rid, ea_actor_id = None, ea_note = nt, ea_lifetime = True\<rparr>"]
    assms by (simp add: charge_usage_def locked_account_snd)

lemma charge_message_has_ref:
  assumes "charge_message_credits st p u m db = (n, db')" "0 < n"
  shows "has_ref ''message'' (msg_id m) ''usage'' db'"
proof -
  from assms obtain amt e where "0 < amt" "charge_usage st u amt ''message'' (msg_id m) None db = (Some e, db')"
    by (auto simp: charge_message_credits_def Let_def not_le split: if_splits option.splits prod.splits)
  then have "db' = snd (post_entry st u \<lparr>ea_delta = - amt, ea_reason = ''usage'',
      ea_ref_type = Some ''message'', ea_ref_id = Some (msg_id m), ea_actor_id = None,
      ea_note = None, ea_lifetime = True\<rparr> db)"
    by (simp add: charge_usage_def)
  then show ?thesis using post_entry_has_ref(1) by (metis entry_args.select_convs(2,3,4))
qed

text \<open>A chat message is paid for once. After a charge for a message succeeded and any
  further run of the service, charging a message with the same id again (by any caller,
  under any policy, with any usage) reports 0, adds nothing to the ledger and leaves every
  account as it was.\<close>

theorem charge_message_once:
  assumes "charge_message_credits st p u m db = (n, db1)" "0 < n"
    and "credit_run p (db1, hs) (db2, hs2)" "msg_id m' = msg_id m"
  shows "\<exists>db3. charge_message_credits st' p' v m' db2 = (0, db3) \<and> ledger db3 = ledger db2
    \<and> (\<forall>w. acct_of w db3 = acct_of w db2)"
proof -
  have ref: "has_ref ''message'' (msg_id m') ''usage'' db2"
    using charge_message_has_ref [OF assms(1,2)] credit_run_extends [OF assms(3)] assms(4)
    by (auto intro: has_ref_extends)
  obtain db3 where "charge_usage st' v (message_amount p' m') ''message'' (msg_id m') None db2 = (None, db3)"
    "ledger db3 = ledger db2" "\<forall>w. acct_of w db3 = acct_of w db2"
    using charge_usage_repeat [OF ref] by blast
  then show ?thesis by (cases "message_amount p' m' \<le> 0") (auto simp: charge_message_credits_def)
qed

definition demo_message :: message_usage where
  "demo_message = \<lparr>msg_id = ''m1'', cost_usd = None, total_tokens = Some 3000,
     prompt_tokens = None, completion_tokens = None\<rparr>"

theorem charge_message_once_witness:
  "\<exists>db3. charge_message_credits demo_stamp default_credit_policy 8 demo_message
      (snd (charge_message_credits demo_stamp strict_policy 7 demo_message demo_grant_db)) = (0, db3)"
proof -
  let ?c = "charge_message_credits demo_stamp strict_policy 7 demo_message demo_grant_db"
  have pos: "0 < fst ?c" by code_simp
  have "?c = (fst ?c, snd ?c)" by simp
  from charge_message_once [OF this pos credit_run.run_refl [of strict_policy "(snd ?c, [])"] refl,
      of demo_stamp default_credit_policy 8]
  show ?thesis by blast
qed

section \<open>Admission\<close>

text \<open>Turns of one user asking for admission one after the other, in any lock order.\<close>

fun admit_all :: "credit_policy \<Rightarrow> uuid \<Rightarrow> (stamp \<times> string) list \<Rightarrow> credit_db \<Rightarrow> turn_hold list \<times> credit_db" where
  "admit_all p u [] db = ([], db)"
| "admit_all p u ((st, k) # xs) db =
     (case admit_turn st p u (Some k) k db of
        Inl e \<Rightarrow> admit_all p u xs db
      | Inr (None, db') \<Rightarrow> admit_all p u xs db'
      | Inr (Some h, db') \<Rightarrow> (let (hs, db'') = admit_all p u xs db' in (h # hs, db'')))"

definition unused_key :: "credit_db \<Rightarrow> string \<Rightarrow> bool" where
  "unused_key db k \<longleftrightarrow> k \<noteq> [] \<and> \<not> has_ref ''turn_hold'' k ''turn_hold'' db"

lemma unused_key_append:
  "ledger db' = ledger db @ [e] \<Longrightarrow> ref_id e \<noteq> Some k \<Longrightarrow> unused_key db' k = unused_key db k"
  by (auto simp: unused_key_def has_ref_def)

lemma admit_turn_fresh:
  assumes "enforced p" "unused_key db k"
  shows "acc_balance (acct_of u db) < reserve_of p \<Longrightarrow>
      admit_turn st p u (Some k) k db = Inl (CreditError ''insufficient_credits'' 402)"
    and "reserve_of p \<le> acc_balance (acct_of u db) \<Longrightarrow> \<exists>db'.
      admit_turn st p u (Some k) k db
        = Inr (Some \<lparr>th_user = u, turn_key = k, th_amount = reserve_of p\<rparr>, db')
      \<and> post_entry st u (hold_args (reserve_of p) k) db
        = (Some (entry_for st u (hold_args (reserve_of p) k) db), db')
      \<and> ledger db' = ledger db @ [entry_for st u (hold_args (reserve_of p) k) db]
      \<and> acct_of u db' = apply_delta (hold_args (reserve_of p) k) (acct_of u db)"
proof -
  let ?a = "hold_args (reserve_of p) k"
  have "\<not> violates_ref_index (entry_for st u ?a db) (ledger db)"
    using assms(2) by (auto simp: unused_key_def has_ref_def violates_ref_index_def list_ex_iff
        ref_conflict_def hold_args_def)
  then show "reserve_of p \<le> acc_balance (acct_of u db) \<Longrightarrow> \<exists>db'.
      admit_turn st p u (Some k) k db
        = Inr (Some \<lparr>th_user = u, turn_key = k, th_amount = reserve_of p\<rparr>, db')
      \<and> post_entry st u ?a db = (Some (entry_for st u ?a db), db')
      \<and> ledger db' = ledger db @ [entry_for st u ?a db]
      \<and> acct_of u db' = apply_delta ?a (acct_of u db)"
    using assms by (cases rule: post_entry_cases [of st u ?a db])
      (auto simp: admit_turn_enforced unused_key_def)
  show "acc_balance (acct_of u db) < reserve_of p \<Longrightarrow>
      admit_turn st p u (Some k) k db = Inl (CreditError ''insufficient_credits'' 402)"
    using assms by (simp add: admit_turn_enforced Let_def)
qed

lemma admit_all_count:
  assumes "enforced p" "distinct (map snd xs)" "\<forall>(st, k) \<in> set xs. unused_key db k"
    and "0 \<le> acc_balance (acct_of u db)" "admit_all p u xs db = (hs, db')"
  shows "int (length hs) = min (int (length xs)) (acc_balance (acct_of u db) div reserve_of p)
    \<and> acc_balance (acct_of u db') = acc_balance (acct_of u db) - reserve_of p * int (length hs)"
  using assms(2-)
proof (induction xs arbitrary: db hs)
  case Nil
  then show ?case using reserve_pos [of p] by (auto simp: pos_imp_zdiv_nonneg_iff)
next
  case (Cons x xs)
  obtain st k where x: "x = (st, k)" by (cases x)
  let ?B = "acc_balance (acct_of u db)" and ?R = "reserve_of p"
  have fresh: "unused_key db k" using Cons.prems(2) x by simp
  show ?case
  proof (cases "?B < ?R")
    case True
    then have "admit_all p u xs db = (hs, db')"
      using Cons.prems(4) admit_turn_fresh(1) [OF assms(1) fresh True] x by simp
    moreover have "?B div ?R = 0" using True Cons.prems(3) by simp
    ultimately show ?thesis using Cons.IH [of db hs] Cons.prems by (simp add: x)
  next
    case False
    then obtain db1 where adm: "admit_turn st p u (Some k) k db
        = Inr (Some \<lparr>th_user = u, turn_key = k, th_amount = ?R\<rparr>, db1)"
      and led: "ledger db1 = ledger db @ [entry_for st u (hold_args ?R k) db]"
      and acct: "acct_of u db1 = apply_delta (hold_args ?R k) (acct_of u db)"
      using admit_turn_fresh(2) [OF assms(1) fresh, where u = u and st = st] by (meson linorder_not_le)
    have bal: "acc_balance (acct_of u db1) = ?B - ?R" by (simp add: acct hold_args_def)
    have "k' \<noteq> k" "unused_key db k'" if "(st', k') \<in> set xs" for st' k'
      using that Cons.prems(1,2) x by force+
    then have "unused_key db1 k'" if "(st', k') \<in> set xs" for st' k'
      using that unused_key_append [OF led, of k'] by (metis entry_for_simps(5) entry_args.select_convs(4)
        hold_args_def option.inject)
    then have "\<forall>(st, k) \<in> set xs. unused_key db1 k" by auto
    moreover obtain hs1 where "admit_all p u xs db1 = (hs1, db')" "length hs = Suc (length hs1)"
      using Cons.prems(4) by (auto simp: x adm split: prod.splits)
    moreover obtain q where q: "(?B - ?R) div ?R = q" "?B div ?R = q + 1"
      using reserve_pos [of p] div_add_self2 [of ?R "?B - ?R"] by auto
    ultimately have "int (length hs1) = min (int (length xs)) q"
      "acc_balance (acct_of u db') = ?B - ?R - ?R * int (length hs1)" "length hs = Suc (length hs1)"
      using Cons.IH [of db1 hs1] Cons.prems(1) False bal by simp_all
    then show ?thesis unfolding q by (simp add: x algebra_simps min_def)
  qed
qed

text \<open>C2: Concurrent turns cannot overdraw an account. With enforcement on, out of any number of
  turns with fresh keys that ask for admission against a balance B, exactly
  min(number of turns, B div reserve) are admitted, each admitted turn lowers the balance by
  the reserve, and the balance stays non-negative.\<close>

theorem admission_never_overdraws:
  assumes "enforced p" "distinct (map snd xs)" "\<forall>(st, k) \<in> set xs. unused_key db k"
    and "0 \<le> acc_balance (acct_of u db)" "admit_all p u xs db = (hs, db')"
  shows "int (length hs) = min (int (length xs)) (acc_balance (acct_of u db) div reserve_of p)
    \<and> acc_balance (acct_of u db') = acc_balance (acct_of u db) - reserve_of p * int (length hs)
    \<and> 0 \<le> acc_balance (acct_of u db')"
proof -
  have "reserve_of p * (acc_balance (acct_of u db) div reserve_of p) \<le> acc_balance (acct_of u db)"
    using reserve_pos [of p] by (simp add: minus_mod_eq_mult_div [symmetric])
  moreover have "reserve_of p * int (length hs)
      \<le> reserve_of p * (acc_balance (acct_of u db) div reserve_of p)"
    using admit_all_count [OF assms] reserve_pos [of p] by (simp add: mult_left_mono)
  ultimately show ?thesis using admit_all_count [OF assms] by simp
qed

theorem admission_never_overdraws_witness:
  "length (fst (admit_all strict_policy 7
     [(demo_stamp, ''a''), (demo_stamp, ''b''), (demo_stamp, ''c'')] demo_grant_db)) = 2"
proof -
  let ?xs = "[(demo_stamp, ''a''), (demo_stamp, ''b''), (demo_stamp, ''c'')]"
  have "enforced strict_policy" "distinct (map snd ?xs)" "0 \<le> acc_balance (acct_of 7 demo_grant_db)"
    "\<forall>(st, k) \<in> set ?xs. unused_key demo_grant_db k"
    "acc_balance (acct_of 7 demo_grant_db) div reserve_of strict_policy = 2"
    by code_simp+
  with admission_never_overdraws [of strict_policy ?xs demo_grant_db 7 _ _, OF _ _ _ _ surjective_pairing]
  show ?thesis by simp
qed

end
