(* ===== verification/Ledger_Sweep.thy ===== *)
theory Ledger_Sweep
  imports Ledger_Claims
begin

text \<open>
  Holds and the sweep of dangling ones: a hold and its release cancel out, a sweep that
  sees every old hold releases each of them, and the row limit of its query can hide a
  dangling hold from every sweep.
\<close>

section \<open>A hold and its release cancel out\<close>

lemma hold_then_release:
  assumes "admit_turn st p u (Some k) k db = Inr (Some h, db1)" "unused_key db k"
    and "\<not> has_ref ''turn_hold_release'' k ''turn_hold_release'' db"
  obtains e e' db2 where "ledger db1 = ledger db @ [e]" "reason e = ''turn_hold''"
    "ref_id e = Some k" "created_at e = st_now st" "le_user e = u"
    "release_turn_hold st' (Some h) db1 = (Some e', db2)" "ledger db2 = ledger db1 @ [e']"
    "reason e' = ''turn_hold_release''" "ref_id e' = Some k" "created_at e' = st_now st'" "le_user e' = u"
    "acct_of u db2 = acct_of u db"
proof -
  let ?R = "reserve_of p"
  have en: "enforced p" using assms(1) by (auto simp: admit_turn_def split: if_splits)
  note adm = admit_turn_SomeD [OF assms(1)]
  obtain db1' where 1: "admit_turn st p u (Some k) k db
      = Inr (Some \<lparr>th_user = u, turn_key = k, th_amount = ?R\<rparr>, db1')"
    "ledger db1' = ledger db @ [entry_for st u (hold_args ?R k) db]"
    "acct_of u db1' = apply_delta (hold_args ?R k) (acct_of u db)"
    using admit_turn_fresh(2) [OF en assms(2) adm(3), of st] by blast
  with assms(1) have h: "h = \<lparr>th_user = u, turn_key = k, th_amount = ?R\<rparr>" "db1' = db1" by simp_all
  let ?a = "release_args h"
  have "\<not> violates_ref_index (entry_for st' u ?a db1) (ledger db1)"
    using assms(3) 1(2) h
    by (auto simp: violates_ref_index_def list_ex_iff ref_conflict_def has_ref_def release_args_def
        hold_args_def)
  then obtain db2 where 2: "post_entry st' u ?a db1 = (Some (entry_for st' u ?a db1), db2)"
    "ledger db2 = ledger db1 @ [entry_for st' u ?a db1]"
    "acct_of u db2 = apply_delta ?a (acct_of u db1)"
    by (rule post_entry_fresh)
  have "acct_of u db2 = acct_of u db"
    using 1(3) 2(3) h by (simp add: apply_delta_def hold_args_def release_args_def Let_def)
  then show thesis
    using that [OF _ _ _ _ _ _ 2(2)] 1(2) 2(1) h
    by (simp add: release_turn_hold_def release_hold_in_def hold_args_def release_args_def)
qed

lemma has_ref_release:
  "\<not> has_ref ''turn_hold_release'' k ''turn_hold_release'' db \<longleftrightarrow>
    (\<forall>e \<in> set (ledger db). reason e = ''turn_hold_release'' \<and> ref_type e = Some ''turn_hold_release''
       \<longrightarrow> ref_id e \<noteq> Some k)"
  by (auto simp: has_ref_def)

text \<open>A turn's reserve comes back exactly once. Admitting a turn under a fresh key and
  releasing its hold restores the account row (balance and both lifetime totals), and
  releasing the same hold again posts nothing and changes no account.\<close>

theorem hold_release_neutral:
  assumes "admit_turn st p u (Some k) k db = Inr (Some h, db1)" "unused_key db k"
    and "\<not> has_ref ''turn_hold_release'' k ''turn_hold_release'' db"
  shows "\<exists>e db2 db3. release_turn_hold st' (Some h) db1 = (Some e, db2) \<and> acct_of u db2 = acct_of u db
    \<and> release_turn_hold st'' (Some h) db2 = (None, db3) \<and> ledger db3 = ledger db2
    \<and> (\<forall>w. acct_of w db3 = acct_of w db2)"
proof -
  obtain e' db2 where rel: "release_turn_hold st' (Some h) db1 = (Some e', db2)"
    and acct: "acct_of u db2 = acct_of u db"
    using hold_then_release [OF assms, of st'] by metis
  let ?a = "release_args h"
  from rel have "db2 = snd (post_entry st' (th_user h) ?a db1)"
    by (simp add: release_turn_hold_def release_hold_in_def)
  then have "has_ref ''turn_hold_release'' (turn_key h) (ea_reason ?a) db2"
    using post_entry_has_ref(1) [of ?a] by (simp add: release_args_def)
  then have "post_entry st'' (th_user h) ?a db2 = (None, snd (locked_account (th_user h) db2))"
    using post_entry_has_ref(2) [of ?a] by (simp add: release_args_def)
  with rel acct show ?thesis
    by (auto simp: release_turn_hold_def release_hold_in_def locked_account_snd)
qed

definition demo_hold :: turn_hold where
  "demo_hold = \<lparr>th_user = 7, turn_key = ''t1'', th_amount = 50\<rparr>"

definition demo_admitted_db :: credit_db where
  "demo_admitted_db = snd (post_entry demo_stamp 7 (hold_args 50 ''t1'') demo_grant_db)"

theorem hold_release_neutral_witness:
  "\<exists>e db2. release_turn_hold demo_stamp (Some demo_hold) demo_admitted_db = (Some e, db2)
     \<and> acct_of 7 db2 = acct_of 7 demo_grant_db"
proof -
  have "enforced strict_policy" "unused_key demo_grant_db ''t1''" "reserve_of strict_policy = 50"
    "reserve_of strict_policy \<le> acc_balance (acct_of 7 demo_grant_db)"
    "\<not> has_ref ''turn_hold_release'' ''t1'' ''turn_hold_release'' demo_grant_db"
    by code_simp+
  moreover from this have "admit_turn demo_stamp strict_policy 7 (Some ''t1'') ''t1'' demo_grant_db
      = Inr (Some demo_hold, demo_admitted_db)"
    by (simp add: admit_turn_enforced demo_hold_def demo_admitted_db_def Let_def)
  ultimately show ?thesis using hold_release_neutral [of demo_stamp strict_policy 7 "''t1''"] by blast
qed

section \<open>A sweep that sees every old hold\<close>

lemma ref_index_unique:
  assumes "ref_index_ok rows" "e \<in> set rows" "e' \<in> set rows" "ref_conflict e e'"
  shows "e = e'"
proof -
  obtain i j where ij: "i < length rows" "j < length rows" "e = rows ! i" "e' = rows ! j"
    using assms(2,3) by (metis in_set_conv_nth)
  have "ref_conflict e' e" using assms(4) by (auto simp: ref_conflict_def)
  with assms(1,4) ij show ?thesis
    by (cases i j rule: linorder_cases) (auto simp: ref_index_ok_def sorted_wrt_iff_nth_less)
qed

lemma released_by_owner:
  assumes "credit_inv R db" "e \<in> set (ledger db)" "reason e = ''turn_hold''" "ref_id e = Some k"
    and "f \<in> set (ledger db)" "reason f = ''turn_hold_release''" "ref_id f = Some k"
  shows "k \<in> release_keys (le_user e) db"
proof -
  have ok: "holds_ok R db" and idx: "ref_index_ok (ledger db)"
    using assms(1) by (auto simp: credit_inv_def ledger_inv_def)
  from ok assms(5-7) have "k \<in> hold_keys (le_user f) db" by (auto simp: holds_ok_def)
  then obtain e' where e': "e' \<in> set (ledger db)" "le_user e' = le_user f"
    "reason e' = ''turn_hold''" "ref_id e' = Some k" by (auto simp: keys_with_iff)
  have "ref_conflict e e'" using ok assms(2-4) e' by (auto simp: ref_conflict_def holds_ok_def)
  then have "e = e'" using ref_index_unique [OF idx assms(2) e'(1)] by simp
  then show ?thesis using assms(5-7) e'(2) by (auto simp: keys_with_iff)
qed

lemma release_one_releases:
  assumes "credit_inv R (snd acc)" "extends db (snd acc)"
    and "e \<in> set (ledger db)" "reason e = ''turn_hold''"
  shows "\<exists>k \<in> release_keys (le_user e) (snd (release_one st (released_keys db) acc e)). ref_id e = Some k"
proof -
  have mem: "e \<in> set (ledger (snd acc))" using assms(2,3) by (auto simp: extends_def)
  with assms(1,4) obtain k where k: "ref_id e = Some k" by (auto simp: credit_inv_def holds_ok_def)
  let ?a = "release_args (hold_of_entry e k)"
  show ?thesis
  proof (cases "k \<in> released_keys db")
    case True
    then obtain f where f: "f \<in> set (ledger db)" "reason f = ''turn_hold_release''" "ref_id f = Some k"
      by (auto simp: released_keys_def set_map_filter_iff split: if_splits)
    then have "f \<in> set (ledger (snd acc))" using assms(2) by (auto simp: extends_def)
    then have "k \<in> release_keys (le_user e) (snd acc)"
      using released_by_owner [OF assms(1) mem assms(4) k _ f(2,3)] by simp
    then show ?thesis using True k by (simp add: release_one_db)
  next
    case False
    have "k \<in> release_keys (le_user e) (snd (post_entry st (le_user e) ?a (snd acc)))"
    proof (cases rule: post_entry_cases [of st "le_user e" ?a "snd acc"])
      case conflict
      then obtain f where "f \<in> set (ledger (snd acc))" "reason f = ''turn_hold_release''" "ref_id f = Some k"
        by (auto simp: violates_ref_index_def list_ex_iff ref_conflict_def release_args_def hold_of_entry_def)
      then show ?thesis
        using released_by_owner [OF assms(1) mem assms(4) k] conflict(2) by simp
    next
      case (fresh db')
      then show ?thesis
        by (simp add: keys_with_append [OF fresh(3)] release_args_def hold_of_entry_def)
    qed
    then show ?thesis using False k by (simp add: release_one_db)
  qed
qed

text \<open>Dangling holds are reclaimed. In any reachable state with at most 500 holds older than the
  cutoff, one sweep leaves every one of them released for its owner, whatever order the
  database returns the rows in.\<close>

theorem sweep_releases_old_holds:
  assumes "credit_run p (empty_db, []) (db, hs)"
    and "\<forall>xs. set (scan xs) = set xs \<and> length (scan xs) = length xs"
    and "length (filter (is_old_hold (st_now st - seconds (max secs 60))) (ledger db)) \<le> 500"
    and "e \<in> set (ledger db)" "is_old_hold (st_now st - seconds (max secs 60)) e"
  shows "\<exists>k \<in> release_keys (le_user e) (snd (release_stale_turn_holds scan st secs db)). ref_id e = Some k"
proof -
  let ?c = "st_now st - seconds (max secs 60)" and ?R = "reserve_of p"
  have rows: "set (stale_holds scan ?c db) = {e \<in> set (ledger db). is_old_hold ?c e}"
    using assms(2,3) by (simp add: stale_holds_def)
  have inv: "credit_inv ?R db" using credit_run_inv [OF assms(1) world_inv_init] by (simp add: world_inv_def)
  let ?P = "\<lambda>acc :: nat \<times> credit_db. credit_inv ?R (snd acc) \<and> extends db (snd acc)"
  let ?Q = "\<lambda>e (acc :: nat \<times> credit_db). \<exists>k \<in> release_keys (le_user e) (snd acc). ref_id e = Some k"
  let ?f = "release_one st (released_keys db)"
  have "?P (foldl ?f (0, db) (stale_holds scan ?c db))
    \<and> (\<forall>e \<in> set (stale_holds scan ?c db). ?Q e (foldl ?f (0, db) (stale_holds scan ?c db)))"
  proof (rule foldl_reaches)
    show "?P (0, db)" using inv by simp
  next
    fix acc e assume "e \<in> set (stale_holds scan ?c db)" and P: "?P acc"
    then have e: "e \<in> set (ledger db)" "reason e = ''turn_hold''" unfolding rows by (auto simp: is_old_hold_def)
    then have "e \<in> set (ledger (snd acc))" using P by (auto simp: extends_def)
    then show "?P (?f acc e)" using P e release_one_inv release_one_extends extends_trans by blast
    show "?Q e (?f acc e)" using release_one_releases P e by blast
  next
    fix acc and x y :: ledger_entry assume "?Q y acc"
    then show "?Q y (?f acc x)" using extends_keys [OF release_one_extends] by blast
  qed
  then show ?thesis using assms(4,5) rows by (simp add: release_stale_turn_holds_def Let_def)
qed

lemma demo_admit:
  "admit_turn demo_stamp strict_policy 7 (Some ''t1'') ''t1'' demo_grant_db
     = Inr (Some demo_hold, demo_admitted_db)"
proof -
  have "enforced strict_policy" "reserve_of strict_policy = 50"
    "reserve_of strict_policy \<le> acc_balance (acct_of 7 demo_grant_db)"
    by code_simp+
  then show ?thesis by (simp add: admit_turn_enforced demo_hold_def demo_admitted_db_def Let_def)
qed

lemma key_owned_unused: "credit_inv R db \<Longrightarrow> unused_key db k \<Longrightarrow> key_owned db u k"
  by (auto simp: key_owned_def keys_with_iff unused_key_def has_ref_def credit_inv_def holds_ok_def)

lemma demo_admitted_run: "credit_run strict_policy (empty_db, []) (demo_admitted_db, [demo_hold])"
proof (rule credit_run.run_step [OF demo_run], rule credit_step.admitted [OF demo_admit])
  have "credit_inv (reserve_of strict_policy) demo_grant_db"
    using credit_run_inv [OF demo_run world_inv_init] by (simp add: world_inv_def)
  moreover have "map ref_id (ledger demo_grant_db) = [Some ''c'']" by code_simp
  then have "unused_key demo_grant_db (turn_key demo_hold)"
    by (auto simp: unused_key_def has_ref_def demo_hold_def)
  ultimately show "key_owned demo_grant_db 7 (turn_key demo_hold)" by (rule key_owned_unused)
qed

definition later_stamp :: stamp where
  "later_stamp = \<lparr>st_now = seconds 100000, st_uuid = 2\<rparr>"

theorem sweep_releases_old_holds_witness:
  "\<exists>e \<in> set (ledger demo_admitted_db). \<exists>k \<in> release_keys (le_user e)
     (snd (release_stale_turn_holds (\<lambda>xs. xs) later_stamp 3600 demo_admitted_db)). ref_id e = Some k"
proof -
  let ?old = "is_old_hold (st_now later_stamp - seconds (max 3600 60))"
  have "length (filter ?old (ledger demo_admitted_db)) \<le> 500"
    "\<exists>e \<in> set (ledger demo_admitted_db). ?old e" by code_simp+
  then show ?thesis
    using sweep_releases_old_holds [OF demo_admitted_run, of "\<lambda>xs. xs" later_stamp 3600] by blast
qed

section \<open>The row limit can hide a dangling hold for ever\<close>

lemma fresh_key_exists:
  obtains k where "unused_key db k" "\<not> has_ref ''turn_hold_release'' k ''turn_hold_release'' db"
proof -
  have "finite (insert [] (the ` ref_id ` set (ledger db)))" by simp
  then obtain k :: string where "k \<notin> insert [] (the ` ref_id ` set (ledger db))"
    using ex_new_if_finite infinite_UNIV_listI by blast
  then have "k \<noteq> []" "\<forall>e \<in> set (ledger db). ref_id e \<noteq> Some k" by (force simp: image_iff)+
  then show thesis using that by (auto simp: unused_key_def has_ref_def)
qed

abbreviation is_hold :: "ledger_entry \<Rightarrow> bool" where
  "is_hold e \<equiv> reason e = ''turn_hold''"

text \<open>Any number of turns that were admitted and released, all at one instant.\<close>

lemma released_turns_run:
  "\<exists>db hs. credit_run strict_policy (empty_db, []) (db, hs) \<and> acc_balance (acct_of 7 db) = 120
    \<and> length (filter is_hold (ledger db)) = n
    \<and> (\<forall>e \<in> set (ledger db). created_at e = seconds 1000 \<and> (is_hold e \<longrightarrow> (\<exists>k \<in> released_keys db. ref_id e = Some k)))"
proof (induction n)
  case 0
  have "acc_balance (acct_of 7 demo_grant_db) = 120" "filter is_hold (ledger demo_grant_db) = []"
    "\<forall>e \<in> set (ledger demo_grant_db). created_at e = seconds 1000 \<and> \<not> is_hold e" by code_simp+
  then show ?case using demo_run by (metis list.size(3))
next
  case (Suc n)
  then obtain db hs where run: "credit_run strict_policy (empty_db, []) (db, hs)"
    and bal: "acc_balance (acct_of 7 db) = 120" and len: "length (filter is_hold (ledger db)) = n"
    and all: "\<forall>e \<in> set (ledger db). created_at e = seconds 1000
      \<and> (is_hold e \<longrightarrow> (\<exists>k \<in> released_keys db. ref_id e = Some k))" by blast
  have inv: "credit_inv (reserve_of strict_policy) db"
    using credit_run_inv [OF run world_inv_init] by (simp add: world_inv_def)
  obtain k where k: "unused_key db k" "\<not> has_ref ''turn_hold_release'' k ''turn_hold_release'' db"
    by (rule fresh_key_exists)
  have "enforced strict_policy" "reserve_of strict_policy = 50" by code_simp+
  then obtain h db1 where adm: "admit_turn demo_stamp strict_policy 7 (Some k) k db = Inr (Some h, db1)"
    "turn_key h = k" using admit_turn_fresh(2) [of strict_policy db k 7 demo_stamp] k(1) bal by auto
  obtain e e' db2 where t: "ledger db1 = ledger db @ [e]" "reason e = ''turn_hold''" "ref_id e = Some k"
    "created_at e = st_now demo_stamp" "release_turn_hold demo_stamp (Some h) db1 = (Some e', db2)"
    "ledger db2 = ledger db1 @ [e']" "reason e' = ''turn_hold_release''" "ref_id e' = Some k"
    "created_at e' = st_now demo_stamp" "acct_of 7 db2 = acct_of 7 db"
    using hold_then_release [OF adm(1) k, of demo_stamp] by metis
  have "credit_step strict_policy (db, hs) (db1, h # hs)"
    using credit_step.admitted [OF adm(1)] key_owned_unused [OF inv k(1)] adm(2) by simp
  moreover have "credit_step strict_policy (db1, h # hs) (db2, h # hs)"
    by (rule credit_step.released [OF _ t(5)]) simp
  ultimately have "credit_run strict_policy (empty_db, []) (db2, h # hs)"
    using run by (blast intro: credit_run.run_step)
  moreover have "released_keys db2 = insert k (released_keys db)"
    using t by (auto simp: released_keys_def set_map_filter_iff)
  then have "\<forall>e \<in> set (ledger db2). created_at e = seconds 1000
      \<and> (is_hold e \<longrightarrow> (\<exists>k \<in> released_keys db2. ref_id e = Some k))"
    using all t by (auto simp: demo_stamp_def)
  moreover have "length (filter is_hold (ledger db2)) = Suc n" using len t by simp
  moreover have "acc_balance (acct_of 7 db2) = 120" using bal t(10) by simp
  ultimately show ?case by blast
qed

lemma release_one_done:
  "\<exists>k \<in> ks. ref_id e = Some k \<Longrightarrow> release_one st ks acc e = acc"
  by (auto simp: release_one_def)

text \<open>The sweep can miss a dangling hold for ever. There is a reachable state with a hold that
  was never released, in which no sweep at any later time releases anything: the query
  takes 500 old holds without leaving out those already released, and when the first 500
  rows are settled turns, the dangling one is never looked at.\<close>

theorem sweep_can_starve:
  "\<exists>db hs. credit_run strict_policy (empty_db, []) (db, hs) \<and> hold_keys 7 db - release_keys 7 db \<noteq> {}
    \<and> created_at ` set (ledger db) = {seconds 1000}
    \<and> (\<forall>st secs. release_stale_turn_holds (\<lambda>xs. xs) st secs db = (0, db))"
proof -
  obtain db hs where run: "credit_run strict_policy (empty_db, []) (db, hs)"
    and bal: "acc_balance (acct_of 7 db) = 120" and len: "length (filter is_hold (ledger db)) = 500"
    and all: "\<forall>e \<in> set (ledger db). created_at e = seconds 1000
      \<and> (is_hold e \<longrightarrow> (\<exists>k \<in> released_keys db. ref_id e = Some k))"
    using released_turns_run [of 500] by blast
  have inv: "credit_inv (reserve_of strict_policy) db"
    using credit_run_inv [OF run world_inv_init] by (simp add: world_inv_def)
  obtain k where k: "unused_key db k" "\<not> has_ref ''turn_hold_release'' k ''turn_hold_release'' db"
    by (rule fresh_key_exists)
  have "enforced strict_policy" "reserve_of strict_policy = 50" by code_simp+
  then obtain h db1 where adm: "admit_turn demo_stamp strict_policy 7 (Some k) k db = Inr (Some h, db1)"
    "turn_key h = k" using admit_turn_fresh(2) [of strict_policy db k 7 demo_stamp] k(1) bal by auto
  obtain e where e: "ledger db1 = ledger db @ [e]" "reason e = ''turn_hold''" "ref_id e = Some k"
    "created_at e = st_now demo_stamp" "le_user e = 7"
    using hold_then_release [OF adm(1) k, of demo_stamp] by metis
  have step: "credit_run strict_policy (empty_db, []) (db1, h # hs)"
    using credit_run.run_step [OF run credit_step.admitted [OF adm(1)]]
      key_owned_unused [OF inv k(1)] adm(2) by simp
  have "k \<notin> release_keys 7 db"
    using k(2) inv by (auto simp: keys_with_iff has_ref_def credit_inv_def holds_ok_def)
  then have dangling: "k \<in> hold_keys 7 db1 - release_keys 7 db1"
    using e by (simp add: keys_with_append [OF e(1)])
  have same: "released_keys db1 = released_keys db"
    using e by (auto simp: released_keys_def set_map_filter_iff)
  have old: "filter (is_old_hold c) (ledger db1)
      = (if seconds 1000 < c then filter is_hold (ledger db) @ [e] else [])" for c
    using all e by (auto simp: is_old_hold_def demo_stamp_def intro!: filter_cong)
  then have "\<forall>e \<in> set (stale_holds (\<lambda>xs. xs) c db1). \<exists>k \<in> released_keys db1. ref_id e = Some k" for c
    using len all by (simp add: stale_holds_def same)
  then have "release_stale_turn_holds (\<lambda>xs. xs) st secs db1 = (0, db1)" for st secs
    unfolding release_stale_turn_holds_def Let_def by (intro foldl_stays release_one_done) blast
  moreover have "\<forall>x \<in> set (ledger db1). created_at x = seconds 1000" "e \<in> set (ledger db1)"
    using all e by (simp_all add: demo_stamp_def)
  then have "created_at ` set (ledger db1) = {seconds 1000}" by force
  ultimately show ?thesis using step dangling by blast
qed

end
