(* ===== verification/Ledger_Pages.thy ===== *)
theory Ledger_Pages
  imports Ledger
begin

text \<open>
  Reading the ledger: the keyset pagination of \<open>services/credit_service.py\<close>
  (\<open>encode_cursor\<close>, \<open>decode_cursor\<close>, \<open>ledger_page\<close>) and the pool aggregate
  \<open>read_pool_watermarks\<close>. A client that follows \<open>next_cursor\<close> to the end reads every
  entry of the user once, newest first.
\<close>

section \<open>Cursors\<close>

text \<open>
  The text forms of a timestamp and of a UUID are the standard library's; what the code
  relies on is that they are read back and that a UUID's text has no underscore.
\<close>

record cursor_codec =
  isoformat :: "timestamp \<Rightarrow> string"
  fromisoformat :: "string \<Rightarrow> timestamp option"
  uuid_str :: "uuid \<Rightarrow> string"
  uuid_parse :: "string \<Rightarrow> uuid option"

definition codec_ok :: "cursor_codec \<Rightarrow> bool" where
  "codec_ok c \<longleftrightarrow> (\<forall>t. fromisoformat c (isoformat c t) = Some t)
     \<and> (\<forall>u. uuid_parse c (uuid_str c u) = Some u \<and> CHR ''_'' \<notin> set (uuid_str c u))"

definition encode_cursor :: "cursor_codec \<Rightarrow> ledger_entry \<Rightarrow> string" where
  "encode_cursor c e = isoformat c (created_at e) @ ''_'' @ uuid_str c (le_id e)"

definition decode_cursor :: "cursor_codec \<Rightarrow> string \<Rightarrow> (timestamp \<times> uuid) option" where
  "decode_cursor c cursor =
     (let (ts, raw_id) = rpartition CHR ''_'' cursor
      in case fromisoformat c ts of
           None \<Rightarrow> None
         | Some t \<Rightarrow> (case uuid_parse c raw_id of None \<Rightarrow> None | Some u \<Rightarrow> Some (t, u)))"

definition row_key :: "ledger_entry \<Rightarrow> timestamp \<times> uuid" where
  "row_key e = (created_at e, le_id e)"

lemma decode_encode_cursor: "codec_ok c \<Longrightarrow> decode_cursor c (encode_cursor c e) = Some (row_key e)"
  by (simp add: decode_cursor_def encode_cursor_def codec_ok_def rpartition_last row_key_def)

section \<open>One page\<close>

definition page_size :: "int \<Rightarrow> nat" where
  "page_size limit = nat (max 1 (min limit 200))"

definition user_rows :: "uuid \<Rightarrow> credit_db \<Rightarrow> ledger_entry list" where
  "user_rows u db = filter (\<lambda>e. le_user e = u) (ledger db)"

definition before_cursor :: "cursor_codec \<Rightarrow> string option \<Rightarrow> ledger_entry list \<Rightarrow> ledger_entry list" where
  "before_cursor c cursor rows =
     (case cursor of
        None \<Rightarrow> rows
      | Some s \<Rightarrow>
          if s = [] then rows
          else (case decode_cursor c s of
                  None \<Rightarrow> rows
                | Some k \<Rightarrow> filter (\<lambda>e. row_key e < k) rows))"

definition newest_first :: "ledger_entry list \<Rightarrow> ledger_entry list" where
  "newest_first rows = rev (sort_key row_key rows)"

definition ledger_page ::
  "cursor_codec \<Rightarrow> uuid \<Rightarrow> int \<Rightarrow> string option \<Rightarrow> credit_db \<Rightarrow> ledger_entry list \<times> string option" where
  "ledger_page c u limit cursor db =
     (let size = page_size limit;
          rows = take (size + 1) (newest_first (before_cursor c cursor (user_rows u db)));
          has_more = length rows > size;
          page = take size rows
      in (page, if has_more \<and> page \<noteq> [] then Some (encode_cursor c (last page)) else None))"

text \<open>A client that asks for pages until there is no next cursor; None when \<open>fuel\<close> requests were not enough.\<close>

fun read_pages ::
  "cursor_codec \<Rightarrow> uuid \<Rightarrow> int \<Rightarrow> credit_db \<Rightarrow> nat \<Rightarrow> string option \<Rightarrow> ledger_entry list list option" where
  "read_pages c u limit db 0 cursor = None"
| "read_pages c u limit db (Suc fuel) cursor =
     (let (page, next) = ledger_page c u limit cursor db
      in case next of
           None \<Rightarrow> Some [page]
         | Some s \<Rightarrow> map_option (\<lambda>ps. page # ps) (read_pages c u limit db fuel (Some s)))"

section \<open>Strictly descending lists\<close>

definition descending :: "ledger_entry list \<Rightarrow> bool" where
  "descending xs \<longleftrightarrow> sorted_wrt (\<lambda>x y. row_key y < row_key x) xs"

lemma newest_first_descending:
  assumes "distinct (map le_id rows)"
  shows "descending (newest_first rows)" "set (newest_first rows) = set rows"
proof -
  have "distinct (map row_key rows)"
    using assms by (auto simp: distinct_map row_key_def inj_on_def)
  then have "distinct (map row_key (sort_key row_key rows))"
    by (simp add: distinct_map)
  then have "sorted_wrt (<) (map row_key (sort_key row_key rows))"
    using sorted_sort_key [of row_key rows] by (simp only: strict_sorted_iff)
  then show "descending (newest_first rows)"
    by (simp add: descending_def newest_first_def sorted_wrt_rev sorted_wrt_map)
qed (simp add: newest_first_def)

lemma newest_first_filter: "newest_first (filter P rows) = filter P (newest_first rows)"
  by (simp add: newest_first_def rev_filter [symmetric] filter_sort)

lemma descending_after:
  assumes "descending xs" "0 < n" "n \<le> length xs"
  shows "filter (\<lambda>e. row_key e < row_key (xs ! (n - 1))) xs = drop n xs"
proof -
  have *: "row_key (xs ! j) < row_key (xs ! i)" if "i < j" "j < length xs" for i j
    using assms(1) that by (simp add: descending_def sorted_wrt_iff_nth_less)
  have front: "\<forall>e \<in> set (take n xs). \<not> row_key e < row_key (xs ! (n - 1))"
  proof
    fix e assume "e \<in> set (take n xs)"
    then obtain i where i: "i < n" "e = xs ! i" using assms(3) by (auto simp: in_set_conv_nth)
    show "\<not> row_key e < row_key (xs ! (n - 1))"
    proof (cases "i = n - 1")
      case False
      then have "i < n - 1" "n - 1 < length xs" using i assms by linarith+
      then show ?thesis using * i(2) by fastforce
    qed (simp add: i)
  qed
  have "\<forall>e \<in> set (drop n xs). row_key e < row_key (xs ! (n - 1))"
  proof
    fix e assume "e \<in> set (drop n xs)"
    then obtain j where "j < length xs - n" "e = xs ! (n + j)" by (auto simp: in_set_conv_nth)
    then show "row_key e < row_key (xs ! (n - 1))" using * [of "n - 1" "n + j"] assms(2) by simp
  qed
  then have "filter (\<lambda>e. row_key e < row_key (xs ! (n - 1))) (take n xs @ drop n xs) = drop n xs"
    unfolding filter_append using front by simp
  then show ?thesis by simp
qed

lemma page_size_pos [simp]: "0 < page_size limit"
  by (simp add: page_size_def)

lemma ledger_page_at:
  assumes "newest_first (before_cursor c cursor (user_rows u db)) = drop n xs"
  shows "ledger_page c u limit cursor db =
    (take (page_size limit) (drop n xs),
     if length xs > n + page_size limit then Some (encode_cursor c (xs ! (n + page_size limit - 1))) else None)"
proof (cases "length xs > n + page_size limit")
  case True
  define m where "m = page_size limit"
  have m: "0 < m" "n + m < length xs" using True page_size_pos [of limit] by (simp_all add: m_def)
  then have "take m (drop n xs) \<noteq> []" "last (take m (drop n xs)) = xs ! (n + m - 1)"
    by (auto simp: last_conv_nth)
  then show ?thesis
    using assms m unfolding ledger_page_def m_def [symmetric] by (auto simp: Let_def min_def)
next
  case False
  define m where "m = page_size limit"
  have "length (drop n xs) \<le> m" using False by (simp add: m_def)
  then show ?thesis
    using assms False unfolding ledger_page_def m_def [symmetric] by (simp add: Let_def min_def)
qed

lemma before_cursor_next:
  assumes "codec_ok c" "descending xs" "xs = newest_first rows" "0 < n" "n \<le> length xs"
  shows "newest_first (before_cursor c (Some (encode_cursor c (xs ! (n - 1)))) rows) = drop n xs"
proof -
  have "encode_cursor c (xs ! (n - 1)) \<noteq> []" by (simp add: encode_cursor_def)
  then show ?thesis
    using descending_after [OF assms(2,4,5)] assms(3)
    by (simp add: before_cursor_def decode_encode_cursor [OF assms(1)] newest_first_filter)
qed

lemma read_pages_from:
  assumes "codec_ok c" "descending xs" "xs = newest_first (user_rows u db)"
    and "newest_first (before_cursor c cursor (user_rows u db)) = drop n xs" "n \<le> length xs"
    and "length xs - n \<le> fuel"
  shows "\<exists>ps. read_pages c u limit db (Suc fuel) cursor = Some ps \<and> concat ps = drop n xs
    \<and> (\<forall>p \<in> set ps. length p \<le> page_size limit)"
  using assms(4-6)
proof (induction fuel arbitrary: cursor n)
  case 0
  then show ?case using ledger_page_at [OF 0(1), of limit] by simp
next
  case (Suc fuel)
  let ?m = "n + page_size limit"
  show ?case
  proof (cases "length xs > ?m")
    case True
    let ?next = "Some (encode_cursor c (xs ! (?m - 1)))"
    have at: "newest_first (before_cursor c ?next (user_rows u db)) = drop ?m xs"
      using before_cursor_next [OF assms(1-3), of ?m] True by simp
    have "length xs - ?m \<le> fuel" using Suc.prems page_size_pos [of limit] by linarith
    then obtain ps where ps: "read_pages c u limit db (Suc fuel) ?next = Some ps"
      "concat ps = drop ?m xs" "\<forall>p \<in> set ps. length p \<le> page_size limit"
      using Suc.IH [OF at] True by auto
    have "take (page_size limit) (drop n xs) @ drop ?m xs = drop n xs"
      by (metis add.commute append_take_drop_id drop_drop)
    then show ?thesis
      using ledger_page_at [OF Suc.prems(1), of limit] True ps by (simp del: read_pages.simps add: read_pages.simps(2) [of _ _ _ _ "Suc fuel"])
  next
    case False
    then show ?thesis using ledger_page_at [OF Suc.prems(1), of limit] by simp
  qed
qed

text \<open>C7: Pagination is complete. For rows with distinct primary keys, a client that follows
  \<open>next_cursor\<close> reaches the end within one request more than there are rows, and the pages
  it saw, one after the other, are exactly the user's ledger rows, each once, strictly
  descending by (created_at, id), and no page is longer than the clamped limit.\<close>

theorem ledger_pages_complete:
  assumes "codec_ok c" "distinct (map le_id (ledger db))"
  shows "\<exists>ps. read_pages c u limit db (Suc (length (user_rows u db))) None = Some ps
    \<and> set (concat ps) = set (user_rows u db) \<and> descending (concat ps)
    \<and> (\<forall>p \<in> set ps. length p \<le> page_size limit)"
proof -
  have d: "distinct (map le_id (user_rows u db))"
    using assms(2) by (simp add: user_rows_def distinct_map_filter)
  have "length (newest_first (user_rows u db)) = length (user_rows u db)" by (simp add: newest_first_def)
  then obtain ps where "read_pages c u limit db (Suc (length (user_rows u db))) None = Some ps"
    "concat ps = newest_first (user_rows u db)" "\<forall>p \<in> set ps. length p \<le> page_size limit"
    using read_pages_from [OF assms(1) newest_first_descending(1) [OF d] refl, of None 0
        "length (user_rows u db)" limit]
    by (auto simp: before_cursor_def)
  then show ?thesis using newest_first_descending [OF d] by metis
qed

text \<open>A codec that keeps the laws: a signed unary timestamp and a unary identifier.\<close>

definition unary_codec :: cursor_codec where
  "unary_codec =
     \<lparr>isoformat = (\<lambda>t. replicate (nat t) CHR ''p'' @ replicate (nat (- t)) CHR ''m''),
      fromisoformat = (\<lambda>s. Some (int (length (filter (\<lambda>x. x = CHR ''p'') s))
                                  - int (length (filter (\<lambda>x. x = CHR ''m'') s)))),
      uuid_str = (\<lambda>u. replicate u CHR ''x''), uuid_parse = (\<lambda>s. Some (length s))\<rparr>"

lemma unary_codec_ok: "codec_ok unary_codec"
  by (auto simp: codec_ok_def unary_codec_def)

definition paged_entry :: "timestamp \<Rightarrow> uuid \<Rightarrow> ledger_entry" where
  "paged_entry t i = \<lparr>le_id = i, le_user = 7, le_delta = 1, balance_after = 1, reason = ''grant'',
     ref_type = None, ref_id = None, actor_id = None, le_note = None, created_at = t\<rparr>"

definition paged_db :: credit_db where
  "paged_db = \<lparr>accounts = [], ledger = [paged_entry 2 1, paged_entry 5 2, paged_entry 5 3, paged_entry 1 4, paged_entry 3 5]\<rparr>"

theorem ledger_pages_complete_witness:
  "read_pages unary_codec 7 2 paged_db 6 None
     = Some [[paged_entry 5 3, paged_entry 5 2], [paged_entry 3 5, paged_entry 2 1], [paged_entry 1 4]]
   \<and> (\<exists>ps. read_pages unary_codec 7 2 paged_db (Suc (length (user_rows 7 paged_db))) None = Some ps
        \<and> set (concat ps) = set (user_rows 7 paged_db))"
proof
  show "read_pages unary_codec 7 2 paged_db 6 None
     = Some [[paged_entry 5 3, paged_entry 5 2], [paged_entry 3 5, paged_entry 2 1], [paged_entry 1 4]]"
    by code_simp
  have "distinct (map le_id (ledger paged_db))" by code_simp
  then show "\<exists>ps. read_pages unary_codec 7 2 paged_db (Suc (length (user_rows 7 paged_db))) None = Some ps
        \<and> set (concat ps) = set (user_rows 7 paged_db)"
    using ledger_pages_complete [OF unary_codec_ok, of paged_db 7 2] by blast
qed

section \<open>Pool watermarks\<close>

definition read_pool_watermarks :: "credit_db \<Rightarrow> int \<times> int \<times> int \<times> int" where
  "read_pool_watermarks db =
     (let accts = map snd (accounts db)
      in (\<Sum>a\<leftarrow>accts. lifetime_granted a, \<Sum>a\<leftarrow>accts. lifetime_consumed a,
          \<Sum>a\<leftarrow>accts. if acc_balance a \<le> 0 then 1 else 0, \<Sum>a\<leftarrow>accts. if acc_balance a < 0 then 1 else 0))"

lemma watermark_counts:
  "read_pool_watermarks db = (g, c, z, n) \<Longrightarrow> 0 \<le> n \<and> n \<le> z \<and> z \<le> int (length (accounts db))"
proof -
  have "(\<Sum>a\<leftarrow>xs. if acc_balance a < 0 then 1 else 0) \<le> (\<Sum>a\<leftarrow>xs. if acc_balance a \<le> 0 then 1 else (0 :: int))
    \<and> 0 \<le> (\<Sum>a\<leftarrow>xs. if acc_balance a < 0 then 1 else (0 :: int))
    \<and> (\<Sum>a\<leftarrow>xs. if acc_balance a \<le> 0 then 1 else (0 :: int)) \<le> int (length xs)" for xs :: "account list"
    by (induction xs) auto
  from this [of "map snd (accounts db)"] show "read_pool_watermarks db = (g, c, z, n) \<Longrightarrow> ?thesis"
    by (auto simp: read_pool_watermarks_def Let_def)
qed

end
