(* ===== verification/Texts.thy ===== *)
theory Texts
  imports Prelude "HOL-Library.Sublist"
begin

text \<open>
  Text helpers the components share: Python's \<open>str.strip\<close> and one-character
  \<open>str.replace\<close>, and \<open>core/like.py\<close>, which turns user input into a LIKE pattern.
  A \<open>str\<close> is a list of characters; white space is that of
  \<open>str.isspace\<close>; texts are of one-byte (Latin-1) characters.
\<close>

section \<open>Stripping and replacing\<close>

definition is_space :: "char \<Rightarrow> bool" where
  "is_space c \<longleftrightarrow> (let n = (of_char c :: nat) in (9 \<le> n \<and> n \<le> 13) \<or> (28 \<le> n \<and> n \<le> 32) \<or> n = 133 \<or> n = 160)"

definition py_lstrip :: "string \<Rightarrow> string" where
  "py_lstrip s = dropWhile is_space s"

definition py_rstrip :: "string \<Rightarrow> string" where
  "py_rstrip s = rev (dropWhile is_space (rev s))"

definition py_strip :: "string \<Rightarrow> string" where
  "py_strip s = py_rstrip (py_lstrip s)"

lemma py_strip_Nil [simp]: "py_strip [] = []"
  by (simp add: py_strip_def py_lstrip_def py_rstrip_def)

lemma py_strip_blank: "py_strip s = [] \<longleftrightarrow> (\<forall>c \<in> set s. is_space c)"
proof -
  have "(\<forall>c \<in> set (dropWhile is_space s). is_space c) \<longleftrightarrow> (\<forall>c \<in> set s. is_space c)"
    by (induction s) auto
  then show ?thesis by (simp add: py_strip_def py_lstrip_def py_rstrip_def)
qed

lemma py_strip_keeps_last: "xs \<noteq> [] \<Longrightarrow> \<not> is_space (last xs) \<Longrightarrow> py_rstrip xs = xs"
  by (cases xs rule: rev_cases) (auto simp: py_rstrip_def)

lemma py_rstrip_last: "py_rstrip xs \<noteq> [] \<Longrightarrow> \<not> is_space (last (py_rstrip xs))"
  by (induction xs rule: rev_induct) (auto simp: py_rstrip_def)

lemma py_rstrip_hd: "py_rstrip xs \<noteq> [] \<Longrightarrow> hd (py_rstrip xs) = hd xs"
  by (induction xs rule: rev_induct) (auto simp: py_rstrip_def hd_append)

lemma py_lstrip_hd: "py_lstrip xs \<noteq> [] \<Longrightarrow> \<not> is_space (hd (py_lstrip xs))"
  by (simp add: py_lstrip_def hd_dropWhile)

lemma py_lstrip_keeps: "xs \<noteq> [] \<Longrightarrow> \<not> is_space (hd xs) \<Longrightarrow> py_lstrip xs = xs"
  by (cases xs) (auto simp: py_lstrip_def)

lemma py_strip_idem [simp]: "py_strip (py_strip s) = py_strip s"
proof (cases "py_strip s = []")
  case False
  then have "py_lstrip s \<noteq> []" by (auto simp: py_strip_def py_rstrip_def)
  then have "\<not> is_space (hd (py_strip s))"
    using False py_rstrip_hd [of "py_lstrip s"] py_lstrip_hd [of s] by (simp add: py_strip_def)
  then have "py_lstrip (py_strip s) = py_strip s" using False by (simp add: py_lstrip_keeps)
  then show ?thesis
    using False py_rstrip_last [of "py_lstrip s"] py_strip_keeps_last [of "py_strip s"]
    by (simp add: py_strip_def)
qed simp

text \<open>\<open>s.replace(c, r)\<close> for a one-character \<open>c\<close>.\<close>

definition replace_char :: "char \<Rightarrow> string \<Rightarrow> string \<Rightarrow> string" where
  "replace_char c r s = concat (map (\<lambda>x. if x = c then r else [x]) s)"

lemma replace_char_simps [simp]:
  "replace_char c r [] = []"
  "replace_char c r (x # s) = (if x = c then r else [x]) @ replace_char c r s"
  "replace_char c r (s @ t) = replace_char c r s @ replace_char c r t"
  by (simp_all add: replace_char_def)

section \<open>LIKE patterns\<close>

definition LIKE_ESCAPE :: char where
  "LIKE_ESCAPE = CHR 0x5C"

definition escape_like :: "string \<Rightarrow> string" where
  "escape_like term =
     replace_char CHR ''_'' [LIKE_ESCAPE, CHR ''_'']
       (replace_char CHR ''%'' [LIKE_ESCAPE, CHR ''%'']
         (replace_char LIKE_ESCAPE [LIKE_ESCAPE, LIKE_ESCAPE] term))"

definition like_pattern :: "string \<Rightarrow> string" where
  "like_pattern term = CHR ''%'' # escape_like term @ [CHR ''%'']"

text \<open>
  The LIKE predicate as SQL documents it, with the backslash as the escape character:
  an escaped character stands for itself, a percent sign for any text, an underscore for
  any character, and every other character for itself.
\<close>

inductive like_matches :: "string \<Rightarrow> string \<Rightarrow> bool" where
  like_end: "like_matches [] []"
| like_escaped: "like_matches p s \<Longrightarrow> like_matches (LIKE_ESCAPE # c # p) (c # s)"
| like_any: "like_matches p s \<Longrightarrow> like_matches (CHR ''%'' # p) (t @ s)"
| like_one: "like_matches p s \<Longrightarrow> like_matches (CHR ''_'' # p) (c # s)"
| like_plain: "like_matches p s \<Longrightarrow> c \<noteq> LIKE_ESCAPE \<Longrightarrow> c \<noteq> CHR ''%'' \<Longrightarrow> c \<noteq> CHR ''_''
    \<Longrightarrow> like_matches (c # p) (c # s)"

inductive_cases like_NilE: "like_matches [] s"
inductive_cases like_escE: "like_matches (LIKE_ESCAPE # p) s"
inductive_cases like_ConsE: "like_matches (c # p) s"

lemma escape_like_Cons:
  "escape_like (c # t) =
     (if c = LIKE_ESCAPE \<or> c = CHR ''%'' \<or> c = CHR ''_'' then [LIKE_ESCAPE, c] else [c]) @ escape_like t"
  by (auto simp: escape_like_def LIKE_ESCAPE_def)

lemma escaped_literal: "like_matches (escape_like t @ p) s \<longleftrightarrow> (\<exists>s'. s = t @ s' \<and> like_matches p s')"
proof (induction t arbitrary: s)
  case Nil
  then show ?case by (simp add: escape_like_def)
next
  case (Cons c t)
  have "like_matches (escape_like (c # t) @ p) s \<longleftrightarrow>
      (\<exists>s'. s = c # s' \<and> like_matches (escape_like t @ p) s')" (is "?l \<longleftrightarrow> ?r")
  proof
    assume ?l
    then show ?r
      unfolding escape_like_Cons
      by (auto split: if_splits elim!: like_ConsE simp: LIKE_ESCAPE_def)
  next
    assume ?r
    then show ?l
      unfolding escape_like_Cons by (auto intro: like_matches.intros)
  qed
  then show ?case using Cons.IH by auto
qed

lemma like_percent: "like_matches (CHR ''%'' # p) s \<longleftrightarrow> (\<exists>t s'. s = t @ s' \<and> like_matches p s')"
  by (auto elim!: like_ConsE intro: like_matches.intros simp: LIKE_ESCAPE_def)

lemma like_end_iff: "like_matches [] s \<longleftrightarrow> s = []"
  by (auto elim: like_NilE intro: like_matches.intros)

text \<open>User input is searched literally. The pattern built from any text, wild cards and
  backslashes included, is matched under SQL's LIKE exactly by the strings that contain that
  text.\<close>

theorem like_pattern_is_substring:
  "like_matches (like_pattern term) s \<longleftrightarrow> sublist term s"
  by (auto simp: like_pattern_def like_percent escaped_literal like_end_iff sublist_def)

end
