(* ===== verification/Redeem.thy ===== *)
theory Redeem
  imports Ledger Texts
begin

text \<open>
  Redemption codes (\<open>services/redeem_service.py\<close> over \<open>models/redeem_code.py\<close> and
  \<open>models/redeem_code_batch.py\<close>): creating a batch, the two halves of a redemption (the
  checks on the rows as they were read, and the compare-and-swap with the grant, which is
  one transaction), voiding a batch and the listings. The credit service is reached through
  the interface \<open>credit_provider\<close>, which the ledger provides.
\<close>

section \<open>Rows\<close>

record 'h redeem_code =
  rc_id :: uuid
  rc_batch :: uuid
  code_hash :: 'h
  rc_prefix :: pystr
  rc_status :: string
  redeemed_by :: "uuid option"
  redeemed_at :: "timestamp option"
  rc_created :: timestamp

record redeem_batch =
  rb_id :: uuid
  rb_name :: string
  credits_per_code :: int
  expires_at :: "timestamp option"
  rb_note :: "string option"
  created_by :: "uuid option"
  rb_created :: timestamp

record ('h, 'c) redeem_db =
  codes :: "'h redeem_code list"
  batches :: "redeem_batch list"
  credits :: 'c

datatype redeem_failure = Raised credit_error | IntegrityError

record redeem_result =
  credits_added :: int
  rr_balance :: int
  batch_name :: string

section \<open>Creating a batch\<close>

text \<open>What the process supplies: the hash of a normalised code, the Unicode tables, fresh
  identifiers, and the successive draws of \<open>generate_code\<close>.\<close>

record 'h redeem_env =
  digest :: "pystr \<Rightarrow> 'h"
  unicode :: unicode_db
  fresh_id :: "nat \<Rightarrow> uuid"
  draw :: "nat \<Rightarrow> nat list"

definition DEFAULT_BATCH_NAME :: string where
  "DEFAULT_BATCH_NAME = map (char_of :: nat \<Rightarrow> char)
     [0xE6, 0x9C, 0xAA, 0xE5, 0x91, 0xBD, 0xE5, 0x90, 0x8D, 0xE6, 0x89, 0xB9, 0xE6, 0xAC, 0xA1]"

definition batch_error ::
  "credit_policy \<Rightarrow> timestamp \<Rightarrow> int \<Rightarrow> int \<Rightarrow> timestamp option \<Rightarrow> credit_error option" where
  "batch_error p now per_code count expiry =
     (if per_code \<le> 0 then Some (CreditError ''redeem_batch_invalid_credits'' 400)
      else if count \<le> 0 then Some (CreditError ''redeem_batch_invalid_count'' 400)
      else if count > max_codes_per_batch p then Some (CreditError ''redeem_batch_too_large'' 400)
      else (case expiry of
              None \<Rightarrow> None
            | Some t \<Rightarrow> if t \<le> now then Some (CreditError ''redeem_batch_invalid_expiry'' 400) else None))"

text \<open>Up to eight attempts to draw a code whose hash this batch has not used yet.\<close>

fun draw_code :: "'h redeem_env \<Rightarrow> nat \<Rightarrow> nat \<Rightarrow> 'h list \<Rightarrow> (pystr \<times> pystr \<times> 'h) option \<times> nat" where
  "draw_code env 0 i seen = (None, i)"
| "draw_code env (Suc attempts) i seen =
     (let candidate = generate_code (draw env i);
          normalized = normalize_code (unicode env) candidate;
          d = digest env normalized
      in if d \<in> set seen then draw_code env attempts (Suc i) seen
         else (Some (candidate, normalized, d), Suc i))"

fun draw_codes ::
  "'h redeem_env \<Rightarrow> nat \<Rightarrow> nat \<Rightarrow> 'h list \<Rightarrow> (pystr \<times> pystr \<times> 'h) list
    \<Rightarrow> redeem_failure + (pystr \<times> pystr \<times> 'h) list" where
  "draw_codes env 0 i seen acc = Inr acc"
| "draw_codes env (Suc n) i seen acc =
     (case draw_code env 8 i seen of
        (None, _) \<Rightarrow> Inl (Raised (CreditError ''redeem_code_collision'' 400))
      | (Some c, i') \<Rightarrow> draw_codes env n i' (snd (snd c) # seen) (acc @ [c]))"

definition new_code :: "'h redeem_env \<Rightarrow> timestamp \<Rightarrow> uuid \<Rightarrow> nat \<Rightarrow> (pystr \<times> pystr \<times> 'h) \<Rightarrow> 'h redeem_code" where
  "new_code env now batch j c =
     \<lparr>rc_id = fresh_id env (Suc j), rc_batch = batch, code_hash = snd (snd c),
      rc_prefix = code_prefix (fst (snd c)), rc_status = ''active'', redeemed_by = None,
      redeemed_at = None, rc_created = now\<rparr>"

text \<open>The flush inserts the rows; the unique index on the hash rejects a code the table has.\<close>

definition create_batch ::
  "'h redeem_env \<Rightarrow> credit_policy \<Rightarrow> timestamp \<Rightarrow> uuid option \<Rightarrow> string \<Rightarrow> int \<Rightarrow> int
    \<Rightarrow> timestamp option \<Rightarrow> string option \<Rightarrow> ('h, 'c) redeem_db
    \<Rightarrow> redeem_failure + (redeem_batch \<times> pystr list \<times> ('h, 'c) redeem_db)" where
  "create_batch env p now admin name per_code count expiry bnote db =
     (case batch_error p now per_code count expiry of
        Some e \<Rightarrow> Inl (Raised e)
      | None \<Rightarrow>
          let batch = \<lparr>rb_id = fresh_id env 0,
                rb_name = (if py_strip name = [] then DEFAULT_BATCH_NAME else py_strip name),
                credits_per_code = per_code, expires_at = expiry, rb_note = bnote,
                created_by = admin, rb_created = now\<rparr>
          in rbind (draw_codes env (nat count) 0 [] [])
               (\<lambda>drawn.
                 if \<exists>c \<in> set drawn. snd (snd c) \<in> code_hash ` set (codes db) then Inl IntegrityError
                 else Inr (batch, map fst drawn,
                   db\<lparr>batches := batches db @ [batch],
                      codes := codes db @
                        map2 (\<lambda>j c. new_code env now (rb_id batch) j c) [0..<length drawn] drawn\<rparr>)))"

section \<open>Redeeming\<close>

text \<open>The row the query finds, and the checks on it.\<close>

definition find_code :: "'h \<Rightarrow> ('h, 'c) redeem_db \<Rightarrow> ('h redeem_code \<times> redeem_batch) option" where
  "find_code h db =
     (case List.find (\<lambda>c. code_hash c = h) (codes db) of
        None \<Rightarrow> None
      | Some c \<Rightarrow> map_option (\<lambda>b. (c, b)) (List.find (\<lambda>b. rb_id b = rc_batch c) (batches db)))"

definition redeem_check ::
  "'h redeem_env \<Rightarrow> timestamp \<Rightarrow> pystr \<Rightarrow> ('h, 'c) redeem_db
    \<Rightarrow> credit_error + ('h redeem_code \<times> redeem_batch)" where
  "redeem_check env now raw db =
     (let normalized = normalize_code (unicode env) raw
      in if normalized = [] then Inl (CreditError ''redeem_code_not_found'' 404)
         else
           (case find_code (digest env normalized) db of
              None \<Rightarrow> Inl (CreditError ''redeem_code_not_found'' 404)
            | Some (code, batch) \<Rightarrow>
                if rc_status code = ''void'' then Inl (CreditError ''redeem_code_void'' 410)
                else if rc_status code = ''redeemed'' then Inl (CreditError ''redeem_code_used'' 409)
                else (case expires_at batch of
                        None \<Rightarrow> Inr (code, batch)
                      | Some t \<Rightarrow> if t \<le> now then Inl (CreditError ''redeem_code_expired'' 410)
                                  else Inr (code, batch))))"

definition claim_code :: "uuid \<Rightarrow> timestamp \<Rightarrow> 'h redeem_code \<Rightarrow> 'h redeem_code" where
  "claim_code u now c = c\<lparr>rc_status := ''redeemed'', redeemed_by := Some u, redeemed_at := Some now\<rparr>"

text \<open>
  The UPDATE with its guard on the status: the rows it changes and their number.
\<close>

definition cas_redeemed :: "uuid \<Rightarrow> timestamp \<Rightarrow> uuid \<Rightarrow> 'h redeem_code list \<Rightarrow> nat \<times> 'h redeem_code list" where
  "cas_redeemed u now cid cs =
     (let hit = (\<lambda>c. rc_id c = cid \<and> rc_status c = ''active'')
      in (length (filter hit cs), map (\<lambda>c. if hit c then claim_code u now c else c) cs))"

text \<open>
  The interface of the credit service this code uses: \<open>cr_grant\<close> posts an amount for a
  reference with a note, \<open>cr_balance\<close> reads the balance of a user who has an account.
\<close>

record 'c credit_service =
  cr_grant :: "stamp \<Rightarrow> uuid \<Rightarrow> int \<Rightarrow> string \<Rightarrow> string \<Rightarrow> 'c \<Rightarrow> credit_error + 'c"
  cr_balance :: "uuid \<Rightarrow> 'c \<Rightarrow> int option"

definition redeem_commit ::
  "'c credit_service \<Rightarrow> (uuid \<Rightarrow> string) \<Rightarrow> stamp \<Rightarrow> uuid \<Rightarrow> 'h redeem_code \<Rightarrow> redeem_batch
    \<Rightarrow> ('h, 'c) redeem_db \<Rightarrow> credit_error + (redeem_result \<times> ('h, 'c) redeem_db)" where
  "redeem_commit svc ustr st u code batch db =
     (let (rowcount, cs) = cas_redeemed u (st_now st) (rc_id code) (codes db)
      in if rowcount \<noteq> 1 then Inl (CreditError ''redeem_code_used'' 409)
         else rbind (cr_grant svc st u (credits_per_code batch) (ustr (rc_id code)) (rb_name batch) (credits db))
           (\<lambda>cr'. Inr
              (\<lparr>credits_added = credits_per_code batch,
                rr_balance = (case cr_balance svc u cr' of Some b \<Rightarrow> b | None \<Rightarrow> credits_per_code batch),
                batch_name = rb_name batch\<rparr>,
               db\<lparr>codes := cs, credits := cr'\<rparr>)))"

definition redeem ::
  "'c credit_service \<Rightarrow> (uuid \<Rightarrow> string) \<Rightarrow> 'h redeem_env \<Rightarrow> stamp \<Rightarrow> uuid \<Rightarrow> pystr
    \<Rightarrow> ('h, 'c) redeem_db \<Rightarrow> credit_error + (redeem_result \<times> ('h, 'c) redeem_db)" where
  "redeem svc ustr env st u raw db =
     rbind (redeem_check env (st_now st) raw db)
       (\<lambda>(code, batch). redeem_commit svc ustr st u code batch db)"

definition void_batch :: "uuid \<Rightarrow> ('h, 'c) redeem_db \<Rightarrow> nat \<times> ('h, 'c) redeem_db" where
  "void_batch bid db =
     (let hit = (\<lambda>c. rc_batch c = bid \<and> rc_status c = ''active'')
      in (length (filter hit (codes db)),
          db\<lparr>codes := map (\<lambda>c. if hit c then c\<lparr>rc_status := ''void''\<rparr> else c) (codes db)\<rparr>))"

section \<open>Listings\<close>

record batch_progress =
  bp_batch :: redeem_batch
  bp_total :: nat
  bp_redeemed :: nat
  bp_void :: nat
  bp_active :: nat

definition progress_of :: "'h redeem_code list \<Rightarrow> redeem_batch \<Rightarrow> batch_progress" where
  "progress_of cs b =
     (let mine = filter (\<lambda>c. rc_batch c = rb_id b) cs;
          flag = (\<lambda>status. length (filter (\<lambda>c. rc_status c = status) mine))
      in \<lparr>bp_batch = b, bp_total = length mine, bp_redeemed = flag ''redeemed'',
          bp_void = flag ''void'', bp_active = flag ''active''\<rparr>)"

definition status_filter :: "timestamp \<Rightarrow> string option \<Rightarrow> batch_progress \<Rightarrow> bool" where
  "status_filter now status bp =
     (if status = Some ''operable'' then bp_active bp > 0
      else if status = Some ''settled'' then bp_active bp = 0
      else if status = Some ''expired''
           then (case expires_at (bp_batch bp) of None \<Rightarrow> False | Some t \<Rightarrow> t \<le> now)
      else True)"

text \<open>\<open>ilike pattern s\<close> is the database's case-insensitive LIKE; a NULL note never matches.\<close>

definition search_filter :: "(string \<Rightarrow> string \<Rightarrow> bool) \<Rightarrow> string \<Rightarrow> redeem_batch \<Rightarrow> bool" where
  "search_filter ilike search b =
     (let term = py_strip search
      in term = [] \<or> ilike (like_pattern term) (rb_name b)
         \<or> (case rb_note b of None \<Rightarrow> False | Some s \<Rightarrow> ilike (like_pattern term) s))"

definition list_batches ::
  "(string \<Rightarrow> string \<Rightarrow> bool) \<Rightarrow> timestamp \<Rightarrow> int \<Rightarrow> int \<Rightarrow> string \<Rightarrow> string option
    \<Rightarrow> ('h, 'c) redeem_db \<Rightarrow> batch_progress list" where
  "list_batches ilike now limit offset search status db =
     take (nat (max 1 (min limit 500))) (drop (nat (max 0 offset))
       (filter (status_filter now status)
         (map (progress_of (codes db))
           (sort_key (\<lambda>b. (- rb_created b, rb_id b)) (filter (search_filter ilike search) (batches db))))))"

definition list_codes :: "uuid \<Rightarrow> int \<Rightarrow> int \<Rightarrow> ('h, 'c) redeem_db \<Rightarrow> 'h redeem_code list" where
  "list_codes bid limit offset db =
     take (nat (max 1 (min limit 1000))) (drop (nat (max 0 offset))
       (sort_key rc_created (filter (\<lambda>c. rc_batch c = bid) (codes db))))"

end
