(* ===== verification/Redeem_Claims.thy ===== *)
theory Redeem_Claims
  imports Redeem
begin

text \<open>
  What redemption promises, proved against the interface \<open>credit_provider\<close> and obtained
  for the ledger: under any interleaving of checks, commits, voids and batch creations, a
  code pays its face value at most once, to the user the row names.
\<close>

section \<open>Interleaved requests\<close>

text \<open>A request between its checks and its commit holds the two rows it read.\<close>

type_synonym ('h, 'c) redeem_world = "('h, 'c) redeem_db \<times> (uuid \<times> 'h redeem_code \<times> redeem_batch) list"

definition fresh_env :: "'h redeem_env \<Rightarrow> ('h, 'c) redeem_db \<Rightarrow> bool" where
  "fresh_env env db \<longleftrightarrow> inj (fresh_id env)
     \<and> (\<forall>j. fresh_id env j \<notin> rc_id ` set (codes db) \<union> rb_id ` set (batches db))"

inductive redeem_step ::
  "'c credit_service \<Rightarrow> (string \<Rightarrow> 'c \<Rightarrow> (uuid \<times> int) list) \<Rightarrow> (uuid \<Rightarrow> string)
    \<Rightarrow> ('h, 'c) redeem_world \<Rightarrow> ('h, 'c) redeem_world \<Rightarrow> bool"
  for svc credited ustr where
  created: "create_batch env p now admin name per_code count expiry bnote db = Inr (b, plain, db')
    \<Longrightarrow> fresh_env env db \<Longrightarrow> redeem_step svc credited ustr (db, pend) (db', pend)"
| checked: "redeem_check env now raw db = Inr (code, batch)
    \<Longrightarrow> redeem_step svc credited ustr (db, pend) (db, (u, code, batch) # pend)"
| committed: "(u, code, batch) \<in> set pend \<Longrightarrow> redeem_commit svc ustr st u code batch db = Inr (res, db')
    \<Longrightarrow> redeem_step svc credited ustr (db, pend) (db', remove1 (u, code, batch) pend)"
| rejected: "(u, code, batch) \<in> set pend \<Longrightarrow> redeem_commit svc ustr st u code batch db = Inl e
    \<Longrightarrow> redeem_step svc credited ustr (db, pend) (db, remove1 (u, code, batch) pend)"
| voided: "void_batch bid db = (n, db') \<Longrightarrow> redeem_step svc credited ustr (db, pend) (db', pend)"
| other_credit: "(\<And>k. credited k cr' = credited k (credits db))
    \<Longrightarrow> redeem_step svc credited ustr (db, pend) (db\<lparr>credits := cr'\<rparr>, pend)"

inductive redeem_run for svc credited ustr where
  redeem_refl: "redeem_run svc credited ustr w w"
| redeem_trans: "redeem_run svc credited ustr w w' \<Longrightarrow> redeem_step svc credited ustr w' w''
    \<Longrightarrow> redeem_run svc credited ustr w w''"

definition initial_redeem :: "'c \<Rightarrow> ('h, 'c) redeem_world" where
  "initial_redeem cr = (\<lparr>codes = [], batches = [], credits = cr\<rparr>, [])"

section \<open>The invariant\<close>

definition code_paid ::
  "(string \<Rightarrow> 'c \<Rightarrow> (uuid \<times> int) list) \<Rightarrow> (uuid \<Rightarrow> string) \<Rightarrow> redeem_batch \<Rightarrow> 'h redeem_code \<Rightarrow> 'c \<Rightarrow> bool" where
  "code_paid credited ustr b c cr \<longleftrightarrow>
     credited (ustr (rc_id c)) cr
       = (if rc_status c = ''redeemed'' then [(the (redeemed_by c), credits_per_code b)] else [])"

definition code_rows_ok ::
  "(string \<Rightarrow> 'c \<Rightarrow> (uuid \<times> int) list) \<Rightarrow> (uuid \<Rightarrow> string) \<Rightarrow> redeem_batch list \<Rightarrow> 'c \<Rightarrow> 'h redeem_code list \<Rightarrow> bool" where
  "code_rows_ok credited ustr bs cr cs \<longleftrightarrow> distinct (map rc_id cs)
     \<and> (\<forall>c \<in> set cs. rc_status c \<in> {''active'', ''redeemed'', ''void''}
          \<and> rc_batch c \<in> rb_id ` set bs
          \<and> (\<forall>b \<in> set bs. rb_id b = rc_batch c \<longrightarrow> code_paid credited ustr b c cr))
     \<and> (\<forall>k. k \<notin> ustr ` rc_id ` set cs \<longrightarrow> credited k cr = [])"

definition pend_ok ::
  "redeem_batch list \<Rightarrow> 'h redeem_code list \<Rightarrow> (uuid \<times> 'h redeem_code \<times> redeem_batch) list \<Rightarrow> bool" where
  "pend_ok bs cs pend \<longleftrightarrow> (\<forall>(u, c, b) \<in> set pend. b \<in> set bs \<and> rb_id b = rc_batch c
     \<and> (\<exists>c' \<in> set cs. rc_id c' = rc_id c \<and> rc_batch c' = rc_batch c))"

definition redeem_inv ::
  "(string \<Rightarrow> 'c \<Rightarrow> (uuid \<times> int) list) \<Rightarrow> (uuid \<Rightarrow> string) \<Rightarrow> ('h, 'c) redeem_world \<Rightarrow> bool" where
  "redeem_inv credited ustr w \<longleftrightarrow>
     (let (db, pend) = w in
        distinct (map rb_id (batches db)) \<and> (\<forall>b \<in> set (batches db). 0 < credits_per_code b)
        \<and> code_rows_ok credited ustr (batches db) (credits db) (codes db)
        \<and> pend_ok (batches db) (codes db) pend)"

lemma redeem_inv_initial: "(\<And>k. credited k cr = []) \<Longrightarrow> redeem_inv credited ustr (initial_redeem cr)"
  by (simp add: redeem_inv_def initial_redeem_def code_rows_ok_def pend_ok_def)

lemma unique_by_key: "distinct (map f xs) \<Longrightarrow> x \<in> set xs \<Longrightarrow> y \<in> set xs \<Longrightarrow> f x = f y \<Longrightarrow> x = y"
  by (auto simp: distinct_map inj_on_def)

text \<open>An update of the rows that keeps identifiers and batches.\<close>

lemma code_rows_map:
  assumes "code_rows_ok credited ustr bs cr cs"
    and f: "\<And>x. x \<in> set cs \<Longrightarrow> rc_id (f x) = rc_id x \<and> rc_batch (f x) = rc_batch x
      \<and> rc_status (f x) \<in> {''active'', ''redeemed'', ''void''}"
    and "\<And>x b. x \<in> set cs \<Longrightarrow> b \<in> set bs \<Longrightarrow> rb_id b = rc_batch x \<Longrightarrow> code_paid credited ustr b (f x) cr'"
    and "\<And>k. k \<notin> ustr ` rc_id ` set cs \<Longrightarrow> credited k cr' = []"
  shows "code_rows_ok credited ustr bs cr' (map f cs)"
proof -
  have ids: "map rc_id (map f cs) = map rc_id cs" using f by simp
  then have set_ids: "rc_id ` set (map f cs) = rc_id ` set cs" by (metis set_map)
  show ?thesis
    unfolding code_rows_ok_def ids set_ids
  proof (intro conjI ballI impI allI)
    show "distinct (map rc_id cs)" using assms(1) by (simp add: code_rows_ok_def)
    show "credited k cr' = []" if "k \<notin> ustr ` rc_id ` set cs" for k using that by (rule assms(4))
    fix c assume "c \<in> set (map f cs)"
    then obtain x where x: "x \<in> set cs" "c = f x" by auto
    show "rc_status c \<in> {''active'', ''redeemed'', ''void''}" using f [OF x(1)] x(2) by simp
    show "rc_batch c \<in> rb_id ` set bs" using f [OF x(1)] x assms(1) by (simp add: code_rows_ok_def)
    show "code_paid credited ustr b c cr'" if "b \<in> set bs" "rb_id b = rc_batch c" for b
      using that f [OF x(1)] x(2) assms(3) [OF x(1)] by simp
  qed
qed

lemma code_rows_append:
  assumes "code_rows_ok credited ustr bs cr cs" "distinct (map rc_id new)"
    and "rc_id ` set cs \<inter> rc_id ` set new = {}"
    and new: "\<And>c. c \<in> set new \<Longrightarrow> rc_status c = ''active'' \<and> rc_batch c = rb_id b \<and> credited (ustr (rc_id c)) cr = []"
    and old: "\<And>c. c \<in> set cs \<Longrightarrow> rc_batch c \<noteq> rb_id b"
  shows "code_rows_ok credited ustr (bs @ [b]) cr (cs @ new)"
  unfolding code_rows_ok_def
proof (intro conjI ballI allI impI)
  show "distinct (map rc_id (cs @ new))" using assms(1-3) by (simp add: code_rows_ok_def)
  show "credited k cr = []" if "k \<notin> ustr ` rc_id ` set (cs @ new)" for k
    using that assms(1) by (simp add: code_rows_ok_def image_Un)
  fix c assume "c \<in> set (cs @ new)"
  then consider "c \<in> set cs" | "c \<in> set new" by auto
  note c = this
  show "rc_status c \<in> {''active'', ''redeemed'', ''void''}"
    using c by cases (use new assms(1) in \<open>simp_all add: code_rows_ok_def\<close>)
  show "rc_batch c \<in> rb_id ` set (bs @ [b])"
    using c by cases (use new assms(1) in \<open>simp_all add: code_rows_ok_def\<close>)
  show "code_paid credited ustr b' c cr" if "b' \<in> set (bs @ [b])" "rb_id b' = rc_batch c" for b'
    using c
  proof cases
    case 1
    then have "b' \<in> set bs" using that old [OF 1] by auto
    then show ?thesis using 1 that(2) assms(1) by (simp add: code_rows_ok_def)
  qed (simp add: code_paid_def new)
qed

lemma row_kept:
  "\<exists>c \<in> set cs. rc_id c = i \<and> rc_batch c = j \<Longrightarrow> (\<And>x. rc_id (f x) = rc_id x \<and> rc_batch (f x) = rc_batch x)
    \<Longrightarrow> \<exists>c \<in> set (map f cs). rc_id c = i \<and> rc_batch c = j"
  by force

lemma pend_ok_map:
  assumes "pend_ok bs cs pend" "\<And>x. rc_id (f x) = rc_id x \<and> rc_batch (f x) = rc_batch x"
  shows "pend_ok bs (map f cs) pend"
  using assms(1) row_kept [OF _ assms(2), of cs] by (force simp: pend_ok_def simp del: set_map)

lemma pend_ok_mono:
  "pend_ok bs cs pend \<Longrightarrow> set bs \<subseteq> set bs' \<Longrightarrow> set cs \<subseteq> set cs' \<Longrightarrow> set pend' \<subseteq> set pend \<Longrightarrow> pend_ok bs' cs' pend'"
  unfolding pend_ok_def by fast

lemma pend_ok_remove1: "pend_ok bs cs pend \<Longrightarrow> pend_ok bs cs (remove1 x pend)"
  by (erule pend_ok_mono) (simp_all add: set_remove1_subset)

subsection \<open>Creating a batch\<close>

lemma create_batch_ok:
  assumes "create_batch env p now admin name per_code count expiry bnote db = Inr (b, plain, db')"
  obtains new where "batches db' = batches db @ [b]" "codes db' = codes db @ new" "credits db' = credits db"
    "0 < credits_per_code b" "rb_id b = fresh_id env 0"
    "map rc_id new = map (\<lambda>j. fresh_id env (Suc j)) [0..<length new]"
    "\<forall>c \<in> set new. rc_status c = ''active'' \<and> rc_batch c = rb_id b"
proof -
  from assms obtain drawn where d:
    "db' = db\<lparr>batches := batches db @ [b],
       codes := codes db @ map2 (\<lambda>j c. new_code env now (rb_id b) j c) [0..<length drawn] drawn\<rparr>"
    "0 < per_code" "credits_per_code b = per_code" "rb_id b = fresh_id env 0"
    by (auto simp: create_batch_def batch_error_def Let_def result_simps split: option.splits if_splits)
  let ?new = "map2 (\<lambda>j c. new_code env now (rb_id b) j c) [0..<length drawn] drawn"
  have "map rc_id ?new = map (\<lambda>j. fresh_id env (Suc j)) [0..<length ?new]"
    by (auto simp: new_code_def intro!: nth_equalityI)
  moreover have "\<forall>c \<in> set ?new. rc_status c = ''active'' \<and> rc_batch c = rb_id b"
    by (auto simp: new_code_def)
  ultimately show thesis using that [of ?new] d by simp
qed

lemma created_inv:
  assumes inv: "redeem_inv credited ustr (db, pend)" and "inj ustr"
    and cb: "create_batch env p now admin name per_code count expiry bnote db = Inr (b, plain, db')"
    and fresh: "fresh_env env db"
  shows "redeem_inv credited ustr (db', pend)"
proof -
  obtain new where n: "batches db' = batches db @ [b]" "codes db' = codes db @ new" "credits db' = credits db"
    "0 < credits_per_code b" "rb_id b = fresh_id env 0"
    "map rc_id new = map (\<lambda>j. fresh_id env (Suc j)) [0..<length new]"
    "\<forall>c \<in> set new. rc_status c = ''active'' \<and> rc_batch c = rb_id b"
    using create_batch_ok [OF cb] by metis
  have ids: "rc_id ` set new = (\<lambda>j. fresh_id env (Suc j)) ` {0..<length new}"
    using arg_cong [OF n(6), of set] by simp
  have inj: "inj (fresh_id env)" and unused: "\<And>j. fresh_id env j \<notin> rc_id ` set (codes db)"
    "\<And>j. fresh_id env j \<notin> rb_id ` set (batches db)"
    using fresh by (auto simp: fresh_env_def)
  have "distinct (map rc_id new)" unfolding n(6) using inj by (auto simp: distinct_map inj_on_def)
  moreover have "rc_id ` set (codes db) \<inter> rc_id ` set new = {}" using unused(1) by (simp only: ids) (metis (no_types, lifting) disjoint_iff imageE)
  moreover have "credited (ustr (rc_id c)) (credits db) = []" if "c \<in> set new" for c
  proof -
    have "rc_id c \<in> (\<lambda>j. fresh_id env (Suc j)) ` {0..<length new}" using that ids by blast
    then have "rc_id c \<notin> rc_id ` set (codes db)" using unused(1) by (metis (no_types, lifting) imageE)
    then have "ustr (rc_id c) \<notin> ustr ` rc_id ` set (codes db)" using assms(2) by (auto dest: injD)
    then show ?thesis using inv by (simp add: redeem_inv_def code_rows_ok_def)
  qed
  moreover have "rc_batch c \<noteq> rb_id b" if "c \<in> set (codes db)" for c
  proof -
    have "rc_batch c \<in> rb_id ` set (batches db)" using that inv by (auto simp: redeem_inv_def code_rows_ok_def)
    then show ?thesis using unused(2) [of 0] n(5) by metis
  qed
  ultimately have "code_rows_ok credited ustr (batches db') (credits db') (codes db')"
    unfolding n(1-3) by (intro code_rows_append) (use inv n(7) in \<open>auto simp: redeem_inv_def\<close>)
  moreover have "rb_id b \<notin> rb_id ` set (batches db)" using unused(2) n(5) by metis
  then have "distinct (map rb_id (batches db'))" using inv n(1) by (auto simp: redeem_inv_def)
  moreover have "pend_ok (batches db') (codes db') pend"
    using inv n(1,2) by (auto simp: redeem_inv_def intro: pend_ok_mono)
  ultimately show ?thesis using inv n(1,4) by (simp add: redeem_inv_def)
qed

subsection \<open>Checks and commits\<close>

lemma redeem_check_ok:
  "redeem_check env now raw db = Inr (code, batch) \<longleftrightarrow>
     normalize_code (unicode env) raw \<noteq> []
     \<and> find_code (digest env (normalize_code (unicode env) raw)) db = Some (code, batch)
     \<and> rc_status code \<noteq> ''void'' \<and> rc_status code \<noteq> ''redeemed''
     \<and> (\<forall>t. expires_at batch = Some t \<longrightarrow> now < t)"
  by (auto simp: redeem_check_def Let_def not_le split: option.splits if_splits)

lemma find_code_rows:
  "find_code h db = Some (code, batch) \<Longrightarrow>
     code \<in> set (codes db) \<and> code_hash code = h \<and> batch \<in> set (batches db) \<and> rb_id batch = rc_batch code"
  by (auto simp: find_code_def dest!: find_SomeD split: option.splits)

lemma cas_count:
  assumes "distinct (map rc_id cs)" "c \<in> set cs"
  shows "fst (cas_redeemed u now (rc_id c) cs) = (if rc_status c = ''active'' then 1 else 0)"
proof -
  have "filter (\<lambda>x. rc_id x = rc_id c \<and> rc_status x = ''active'') cs = (if rc_status c = ''active'' then [c] else [])"
    using assms by (induction cs) (auto simp: filter_empty_conv image_iff)
  then show ?thesis by (simp add: cas_redeemed_def)
qed

lemma cas_rows:
  "snd (cas_redeemed u now cid cs)
     = map (\<lambda>c. if rc_id c = cid \<and> rc_status c = ''active'' then claim_code u now c else c) cs"
  by (simp add: cas_redeemed_def)

lemma cas_ids: "map rc_id (snd (cas_redeemed u now cid cs)) = map rc_id cs"
  by (simp add: cas_rows claim_code_def)

lemma void_rows_inv:
  assumes "redeem_inv credited ustr (db, pend)" "void_batch bid db = (n, db')"
  shows "redeem_inv credited ustr (db', pend)"
proof -
  let ?v = "\<lambda>c. if rc_batch c = bid \<and> rc_status c = ''active'' then c\<lparr>rc_status := ''void''\<rparr> else c"
  have inv: "code_rows_ok credited ustr (batches db) (credits db) (codes db)"
    using assms(1) by (simp add: redeem_inv_def)
  have db': "db' = db\<lparr>codes := map ?v (codes db)\<rparr>" using assms(2) by (simp add: void_batch_def Let_def)
  have rows: "code_rows_ok credited ustr (batches db) (credits db) (map ?v (codes db))"
    by (rule code_rows_map [OF inv]) (use inv in \<open>auto simp: code_rows_ok_def code_paid_def\<close>)
  have "pend_ok (batches db) (map ?v (codes db)) pend"
    using assms(1) by (intro pend_ok_map) (simp_all add: redeem_inv_def)
  then show ?thesis using assms(1) rows by (simp add: redeem_inv_def db')
qed

text \<open>What a credit provider promises: a positive amount for a reference not yet credited is
  credited to the user, once, and raises the user's balance by it.\<close>

locale credit_provider =
  fixes svc :: "'c credit_service" and credited :: "string \<Rightarrow> 'c \<Rightarrow> (uuid \<times> int) list"
    and bal :: "uuid \<Rightarrow> 'c \<Rightarrow> int"
  assumes grant_new: "0 < amt \<Longrightarrow> credited k cr = [] \<Longrightarrow>
      \<exists>cr'. cr_grant svc st u amt k nt cr = Inr cr' \<and> credited k cr' = [(u, amt)]
        \<and> (\<forall>k'. k' \<noteq> k \<longrightarrow> credited k' cr' = credited k' cr)
        \<and> cr_balance svc u cr' = Some (bal u cr') \<and> bal u cr' = bal u cr + amt
        \<and> (\<forall>v. v \<noteq> u \<longrightarrow> bal v cr' = bal v cr)"
begin

lemma commit_ok:
  assumes inv: "redeem_inv credited ustr (db, pend)"
    and row: "c \<in> set (codes db)" "rc_id c = rc_id code" "rc_batch c = rc_batch code"
    and batch: "batch \<in> set (batches db)" "rb_id batch = rc_batch code"
  shows "rc_status c \<noteq> ''active'' \<Longrightarrow>
      redeem_commit svc ustr st u code batch db = Inl (CreditError ''redeem_code_used'' 409)"
    and "rc_status c = ''active'' \<Longrightarrow> \<exists>cr'.
      redeem_commit svc ustr st u code batch db =
        Inr (\<lparr>credits_added = credits_per_code batch, rr_balance = bal u (credits db) + credits_per_code batch,
               batch_name = rb_name batch\<rparr>,
             db\<lparr>codes := snd (cas_redeemed u (st_now st) (rc_id code) (codes db)), credits := cr'\<rparr>)
      \<and> credited (ustr (rc_id code)) cr' = [(u, credits_per_code batch)]
      \<and> (\<forall>k. k \<noteq> ustr (rc_id code) \<longrightarrow> credited k cr' = credited k (credits db))
      \<and> bal u cr' = bal u (credits db) + credits_per_code batch
      \<and> (\<forall>v. v \<noteq> u \<longrightarrow> bal v cr' = bal v (credits db))"
proof -
  have cnt: "fst (cas_redeemed u (st_now st) (rc_id code) (codes db)) = (if rc_status c = ''active'' then 1 else 0)"
    using cas_count [of "codes db" c] inv row by (simp add: redeem_inv_def code_rows_ok_def)
  show "rc_status c \<noteq> ''active'' \<Longrightarrow> redeem_commit svc ustr st u code batch db = Inl (CreditError ''redeem_code_used'' 409)"
    using cnt by (simp add: redeem_commit_def case_prod_beta Let_def)
  assume act: "rc_status c = ''active''"
  have "0 < credits_per_code batch" "credited (ustr (rc_id code)) (credits db) = []"
    using inv row batch act by (auto simp: redeem_inv_def code_rows_ok_def code_paid_def simp flip: row(2))
  from grant_new [OF this, of st u "rb_name batch"] obtain cr' where
    "cr_grant svc st u (credits_per_code batch) (ustr (rc_id code)) (rb_name batch) (credits db) = Inr cr'"
    "credited (ustr (rc_id code)) cr' = [(u, credits_per_code batch)]"
    "\<forall>k. k \<noteq> ustr (rc_id code) \<longrightarrow> credited k cr' = credited k (credits db)"
    "cr_balance svc u cr' = Some (bal u cr')" "bal u cr' = bal u (credits db) + credits_per_code batch"
    "\<forall>v. v \<noteq> u \<longrightarrow> bal v cr' = bal v (credits db)"
    by blast
  then show "\<exists>cr'. redeem_commit svc ustr st u code batch db =
        Inr (\<lparr>credits_added = credits_per_code batch, rr_balance = bal u (credits db) + credits_per_code batch,
               batch_name = rb_name batch\<rparr>,
             db\<lparr>codes := snd (cas_redeemed u (st_now st) (rc_id code) (codes db)), credits := cr'\<rparr>)
      \<and> credited (ustr (rc_id code)) cr' = [(u, credits_per_code batch)]
      \<and> (\<forall>k. k \<noteq> ustr (rc_id code) \<longrightarrow> credited k cr' = credited k (credits db))
      \<and> bal u cr' = bal u (credits db) + credits_per_code batch
      \<and> (\<forall>v. v \<noteq> u \<longrightarrow> bal v cr' = bal v (credits db))"
    using cnt act by (intro exI [of _ cr']) (simp add: redeem_commit_def case_prod_beta Let_def)
qed

lemma committed_rows:
  assumes inv: "redeem_inv credited ustr (db, pend)" and "inj ustr"
    and row: "c \<in> set (codes db)" "rc_id c = cid" "rc_status c = ''active''"
    and b: "batch \<in> set (batches db)" "rb_id batch = rc_batch c"
    and cr: "credited (ustr cid) cr' = [(u, credits_per_code batch)]"
      "\<forall>k. k \<noteq> ustr cid \<longrightarrow> credited k cr' = credited k (credits db)"
  shows "code_rows_ok credited ustr (batches db) cr' (snd (cas_redeemed u now cid (codes db)))"
proof -
  have rows: "code_rows_ok credited ustr (batches db) (credits db) (codes db)"
    and db: "distinct (map rb_id (batches db))" using inv by (simp_all add: redeem_inv_def)
  let ?f = "\<lambda>x. if rc_id x = cid \<and> rc_status x = ''active'' then claim_code u now x else x"
  have same: "x = c" if "x \<in> set (codes db)" "rc_id x = cid" for x
    using rows that row by (auto simp: code_rows_ok_def dest: unique_by_key)
  have paid: "code_paid credited ustr b' (?f x) cr'"
    if "x \<in> set (codes db)" "b' \<in> set (batches db)" "rb_id b' = rc_batch x" for x b'
  proof (cases "rc_id x = cid")
    case True
    then have "x = c" "b' = batch" using same that b db unique_by_key by metis+
    then show ?thesis using row cr(1) True by (simp add: code_paid_def claim_code_def)
  next
    case False
    then have "ustr (rc_id x) \<noteq> ustr cid" using assms(2) by (auto dest: injD)
    then show ?thesis using rows that cr(2) False by (auto simp: code_rows_ok_def code_paid_def)
  qed
  have "credited k cr' = []" if "k \<notin> ustr ` rc_id ` set (codes db)" for k
  proof -
    have "k \<noteq> ustr cid" using that row by auto
    then show ?thesis using that rows cr(2) by (simp add: code_rows_ok_def)
  qed
  then show ?thesis
    unfolding cas_rows by (intro code_rows_map [OF rows] paid) (use rows in \<open>auto simp: code_rows_ok_def claim_code_def\<close>)
qed

lemma step_inv:
  assumes "redeem_step svc credited ustr w w'" "redeem_inv credited ustr w" "inj ustr"
  shows "redeem_inv credited ustr w'"
  using assms
proof (cases rule: redeem_step.cases)
  case (committed u code batch pend st db res db')
  have inv: "redeem_inv credited ustr (db, pend)" using assms(2) committed(1) by simp
  then obtain c where c: "c \<in> set (codes db)" "rc_id c = rc_id code" "rc_batch c = rc_batch code"
    and b: "batch \<in> set (batches db)" "rb_id batch = rc_batch code"
    using committed(3) by (fastforce simp: redeem_inv_def pend_ok_def)
  have act: "rc_status c = ''active''" using commit_ok(1) [OF inv c b] committed(4) by (metis sum.distinct(1))
  obtain cr' where cr: "db' = db\<lparr>codes := snd (cas_redeemed u (st_now st) (rc_id code) (codes db)), credits := cr'\<rparr>"
    "credited (ustr (rc_id code)) cr' = [(u, credits_per_code batch)]"
    "\<forall>k. k \<noteq> ustr (rc_id code) \<longrightarrow> credited k cr' = credited k (credits db)"
    using commit_ok(2) [OF inv c b act, of st u] committed(4) by auto
  have rows: "code_rows_ok credited ustr (batches db') (credits db') (codes db')"
    using committed_rows [OF inv assms(3) c(1,2) act b(1) _ cr(2,3)] b(2) c(3) cr(1) by simp
  have "pend_ok (batches db') (codes db') pend"
    using pend_ok_map [of "batches db" "codes db" pend
        "\<lambda>x. if rc_id x = rc_id code \<and> rc_status x = ''active'' then claim_code u (st_now st) x else x"] inv
    by (simp add: cr(1) cas_rows redeem_inv_def claim_code_def)
  then have "pend_ok (batches db') (codes db') (remove1 (u, code, batch) pend)" by (rule pend_ok_remove1)
  then show ?thesis using inv rows committed(2) cr(1) by (simp add: redeem_inv_def)
next
  case (rejected u code batch pend st db e)
  then show ?thesis using assms(2) by (simp add: redeem_inv_def pend_ok_remove1)
next
  case (checked env now raw db code batch pend u)
  have "code \<in> set (codes db)" "batch \<in> set (batches db)" "rb_id batch = rc_batch code"
    using checked(3) by (auto simp: redeem_check_ok dest: find_code_rows)
  then show ?thesis using assms(2) checked by (auto simp: redeem_inv_def pend_ok_def)
next
  case (other_credit cr' db pend)
  then show ?thesis using assms(2) by (simp add: redeem_inv_def code_rows_ok_def code_paid_def)
qed (auto intro: created_inv void_rows_inv)

lemma run_inv:
  "redeem_run svc credited ustr w w' \<Longrightarrow> redeem_inv credited ustr w \<Longrightarrow> inj ustr \<Longrightarrow> redeem_inv credited ustr w'"
  by (induction rule: redeem_run.induct) (auto intro: step_inv)

end

section \<open>The ledger is a credit provider\<close>

definition ledger_service :: "credit_db credit_service" where
  "ledger_service =
     \<lparr>cr_grant = (\<lambda>st u amt k nt cr.
        map_sum id snd (grant st u amt ''redeem'' (Some ''redeem_code'') (Some k) (Some u) (Some nt) cr)),
      cr_balance = (\<lambda>u cr. map_option acc_balance (read_account u cr))\<rparr>"

definition redeem_entry :: "string \<Rightarrow> ledger_entry \<Rightarrow> bool" where
  "redeem_entry k e \<longleftrightarrow> reason e = ''redeem'' \<and> ref_type e = Some ''redeem_code'' \<and> ref_id e = Some k"

text \<open>What the ledger credited for a code: user and amount of each such entry.\<close>

definition ledger_credited :: "string \<Rightarrow> credit_db \<Rightarrow> (uuid \<times> int) list" where
  "ledger_credited k cr = map (\<lambda>e. (le_user e, le_delta e)) (filter (redeem_entry k) (ledger cr))"

abbreviation balance_of :: "uuid \<Rightarrow> credit_db \<Rightarrow> int" where
  "balance_of u cr \<equiv> acc_balance (acct_of u cr)"

lemma read_after_post:
  "fst (post_entry st u a cr) \<noteq> None \<Longrightarrow> read_account u (snd (post_entry st u a cr)) = Some (acct_of u (snd (post_entry st u a cr)))"
  by (auto simp: post_entry_def write_entry_def read_account_def acct_of_lookup dict_simps Let_def split_beta
      split: if_splits)

lemma ledger_grant_new:
  assumes "0 < amt" "ledger_credited k cr = []"
  shows "\<exists>cr'. cr_grant ledger_service st u amt k nt cr = Inr cr' \<and> ledger_credited k cr' = [(u, amt)]
    \<and> (\<forall>k'. k' \<noteq> k \<longrightarrow> ledger_credited k' cr' = ledger_credited k' cr)
    \<and> cr_balance ledger_service u cr' = Some (balance_of u cr') \<and> balance_of u cr' = balance_of u cr + amt
    \<and> (\<forall>v. v \<noteq> u \<longrightarrow> balance_of v cr' = balance_of v cr)"
proof -
  let ?a = "\<lparr>ea_delta = amt, ea_reason = ''redeem'', ea_ref_type = Some ''redeem_code'', ea_ref_id = Some k,
     ea_actor_id = Some u, ea_note = Some nt, ea_lifetime = True\<rparr>"
  show ?thesis
  proof (cases rule: post_entry_cases [of st u ?a cr])
    case conflict
    then have "\<exists>e \<in> set (ledger cr). redeem_entry k e"
      by (auto simp: violates_ref_index_def list_ex_iff ref_conflict_def redeem_entry_def)
    then show ?thesis using assms(2) by (auto simp: ledger_credited_def filter_empty_conv)
  next
    case (fresh cr')
    have "cr_balance ledger_service u cr' = Some (balance_of u cr')"
      using read_after_post [of st u ?a cr] fresh(2) by (simp add: ledger_service_def)
    moreover have "cr_grant ledger_service st u amt k nt cr = Inr cr'"
      using fresh(2) assms(1) by (simp add: ledger_service_def grant_def)
    ultimately show ?thesis
      using fresh(3-5) assms(2)
      by (intro exI [of _ cr']) (auto simp: ledger_credited_def redeem_entry_def)
  qed
qed

interpretation ledger_credits: credit_provider ledger_service ledger_credited balance_of
  by unfold_locales (rule ledger_grant_new)

lemma redeem_run_inv:
  "redeem_run ledger_service ledger_credited ustr (initial_redeem empty_db) w \<Longrightarrow> inj ustr
    \<Longrightarrow> redeem_inv ledger_credited ustr w"
  by (erule ledger_credits.run_inv) (auto intro!: redeem_inv_initial simp: ledger_credited_def empty_db_def)

text \<open>C3: A code pays once. In every state reachable by batch creations, checks of any number
  of concurrent requests, their commits in any order, voids and other credit activity, the
  ledger rows credited for a code are exactly one entry of its batch's face value for the
  user the code's row names when the row is redeemed, and none otherwise.\<close>

theorem redeem_pays_once:
  assumes "redeem_run ledger_service ledger_credited ustr (initial_redeem empty_db) (db, pend)" "inj ustr"
    and "c \<in> set (codes db)" "b \<in> set (batches db)" "rb_id b = rc_batch c"
  shows "ledger_credited (ustr (rc_id c)) (credits db) =
    (if rc_status c = ''redeemed'' then [(the (redeemed_by c), credits_per_code b)] else [])"
  using redeem_run_inv [OF assms(1,2)] assms(3-5)
  by (auto simp: redeem_inv_def code_rows_ok_def code_paid_def)

text \<open>A store with one batch of two codes, and a client who redeems the first.\<close>

definition demo_env :: "pystr redeem_env" where
  "demo_env = \<lparr>digest = (\<lambda>s. s), unicode = ascii_db, fresh_id = (\<lambda>j. j), draw = (\<lambda>i. replicate 16 i)\<rparr>"

definition unary :: "uuid \<Rightarrow> string" where "unary u = replicate u CHR ''x''"

definition demo_now :: stamp where "demo_now = \<lparr>st_now = 5, st_uuid = 0\<rparr>"

definition demo_batch_db :: "(pystr, credit_db) redeem_db" where
  "demo_batch_db = (case create_batch demo_env default_credit_policy 5 None ''May'' 30 2 (Some 100) None
     \<lparr>codes = [], batches = [], credits = empty_db\<rparr> of Inr (_, _, db) \<Rightarrow> db)"

definition demo_redeemed_db :: "(pystr, credit_db) redeem_db" where
  "demo_redeemed_db = (case redeem ledger_service unary demo_env demo_now 9 (lit ''0000-0000-0000-0000'')
     demo_batch_db of Inr (_, db) \<Rightarrow> db)"

lemma demo_batch_created:
  "\<exists>b plain. create_batch demo_env default_credit_policy 5 None ''May'' 30 2 (Some 100) None
     \<lparr>codes = [], batches = [], credits = empty_db\<rparr> = Inr (b, plain, demo_batch_db)"
proof -
  have "is_ok (create_batch demo_env default_credit_policy 5 None ''May'' 30 2 (Some 100) None
     \<lparr>codes = [], batches = [], credits = empty_db\<rparr>)" by code_simp
  then show ?thesis unfolding demo_batch_db_def by (auto simp: is_ok_iff)
qed

lemma redeem_is_run:
  assumes "redeem svc ustr env st u raw db = Inr (res, db')" "redeem_run svc credited ustr w (db, [])"
  shows "redeem_run svc credited ustr w (db', [])"
proof -
  obtain code batch where c: "redeem_check env (st_now st) raw db = Inr (code, batch)"
    "redeem_commit svc ustr st u code batch db = Inr (res, db')"
    using assms(1) by (auto simp: redeem_def result_simps)
  have "redeem_step svc credited ustr (db, []) (db, [(u, code, batch)])"
    by (rule redeem_step.checked [OF c(1)])
  moreover have "redeem_step svc credited ustr (db, [(u, code, batch)]) (db', remove1 (u, code, batch) [(u, code, batch)])"
    by (rule redeem_step.committed [OF _ c(2)]) simp
  ultimately show ?thesis using assms(2) by (auto intro: redeem_run.redeem_trans)
qed

lemma demo_batch_run: "redeem_run ledger_service ledger_credited unary (initial_redeem empty_db) (demo_batch_db, [])"
proof -
  have "fresh_env demo_env \<lparr>codes = [], batches = [], credits = empty_db\<rparr>"
    by (simp add: fresh_env_def demo_env_def)
  then show ?thesis
    using demo_batch_created
    by (auto simp: initial_redeem_def intro!: redeem_run.redeem_trans [OF redeem_run.redeem_refl] intro: redeem_step.created)
qed

lemma inj_unary: "inj unary"
  by (auto simp: inj_def unary_def)

lemma demo_redeem: "\<exists>res. redeem ledger_service unary demo_env demo_now 9 (lit ''0000-0000-0000-0000'') demo_batch_db
    = Inr (res, demo_redeemed_db)"
proof -
  have "is_ok (redeem ledger_service unary demo_env demo_now 9 (lit ''0000-0000-0000-0000'') demo_batch_db)"
    by code_simp
  then show ?thesis unfolding demo_redeemed_db_def by (auto simp: is_ok_iff)
qed

theorem redeem_pays_once_witness:
  "\<exists>c \<in> set (codes demo_redeemed_db). rc_status c = ''redeemed''
     \<and> ledger_credited (unary (rc_id c)) (credits demo_redeemed_db) = [(9, 30)]"
proof -
  have run: "redeem_run ledger_service ledger_credited unary (initial_redeem empty_db) (demo_redeemed_db, [])"
    using redeem_is_run [OF _ demo_batch_run] demo_redeem by blast
  have *: "\<exists>c \<in> set (codes demo_redeemed_db). \<exists>b \<in> set (batches demo_redeemed_db). rb_id b = rc_batch c
    \<and> rc_status c = ''redeemed'' \<and> the (redeemed_by c) = 9 \<and> credits_per_code b = 30" by code_simp
  then obtain c b where c: "c \<in> set (codes demo_redeemed_db)" "b \<in> set (batches demo_redeemed_db)"
    "rb_id b = rc_batch c" "rc_status c = ''redeemed''" "the (redeemed_by c) = 9" "credits_per_code b = 30"
    by blast
  then show ?thesis using redeem_pays_once [OF run inj_unary c(1-3)] by auto
qed

text \<open>What a successful redemption does. In a reachable state with distinct hashes, when a
  request is accepted the user's balance rises by exactly the batch's face value, nobody
  else's moves, the result reports that value and the new balance, and every later request
  with the same text, by anyone, is answered 409.\<close>

theorem redeem_effect:
  assumes run: "redeem_run ledger_service ledger_credited ustr (initial_redeem empty_db) (db, pend)" "inj ustr"
    and ok: "redeem ledger_service ustr env st u raw db = Inr (res, db')"
    and unique: "distinct (map code_hash (codes db))"
  shows "balance_of u (credits db') = balance_of u (credits db) + credits_added res
    \<and> (\<forall>v. v \<noteq> u \<longrightarrow> balance_of v (credits db') = balance_of v (credits db))
    \<and> rr_balance res = balance_of u (credits db')
    \<and> redeem ledger_service ustr env st' u' raw db' = Inl (CreditError ''redeem_code_used'' 409)"
proof -
  obtain code batch where c: "redeem_check env (st_now st) raw db = Inr (code, batch)"
    "redeem_commit ledger_service ustr st u code batch db = Inr (res, db')"
    using ok by (auto simp: redeem_def result_simps)
  define h where "h = digest env (normalize_code (unicode env) raw)"
  have found: "normalize_code (unicode env) raw \<noteq> []" "find_code h db = Some (code, batch)"
    using c(1) by (simp_all add: redeem_check_ok h_def)
  then have rows: "code \<in> set (codes db)" "code_hash code = h" "batch \<in> set (batches db)" "rb_id batch = rc_batch code"
    by (auto dest: find_code_rows)
  have inv: "redeem_inv ledger_credited ustr (db, pend)" by (rule redeem_run_inv [OF run])
  have act: "rc_status code = ''active''"
    using ledger_credits.commit_ok(1) [OF inv rows(1) refl refl rows(3,4)] c(2) by (metis sum.distinct(1))
  obtain cr' where cr: "res = \<lparr>credits_added = credits_per_code batch,
      rr_balance = balance_of u (credits db) + credits_per_code batch, batch_name = rb_name batch\<rparr>"
    "db' = db\<lparr>codes := snd (cas_redeemed u (st_now st) (rc_id code) (codes db)), credits := cr'\<rparr>"
    "balance_of u cr' = balance_of u (credits db) + credits_per_code batch"
    "\<forall>v. v \<noteq> u \<longrightarrow> balance_of v cr' = balance_of v (credits db)"
    using ledger_credits.commit_ok(2) [OF inv rows(1) refl refl rows(3,4) act, of st u] c(2) by auto
  let ?f = "\<lambda>x. if rc_id x = rc_id code \<and> rc_status x = ''active'' then claim_code u (st_now st) x else x"
  have "List.find (\<lambda>x. code_hash x = h) (map ?f cs) = map_option ?f (List.find (\<lambda>x. code_hash x = h) cs)" for cs
    by (induction cs) (auto simp: claim_code_def)
  moreover have "List.find (\<lambda>x. code_hash x = h) (codes db) = Some code"
    "List.find (\<lambda>b. rb_id b = rc_batch code) (batches db) = Some batch"
    using found(2) by (auto simp: find_code_def split: option.splits)
  ultimately have "find_code h db' = Some (claim_code u (st_now st) code, batch)"
    using act by (simp add: find_code_def cr(2) cas_rows claim_code_def)
  then have "redeem_check env (st_now st') raw db' = Inl (CreditError ''redeem_code_used'' 409)"
    using found(1) by (simp add: redeem_check_def Let_def claim_code_def flip: h_def)
  then show ?thesis using cr by (simp add: redeem_def)
qed

theorem redeem_effect_witness:
  "balance_of 9 (credits demo_redeemed_db) = balance_of 9 (credits demo_batch_db) + 30
   \<and> redeem ledger_service unary demo_env demo_now 8 (lit ''0000-0000-0000-0000'') demo_redeemed_db
       = Inl (CreditError ''redeem_code_used'' 409)"
proof -
  obtain res where res: "redeem ledger_service unary demo_env demo_now 9 (lit ''0000-0000-0000-0000'') demo_batch_db
    = Inr (res, demo_redeemed_db)" using demo_redeem by blast
  have "case redeem ledger_service unary demo_env demo_now 9 (lit ''0000-0000-0000-0000'') demo_batch_db of
    Inr (r, _) \<Rightarrow> credits_added r = 30 | _ \<Rightarrow> False" "distinct (map code_hash (codes demo_batch_db))" by code_simp+
  then show ?thesis
    using redeem_effect [OF demo_batch_run inj_unary res, of demo_now 8] res by simp
qed

section \<open>Voiding and progress\<close>

text \<open>A void leaves no active code in the batch and every redeemed code as it was.\<close>

lemma void_batch_effect:
  fixes db :: "('h, 'c) redeem_db"
  assumes "void_batch bid db = (n, db')"
  shows "\<forall>c \<in> set (codes db'). rc_batch c = bid \<longrightarrow> rc_status c \<noteq> ''active''"
    and "filter (\<lambda>c. rc_status c = ''redeemed'') (codes db') = filter (\<lambda>c. rc_status c = ''redeemed'') (codes db)"
proof -
  let ?f = "\<lambda>c. if rc_batch c = bid \<and> rc_status c = ''active'' then c\<lparr>rc_status := ''void''\<rparr> else c"
  have codes': "codes db' = map ?f (codes db)"
    using arg_cong [OF assms, of "codes \<circ> snd"] by (simp add: void_batch_def Let_def)
  show "\<forall>c \<in> set (codes db'). rc_batch c = bid \<longrightarrow> rc_status c \<noteq> ''active''"
  proof
    fix c assume "c \<in> set (codes db')"
    then obtain x where "c = ?f x" unfolding codes' set_map by (elim imageE)
    then show "rc_batch c = bid \<longrightarrow> rc_status c \<noteq> ''active''" by simp
  qed
  have "filter (\<lambda>c. rc_status c = ''redeemed'') (map ?f cs) = filter (\<lambda>c. rc_status c = ''redeemed'') cs"
    for cs :: "'h redeem_code list"
    by (induction cs) auto
  then show "filter (\<lambda>c. rc_status c = ''redeemed'') (codes db') = filter (\<lambda>c. rc_status c = ''redeemed'') (codes db)"
    unfolding codes' .
qed

lemma status_partition:
  "\<forall>c \<in> set cs. rc_status c \<in> {''active'', ''redeemed'', ''void''} \<Longrightarrow>
     length (filter (\<lambda>c. rc_status c = ''redeemed'') cs) + length (filter (\<lambda>c. rc_status c = ''void'') cs)
       + length (filter (\<lambda>c. rc_status c = ''active'') cs) = length cs"
  by (induction cs) auto

end
