(* ===== verification/Budget.thy ===== *)
theory Budget
  imports Floats Prelude
begin

text \<open>
  Hard budgets of a run (\<open>agents/policies/budget_policy.py\<close>): the validated limits with
  their per-run overrides, and the guard that meters steps, tool calls, replans, tokens,
  cost and time. Values that arrive untyped (overrides, usage mappings) are
  \<open>py_value\<close>s; costs and times are binary64. The monotonic clock is an argument.
\<close>

section \<open>Untyped values\<close>

datatype py_value = VBool bool | VInt int | VFloat rat | VInf bool | VNan | VOther

datatype budget_error = ValueError string | TypeError | BudgetExceeded string

text \<open>The number a value is, when it is a finite one.\<close>

fun as_number :: "py_value \<Rightarrow> rat option" where
  "as_number (VBool b) = Some (if b then 1 else 0)"
| "as_number (VInt n) = Some (of_int n)"
| "as_number (VFloat x) = Some x"
| "as_number _ = None"

definition num :: "py_value \<Rightarrow> rat" where
  "num v = (case as_number v of Some x \<Rightarrow> x | None \<Rightarrow> 0)"

text \<open>\<open>not isinstance(value, bool) and isinstance(value, int)\<close> with a lower bound.\<close>

fun int_at_least :: "int \<Rightarrow> py_value \<Rightarrow> bool" where
  "int_at_least lo (VInt n) = (lo \<le> n)"
| "int_at_least lo _ = False"

text \<open>A \<open>Real\<close> that is not a bool, finite and positive as a float.\<close>

fun finite_positive :: "py_value \<Rightarrow> bool" where
  "finite_positive (VInt n) = (0 < float_of_int n)"
| "finite_positive (VFloat x) = (0 < x)"
| "finite_positive _ = False"

section \<open>Limits\<close>

record budget_limits =
  max_agent_steps :: py_value
  max_tool_calls :: py_value
  max_replan_count :: py_value
  max_runtime_seconds :: py_value
  max_tool_output_chars :: py_value
  max_total_tokens :: py_value
  max_cost_usd :: py_value

definition DEFAULT_LIMITS :: budget_limits where
  "DEFAULT_LIMITS = \<lparr>max_agent_steps = VInt 24, max_tool_calls = VInt 40, max_replan_count = VInt 2,
     max_runtime_seconds = VFloat 300, max_tool_output_chars = VInt 8000,
     max_total_tokens = VInt 160000, max_cost_usd = VFloat 5\<rparr>"

definition post_init :: "budget_limits \<Rightarrow> budget_error + budget_limits" where
  "post_init l =
     (if \<not> int_at_least 1 (max_agent_steps l) then Inl (ValueError ''max_agent_steps must be a positive integer'')
      else if \<not> int_at_least 1 (max_tool_calls l) then Inl (ValueError ''max_tool_calls must be a positive integer'')
      else if \<not> int_at_least 1 (max_total_tokens l) then Inl (ValueError ''max_total_tokens must be a positive integer'')
      else if \<not> int_at_least 16 (max_tool_output_chars l) then Inl (ValueError ''max_tool_output_chars must be at least 16'')
      else if \<not> int_at_least 0 (max_replan_count l) then Inl (ValueError ''max_replan_count must be a non-negative integer'')
      else if \<not> finite_positive (max_runtime_seconds l) then Inl (ValueError ''max_runtime_seconds must be finite and positive'')
      else if \<not> finite_positive (max_cost_usd l) then Inl (ValueError ''max_cost_usd must be finite and positive'')
      else Inr l)"

text \<open>\<open>fields(self)\<close>, \<open>getattr\<close> and \<open>dataclasses.replace\<close> by field name.\<close>

definition limit_fields :: "(string \<times> (budget_limits \<Rightarrow> py_value) \<times> (py_value \<Rightarrow> budget_limits \<Rightarrow> budget_limits)) list" where
  "limit_fields =
     [(''max_agent_steps'', max_agent_steps, \<lambda>v l. l\<lparr>max_agent_steps := v\<rparr>),
      (''max_tool_calls'', max_tool_calls, \<lambda>v l. l\<lparr>max_tool_calls := v\<rparr>),
      (''max_replan_count'', max_replan_count, \<lambda>v l. l\<lparr>max_replan_count := v\<rparr>),
      (''max_runtime_seconds'', max_runtime_seconds, \<lambda>v l. l\<lparr>max_runtime_seconds := v\<rparr>),
      (''max_tool_output_chars'', max_tool_output_chars, \<lambda>v l. l\<lparr>max_tool_output_chars := v\<rparr>),
      (''max_total_tokens'', max_total_tokens, \<lambda>v l. l\<lparr>max_total_tokens := v\<rparr>),
      (''max_cost_usd'', max_cost_usd, \<lambda>v l. l\<lparr>max_cost_usd := v\<rparr>)]"

definition get_limit :: "budget_limits \<Rightarrow> string \<Rightarrow> py_value" where
  "get_limit l name = (case dict_get limit_fields name of Some (g, _) \<Rightarrow> g l | None \<Rightarrow> VOther)"

definition set_limit :: "budget_limits \<Rightarrow> string \<times> py_value \<Rightarrow> budget_limits" where
  "set_limit l nv = (case dict_get limit_fields (fst nv) of Some (_, s) \<Rightarrow> s (snd nv) l | None \<Rightarrow> l)"

definition with_overrides ::
  "budget_limits \<Rightarrow> (string, py_value) dict \<Rightarrow> bool \<Rightarrow> budget_error + budget_limits" where
  "with_overrides self overrides allow_increase =
     (if list_ex (\<lambda>k. k \<notin> set (dict_keys limit_fields)) (dict_keys overrides)
      then Inl (ValueError ''unknown budget limit(s)'')
      else
        rbind (post_init (foldl set_limit self overrides))
          (\<lambda>candidate.
            if \<not> allow_increase
               \<and> list_ex (\<lambda>k. num (get_limit candidate k) > num (get_limit self k)) (dict_keys overrides)
            then Inl (ValueError ''per-run budget overrides cannot increase policy limits'')
            else Inr candidate))"

text \<open>\<open>from_settings\<close>: the seven settings in the order of the fields.\<close>

definition from_settings ::
  "budget_limits \<Rightarrow> (string, py_value) dict \<Rightarrow> bool \<Rightarrow> budget_error + budget_limits" where
  "from_settings settings overrides allow_increase =
     rbind (post_init settings) (\<lambda>limits. with_overrides limits overrides allow_increase)"

section \<open>The guard\<close>

record budget_guard =
  limits :: budget_limits
  g_steps :: int
  g_tool_calls :: int
  g_replans :: int
  g_tokens :: int
  g_cost :: rat
  g_start :: rat
  cumulative :: "(string, int \<times> rat) dict"
  usage_ids :: "string list"

definition new_guard :: "budget_limits option \<Rightarrow> rat \<Rightarrow> budget_guard" where
  "new_guard lims now =
     \<lparr>limits = (case lims of Some l \<Rightarrow> l | None \<Rightarrow> DEFAULT_LIMITS), g_steps = 0, g_tool_calls = 0,
      g_replans = 0, g_tokens = 0, g_cost = 0, g_start = now, cumulative = [], usage_ids = []\<rparr>"

text \<open>The run context: the guard it carries, and what the first use builds it from.\<close>

record run_ctx =
  ctx_guard :: "budget_guard option"
  budget_overrides :: "(string, py_value) dict"
  policy_authorized :: bool

definition guard_for_context :: "budget_limits \<Rightarrow> rat \<Rightarrow> run_ctx \<Rightarrow> budget_error + (budget_guard \<times> run_ctx)" where
  "guard_for_context settings now ctx =
     (case ctx_guard ctx of
        Some g \<Rightarrow> Inr (g, ctx)
      | None \<Rightarrow>
          rbind (from_settings settings (budget_overrides ctx) (policy_authorized ctx))
            (\<lambda>lims. let g = new_guard (Some lims) now in Inr (g, ctx\<lparr>ctx_guard := Some g\<rparr>)))"

definition elapsed_seconds :: "rat \<Rightarrow> budget_guard \<Rightarrow> rat" where
  "elapsed_seconds now g = fsub now (g_start g)"

definition remaining_seconds :: "rat \<Rightarrow> budget_guard \<Rightarrow> rat" where
  "remaining_seconds now g = max 0 (fsub (num (max_runtime_seconds (limits g))) (elapsed_seconds now g))"

subsection \<open>Metering\<close>

definition validate_tokens :: "py_value option \<Rightarrow> budget_error + int" where
  "validate_tokens value =
     (case value of
        None \<Rightarrow> Inr 0
      | Some (VInt n) \<Rightarrow> if n < 0 then Inl (ValueError ''total_tokens must be non-negative'') else Inr n
      | Some _ \<Rightarrow> Inl (ValueError ''total_tokens must be an integer''))"

definition validate_cost :: "py_value option \<Rightarrow> budget_error + rat" where
  "validate_cost value =
     (case value of
        None \<Rightarrow> Inr 0
      | Some (VInt n) \<Rightarrow>
          if float_of_int n < 0 then Inl (ValueError ''cost_usd must be non-negative'') else Inr (float_of_int n)
      | Some (VFloat x) \<Rightarrow>
          if fl64 x < 0 then Inl (ValueError ''cost_usd must be non-negative'') else Inr (fl64 x)
      | Some (VInf _) \<Rightarrow> Inl (ValueError ''cost_usd must be finite'')
      | Some VNan \<Rightarrow> Inl (ValueError ''cost_usd must be finite'')
      | Some _ \<Rightarrow> Inl (ValueError ''cost_usd must be a finite number''))"

text \<open>A usage mapping: the four keys the code reads, None when absent or null.\<close>

record usage =
  u_total_tokens :: "py_value option"
  u_prompt_tokens :: "py_value option"
  u_completion_tokens :: "py_value option"
  u_cost_usd :: "py_value option"

definition no_usage :: usage where
  "no_usage = \<lparr>u_total_tokens = None, u_prompt_tokens = None, u_completion_tokens = None, u_cost_usd = None\<rparr>"

text \<open>\<open>(v or 0)\<close>, and Python's addition of two such values.\<close>

definition or_zero :: "py_value option \<Rightarrow> py_value" where
  "or_zero v = (case v of None \<Rightarrow> VInt 0 | Some w \<Rightarrow> if as_number w = Some 0 then VInt 0 else w)"

fun py_int :: "py_value \<Rightarrow> int option" where
  "py_int (VBool b) = Some (if b then 1 else 0)"
| "py_int (VInt n) = Some n"
| "py_int _ = None"

fun is_pyfloat :: "py_value \<Rightarrow> bool" where
  "is_pyfloat (VFloat _) = True" | "is_pyfloat (VInf _) = True" | "is_pyfloat VNan = True"
| "is_pyfloat _ = False"

text \<open>The sum of two numbers one of which is a float is a float; which one does not matter,
  since the validation refuses every float.\<close>

definition py_add :: "py_value \<Rightarrow> py_value \<Rightarrow> budget_error + py_value" where
  "py_add a b =
     (case (py_int a, py_int b) of
        (Some m, Some n) \<Rightarrow> Inr (VInt (m + n))
      | _ \<Rightarrow>
          if (is_pyfloat a \<or> py_int a \<noteq> None) \<and> (is_pyfloat b \<or> py_int b \<noteq> None)
          then Inr (case (as_number a, as_number b) of
                      (Some x, Some y) \<Rightarrow> VFloat (fadd (fl64 x) (fl64 y)) | _ \<Rightarrow> VNan)
          else Inl TypeError)"

definition usage_tokens :: "usage \<Rightarrow> py_value option \<Rightarrow> budget_error + py_value option" where
  "usage_tokens raw tok_arg =
     (case tok_arg of
        Some v \<Rightarrow> Inr (Some v)
      | None \<Rightarrow>
          (case u_total_tokens raw of
             Some v \<Rightarrow> Inr (Some v)
           | None \<Rightarrow>
               if u_prompt_tokens raw \<noteq> None \<or> u_completion_tokens raw \<noteq> None
               then rbind (py_add (or_zero (u_prompt_tokens raw)) (or_zero (u_completion_tokens raw)))
                      (\<lambda>v. Inr (Some v))
               else Inr None))"

definition charge_usage_id :: "string option \<Rightarrow> budget_guard \<Rightarrow> budget_guard" where
  "charge_usage_id uid g =
     (case uid of None \<Rightarrow> g | Some i \<Rightarrow> g\<lparr>usage_ids := List.insert i (usage_ids g)\<rparr>)"

definition add_usage ::
  "usage \<Rightarrow> py_value option \<Rightarrow> py_value option \<Rightarrow> bool \<Rightarrow> string option \<Rightarrow> string option
    \<Rightarrow> budget_guard \<Rightarrow> budget_error + budget_guard" where
  "add_usage raw tok_arg cost_arg is_cumulative source uid g =
     rbind (usage_tokens raw tok_arg) (\<lambda>tok.
     rbind (validate_tokens tok) (\<lambda>tokens.
     rbind (validate_cost (case cost_arg of Some v \<Rightarrow> Some v | None \<Rightarrow> u_cost_usd raw)) (\<lambda>cost.
       if is_cumulative \<and> (source = None \<or> source = Some [])
       then Inl (ValueError ''cumulative usage requires a source'')
       else if uid \<noteq> None \<and> the uid \<in> set (usage_ids g) then Inr g
       else if is_cumulative then
         (let (old_tokens, old_cost) = dict_get_or (cumulative g) (the source) (0, 0)
          in if tokens < old_tokens \<or> cost < old_cost
             then Inl (ValueError ''cumulative usage must be monotonic'')
             else Inr (charge_usage_id uid
               (g\<lparr>cumulative := dict_set (the source) (tokens, cost) (cumulative g),
                  g_tokens := g_tokens g + (tokens - old_tokens),
                  g_cost := fadd (g_cost g) (fsub cost old_cost)\<rparr>)))
       else Inr (charge_usage_id uid
              (g\<lparr>g_tokens := g_tokens g + tokens, g_cost := fadd (g_cost g) cost\<rparr>)))))"

definition add_tokens :: "py_value \<Rightarrow> budget_guard \<Rightarrow> budget_error + budget_guard" where
  "add_tokens n g = add_usage no_usage (Some n) None False None None g"

subsection \<open>Gates\<close>

definition exhaustion_reason :: "rat \<Rightarrow> budget_guard \<Rightarrow> string option" where
  "exhaustion_reason now g =
     (let l = limits g in
      if of_int (g_steps g) > num (max_agent_steps l) then Some ''max agent steps reached''
      else if of_int (g_tool_calls g) > num (max_tool_calls l) then Some ''max tool calls reached''
      else if of_int (g_replans g) > num (max_replan_count l) then Some ''max replans reached''
      else if elapsed_seconds now g \<ge> num (max_runtime_seconds l) then Some ''time budget exceeded''
      else if of_int (g_tokens g) \<ge> num (max_total_tokens l) then Some ''token budget exceeded''
      else if g_cost g \<ge> num (max_cost_usd l) then Some ''cost budget exceeded''
      else None)"

definition check :: "rat \<Rightarrow> budget_guard \<Rightarrow> budget_error + unit" where
  "check now g = (case exhaustion_reason now g of None \<Rightarrow> Inr () | Some r \<Rightarrow> Inl (BudgetExceeded r))"

text \<open>
  A gate counts first and then checks; the count stays when the check raises, so the guard
  is returned beside the outcome.
\<close>

definition enter_step :: "rat \<Rightarrow> budget_guard \<Rightarrow> (budget_error + unit) \<times> budget_guard" where
  "enter_step now g = (let g' = g\<lparr>g_steps := g_steps g + 1\<rparr> in (check now g', g'))"

definition enter_tool_call :: "rat \<Rightarrow> budget_guard \<Rightarrow> (budget_error + unit) \<times> budget_guard" where
  "enter_tool_call now g = (let g' = g\<lparr>g_tool_calls := g_tool_calls g + 1\<rparr> in (check now g', g'))"

definition enter_replan :: "rat \<Rightarrow> budget_guard \<Rightarrow> (budget_error + unit) \<times> budget_guard" where
  "enter_replan now g = (let g' = g\<lparr>g_replans := g_replans g + 1\<rparr> in (check now g', g'))"

definition exhausted :: "rat \<Rightarrow> budget_guard \<Rightarrow> bool" where
  "exhausted now g \<longleftrightarrow> \<not> is_ok (check now g)"

text \<open>The counters of \<open>snapshot\<close>; the rounding of the displayed cost and times is left out.\<close>

record budget_snapshot =
  used_steps :: int
  used_tool_calls :: int
  used_replans :: int
  used_tokens :: int
  remaining_steps :: rat
  remaining_tool_calls :: rat
  remaining_replans :: rat
  remaining_tokens :: rat
  snap_exhausted :: bool
  snap_reason :: "string option"

definition snapshot :: "rat \<Rightarrow> budget_guard \<Rightarrow> budget_snapshot" where
  "snapshot now g =
     (let reason = exhaustion_reason now g; l = limits g in
      \<lparr>used_steps = g_steps g, used_tool_calls = g_tool_calls g, used_replans = g_replans g,
       used_tokens = g_tokens g,
       remaining_steps = max 0 (num (max_agent_steps l) - of_int (g_steps g)),
       remaining_tool_calls = max 0 (num (max_tool_calls l) - of_int (g_tool_calls g)),
       remaining_replans = max 0 (num (max_replan_count l) - of_int (g_replans g)),
       remaining_tokens = max 0 (num (max_total_tokens l) - of_int (g_tokens g)),
       snap_exhausted = (reason \<noteq> None), snap_reason = reason\<rparr>)"

end
