(* ===== verification/Budget_Claims.thy ===== *)
theory Budget_Claims
  imports Budget
begin

text \<open>
  What the guard promises: overrides never loosen a policy, the gates let through at most
  as many calls as the limits say, accounting only grows, and exhaustion is permanent.
\<close>

section \<open>Overrides\<close>

lemma num_simps [simp]: "num (VInt n) = of_int n" "num (VFloat x) = x" "num (VBool b) = (if b then 1 else 0)"
  by (simp_all add: num_def)

lemma limit_field_laws:
  assumes "dict_get limit_fields k = Some (gt, st)" "dict_get limit_fields k' = Some (gt', st')"
  shows "gt' (st v l) = (if k' = k then v else gt' l)"
  using map_of_SomeD [OF assms(1)] map_of_SomeD [OF assms(2)] unfolding limit_fields_def
  by (simp only: list.set insert_iff empty_iff prod.inject simp_thms) (elim disjE conjE; simp)

lemma get_set_limit:
  "get_limit (set_limit l (k, v)) k' =
     (if k' = k \<and> k \<in> set (dict_keys limit_fields) then v else get_limit l k')"
proof (cases "dict_get limit_fields k")
  case None
  then have "k \<notin> set (dict_keys limit_fields)" by (simp add: map_of_eq_None_iff)
  then show ?thesis using None by (simp add: get_limit_def set_limit_def)
next
  case (Some gs)
  then have "k \<in> set (dict_keys limit_fields)" by (force dest: map_of_SomeD)
  then show ?thesis
    using Some limit_field_laws [of k "fst gs" "snd gs" k']
    by (auto simp: get_limit_def set_limit_def split: option.splits prod.splits)
qed

lemma get_limit_overrides:
  "k \<notin> set (dict_keys ov) \<Longrightarrow> get_limit (foldl set_limit l ov) k = get_limit l k"
proof (induction ov arbitrary: l)
  case (Cons a ov)
  then show ?case using get_set_limit [of l "fst a" "snd a" k] by simp
qed simp

text \<open>A run's overrides cannot loosen the policy. When \<open>with_overrides\<close> accepts without
  permission to increase, the result passes the validation of the constructor and no limit
  of it is above the policy's.\<close>

theorem overrides_never_increase:
  assumes "with_overrides self ov False = Inr l"
  shows "post_init l = Inr l \<and> num (get_limit l k) \<le> num (get_limit self k)"
proof -
  let ?c = "foldl set_limit self ov"
  have c: "post_init ?c = Inr l" "\<not> list_ex (\<lambda>k. num (get_limit l k) > num (get_limit self k)) (dict_keys ov)"
    using assms by (auto simp: with_overrides_def result_simps split: if_splits)
  then have l: "l = ?c" by (auto simp: post_init_def split: if_splits)
  have "num (get_limit l k) \<le> num (get_limit self k)"
  proof (cases "k \<in> set (dict_keys ov)")
    case True
    then show ?thesis using c(2) by (auto simp: list_ex_iff not_less)
  next
    case False
    then show ?thesis using get_limit_overrides l by simp
  qed
  then show ?thesis using c(1) l by simp
qed

theorem overrides_never_increase_witness:
  "\<exists>l. with_overrides DEFAULT_LIMITS [(''max_agent_steps'', VInt 3), (''max_cost_usd'', VInt 1)] False = Inr l
     \<and> post_init l = Inr l \<and> num (get_limit l ''max_agent_steps'') \<le> 24"
proof -
  have "is_ok (with_overrides DEFAULT_LIMITS [(''max_agent_steps'', VInt 3), (''max_cost_usd'', VInt 1)] False)"
    by code_simp
  then obtain l where l: "with_overrides DEFAULT_LIMITS [(''max_agent_steps'', VInt 3), (''max_cost_usd'', VInt 1)] False = Inr l"
    by (auto simp: is_ok_iff)
  have "num (get_limit DEFAULT_LIMITS ''max_agent_steps'') = 24" by code_simp
  then show ?thesis using overrides_never_increase [OF l, of "''max_agent_steps''"] l by auto
qed

section \<open>Runs of a guard\<close>

datatype budget_op =
    EnterStep | EnterToolCall | EnterReplan
  | AddUsage usage "py_value option" "py_value option" bool "string option" "string option"

text \<open>One call at a clock reading: whether it returned, and the guard afterwards. A rejected
  \<open>add_usage\<close> leaves the guard as it was.\<close>

fun run_op :: "rat \<Rightarrow> budget_op \<Rightarrow> budget_guard \<Rightarrow> bool \<times> budget_guard" where
  "run_op now EnterStep g = (let (r, g') = enter_step now g in (is_ok r, g'))"
| "run_op now EnterToolCall g = (let (r, g') = enter_tool_call now g in (is_ok r, g'))"
| "run_op now EnterReplan g = (let (r, g') = enter_replan now g in (is_ok r, g'))"
| "run_op now (AddUsage u t c cum s i) g =
     (case add_usage u t c cum s i g of Inl _ \<Rightarrow> (False, g) | Inr g' \<Rightarrow> (True, g'))"

fun run_ops :: "(rat \<times> budget_op) list \<Rightarrow> budget_guard \<Rightarrow> bool list \<times> budget_guard" where
  "run_ops [] g = ([], g)"
| "run_ops ((now, op) # ops) g =
     (let (ok, g1) = run_op now op g; (oks, g2) = run_ops ops g1 in (ok # oks, g2))"

text \<open>How many calls of one kind returned.\<close>

definition admitted :: "budget_op \<Rightarrow> (rat \<times> budget_op) list \<Rightarrow> budget_guard \<Rightarrow> nat" where
  "admitted op ops g = length (filter (\<lambda>(o', ok). snd o' = op \<and> ok) (zip ops (fst (run_ops ops g))))"

text \<open>The counter a gate moves, and the limit it is held to.\<close>

definition counter :: "budget_op \<Rightarrow> budget_guard \<Rightarrow> int" where
  "counter op g = (case op of EnterStep \<Rightarrow> g_steps g | EnterToolCall \<Rightarrow> g_tool_calls g | _ \<Rightarrow> g_replans g)"

definition gate_limit :: "budget_op \<Rightarrow> budget_limits \<Rightarrow> rat" where
  "gate_limit op l = num (case op of EnterStep \<Rightarrow> max_agent_steps l | EnterToolCall \<Rightarrow> max_tool_calls l | _ \<Rightarrow> max_replan_count l)"

definition gates :: "budget_op list" where
  "gates = [EnterStep, EnterToolCall, EnterReplan]"

lemma charge_usage_id_frame [simp]:
  "g_tokens (charge_usage_id i g) = g_tokens g" "g_cost (charge_usage_id i g) = g_cost g"
  "limits (charge_usage_id i g) = limits g" "cumulative (charge_usage_id i g) = cumulative g"
  "g_steps (charge_usage_id i g) = g_steps g" "g_tool_calls (charge_usage_id i g) = g_tool_calls g"
  "g_replans (charge_usage_id i g) = g_replans g" "g_start (charge_usage_id i g) = g_start g"
  by (simp_all add: charge_usage_id_def split: option.splits)

lemma add_usage_frame:
  assumes "add_usage u t c cum s i g = Inr g'"
  shows "limits g' = limits g" "g_steps g' = g_steps g" "g_tool_calls g' = g_tool_calls g"
    "g_replans g' = g_replans g" "g_start g' = g_start g"
  using assms by (auto simp: add_usage_def result_simps Let_def split_beta split: if_splits)

lemma run_op_frame: "run_op now op g = (ok, g') \<Longrightarrow> limits g' = limits g \<and> g_start g' = g_start g"
  by (cases op) (auto simp: enter_step_def enter_tool_call_def enter_replan_def Let_def add_usage_frame split: sum.splits)

lemma exhausted_iff:
  "exhausted now g \<longleftrightarrow> of_int (g_steps g) > num (max_agent_steps (limits g))
     \<or> of_int (g_tool_calls g) > num (max_tool_calls (limits g))
     \<or> of_int (g_replans g) > num (max_replan_count (limits g))
     \<or> elapsed_seconds now g \<ge> num (max_runtime_seconds (limits g))
     \<or> of_int (g_tokens g) \<ge> num (max_total_tokens (limits g))
     \<or> g_cost g \<ge> num (max_cost_usd (limits g))"
  by (auto simp: exhausted_def check_def exhaustion_reason_def Let_def)

lemma check_within:
  "is_ok (check now g) \<Longrightarrow> of_int (g_steps g) \<le> num (max_agent_steps (limits g))
     \<and> of_int (g_tool_calls g) \<le> num (max_tool_calls (limits g))
     \<and> of_int (g_replans g) \<le> num (max_replan_count (limits g))"
  using exhausted_iff [of now g] by (auto simp: exhausted_def not_less)

lemma run_op_counter:
  assumes "run_op now op g = (ok, g')" "gate \<in> set gates"
  shows "counter gate g' = counter gate g + (if op = gate then 1 else 0)"
    "op = gate \<Longrightarrow> ok \<Longrightarrow> of_int (counter gate g') \<le> gate_limit gate (limits g)"
  using assms check_within [of now g']
  by (cases op; auto simp: gates_def counter_def gate_limit_def enter_step_def enter_tool_call_def enter_replan_def
      Let_def add_usage_frame split: sum.splits)+

lemma run_ops_frame: "limits (snd (run_ops ops g)) = limits g \<and> g_start (snd (run_ops ops g)) = g_start g"
proof (induction ops arbitrary: g)
  case (Cons a ops)
  obtain now op ok g1 where "a = (now, op)" "run_op now op g = (ok, g1)" by (metis surj_pair)
  then show ?case using Cons.IH [of g1] run_op_frame [of now op g ok g1] by (simp add: split_beta Let_def)
qed simp

lemma admitted_bound:
  assumes "gate \<in> set gates" "0 \<le> counter gate g"
  shows "of_int (counter gate g + int (admitted gate ops g)) \<le> max (of_int (counter gate g)) (gate_limit gate (limits g))"
  using assms(2)
proof (induction ops arbitrary: g)
  case Nil
  then show ?case by (simp add: admitted_def)
next
  case (Cons a ops)
  obtain now op where a: "a = (now, op)" by (metis surj_pair)
  obtain ok g1 where s: "run_op now op g = (ok, g1)" by (metis surj_pair)
  have lims: "limits g1 = limits g" using run_op_frame [OF s] by simp
  have adm: "admitted gate (a # ops) g = (if op = gate \<and> ok then 1 else 0) + admitted gate ops g1"
    by (simp add: admitted_def a s split_beta Let_def)
  have cnt: "counter gate g1 = counter gate g + (if op = gate then 1 else 0)"
    and ok: "op = gate \<Longrightarrow> ok \<Longrightarrow> of_int (counter gate g1) \<le> gate_limit gate (limits g)"
    using run_op_counter [OF s assms(1)] by auto
  have IH: "of_int (counter gate g1 + int (admitted gate ops g1)) \<le> max (of_int (counter gate g1)) (gate_limit gate (limits g))"
    using Cons.IH [of g1] Cons.prems cnt lims by (simp split: if_splits)
  show ?case
  proof (cases "op = gate \<and> ok")
    case True
    then show ?thesis using IH ok adm cnt by simp
  next
    case False
    then have "admitted gate (a # ops) g = admitted gate ops g1" using adm by simp
    then show ?thesis using IH cnt by (auto split: if_splits simp: max_def)
  qed
qed

text \<open>C6: The gates hold. However the calls of a run interleave and whatever the clock reads, the
  steps, tool calls and replans a fresh guard lets through are each at most the limit.\<close>

theorem gates_bound_calls:
  assumes "gate \<in> set gates" "post_init l = Inr l"
  shows "of_nat (admitted gate ops (new_guard (Some l) now)) \<le> gate_limit gate l"
proof -
  have "counter gate (new_guard (Some l) now) = 0" "limits (new_guard (Some l) now) = l"
    using assms(1) by (auto simp: gates_def counter_def new_guard_def)
  moreover have "int_at_least lo v \<Longrightarrow> of_int lo \<le> num v" for lo v by (cases v) (auto simp: num_def)
  then have "0 \<le> gate_limit gate l"
    using assms by (fastforce simp: gates_def gate_limit_def post_init_def split: if_splits)
  ultimately show ?thesis using admitted_bound [OF assms(1), of "new_guard (Some l) now" ops] by simp
qed

definition tight_limits :: budget_limits where
  "tight_limits = DEFAULT_LIMITS\<lparr>max_agent_steps := VInt 2\<rparr>"

definition step_ops :: "(rat \<times> budget_op) list" where
  "step_ops = [(1, EnterStep), (2, EnterToolCall), (3, EnterStep), (4, EnterStep), (5, EnterStep)]"

theorem gates_bound_calls_witness:
  "admitted EnterStep step_ops (new_guard (Some tight_limits) 0) = 2
   \<and> of_nat (admitted EnterStep step_ops (new_guard (Some tight_limits) 0)) \<le> gate_limit EnterStep tight_limits"
proof -
  have ok: "post_init tight_limits = Inr tight_limits"
    by (simp add: post_init_def tight_limits_def DEFAULT_LIMITS_def)
  have "admitted EnterStep step_ops (new_guard (Some tight_limits) 0) = 2"
    unfolding admitted_def step_ops_def by code_simp
  then show ?thesis using gates_bound_calls [OF _ ok, of EnterStep step_ops 0] by (simp add: gates_def)
qed

section \<open>Monotone accounting\<close>

definition snapshots_nonneg :: "(string, int \<times> rat) dict \<Rightarrow> bool" where
  "snapshots_nonneg d \<longleftrightarrow> (\<forall>(t, c) \<in> snd ` set d. 0 \<le> t \<and> 0 \<le> c)"

definition guard_ok :: "budget_guard \<Rightarrow> bool" where
  "guard_ok g \<longleftrightarrow> is_float (g_cost g) \<and> snapshots_nonneg (cumulative g)
     \<and> 0 \<le> g_steps g \<and> 0 \<le> g_tool_calls g \<and> 0 \<le> g_replans g"

lemma validate_tokens_ok: "validate_tokens v = Inr n \<Longrightarrow> 0 \<le> n"
  by (auto simp: validate_tokens_def split: option.splits py_value.splits if_splits)

lemma validate_cost_ok: "validate_cost v = Inr c \<Longrightarrow> 0 \<le> c"
  by (auto simp: validate_cost_def split: option.splits py_value.splits if_splits)

lemma dict_set_values: "snd ` set (dict_set k v d) \<subseteq> insert v (snd ` set d)"
  by (induction d) auto

lemma add_usage_cases:
  assumes "add_usage u t c cum s i g = Inr g'"
  obtains (same) "g' = g"
  | (delta) n x where "0 \<le> n" "0 \<le> x"
      "g' = charge_usage_id i (g\<lparr>g_tokens := g_tokens g + n, g_cost := fadd (g_cost g) x\<rparr>)"
  | (snapshot) n x n0 x0 k where "0 \<le> n0" "n0 \<le> n" "x0 \<le> x" "0 \<le> x" "dict_get_or (cumulative g) k (0, 0) = (n0, x0)"
      "g' = charge_usage_id i (g\<lparr>cumulative := dict_set k (n, x) (cumulative g),
        g_tokens := g_tokens g + (n - n0), g_cost := fadd (g_cost g) (fsub x x0)\<rparr>)"
  | (unsound) "\<not> guard_ok g"
proof (cases "guard_ok g")
  case True
  obtain v n x where n: "validate_tokens v = Inr n" "0 \<le> n" "validate_cost (case c of Some v \<Rightarrow> Some v | None \<Rightarrow> u_cost_usd u) = Inr x" "0 \<le> x"
    "(if cum \<and> (s = None \<or> s = Some []) then Inl (ValueError ''cumulative usage requires a source'')
       else if i \<noteq> None \<and> the i \<in> set (usage_ids g) then Inr g
       else if cum then
         (let (old_tokens, old_cost) = dict_get_or (cumulative g) (the s) (0, 0)
          in if n < old_tokens \<or> x < old_cost
             then Inl (ValueError ''cumulative usage must be monotonic'')
             else Inr (charge_usage_id i
               (g\<lparr>cumulative := dict_set (the s) (n, x) (cumulative g),
                  g_tokens := g_tokens g + (n - old_tokens),
                  g_cost := fadd (g_cost g) (fsub x old_cost)\<rparr>)))
       else Inr (charge_usage_id i
              (g\<lparr>g_tokens := g_tokens g + n, g_cost := fadd (g_cost g) x\<rparr>))) = Inr g'"
    using assms unfolding add_usage_def by (auto simp only: result_simps dest: validate_tokens_ok validate_cost_ok)
  obtain n0 x0 where old: "dict_get_or (cumulative g) (the s) (0, 0) = (n0, x0)" by (metis surj_pair)
  have "0 \<le> n0"
  proof (cases "dict_get (cumulative g) (the s)")
    case (Some y)
    then have "y \<in> snd ` set (cumulative g)" by (force dest: map_of_SomeD)
    then show ?thesis using True old Some by (auto simp: guard_ok_def snapshots_nonneg_def dict_get_or_def)
  qed (use old in \<open>simp add: dict_get_or_def\<close>)
  then show thesis
    using n(2,4,5) old same delta [of n x] snapshot [of n0 n x0 x "the s"] by (auto split: if_splits)
qed (rule unsound)

definition grown :: "budget_guard \<Rightarrow> budget_guard \<Rightarrow> bool" where
  "grown g g' \<longleftrightarrow> limits g' = limits g \<and> g_start g' = g_start g \<and> g_steps g \<le> g_steps g'
     \<and> g_tool_calls g \<le> g_tool_calls g' \<and> g_replans g \<le> g_replans g'
     \<and> g_tokens g \<le> g_tokens g' \<and> g_cost g \<le> g_cost g'"

lemma grown_refl [simp]: "grown g g" and grown_trans: "grown a b \<Longrightarrow> grown b c \<Longrightarrow> grown a c"
  by (auto simp: grown_def)

lemma add_usage_grown:
  assumes "add_usage u t c cum s i g = Inr g'" "guard_ok g"
  shows "grown g g' \<and> guard_ok g'"
  using assms(1)
proof (cases rule: add_usage_cases)
  case (snapshot n x n0 x0 k)
  have "snapshots_nonneg (dict_set k (n, x) (cumulative g))"
    using dict_set_values [of k "(n, x)" "cumulative g"] snapshot(1,2,4) assms(2)
    by (fastforce simp: guard_ok_def snapshots_nonneg_def)
  then show ?thesis
    using snapshot assms(2) by (auto simp: grown_def guard_ok_def fadd_grows fsub_nonneg)
qed (use assms(2) in \<open>auto simp: grown_def guard_ok_def fadd_grows\<close>)

lemma run_op_grown:
  assumes "run_op now op g = (ok, g')" "guard_ok g"
  shows "grown g g' \<and> guard_ok g'"
proof (cases op)
  case (AddUsage u t c cum s i)
  then show ?thesis using assms add_usage_grown [of u t c cum s i g] by (auto split: sum.splits)
qed (use assms in \<open>auto simp: enter_step_def enter_tool_call_def enter_replan_def Let_def grown_def guard_ok_def\<close>)

lemma run_ops_grown: "guard_ok g \<Longrightarrow> grown g (snd (run_ops ops g)) \<and> guard_ok (snd (run_ops ops g))"
proof (induction ops arbitrary: g)
  case (Cons a ops)
  obtain now op ok g1 where s: "a = (now, op)" "run_op now op g = (ok, g1)" by (metis surj_pair)
  then show ?case
    using Cons run_op_grown [OF s(2)] grown_trans by (auto simp: split_beta Let_def)
qed simp

lemma exhausted_grown:
  assumes "exhausted now g" "grown g g'" "now \<le> now'"
  shows "exhausted now' g'"
proof -
  have "elapsed_seconds now g \<le> elapsed_seconds now' g'"
    using assms(2,3) by (auto simp: elapsed_seconds_def grown_def fsub_def intro: binary64.rnd_mono)
  moreover have "rat_of_int (g_steps g) \<le> of_int (g_steps g')" "rat_of_int (g_tool_calls g) \<le> of_int (g_tool_calls g')"
    "rat_of_int (g_replans g) \<le> of_int (g_replans g')" "rat_of_int (g_tokens g) \<le> of_int (g_tokens g')"
    "limits g' = limits g" "g_cost g \<le> g_cost g'"
    using assms(2) by (auto simp: grown_def)
  ultimately show ?thesis using assms(1) unfolding exhausted_iff by auto
qed

lemma new_guard_ok: "guard_ok (new_guard l now)"
  by (simp add: guard_ok_def snapshots_nonneg_def new_guard_def is_float_def fl64_def)

text \<open>Exhaustion is permanent. Once a guard that started fresh is out of budget, no sequence of
  further calls, usage records (cumulative snapshots included) and later clock readings
  brings it back, and its counters, tokens and binary64 cost have not decreased.\<close>

theorem exhaustion_permanent:
  assumes "g = snd (run_ops before (new_guard l start))" "exhausted now g" "now \<le> now'"
  shows "exhausted now' (snd (run_ops after g)) \<and> grown g (snd (run_ops after g))"
proof -
  have "guard_ok g" using run_ops_grown [OF new_guard_ok] assms(1) by simp
  then have "grown g (snd (run_ops after g))" using run_ops_grown by blast
  then show ?thesis using exhausted_grown assms(2,3) by blast
qed

definition usage_ops :: "(rat \<times> budget_op) list" where
  "usage_ops = [(1, AddUsage no_usage (Some (VInt 100000)) None True (Some ''a'') None),
                (2, AddUsage no_usage (Some (VInt 160000)) (Some (VFloat (1 / 4))) True (Some ''a'') None)]"

theorem exhaustion_permanent_witness:
  "exhausted 10 (snd (run_ops step_ops (snd (run_ops usage_ops (new_guard None 0)))))"
proof -
  have "exhausted 3 (snd (run_ops usage_ops (new_guard None 0)))" by code_simp
  then show ?thesis using exhaustion_permanent [OF refl, of 3 usage_ops None 0 10 step_ops] by simp
qed

end
