(* ===== verification/Worklist.thy ===== *)
theory Worklist
  imports Prelude
begin

text \<open>
  The worklist idiom of the backend: a stack of nodes to visit and the nodes seen so far; a
  node's unseen successors are marked and pushed. A loop that empties the stack has computed
  what its roots reach. The components instantiate this with their own successor lists.
\<close>

text \<open>The inner \<open>for child\<close> loop; the top of the stack is the head of the list.\<close>

definition push_child :: "'a list \<times> 'a list \<Rightarrow> 'a \<Rightarrow> 'a list \<times> 'a list" where
  "push_child acc child =
     (let (seen, stack) = acc in if child \<in> set seen then acc else (child # seen, child # stack))"

lemma set_push_children: "set (fst (foldl push_child (seen, stack) cs)) = set seen \<union> set cs"
  by (induction cs arbitrary: seen stack) (auto simp: push_child_def)

lemma set_push_stack: "set (snd (foldl push_child (seen, stack) cs)) = set stack \<union> (set cs - set seen)"
  by (induction cs arbitrary: seen stack) (auto simp: push_child_def)

lemma push_children_none:
  "set cs \<subseteq> set seen \<Longrightarrow> foldl push_child (seen, stack) cs = (seen, stack)"
  by (induction cs) (auto simp: push_child_def)

text \<open>One turn of the loop makes progress when the successors come from a fixed finite set.\<close>

lemma push_children_progress:
  assumes "foldl push_child (seen, stack) cs = (seen', stack')" "set cs \<subseteq> set nodes"
  shows "((seen', stack'), (seen, x # stack))
    \<in> inv_image (less_than <*lex*> less_than) (\<lambda>(seen, stack). (card (set nodes - set seen), length stack))"
proof (cases "set cs \<subseteq> set seen")
  case True
  then have "seen' = seen" "stack' = stack" using push_children_none [OF True, of stack] assms(1) by simp_all
  then show ?thesis by simp
next
  case False
  have "set seen' = set seen \<union> set cs" using set_push_children [of seen stack cs] assms(1) by simp
  then have "set nodes - set seen' \<subset> set nodes - set seen" using False assms(2) by blast
  then have "card (set nodes - set seen') < card (set nodes - set seen)" by (intro psubset_card_mono) auto
  then show ?thesis by simp
qed

section \<open>Reachability\<close>

definition reached :: "('a \<times> 'a) set \<Rightarrow> 'a set \<Rightarrow> 'a set" where
  "reached R roots = {x. \<exists>r \<in> roots. (r, x) \<in> R\<^sup>+}"

definition closure_inv :: "('a \<times> 'a) set \<Rightarrow> 'a set \<Rightarrow> 'a list \<Rightarrow> 'a list \<Rightarrow> bool" where
  "closure_inv R roots seen stack \<longleftrightarrow> set seen \<subseteq> reached R roots \<and> set stack \<subseteq> roots \<union> reached R roots
     \<and> (\<forall>x \<in> roots \<union> set seen. x \<in> set stack \<or> {k. (x, k) \<in> R} \<subseteq> set seen)"

lemma closure_inv_start: "set stack = roots \<Longrightarrow> closure_inv R roots [] stack"
  by (simp add: closure_inv_def)

lemma reached_step: "x \<in> roots \<union> reached R roots \<Longrightarrow> (x, k) \<in> R \<Longrightarrow> k \<in> reached R roots"
  by (auto simp: reached_def intro: trancl_into_trancl)

lemma closure_inv_end:
  assumes "closure_inv R roots seen []"
  shows "set seen = reached R roots"
proof -
  have "x \<in> set seen" if "r \<in> roots" "(r, x) \<in> R\<^sup>+" for r x
    using that(2,1) assms by induction (auto simp: closure_inv_def)
  then show ?thesis using assms by (auto simp: closure_inv_def reached_def)
qed

lemma closure_inv_push:
  assumes "closure_inv R roots seen (sid # stack)" "foldl push_child (seen, stack) cs = (seen', stack')"
    and "set cs = {k. (sid, k) \<in> R}"
  shows "closure_inv R roots seen' stack'"
proof -
  have sets: "set seen' = set seen \<union> {k. (sid, k) \<in> R}" "set stack' = set stack \<union> ({k. (sid, k) \<in> R} - set seen)"
    using set_push_children [of seen stack cs] set_push_stack [of seen stack cs] assms(2,3) by simp_all
  have sub: "set seen \<subseteq> reached R roots" "set stack \<subseteq> roots \<union> reached R roots" "sid \<in> roots \<union> reached R roots"
    and closed: "\<And>x. x \<in> roots \<union> set seen \<Longrightarrow> x = sid \<or> x \<in> set stack \<or> {k. (x, k) \<in> R} \<subseteq> set seen"
    using assms(1) by (auto simp: closure_inv_def)
  have "{k. (sid, k) \<in> R} \<subseteq> reached R roots" using reached_step [OF sub(3)] by blast
  moreover have "x \<in> set stack' \<or> {k. (x, k) \<in> R} \<subseteq> set seen'" if "x \<in> roots \<union> set seen'" for x
  proof (cases "x \<in> roots \<union> set seen")
    case True
    then show ?thesis using closed [OF True] sets by blast
  qed (use that sets in blast)
  ultimately show ?thesis using sub(1,2) unfolding closure_inv_def sets by blast
qed

section \<open>Roots that are marked at the start\<close>

text \<open>The variant that marks the roots before the loop computes the roots and what they reach.\<close>

definition visit_inv :: "('a \<times> 'a) set \<Rightarrow> 'a set \<Rightarrow> 'a list \<Rightarrow> 'a list \<Rightarrow> bool" where
  "visit_inv R roots seen stack \<longleftrightarrow> roots \<subseteq> set seen \<and> set stack \<subseteq> set seen \<and> set seen \<subseteq> R\<^sup>* `` roots
     \<and> (\<forall>x \<in> set seen. x \<in> set stack \<or> R `` {x} \<subseteq> set seen)"

lemma visit_inv_start: "set seen = roots \<Longrightarrow> set stack = roots \<Longrightarrow> visit_inv R roots seen stack"
  by (auto simp: visit_inv_def)

lemma visit_inv_push:
  assumes "visit_inv R roots seen (x # stack)" "foldl push_child (seen, stack) cs = (seen', stack')"
    and "set cs = R `` {x}"
  shows "visit_inv R roots seen' stack'"
proof -
  have sets: "set seen' = set seen \<union> R `` {x}" "set stack' = set stack \<union> (R `` {x} - set seen)"
    using set_push_children [of seen stack cs] set_push_stack [of seen stack cs] assms(2,3) by simp_all
  have "x \<in> R\<^sup>* `` roots" using assms(1) by (auto simp: visit_inv_def)
  then have "R `` {x} \<subseteq> R\<^sup>* `` roots" by (auto intro: rtrancl_into_rtrancl)
  then show ?thesis using assms(1) unfolding visit_inv_def sets by auto
qed

lemma visit_inv_end:
  assumes "visit_inv R roots seen []"
  shows "set seen = R\<^sup>* `` roots"
proof -
  have "x \<in> set seen" if "(r, x) \<in> R\<^sup>*" "r \<in> roots" for r x
    using that assms by induction (auto simp: visit_inv_def)
  then show ?thesis using assms by (auto simp: visit_inv_def)
qed

end
