(* ===== verification/Plans.thy ===== *)
theory Plans
  imports Budget Texts Worklist
begin

text \<open>
  Workflow plans (\<open>agents/workflow/schemas.py\<close> and the validation, revision and templates
  of \<open>agents/workflow/planner.py\<close>): versioned graphs of steps, Kahn's ordering, the checks
  before a run, and the revision that reworks the flagged steps and everything downstream.
\<close>

section \<open>Data\<close>

datatype verification_verdict = VPass | VRevise | VFail

record verifier_result =
  vr_verdict :: verification_verdict
  vr_findings :: "string list"
  vr_revise_step_ids :: "string list"
  vr_note :: string

record retry_policy =
  max_retries :: int
  transient_errors :: "string list"

text \<open>An exception as the retry policy sees it: its text, and the flag of a \<open>StepError\<close>.\<close>

record step_exn =
  exn_msg :: string
  exn_transient :: bool

definition is_transient :: "retry_policy \<Rightarrow> step_exn \<Rightarrow> bool" where
  "is_transient p e \<longleftrightarrow> exn_transient e \<or> list_ex (\<lambda>token. sublist token (exn_msg e)) (transient_errors p)"

record step =
  step_id :: string
  dependencies :: "string list"
  role :: string
  step_name :: string
  model :: string
  task_description :: string
  tool_allowlist :: "string list"
  timeout_seconds :: "rat option"
  retry_policy :: retry_policy
  acceptance_criteria :: "(string, py_value) dict"
  cost_estimate :: rat
  skip :: bool
  revision_round :: int
  review_findings :: "string list"

text \<open>The usage of an observation is the mapping's entries; its structured form is not used
  by the code modelled here.\<close>

record observation =
  obs_step_id :: string
  obs_output :: string
  obs_usage :: "(string, py_value) dict option"
  obs_attempts :: int
  obs_status :: string

type_synonym observations = "(string, observation) dict"

datatype plan_error =
    DuplicateStep string | UnknownDependency string string | CycleDetected "string list"
  | UnknownReviseStep "string list" | KeyError string

record plan =
  version :: int
  goal :: string
  profile :: string
  steps :: "step list"
  replan_count :: int
  max_replans :: int
  carry_observations :: observations

definition plan_get :: "plan \<Rightarrow> string \<Rightarrow> plan_error + step" where
  "plan_get p sid =
     (case List.find (\<lambda>s. step_id s = sid) (steps p) of None \<Rightarrow> Inl (KeyError sid) | Some s \<Rightarrow> Inr s)"

definition step_ids :: "plan \<Rightarrow> string list" where
  "step_ids p = map step_id (steps p)"

section \<open>Topological order and validation\<close>

text \<open>The dictionary comprehension: a repeated id keeps the last step's dependencies.\<close>

definition deps_dict :: "step list \<Rightarrow> (string, string list) dict" where
  "deps_dict ss = foldl (\<lambda>d s. dict_set (step_id s) (dependencies s) d) [] ss"

text \<open>\<open>order.append(sid); del remaining[sid]\<close> for each ready id.\<close>

fun take_ready ::
  "string list \<Rightarrow> string list \<times> (string, string list) dict
    \<Rightarrow> plan_error + (string list \<times> (string, string list) dict)" where
  "take_ready [] (order, remaining) = Inr (order, remaining)"
| "take_ready (sid # sids) (order, remaining) =
     (if dict_get remaining sid = None then Inl (KeyError sid)
      else take_ready sids (order @ [sid], dict_pop sid remaining))"

text \<open>The while loop, with \<open>fuel\<close> for its iterations; \<open>topo_fuel_enough\<close> shows that one
  iteration per step suffices.\<close>

fun topo_loop ::
  "nat \<Rightarrow> string list \<Rightarrow> string list \<Rightarrow> (string, string list) dict \<Rightarrow> (plan_error + string list) option" where
  "topo_loop fuel ids order [] = Some (Inr order)"
| "topo_loop 0 ids order remaining = None"
| "topo_loop (Suc fuel) ids order remaining =
     (let ready = map fst (filter (\<lambda>(sid, d). list_all (\<lambda>x. x \<in> set order) d) remaining)
      in if ready = [] then Some (Inl (CycleDetected (map fst remaining)))
         else (case take_ready (filter (\<lambda>sid. sid \<in> set ready) ids) (order, remaining) of
                 Inl e \<Rightarrow> Some (Inl e)
               | Inr (order', remaining') \<Rightarrow> topo_loop fuel ids order' remaining'))"

definition toposort :: "plan \<Rightarrow> (plan_error + string list) option" where
  "toposort p = topo_loop (length (steps p)) (step_ids p) [] (deps_dict (steps p))"

fun first_duplicate :: "string list \<Rightarrow> string list \<Rightarrow> string option" where
  "first_duplicate seen [] = None"
| "first_duplicate seen (x # xs) = (if x \<in> set seen then Some x else first_duplicate (x # seen) xs)"

fun first_unknown_dep :: "string list \<Rightarrow> step list \<Rightarrow> (string \<times> string) option" where
  "first_unknown_dep ids [] = None"
| "first_unknown_dep ids (s # ss) =
     (case List.find (\<lambda>d. d \<notin> set ids) (dependencies s) of
        Some d \<Rightarrow> Some (step_id s, d)
      | None \<Rightarrow> first_unknown_dep ids ss)"

text \<open>\<open>_validate\<close>, which \<open>validate_plan\<close> and \<open>Plan.validate\<close> call.\<close>

definition validate_plan :: "plan \<Rightarrow> plan_error + unit" where
  "validate_plan p =
     (case first_duplicate [] (step_ids p) of
        Some sid \<Rightarrow> Inl (DuplicateStep sid)
      | None \<Rightarrow>
          (case first_unknown_dep (step_ids p) (steps p) of
             Some (sid, d) \<Rightarrow> Inl (UnknownDependency sid d)
           | None \<Rightarrow>
               (case toposort p of
                  Some (Inr order) \<Rightarrow> Inr ()
                | Some (Inl e) \<Rightarrow> Inl e
                | None \<Rightarrow> Inl (CycleDetected []))))"

section \<open>Revision\<close>

definition dependents_of :: "step list \<Rightarrow> string \<Rightarrow> string list" where
  "dependents_of ss sid =
     concat (map (\<lambda>s. map (\<lambda>_. step_id s) (filter (\<lambda>d. d = sid) (dependencies s))) ss)"

text \<open>The worklist; the top of the stack is the head of the list. A child that is marked is
  the id of a step, so the unmarked ids bound the pushes.\<close>

function closure_loop :: "step list \<Rightarrow> string list \<Rightarrow> string list \<Rightarrow> string list" where
  "closure_loop ss seen [] = seen"
| "closure_loop ss seen (sid # stack) =
     (let (seen', stack') = foldl push_child (seen, stack) (dependents_of ss sid)
      in closure_loop ss seen' stack')"
  by pat_completeness auto

termination
proof (relation "inv_image (less_than <*lex*> less_than)
    (\<lambda>(ss, seen, stack). (card (set (map step_id ss) - set seen), length stack))", goal_cases)
  case (2 ss seen sid stack acc seen' stack')
  have "set (dependents_of ss sid) \<subseteq> set (map step_id ss)" by (auto simp: dependents_of_def)
  from push_children_progress [OF _ this, of seen stack seen' stack' sid] show ?case using 2 by simp
qed auto

definition downstream_closure :: "step list \<Rightarrow> string list \<Rightarrow> string list" where
  "downstream_closure ss roots = filter (\<lambda>s. s \<notin> set roots) (closure_loop ss [] roots)"

definition strip_nonempty :: "string list \<Rightarrow> string list" where
  "strip_nonempty fs = filter (\<lambda>f. f \<noteq> []) (map py_strip fs)"

definition revise_step :: "string set \<Rightarrow> int \<Rightarrow> string list \<Rightarrow> step \<Rightarrow> step" where
  "revise_step must_rerun next_round findings s =
     (if step_id s \<in> must_rerun
      then s\<lparr>skip := False, revision_round := next_round, review_findings := findings\<rparr>
      else s\<lparr>skip := True\<rparr>)"

definition carried_of :: "string set \<Rightarrow> observations \<Rightarrow> step list \<Rightarrow> observations" where
  "carried_of must_rerun obs ss =
     foldl (\<lambda>d s. if step_id s \<in> must_rerun then d
                  else (case dict_get obs (step_id s) of None \<Rightarrow> d | Some ob \<Rightarrow> dict_set (step_id s) ob d)) [] ss"

definition revise_plan ::
  "plan \<Rightarrow> string list \<Rightarrow> observations \<Rightarrow> string list \<Rightarrow> plan_error + plan" where
  "revise_plan p revise_ids obs findings =
     (let unknown = filter (\<lambda>r. r \<notin> set (step_ids p)) revise_ids
      in if unknown \<noteq> [] then Inl (UnknownReviseStep unknown)
         else
           (let must_rerun = set revise_ids \<union> set (downstream_closure (steps p) revise_ids);
                revised = p\<lparr>version := version p + 1,
                  steps := map (revise_step must_rerun (replan_count p + 1) (strip_nonempty findings)) (steps p),
                  replan_count := replan_count p + 1,
                  carry_observations := carried_of must_rerun obs (steps p)\<rparr>
            in rbind (validate_plan revised) (\<lambda>_. Inr revised)))"

section \<open>Templates\<close>

definition TRANSIENT :: retry_policy where
  "TRANSIENT = \<lparr>max_retries = 1,
     transient_errors = [''timeout'', ''temporarily'', ''rate limit'', ''503'', ''502'', ''connection'']\<rparr>"

definition template_step :: "string \<Rightarrow> string \<Rightarrow> string \<Rightarrow> string \<Rightarrow> string list \<Rightarrow> string list \<Rightarrow> step" where
  "template_step sid rl nm task deps tools =
     \<lparr>step_id = sid, dependencies = deps, role = rl, step_name = nm, model = [], task_description = task,
      tool_allowlist = tools, timeout_seconds = None, retry_policy = TRANSIENT,
      acceptance_criteria = [(''min_chars'', VInt 1)], cost_estimate = 0, skip = False,
      revision_round = 0, review_findings = []\<rparr>"

definition template_plan :: "string \<Rightarrow> string \<Rightarrow> step list \<Rightarrow> plan" where
  "template_plan gl prof ss =
     \<lparr>version = 1, goal = gl, profile = prof, steps = ss, replan_count = 0, max_replans = 1,
      carry_observations = []\<rparr>"

definition build_deep_research_plan :: "string \<Rightarrow> plan" where
  "build_deep_research_plan question =
     (let q = py_strip question in template_plan q ''deep_research''
       [template_step ''researcher'' ''researcher'' ''Researcher'' (''Decompose and gather evidence for: '' @ q) []
          [''web_search'', ''http_get'', ''file_analyze''],
        template_step ''analyst'' ''analyst'' ''Analyst''
          ''Cross-check the researcher's evidence for sufficiency.'' [''researcher''] [],
        template_step ''writer'' ''writer'' ''Writer'' (''Write the cited final answer to: '' @ q) [''analyst''] []])"

definition build_parallel_research_plan :: "string \<Rightarrow> plan" where
  "build_parallel_research_plan question =
     (let q = py_strip question in template_plan q ''parallel_research''
       [template_step ''coordinator'' ''coordinator'' ''Coordinator'' (''Split the question into web + KB lines: '' @ q) [] [],
        template_step ''web-researcher'' ''researcher'' ''Web Researcher''
          ''Gather external evidence via web_search / http_get.'' [''coordinator''] [''web_search'', ''http_get''],
        template_step ''kb-researcher'' ''researcher'' ''KB Researcher''
          ''Gather internal evidence via file_analyze (RAG).'' [''coordinator''] [''file_analyze''],
        template_step ''analyst'' ''analyst'' ''Analyst''
          ''Merge and cross-check both research lines.'' [''web-researcher'', ''kb-researcher''] [],
        template_step ''writer'' ''writer'' ''Writer'' (''Write the cited final answer to: '' @ q) [''analyst''] []])"

definition build_write_review_plan :: "string \<Rightarrow> plan" where
  "build_write_review_plan question =
     (let q = py_strip question in template_plan q ''write_review''
       [template_step ''drafter'' ''drafter'' ''Drafter'' (''Write a complete first draft for: '' @ q) [] [],
        template_step ''reviewer'' ''reviewer'' ''Reviewer''
          ''Review the draft against the request. Output a STRUCTURED list of concrete problems (factual, logical, structural, clarity). Do NOT rewrite the draft yourself.''
          [''drafter''] [],
        template_step ''finalizer'' ''finalizer'' ''Finalizer''
          ''Produce the final version, addressing every point in the reviewer's list. Keep what was already good.''
          [''reviewer''] []])"

text \<open>\<open>extract_debate_sides\<close> is the argument \<open>sides\<close>.\<close>

definition build_debate_plan :: "(string \<Rightarrow> (string \<times> string) option) \<Rightarrow> string \<Rightarrow> plan" where
  "build_debate_plan extract_sides question =
     (let sides = extract_sides question;
          sa0 = py_strip (case sides of Some (a, _) \<Rightarrow> a | None \<Rightarrow> ''A'');
          sb0 = py_strip (case sides of Some (_, b) \<Rightarrow> b | None \<Rightarrow> ''B'');
          sa = (if sa0 = [] then ''A'' else sa0); sb = (if sb0 = [] then ''B'' else sb0)
      in template_plan (py_strip question) ''debate''
       [template_step ''advocate-a'' ''advocate'' (sa @ '' Advocate'')
          (''Build the strongest structured case for '' @ sa @ ''.'') [] [],
        template_step ''advocate-b'' ''advocate'' (sb @ '' Advocate'')
          (''Build the strongest structured case for '' @ sb @ ''.'') [] [],
        template_step ''judge'' ''judge'' ''Judge''
          (''Weigh '' @ sa @ '' vs '' @ sb @ '' on the same dimensions; conditional verdict.'')
          [''advocate-a'', ''advocate-b''] []])"

text \<open>\<open>graph._clamp_workers\<close> on an int.\<close>

definition clamp_workers :: "int \<Rightarrow> nat" where
  "clamp_workers n = nat (max 1 (min n 6))"

definition worker_id :: "nat \<Rightarrow> string" where
  "worker_id i = ''worker-'' @ nat_str i"

definition build_task_decomposition_plan :: "string \<Rightarrow> int \<Rightarrow> plan" where
  "build_task_decomposition_plan question worker_count =
     (let q = py_strip question; n = clamp_workers worker_count
      in template_plan q ''task_decomposition''
       ([template_step ''decomposer'' ''coordinator'' ''Coordinator''
          (''Break the request into '' @ nat_str n @ '' independent, parallelisable work items: '' @ q) [] []]
        @ map (\<lambda>i. template_step (worker_id i) ''worker'' (''Worker '' @ nat_str i)
            (''Complete work item '' @ nat_str i @ '' from the coordinator's breakdown. Produce a self-contained result that needs no further work.'')
            [''decomposer''] []) [1..<n + 1]
        @ [template_step ''integrator'' ''integrator'' ''Integrator''
          ''Merge every worker's output into one coherent deliverable; resolve conflicts and remove duplication.''
          (map worker_id [1..<n + 1]) []]))"

end
