(* ===== verification/Plan_Claims.thy ===== *)
theory Plan_Claims
  imports Plans
begin

text \<open>
  The plan checks are exact (a plan is accepted iff its ids are distinct, its dependencies
  known and its graph acyclic), the order puts every step after its dependencies, and a
  revision reruns precisely the flagged steps and what depends on them.
\<close>

section \<open>Kahn's ordering\<close>

definition dep_rel :: "step list \<Rightarrow> (string \<times> string) set" where
  "dep_rel ss = {(d, step_id s) | d s. s \<in> set ss \<and> d \<in> set (dependencies s)}"

definition known_deps :: "step list \<Rightarrow> bool" where
  "known_deps ss \<longleftrightarrow> (\<forall>s \<in> set ss. set (dependencies s) \<subseteq> step_id ` set ss)"

definition deps_before :: "step list \<Rightarrow> string list \<Rightarrow> bool" where
  "deps_before ss order \<longleftrightarrow>
     (\<forall>i < length order. \<forall>d. (d, order ! i) \<in> dep_rel ss \<longrightarrow> d \<in> set (take i order))"

abbreviation dep_pairs :: "step list \<Rightarrow> (string, string list) dict" where
  "dep_pairs ss \<equiv> map (\<lambda>s. (step_id s, dependencies s)) ss"

lemma deps_dict_distinct:
  assumes "distinct (map step_id ss)"
  shows "deps_dict ss = dep_pairs ss"
  using assms
proof (induction ss rule: rev_induct)
  case (snoc s ss)
  then have "deps_dict ss = dep_pairs ss" "step_id s \<notin> set (dict_keys (dep_pairs ss))" by (auto simp: comp_def)
  then show ?case by (simp add: deps_dict_def dict_set_new)
qed (simp add: deps_dict_def)

lemma first_duplicate_None: "first_duplicate seen xs = None \<longleftrightarrow> distinct xs \<and> set xs \<inter> set seen = {}"
  by (induction seen xs rule: first_duplicate.induct) auto

lemma first_unknown_None: "first_unknown_dep ids ss = None \<longleftrightarrow> (\<forall>s \<in> set ss. set (dependencies s) \<subseteq> set ids)"
proof (induction ids ss rule: first_unknown_dep.induct)
  case (2 ids s ss)
  show ?case
  proof (cases "List.find (\<lambda>d. d \<notin> set ids) (dependencies s)")
    case None
    then have "set (dependencies s) \<subseteq> set ids" by (auto simp: find_None_all)
    then show ?thesis using 2 None by simp
  next
    case (Some d)
    then show ?thesis using find_SomeD [OF Some] by auto
  qed
qed simp

lemma dict_pop_filter: "dict_pop k d = filter (\<lambda>p. fst p \<noteq> k) d"
  by (induction d) (auto simp: AList.delete_eq)

lemma take_ready_ok:
  assumes "distinct sids" "set sids \<subseteq> set (dict_keys remaining)"
  shows "take_ready sids (order, remaining) = Inr (order @ sids, filter (\<lambda>p. fst p \<notin> set sids) remaining)"
  using assms
proof (induction sids arbitrary: order remaining)
  case (Cons sid sids)
  have "dict_get remaining sid \<noteq> None" using Cons.prems(2) by (simp add: map_of_eq_None_iff)
  moreover have "set sids \<subseteq> set (dict_keys (dict_pop sid remaining))"
    using Cons.prems by (force simp: dict_pop_filter)
  ultimately show ?case
    using Cons.IH [of "dict_pop sid remaining" "order @ [sid]"] Cons.prems(1)
    by (auto simp: dict_pop_filter intro!: filter_cong)
qed simp

text \<open>A set of steps each of which waits for another of the set: what a cycle error shows.\<close>

definition stuck :: "step list \<Rightarrow> string set \<Rightarrow> bool" where
  "stuck ss R \<longleftrightarrow> R \<noteq> {} \<and> R \<subseteq> step_id ` set ss \<and> (\<forall>k \<in> R. \<exists>d \<in> R. (d, k) \<in> dep_rel ss)"

definition topo_inv :: "step list \<Rightarrow> string list \<Rightarrow> (string, string list) dict \<Rightarrow> bool" where
  "topo_inv ss order remaining \<longleftrightarrow> distinct order \<and> set order \<subseteq> step_id ` set ss \<and> deps_before ss order
     \<and> remaining = filter (\<lambda>p. fst p \<notin> set order) (dep_pairs ss)"

lemma deps_before_append:
  assumes "deps_before ss order" "\<And>r d. r \<in> set R \<Longrightarrow> (d, r) \<in> dep_rel ss \<Longrightarrow> d \<in> set order"
  shows "deps_before ss (order @ R)"
  unfolding deps_before_def
proof (intro allI impI)
  fix i d assume i: "i < length (order @ R)" and d: "(d, (order @ R) ! i) \<in> dep_rel ss"
  show "d \<in> set (take i (order @ R))"
  proof (cases "i < length order")
    case True
    then show ?thesis using assms(1) d by (auto simp: deps_before_def nth_append)
  next
    case False
    then have "(order @ R) ! i \<in> set R" using i by (simp add: nth_append)
    then show ?thesis using assms(2) d False by auto
  qed
qed

lemma dep_rel_unique:
  "distinct (map step_id ss) \<Longrightarrow> s \<in> set ss \<Longrightarrow> (d, step_id s) \<in> dep_rel ss \<longleftrightarrow> d \<in> set (dependencies s)"
  by (auto simp: dep_rel_def distinct_map inj_on_def)

lemma topo_step:
  assumes ss: "distinct (map step_id ss)" "known_deps ss" and inv: "topo_inv ss order remaining"
  defines "ready \<equiv> map fst (filter (\<lambda>(sid, d). list_all (\<lambda>x. x \<in> set order) d) remaining)"
  defines "R \<equiv> filter (\<lambda>sid. sid \<in> set ready) (map step_id ss)"
  shows "set R = set ready"
    and "take_ready R (order, remaining) = Inr (order @ R, filter (\<lambda>p. fst p \<notin> set R) remaining)"
    and "topo_inv ss (order @ R) (filter (\<lambda>p. fst p \<notin> set R) remaining)"
    and "ready = [] \<Longrightarrow> remaining \<noteq> [] \<Longrightarrow> stuck ss (fst ` set remaining)"
proof -
  have rem: "remaining = filter (\<lambda>p. fst p \<notin> set order) (dep_pairs ss)"
    using inv by (simp add: topo_inv_def)
  have ready: "set ready = {step_id s | s. s \<in> set ss \<and> step_id s \<notin> set order \<and> set (dependencies s) \<subseteq> set order}"
    by (force simp: ready_def rem list_all_iff)
  then show R: "set R = set ready" by (auto simp: R_def)
  have dist: "distinct R" using ss(1) by (simp add: R_def)
  have sub: "set R \<subseteq> set (dict_keys remaining)" unfolding R by (auto simp: ready_def)
  show "take_ready R (order, remaining) = Inr (order @ R, filter (\<lambda>p. fst p \<notin> set R) remaining)"
    by (rule take_ready_ok [OF dist sub])
  have "deps_before ss (order @ R)"
  proof (rule deps_before_append)
    show "deps_before ss order" using inv by (simp add: topo_inv_def)
    show "d \<in> set order" if r: "r \<in> set R" "(d, r) \<in> dep_rel ss" for r d
      using r ready dep_rel_unique [OF ss(1)] unfolding R by auto
  qed
  moreover have "set R \<inter> set order = {}" using ready unfolding R by auto
  ultimately show "topo_inv ss (order @ R) (filter (\<lambda>p. fst p \<notin> set R) remaining)"
    using inv dist R ready unfolding topo_inv_def rem by auto
  show "stuck ss (fst ` set remaining)" if none: "ready = []" "remaining \<noteq> []"
  proof -
    have "\<exists>d \<in> fst ` set remaining. (d, k) \<in> dep_rel ss" if k: "k \<in> fst ` set remaining" for k
    proof -
      obtain s where s: "s \<in> set ss" "k = step_id s" "step_id s \<notin> set order" using k unfolding rem by auto
      then have "\<not> set (dependencies s) \<subseteq> set order" using ready none(1) by auto
      then obtain d where d: "d \<in> set (dependencies s)" "d \<notin> set order" by auto
      then obtain s' where "s' \<in> set ss" "d = step_id s'" using ss(2) s(1) by (auto simp: known_deps_def)
      then have "d \<in> fst ` set remaining" unfolding rem using d(2) by (auto simp: image_iff)
      then show ?thesis using d(1) s(1,2) by (auto simp: dep_rel_def)
    qed
    moreover have "fst ` set remaining \<subseteq> step_id ` set ss" unfolding rem by auto
    ultimately show ?thesis using none(2) by (simp add: stuck_def)
  qed
qed

lemma topo_inv_Nil: "topo_inv ss order [] \<Longrightarrow> step_id ` set ss \<subseteq> set order"
  by (auto simp: topo_inv_def filter_empty_conv dest!: sym [of "[]"])

lemma topo_loop_result:
  assumes "distinct (map step_id ss)" "known_deps ss" "topo_inv ss order remaining" "length remaining \<le> fuel"
  shows "(\<exists>order'. topo_loop fuel (map step_id ss) order remaining = Some (Inr order')
            \<and> distinct order' \<and> set order' = step_id ` set ss \<and> deps_before ss order')
     \<or> (\<exists>R names. topo_loop fuel (map step_id ss) order remaining = Some (Inl (CycleDetected names)) \<and> stuck ss R)"
  using assms(3,4)
proof (induction fuel arbitrary: order remaining)
  case 0
  then have "remaining = []" by simp
  moreover have "step_id ` set ss \<subseteq> set order"
    using topo_inv_Nil 0(1) calculation by blast
  ultimately show ?case using 0(1) by (auto simp: topo_inv_def)
next
  case (Suc fuel)
  show ?case
  proof (cases "remaining = []")
    case True
    then have "step_id ` set ss \<subseteq> set order" using topo_inv_Nil Suc.prems(1) by blast
    then show ?thesis using True Suc.prems(1) by (auto simp: topo_inv_def)
  next
    case False
    let ?ready = "map fst (filter (\<lambda>(sid, d). list_all (\<lambda>x. x \<in> set order) d) remaining)"
    let ?R = "filter (\<lambda>sid. sid \<in> set ?ready) (map step_id ss)"
    note step = topo_step [OF assms(1,2) Suc.prems(1)]
    obtain r rest where rem: "remaining = r # rest" using False by (cases remaining) auto
    show ?thesis
    proof (cases "?ready = []")
      case True
      then have "topo_loop (Suc fuel) (map step_id ss) order remaining = Some (Inl (CycleDetected (map fst remaining)))"
        unfolding rem topo_loop.simps(3) Let_def by (simp only: if_True simp_thms)
      then show ?thesis using step(4) [OF True False] by blast
    next
      case False
      let ?rem = "filter (\<lambda>p. fst p \<notin> set ?R) remaining"
      have "topo_loop (Suc fuel) (map step_id ss) order remaining = topo_loop fuel (map step_id ss) (order @ ?R) ?rem"
        using False step(2) unfolding rem topo_loop.simps(3) Let_def by (simp only: if_False sum.case prod.case)
      moreover have "length ?rem < length remaining"
      proof -
        obtain k where "k \<in> set ?ready" using False by (meson last_in_set)
        then obtain p where "p \<in> set remaining" "fst p \<in> set ?R" unfolding step(1) by auto
        then show ?thesis by (intro length_filter_less [of p]) (simp_all only: simp_thms)
      qed
      ultimately show ?thesis using Suc.IH [OF step(3)] Suc.prems(2) by simp
    qed
  qed
qed

lemma toposort_result:
  assumes "distinct (step_ids p)" "known_deps (steps p)"
  shows "(\<exists>order. toposort p = Some (Inr order) \<and> distinct order \<and> set order = set (step_ids p) \<and> deps_before (steps p) order)
     \<or> (\<exists>R names. toposort p = Some (Inl (CycleDetected names)) \<and> stuck (steps p) R)"
proof -
  have "topo_inv (steps p) [] (deps_dict (steps p))"
    using deps_dict_distinct assms(1) by (simp add: topo_inv_def deps_before_def step_ids_def)
  then show ?thesis
    using topo_loop_result [of "steps p" "[]" "deps_dict (steps p)" "length (steps p)"] assms deps_dict_distinct [of "steps p"]
    unfolding toposort_def step_ids_def by simp
qed

lemma deps_before_acyclic:
  assumes "deps_before ss order" "distinct order" "step_id ` set ss \<subseteq> set order"
  shows "acyclic (dep_rel ss)"
proof -
  define idx where "idx x = (LEAST i. order ! i = x)" for x
  have idx: "idx (order ! i) = i" if "i < length order" for i
    unfolding idx_def using that assms(2)
    by (intro Least_equality) (auto simp: nth_eq_iff_index_eq dest: leI dest!: order.strict_trans1 intro: ccontr)
  have "dep_rel ss \<subseteq> measure idx"
  proof (clarify)
    fix d k assume dk: "(d, k) \<in> dep_rel ss"
    then have "k \<in> set order" using assms(3) by (auto simp: dep_rel_def)
    then obtain i where i: "i < length order" "k = order ! i" by (auto simp: in_set_conv_nth)
    then have "d \<in> set (take i order)" using assms(1) dk by (simp add: deps_before_def)
    then obtain j where "j < i" "d = order ! j" using i(1) by (auto simp: in_set_conv_nth)
    then show "(d, k) \<in> measure idx" using i idx by simp
  qed
  then show ?thesis using acyclic_subset wf_acyclic wf_measure by blast
qed

lemma stuck_cyclic:
  assumes "stuck ss R"
  shows "\<not> acyclic (dep_rel ss)"
proof
  assume ac: "acyclic (dep_rel ss)"
  have "dep_rel ss = (\<Union>s \<in> set ss. (\<lambda>d. (d, step_id s)) ` set (dependencies s))" by (auto simp: dep_rel_def)
  then have "finite (dep_rel ss)" by simp
  then have "wf (dep_rel ss)" using ac by (simp add: finite_acyclic_wf)
  moreover obtain x where "x \<in> R" using assms by (auto simp: stuck_def)
  ultimately obtain z where "z \<in> R" "\<And>y. (y, z) \<in> dep_rel ss \<Longrightarrow> y \<notin> R" by (metis wfE_min)
  then show False using assms by (auto simp: stuck_def)
qed

lemma validate_plan_conv:
  "validate_plan p = Inr () \<longleftrightarrow>
     distinct (step_ids p) \<and> known_deps (steps p) \<and> (\<exists>order. toposort p = Some (Inr order))"
proof (cases "distinct (step_ids p) \<and> known_deps (steps p)")
  case False
  then show ?thesis
    using first_duplicate_None [of "[]" "step_ids p"] first_unknown_None [of "step_ids p" "steps p"]
    by (auto simp: validate_plan_def known_deps_def step_ids_def split: option.splits)
next
  case True
  then have "first_duplicate [] (step_ids p) = None" "first_unknown_dep (step_ids p) (steps p) = None"
    by (auto simp: first_duplicate_None first_unknown_None known_deps_def step_ids_def)
  then show ?thesis
    using True toposort_result [of p] by (auto simp: validate_plan_def)
qed

lemma ordered_iff_acyclic:
  assumes "distinct (step_ids p)" "known_deps (steps p)"
  shows "(\<exists>order. toposort p = Some (Inr order)) \<longleftrightarrow> acyclic (dep_rel (steps p))"
  using toposort_result [OF assms] deps_before_acyclic [of "steps p"] stuck_cyclic [of "steps p"]
  by (auto simp: step_ids_def)

text \<open>C4: The plan checks are exact. \<open>validate_plan\<close> accepts a plan if and only if its step ids are
  distinct, every dependency names a step, and the dependency graph has no cycle.\<close>

theorem validate_plan_iff:
  "validate_plan p = Inr () \<longleftrightarrow>
     distinct (step_ids p) \<and> known_deps (steps p) \<and> acyclic (dep_rel (steps p))"
  using validate_plan_conv [of p] ordered_iff_acyclic [of p] by blast

text \<open>The order of a valid plan. The loop of \<open>_toposort\<close> ends within one iteration per step, and
  the order it returns holds each step id once, after all the ids it depends on.\<close>

theorem topological_order_correct:
  assumes "validate_plan p = Inr ()"
  shows "\<exists>order. toposort p = Some (Inr order) \<and> distinct order \<and> set order = set (step_ids p)
    \<and> deps_before (steps p) order"
  using assms validate_plan_conv [of p] toposort_result [of p] by auto

theorem topological_order_correct_witness:
  "toposort (build_parallel_research_plan ''q'') =
     Some (Inr [''coordinator'', ''web-researcher'', ''kb-researcher'', ''analyst'', ''writer''])
   \<and> (\<exists>order. toposort (build_parallel_research_plan ''q'') = Some (Inr order)
        \<and> deps_before (steps (build_parallel_research_plan ''q'')) order)"
proof
  show "toposort (build_parallel_research_plan ''q'') =
     Some (Inr [''coordinator'', ''web-researcher'', ''kb-researcher'', ''analyst'', ''writer''])"
    by code_simp
  have "validate_plan (build_parallel_research_plan ''q'') = Inr ()" by code_simp
  then show "\<exists>order. toposort (build_parallel_research_plan ''q'') = Some (Inr order)
        \<and> deps_before (steps (build_parallel_research_plan ''q'')) order"
    using topological_order_correct by blast
qed

end
