(* ===== verification/Revision_Plans.thy ===== *)
theory Revision_Plans
  imports Plan_Claims
begin

text \<open>
  What a revision of a plan does (\<open>planner.revise_plan\<close>): the worklist computes exactly the
  transitive dependents, the flagged steps and these rerun with the review's findings, every
  other step keeps its observation, and no kept step depends on a rerun one.
\<close>

section \<open>The worklist is the transitive closure\<close>

lemma set_dependents_of: "set (dependents_of ss sid) = {k. (sid, k) \<in> dep_rel ss}"
  by (auto simp: dependents_of_def dep_rel_def)

definition downstream :: "step list \<Rightarrow> string list \<Rightarrow> string set" where
  "downstream ss roots = reached (dep_rel ss) (set roots)"

lemma downstream_step:
  "x \<in> set roots \<union> downstream ss roots \<Longrightarrow> (x, k) \<in> dep_rel ss \<Longrightarrow> k \<in> downstream ss roots"
  unfolding downstream_def by (rule reached_step)

lemma closure_loop_inv:
  "closure_inv (dep_rel ss) roots seen stack \<Longrightarrow> set (closure_loop ss seen stack) = reached (dep_rel ss) roots"
proof (induction ss seen stack rule: closure_loop.induct)
  case (2 ss seen sid stack)
  obtain seen' stack' where f: "foldl push_child (seen, stack) (dependents_of ss sid) = (seen', stack')"
    by (cases "foldl push_child (seen, stack) (dependents_of ss sid)")
  show ?case
    using 2(1) f closure_inv_push [OF 2(2) f set_dependents_of] by (simp add: Let_def)
qed (simp add: closure_inv_end)

lemma set_downstream_closure: "set (downstream_closure ss roots) = downstream ss roots - set roots"
proof -
  show ?thesis
    using closure_loop_inv [OF closure_inv_start [where stack = roots, OF refl]] by (auto simp: downstream_closure_def downstream_def)
qed

section \<open>The revised plan\<close>

definition rerun_set :: "plan \<Rightarrow> string list \<Rightarrow> string set" where
  "rerun_set p ids = set ids \<union> downstream (steps p) ids"

lemma rerun_set_code: "set ids \<union> set (downstream_closure (steps p) ids) = rerun_set p ids"
  by (auto simp: rerun_set_def set_downstream_closure)

lemma carried_of_get:
  "dict_get (carried_of R obs ss) k = (if k \<in> step_id ` set ss \<and> k \<notin> R then dict_get obs k else None)"
proof -
  have "dict_get (foldl (\<lambda>d s. if step_id s \<in> R then d
      else (case dict_get obs (step_id s) of None \<Rightarrow> d | Some ob \<Rightarrow> dict_set (step_id s) ob d)) d ss) k
    = (if k \<in> step_id ` set ss \<and> k \<notin> R \<and> dict_get obs k \<noteq> None then dict_get obs k else dict_get d k)" for d
    by (induction ss arbitrary: d) (auto simp: dict_get_set split: option.splits)
  from this [of "[]"] show ?thesis by (auto simp: carried_of_def)
qed

lemma revise_step_frame:
  "step_id (revise_step R n f s) = step_id s" "dependencies (revise_step R n f s) = dependencies s"
  by (simp_all add: revise_step_def)

definition revised_plan :: "plan \<Rightarrow> string list \<Rightarrow> observations \<Rightarrow> string list \<Rightarrow> plan" where
  "revised_plan p ids obs f =
     p\<lparr>version := version p + 1,
       steps := map (revise_step (rerun_set p ids) (replan_count p + 1) (strip_nonempty f)) (steps p),
       replan_count := replan_count p + 1, carry_observations := carried_of (rerun_set p ids) obs (steps p)\<rparr>"

lemma toposort_same_graph:
  assumes "step_ids q = step_ids p" "deps_dict (steps q) = deps_dict (steps p)" "length (steps q) = length (steps p)"
  shows "toposort q = toposort p"
  unfolding toposort_def assms ..

lemma revised_valid:
  assumes "validate_plan p = Inr ()"
  shows "validate_plan (revised_plan p ids obs f) = Inr ()"
proof -
  let ?q = "revised_plan p ids obs f"
  have ids: "step_ids ?q = step_ids p" by (simp add: revised_plan_def step_ids_def revise_step_frame)
  moreover have "map dependencies (steps ?q) = map dependencies (steps p)"
    by (simp add: revised_plan_def revise_step_frame)
  moreover have "dep_pairs (steps ?q) = dep_pairs (steps p)" by (simp add: revised_plan_def revise_step_frame)
  then have "deps_dict (steps ?q) = deps_dict (steps p)"
    using deps_dict_distinct assms ids by (metis step_ids_def validate_plan_conv)
  moreover have "known_deps (steps ?q) = known_deps (steps p)"
    using ids by (auto simp: known_deps_def revised_plan_def revise_step_frame image_image)
  ultimately show ?thesis
    using assms toposort_same_graph [of ?q p] by (simp add: validate_plan_conv revised_plan_def)
qed

lemma revise_plan_total:
  assumes "validate_plan p = Inr ()" "set ids \<subseteq> set (step_ids p)"
  shows "revise_plan p ids obs f = Inr (revised_plan p ids obs f)"
proof -
  have "filter (\<lambda>r. r \<notin> set (step_ids p)) ids = []" using assms(2) by (auto simp: filter_empty_conv)
  then show ?thesis
    using revised_valid [OF assms(1), of ids obs f]
    by (simp add: revise_plan_def rerun_set_code revised_plan_def Let_def)
qed

text \<open>C5: A revision reruns what it must and keeps the rest. For a valid plan and known step ids,
  \<open>revise_plan\<close> returns a valid plan with the same steps in which exactly the flagged steps and
  their transitive dependents are to run, each with the review's findings; every other step
  is skipped, carries its observation, and depends on no step that reruns.\<close>

theorem revise_plan_correct:
  assumes "validate_plan p = Inr ()" "set ids \<subseteq> set (step_ids p)"
  shows "\<exists>q. revise_plan p ids obs f = Inr q \<and> validate_plan q = Inr () \<and> step_ids q = step_ids p
    \<and> version q = version p + 1
    \<and> (\<forall>s \<in> set (steps q). (skip s \<longleftrightarrow> step_id s \<notin> rerun_set p ids)
         \<and> (\<not> skip s \<longrightarrow> review_findings s = strip_nonempty f \<and> revision_round s = replan_count p + 1)
         \<and> (skip s \<longrightarrow> set (dependencies s) \<inter> rerun_set p ids = {}
              \<and> dict_get (carry_observations q) (step_id s) = dict_get obs (step_id s)))
    \<and> (\<forall>k \<in> rerun_set p ids. dict_get (carry_observations q) k = None)"
proof -
  let ?q = "revised_plan p ids obs f" and ?R = "rerun_set p ids"
  have kept: "set (dependencies s) \<inter> ?R = {}" if "s \<in> set (steps p)" "step_id s \<notin> ?R" for s
  proof (rule ccontr)
    assume "set (dependencies s) \<inter> ?R \<noteq> {}"
    then obtain d where d: "d \<in> ?R" "d \<in> set (dependencies s)" by auto
    then have "(d, step_id s) \<in> dep_rel (steps p)" using that(1) by (auto simp: dep_rel_def)
    then have "step_id s \<in> downstream (steps p) ids" using downstream_step d(1) by (metis rerun_set_def)
    then show False using that(2) by (simp add: rerun_set_def)
  qed
  have "\<forall>s \<in> set (steps ?q). (skip s \<longleftrightarrow> step_id s \<notin> ?R)
         \<and> (\<not> skip s \<longrightarrow> review_findings s = strip_nonempty f \<and> revision_round s = replan_count p + 1)
         \<and> (skip s \<longrightarrow> set (dependencies s) \<inter> ?R = {}
              \<and> dict_get (carry_observations ?q) (step_id s) = dict_get obs (step_id s))"
  proof
    fix s assume "s \<in> set (steps ?q)"
    then obtain s0 where s0: "s0 \<in> set (steps p)" "s = revise_step ?R (replan_count p + 1) (strip_nonempty f) s0"
      by (auto simp: revised_plan_def)
    show "(skip s \<longleftrightarrow> step_id s \<notin> ?R)
         \<and> (\<not> skip s \<longrightarrow> review_findings s = strip_nonempty f \<and> revision_round s = replan_count p + 1)
         \<and> (skip s \<longrightarrow> set (dependencies s) \<inter> ?R = {}
              \<and> dict_get (carry_observations ?q) (step_id s) = dict_get obs (step_id s))"
      using kept [OF s0(1)] s0
      by (cases "step_id s0 \<in> ?R") (simp_all add: revise_step_def revised_plan_def carried_of_get)
  qed
  moreover have "\<forall>k \<in> ?R. dict_get (carry_observations ?q) k = None" by (simp add: revised_plan_def carried_of_get)
  moreover have "step_ids ?q = step_ids p" "version ?q = version p + 1"
    by (simp_all add: revised_plan_def step_ids_def revise_step_frame)
  ultimately show ?thesis
    using revise_plan_total [OF assms] revised_valid [OF assms(1)] by blast
qed

definition demo_observation :: "string \<Rightarrow> observation" where
  "demo_observation sid = \<lparr>obs_step_id = sid, obs_output = ''out'', obs_usage = None, obs_attempts = 1, obs_status = ''done''\<rparr>"

theorem revise_plan_correct_witness:
  "\<exists>q. revise_plan (build_parallel_research_plan ''q'') [''web-researcher'']
     [(''kb-researcher'', demo_observation ''kb-researcher'')] [''  cite sources ''] = Inr q
   \<and> step_ids q = step_ids (build_parallel_research_plan ''q'')
   \<and> map skip (steps q) = [True, False, True, False, False]"
proof -
  have "validate_plan (build_parallel_research_plan ''q'') = Inr ()"
    "set [''web-researcher''] \<subseteq> set (step_ids (build_parallel_research_plan ''q''))" by code_simp+
  from revise_plan_correct [OF this, of "[(''kb-researcher'', demo_observation ''kb-researcher'')]" "[''  cite sources '']"]
  obtain q where q: "revise_plan (build_parallel_research_plan ''q'') [''web-researcher'']
     [(''kb-researcher'', demo_observation ''kb-researcher'')] [''  cite sources ''] = Inr q"
    "step_ids q = step_ids (build_parallel_research_plan ''q'')" by blast
  have "case revise_plan (build_parallel_research_plan ''q'') [''web-researcher'']
     [(''kb-researcher'', demo_observation ''kb-researcher'')] [''  cite sources ''] of
     Inr q \<Rightarrow> map skip (steps q) = [True, False, True, False, False] | Inl _ \<Rightarrow> False" by code_simp
  then show ?thesis using q by simp
qed

end
