(* ===== verification/Review.thy ===== *)
theory Review
  imports Plans "HOL-Library.List_Lexorder" "HOL-Library.Char_ord"
begin

text \<open>
  The review of a run: the verifiers (\<open>agents/workflow/verifier.py\<close>), the pure decision
  what follows a verdict (\<open>agents/workflow/revision.py\<close>), and the step checkpoints a
  restarted run resumes from (\<open>agents/workflow/checkpoints.py\<close>).
\<close>

section \<open>Verifiers\<close>

text \<open>The finding of a step that does not pass, if it does not.\<close>

definition step_finding :: "observations \<Rightarrow> step \<Rightarrow> string option" where
  "step_finding obs s =
     (if skip s then None
      else
        (case dict_get obs (step_id s) of
           None \<Rightarrow> Some (step_id s @ '': no completed observation'')
         | Some ob \<Rightarrow>
             if obs_status ob \<noteq> ''done'' then Some (step_id s @ '': no completed observation'')
             else
               (case Option.bind (dict_get (acceptance_criteria s) ''min_chars'') py_int of
                  None \<Rightarrow> None
                | Some n \<Rightarrow>
                    if int (length (obs_output ob)) < n
                    then Some (step_id s @ '': output too short ('' @ nat_str (length (obs_output ob))
                           @ '' < '' @ nat_str (nat n) @ '')'')
                    else None)))"

definition rule_based_verify :: "plan \<Rightarrow> observations \<Rightarrow> verifier_result" where
  "rule_based_verify p obs =
     (let failing = filter (\<lambda>s. step_finding obs s \<noteq> None) (steps p);
          findings = List.map_filter (step_finding obs) (steps p)
      in if failing = []
         then \<lparr>vr_verdict = VPass, vr_findings = findings, vr_revise_step_ids = [], vr_note = []\<rparr>
         else \<lparr>vr_verdict = VRevise, vr_findings = findings,
               vr_revise_step_ids = map step_id failing, vr_note = []\<rparr>)"

definition ascii_lower_char :: "char \<Rightarrow> char" where
  "ascii_lower_char c = (let n = (of_char c :: nat) in if 65 \<le> n \<and> n \<le> 90 then char_of (n + 32) else c)"

definition rstrip_char :: "char \<Rightarrow> string \<Rightarrow> string" where
  "rstrip_char c s = rev (dropWhile (\<lambda>x. x = c) (rev s))"

definition coerce_verdict :: "string \<Rightarrow> string + verification_verdict" where
  "coerce_verdict v0 =
     (let v = rstrip_char CHR ''_'' (map ascii_lower_char (py_strip v0))
      in if v \<in> {''pass'', ''pass_'', ''ok'', ''done''} then Inr VPass
         else if v \<in> {''revise'', ''rework'', ''retry''} then Inr VRevise
         else if v \<in> {''fail'', ''failed'', ''error''} then Inr VFail
         else Inl (''unknown verdict string: '' @ v0))"

text \<open>The scripted verifier: its script and how often it was asked.\<close>

record scripted =
  script :: "(string + verifier_result) list"
  script_ids :: "string list"
  script_index :: nat

definition scripted_verify :: "scripted \<Rightarrow> (string + verifier_result) \<times> scripted" where
  "scripted_verify v =
     (let v' = v\<lparr>script_index := script_index v + 1\<rparr>
      in (if script v = [] then Inl ''list index out of range''
          else
            (case script v ! (min (script_index v) (length (script v) - 1)) of
               Inr r \<Rightarrow> Inr r
             | Inl s \<Rightarrow>
                 rbind (coerce_verdict s) (\<lambda>verdict.
                   Inr \<lparr>vr_verdict = verdict, vr_findings = [],
                         vr_revise_step_ids = (if verdict = VRevise then script_ids v else []),
                         vr_note = []\<rparr>)), v'))"

section \<open>The decision\<close>

datatype action = Accept | Revise | Terminate | PlanLimit | BudgetLimit

record review_verdict =
  rv_passed :: bool
  rv_revise_step_ids :: "string list"
  rv_findings :: "string list"
  rv_round :: int
  rv_fatal :: bool

definition from_verifier_result :: "verifier_result \<Rightarrow> int \<Rightarrow> review_verdict" where
  "from_verifier_result v rnd =
     \<lparr>rv_passed = (vr_verdict v = VPass), rv_revise_step_ids = vr_revise_step_ids v,
      rv_findings = vr_findings v, rv_round = rnd, rv_fatal = (vr_verdict v = VFail)\<rparr>"

record revision_decision =
  rd_action :: action
  rd_revise_step_ids :: "string list"
  rd_findings :: "string list"
  rd_round :: int
  rd_consumes_budget :: bool
  rd_plan_max :: int
  rd_replans_used :: int

definition should_revise :: "revision_decision \<Rightarrow> bool" where
  "should_revise d \<longleftrightarrow> rd_action d = Revise"

definition decision_stops :: "revision_decision \<Rightarrow> bool" where
  "decision_stops d \<longleftrightarrow> rd_action d \<noteq> Revise"

record replan_budget =
  rb_plan_max :: int
  rb_replans_used :: int
  rb_guard_remaining :: "int option"

definition guard_allows :: "replan_budget \<Rightarrow> bool" where
  "guard_allows b = (case rb_guard_remaining b of None \<Rightarrow> True | Some n \<Rightarrow> n > 0)"

definition plan_allows :: "replan_budget \<Rightarrow> bool" where
  "plan_allows b \<longleftrightarrow> rb_replans_used b < rb_plan_max b"

definition decide_revision :: "review_verdict \<Rightarrow> replan_budget \<Rightarrow> revision_decision" where
  "decide_revision v b =
     (let stop = (\<lambda>act fs pm. \<lparr>rd_action = act, rd_revise_step_ids = [], rd_findings = fs, rd_round = rv_round v,
                    rd_consumes_budget = False, rd_plan_max = pm, rd_replans_used = rb_replans_used b\<rparr>);
          plan_max = max 0 (rb_plan_max b)
      in if rv_fatal v then stop Terminate (rv_findings v) (rb_plan_max b)
         else if rv_passed v then stop Accept [] (rb_plan_max b)
         else if \<not> plan_allows b then stop PlanLimit (rv_findings v) plan_max
         else if \<not> guard_allows b then stop BudgetLimit (rv_findings v) plan_max
         else if rv_revise_step_ids v = [] then stop Accept (rv_findings v) plan_max
         else \<lparr>rd_action = Revise, rd_revise_step_ids = rv_revise_step_ids v, rd_findings = rv_findings v,
               rd_round = rv_round v + 1, rd_consumes_budget = True, rd_plan_max = plan_max,
               rd_replans_used = rb_replans_used b + 1\<rparr>)"

text \<open>The reading of a guard's remaining replans.\<close>

definition replan_budget_for :: "plan \<Rightarrow> budget_guard option \<Rightarrow> int \<Rightarrow> replan_budget" where
  "replan_budget_for p gd used =
     \<lparr>rb_plan_max = max_replans p, rb_replans_used = used,
      rb_guard_remaining =
        (case gd of None \<Rightarrow> None
         | Some g \<Rightarrow> Some (max 0 (\<lfloor>num (max_replan_count (limits g))\<rfloor> - g_replans g)))\<rparr>"

definition findings_for_steps :: "revision_decision \<Rightarrow> string list" where
  "findings_for_steps d = strip_nonempty (rd_findings d)"

record review_entry =
  re_round :: int
  re_verdict :: verification_verdict
  re_findings :: "string list"
  re_revise_step_ids :: "string list"
  re_decision :: revision_decision
  re_blocked :: "string option"

text \<open>\<open>re_blocked\<close> is what the engine writes into the last entry when the budget refuses the
  replan: the flag and the refusal's message.\<close>

definition record_review ::
  "review_entry list \<Rightarrow> verifier_result \<Rightarrow> revision_decision \<Rightarrow> int \<Rightarrow> review_entry list" where
  "record_review tr v d rnd =
     tr @ [\<lparr>re_round = rnd, re_verdict = vr_verdict v, re_findings = vr_findings v,
            re_revise_step_ids = vr_revise_step_ids v, re_decision = d, re_blocked = None\<rparr>]"

section \<open>Checkpoints\<close>

record checkpoint_row =
  cp_run :: uuid
  cp_sequence :: int
  cp_step_type :: string
  cp_agent_id :: string
  cp_status :: string
  cp_output :: string
  cp_usage :: "(string, py_value) dict option"
  cp_attempts :: int

definition CHECKPOINT_STEP_TYPE :: string where "CHECKPOINT_STEP_TYPE = ''plan''"
definition MAX_OUTPUT_CHARS :: nat where "MAX_OUTPUT_CHARS = 200000"

definition checkpoint_save ::
  "uuid \<Rightarrow> observation \<Rightarrow> int \<Rightarrow> checkpoint_row list \<Rightarrow> checkpoint_row option \<times> checkpoint_row list" where
  "checkpoint_save run ob sq rows =
     (let output = obs_output ob
      in if output = [] \<or> length output > MAX_OUTPUT_CHARS then (None, rows)
         else
           (let row = \<lparr>cp_run = run, cp_sequence = sq, cp_step_type = CHECKPOINT_STEP_TYPE,
                  cp_agent_id = obs_step_id ob, cp_status = ''done'', cp_output = output,
                  cp_usage = obs_usage ob, cp_attempts = obs_attempts ob\<rparr>
            in (Some row, rows @ [row])))"

text \<open>The rows come by ascending sequence; \<open>scan\<close> is the order in which the database returns
  rows of the same sequence.\<close>

definition row_observation :: "checkpoint_row \<Rightarrow> observation" where
  "row_observation r =
     \<lparr>obs_step_id = cp_agent_id r, obs_output = cp_output r,
      obs_usage = (if cp_usage r = Some [] then None else cp_usage r),
      obs_attempts = (if cp_attempts r = 0 then 1 else cp_attempts r), obs_status = ''done''\<rparr>"

definition is_checkpoint :: "uuid \<Rightarrow> checkpoint_row \<Rightarrow> bool" where
  "is_checkpoint run r \<longleftrightarrow> cp_run r = run \<and> cp_step_type r = CHECKPOINT_STEP_TYPE \<and> cp_status r = ''done''"

definition checkpoint_load ::
  "(checkpoint_row list \<Rightarrow> checkpoint_row list) \<Rightarrow> uuid \<Rightarrow> checkpoint_row list \<Rightarrow> observations" where
  "checkpoint_load scan run rows =
     foldl (\<lambda>d r. if cp_agent_id r = [] \<or> cp_output r = [] then d
                  else dict_set (cp_agent_id r) (row_observation r) d) []
       (sort_key cp_sequence (scan (filter (is_checkpoint run) rows)))"

definition checkpoint_clear :: "uuid \<Rightarrow> checkpoint_row list \<Rightarrow> nat \<times> checkpoint_row list" where
  "checkpoint_clear run rows =
     (let hit = (\<lambda>r. cp_run r = run \<and> cp_step_type r = CHECKPOINT_STEP_TYPE)
      in (length (filter hit rows), filter (\<lambda>r. \<not> hit r) rows))"

definition count_checkpoints :: "uuid \<Rightarrow> checkpoint_row list \<Rightarrow> nat" where
  "count_checkpoints run rows = length (filter (is_checkpoint run) rows)"

subsection \<open>Resuming a plan\<close>

definition deps_of :: "step list \<Rightarrow> string \<Rightarrow> string list" where
  "deps_of ss sid = (case List.find (\<lambda>s. step_id s = sid) ss of None \<Rightarrow> [] | Some s \<Rightarrow> dependencies s)"

text \<open>\<open>plan.get(sid).skip = True\<close>: the first step of that id.\<close>

fun mark_skip :: "string \<Rightarrow> step list \<Rightarrow> step list" where
  "mark_skip sid [] = []"
| "mark_skip sid (s # ss) = (if step_id s = sid then s\<lparr>skip := True\<rparr> # ss else s # mark_skip sid ss)"

record resume =
  rs_steps :: "step list"
  rs_carried :: observations
  rs_done :: "string set"
  rs_reused :: "string list"

definition reuse_step :: "observations \<Rightarrow> resume \<Rightarrow> string \<Rightarrow> resume" where
  "reuse_step checkpoints r sid =
     r\<lparr>rs_steps := mark_skip sid (rs_steps r),
       rs_carried := dict_set sid (the (dict_get checkpoints sid)) (rs_carried r),
       rs_done := insert sid (rs_done r), rs_reused := rs_reused r @ [sid]\<rparr>"

function resume_loop :: "observations \<Rightarrow> string list \<Rightarrow> resume \<Rightarrow> resume" where
  "resume_loop checkpoints pending r =
     (let ready = filter (\<lambda>sid. list_all (\<lambda>d. d \<in> rs_done r) (deps_of (rs_steps r) sid)) pending
      in if ready = [] then r
         else resume_loop checkpoints (filter (\<lambda>sid. sid \<notin> set ready) pending)
                (foldl (reuse_step checkpoints) r (sort ready)))"
  by pat_completeness auto

termination
proof (relation "measure (\<lambda>(c, pending, r). length pending)", goal_cases)
  case (2 checkpoints pending r ready)
  then obtain sid where "sid \<in> set ready" by (meson last_in_set)
  moreover from this have "sid \<in> set pending" using 2(1) by auto
  ultimately show ?case by (simp add: length_filter_less [of sid])
qed simp

declare resume_loop.simps [simp del]

definition apply_checkpoints :: "plan \<Rightarrow> observations \<Rightarrow> string list \<times> plan" where
  "apply_checkpoints p checkpoints =
     (if checkpoints = [] then ([], p)
      else
        (let reusable = filter (\<lambda>k. k \<in> set (step_ids p)) (dict_keys checkpoints);
             done0 = set (map step_id (filter (\<lambda>s. skip s \<and> step_id s \<in> set (dict_keys (carry_observations p))) (steps p)));
             r = resume_loop checkpoints reusable
                   \<lparr>rs_steps = steps p, rs_carried = carry_observations p, rs_done = done0, rs_reused = []\<rparr>
         in (rs_reused r, p\<lparr>steps := rs_steps r, carry_observations := rs_carried r\<rparr>)))"

end
