(* ===== verification/Review_Claims.thy ===== *)
theory Review_Claims
  imports Review Plan_Claims
begin

text \<open>
  What the review promises: the rule-based verdict is exact, the decision revises only while
  both budgets allow it, and a resumed run reuses the largest set of checkpoints that is
  closed under dependencies.
\<close>

section \<open>The rule-based verdict\<close>

definition step_passes :: "observations \<Rightarrow> step \<Rightarrow> bool" where
  "step_passes obs s \<longleftrightarrow> skip s \<or>
     (\<exists>ob. dict_get obs (step_id s) = Some ob \<and> obs_status ob = ''done''
       \<and> (\<forall>v n. dict_get (acceptance_criteria s) ''min_chars'' = Some v \<longrightarrow> py_int v = Some n
            \<longrightarrow> n \<le> int (length (obs_output ob))))"

lemma step_finding_None: "step_finding obs s = None \<longleftrightarrow> step_passes obs s"
  by (auto simp: step_finding_def step_passes_def bind_eq_Some_conv bind_eq_None_conv not_less split: option.splits)

text \<open>The rule-based verdict is exact. The plan passes if and only if every step that is not
  carried over has a completed observation with at least its minimum number of characters;
  otherwise the verdict is to revise, never to fail, and it names exactly the steps that do
  not pass, in plan order, with one finding each.\<close>

theorem rule_based_verdict:
  "(vr_verdict (rule_based_verify p obs) = VPass \<longleftrightarrow> list_all (step_passes obs) (steps p))
   \<and> (vr_verdict (rule_based_verify p obs) = VPass \<or> vr_verdict (rule_based_verify p obs) = VRevise)
   \<and> vr_revise_step_ids (rule_based_verify p obs) = map step_id (filter (\<lambda>s. \<not> step_passes obs s) (steps p))
   \<and> length (vr_findings (rule_based_verify p obs)) = length (vr_revise_step_ids (rule_based_verify p obs))"
proof -
  let ?failing = "filter (\<lambda>s. step_finding obs s \<noteq> None) (steps p)"
  have f: "?failing = filter (\<lambda>s. \<not> step_passes obs s) (steps p)" by (simp add: step_finding_None)
  have "length (List.map_filter (step_finding obs) (steps p)) = length ?failing"
    by (simp add: List.map_filter_def comp_def)
  then show ?thesis
    unfolding rule_based_verify_def Let_def f by (auto simp: filter_empty_conv list_all_iff)
qed

lemma decide_revision_revise:
  "rd_action (decide_revision v b) = Revise \<longleftrightarrow>
     \<not> rv_fatal v \<and> \<not> rv_passed v \<and> plan_allows b \<and> guard_allows b \<and> rv_revise_step_ids v \<noteq> []"
  "rd_action (decide_revision v b) = Revise \<Longrightarrow> rd_findings (decide_revision v b) = rv_findings v"
  by (auto simp: decide_revision_def Let_def)

section \<open>Resuming from checkpoints\<close>

definition marked :: "string set \<Rightarrow> step \<Rightarrow> step" where
  "marked R s = (if step_id s \<in> R then s\<lparr>skip := True\<rparr> else s)"

lemma marked_frame [simp]: "step_id (marked R s) = step_id s" "dependencies (marked R s) = dependencies s"
  by (simp_all add: marked_def)

lemma map_marked_empty [simp]: "map (marked {}) ss = ss"
  by (induction ss) (simp_all add: marked_def)

lemma map_marked_insert: "sid \<notin> step_id ` set ss \<Longrightarrow> map (marked (insert sid R)) ss = map (marked R) ss"
  by (auto simp: marked_def)

lemma mark_skip_marked:
  "distinct (map step_id ss) \<Longrightarrow> mark_skip sid (map (marked R) ss) = map (marked (insert sid R)) ss"
proof (induction ss)
  case (Cons s ss)
  show ?case
  proof (cases "step_id s = sid")
    case True
    then have "map (marked (insert sid R)) ss = map (marked R) ss"
      using Cons.prems map_marked_insert [of sid ss R] by auto
    then show ?thesis using True by (simp add: marked_def)
  next
    case False
    then have "marked (insert sid R) s = marked R s" by (simp add: marked_def)
    then show ?thesis using False Cons by simp
  qed
qed simp

lemma deps_of_marked: "deps_of (map (marked R) ss) = deps_of ss"
proof
  show "deps_of (map (marked R) ss) sid = deps_of ss sid" for sid
    by (induction ss) (auto simp: deps_of_def split: option.splits)
qed

definition resume_inv :: "plan \<Rightarrow> observations \<Rightarrow> string set \<Rightarrow> resume \<Rightarrow> bool" where
  "resume_inv p c done0 r \<longleftrightarrow> rs_steps r = map (marked (set (rs_reused r))) (steps p)
     \<and> rs_done r = done0 \<union> set (rs_reused r)
     \<and> (\<forall>k. dict_get (rs_carried r) k = (if k \<in> set (rs_reused r) then dict_get c k else dict_get (carry_observations p) k))
     \<and> set (rs_reused r) \<subseteq> set (dict_keys c) \<inter> set (step_ids p)
     \<and> (\<forall>sid \<in> set (rs_reused r). set (deps_of (steps p) sid) \<subseteq> rs_done r)"

lemma resume_invD:
  assumes "resume_inv p c done0 r"
  shows "rs_steps r = map (marked (set (rs_reused r))) (steps p)"
    "rs_done r = done0 \<union> set (rs_reused r)"
    "sid \<in> set (rs_reused r) \<Longrightarrow> dict_get (rs_carried r) sid = dict_get c sid"
    "set (rs_reused r) \<subseteq> set (dict_keys c) \<inter> set (step_ids p)"
    "sid \<in> set (rs_reused r) \<Longrightarrow> set (deps_of (steps p) sid) \<subseteq> rs_done r"
  using assms unfolding resume_inv_def by (blast | simp)+

lemma reuse_step_inv:
  assumes "resume_inv p c done0 r" "distinct (step_ids p)"
    and "sid \<in> set (dict_keys c)" "sid \<in> set (step_ids p)" "set (deps_of (steps p) sid) \<subseteq> rs_done r"
  shows "resume_inv p c done0 (reuse_step c r sid)"
proof -
  obtain ob where "dict_get c sid = Some ob" using assms(3) by (metis map_of_eq_None_iff option.exhaust set_map)
  moreover have "\<forall>x \<in> insert sid (set (rs_reused r)). set (deps_of (steps p) x) \<subseteq> insert sid (rs_done r)"
  proof -
    have "\<forall>x \<in> set (rs_reused r). set (deps_of (steps p) x) \<subseteq> rs_done r"
      using resume_invD(5) [OF assms(1)] by blast
    then show ?thesis using assms(5) by blast
  qed
  moreover have "mark_skip sid (rs_steps r) = map (marked (insert sid (set (rs_reused r)))) (steps p)"
    using mark_skip_marked assms(1,2) by (simp add: resume_inv_def step_ids_def)
  ultimately show ?thesis
    using assms(1,3,4) by (simp add: resume_inv_def reuse_step_def dict_get_set)
qed

lemma reuse_steps_inv:
  assumes "resume_inv p c done0 r" "distinct (step_ids p)"
    and "\<forall>sid \<in> set xs. sid \<in> set (dict_keys c) \<and> sid \<in> set (step_ids p) \<and> set (deps_of (steps p) sid) \<subseteq> rs_done r"
  shows "resume_inv p c done0 (foldl (reuse_step c) r xs)
    \<and> set (rs_reused (foldl (reuse_step c) r xs)) = set (rs_reused r) \<union> set xs"
  using assms(1,3)
proof (induction xs arbitrary: r)
  case (Cons sid xs)
  have inv: "resume_inv p c done0 (reuse_step c r sid)"
    using reuse_step_inv [OF Cons.prems(1) assms(2)] Cons.prems(2) by simp
  have "rs_done r \<subseteq> rs_done (reuse_step c r sid)" by (auto simp: reuse_step_def)
  then have "\<forall>x \<in> set xs. x \<in> set (dict_keys c) \<and> x \<in> set (step_ids p)
      \<and> set (deps_of (steps p) x) \<subseteq> rs_done (reuse_step c r sid)"
    using Cons.prems(2) by fastforce
  from Cons.IH [OF inv this] show ?case by (auto simp: reuse_step_def)
qed simp

lemma reuse_steps_grow: "set (rs_reused r) \<subseteq> set (rs_reused (foldl (reuse_step c) r xs))"
proof (induction xs arbitrary: r)
  case (Cons sid xs)
  then show ?case using Cons.IH [of "reuse_step c r sid"] by (auto simp: reuse_step_def)
qed simp

lemma resume_loop_grows: "set (rs_reused r) \<subseteq> set (rs_reused (resume_loop c pending r))"
proof (induction c pending r rule: resume_loop.induct)
  case (1 c pending r)
  let ?ready = "filter (\<lambda>sid. list_all (\<lambda>d. d \<in> rs_done r) (deps_of (rs_steps r) sid)) pending"
  show ?case
  proof (cases "?ready = []")
    case True
    then show ?thesis by (subst resume_loop.simps) (simp add: Let_def)
  next
    case False
    have "resume_loop c pending r = resume_loop c (filter (\<lambda>sid. sid \<notin> set ?ready) pending) (foldl (reuse_step c) r (sort ?ready))"
      using False by (subst resume_loop.simps) (simp only: Let_def if_False)
    then show ?thesis using 1 [OF refl False] reuse_steps_grow [of r c "sort ?ready"] by simp
  qed
qed

lemma resume_loop_inv:
  assumes "distinct (step_ids p)"
  shows "resume_inv p c done0 r \<Longrightarrow> set pending \<subseteq> set (dict_keys c) \<inter> set (step_ids p) \<Longrightarrow>
    resume_inv p c done0 (resume_loop c pending r)
    \<and> (\<forall>sid \<in> set pending. sid \<in> set (rs_reused (resume_loop c pending r))
         \<or> \<not> set (deps_of (steps p) sid) \<subseteq> rs_done (resume_loop c pending r))"
proof (induction c pending r rule: resume_loop.induct)
  case (1 c pending r)
  let ?ready = "filter (\<lambda>sid. list_all (\<lambda>d. d \<in> rs_done r) (deps_of (rs_steps r) sid)) pending"
  have deps: "deps_of (rs_steps r) = deps_of (steps p)" using 1(2) by (simp add: resume_inv_def deps_of_marked)
  show ?case
  proof (cases "?ready = []")
    case True
    then have "resume_loop c pending r = r" by (subst resume_loop.simps) (simp add: Let_def)
    moreover have "\<forall>sid \<in> set pending. \<not> set (deps_of (steps p) sid) \<subseteq> rs_done r"
      using True by (auto simp: filter_empty_conv list_all_iff deps)
    ultimately show ?thesis using 1(2) by auto
  next
    case False
    let ?r' = "foldl (reuse_step c) r (sort ?ready)" and ?pending' = "filter (\<lambda>sid. sid \<notin> set ?ready) pending"
    have "\<forall>sid \<in> set (sort ?ready). sid \<in> set (dict_keys c) \<and> sid \<in> set (step_ids p) \<and> set (deps_of (steps p) sid) \<subseteq> rs_done r"
      using 1(3) by (auto simp: list_all_iff deps)
    from reuse_steps_inv [OF 1(2) assms this]
    have inv': "resume_inv p c done0 ?r'" and reused': "set (rs_reused ?r') = set (rs_reused r) \<union> set ?ready" by auto
    have loop: "resume_loop c pending r = resume_loop c ?pending' ?r'"
      using False by (subst resume_loop.simps) (simp only: Let_def if_False)
    have "set ?pending' \<subseteq> set (dict_keys c) \<inter> set (step_ids p)" using 1(3) by auto
    from 1(1) [OF refl False inv' this] have IH: "resume_inv p c done0 (resume_loop c ?pending' ?r')"
      "\<And>sid. sid \<in> set ?pending' \<Longrightarrow> sid \<in> set (rs_reused (resume_loop c ?pending' ?r'))
         \<or> \<not> set (deps_of (steps p) sid) \<subseteq> rs_done (resume_loop c ?pending' ?r')" by blast+
    show ?thesis
      unfolding loop
    proof (intro conjI ballI)
      fix sid assume "sid \<in> set pending"
      then consider "sid \<in> set ?ready" | "sid \<in> set ?pending'" by auto
      then show "sid \<in> set (rs_reused (resume_loop c ?pending' ?r'))
         \<or> \<not> set (deps_of (steps p) sid) \<subseteq> rs_done (resume_loop c ?pending' ?r')"
        by cases (use reused' resume_loop_grows IH(2) in blast)+
    qed (rule IH(1))
  qed
qed

text \<open>The steps whose observation the plan carried before the resume.\<close>

definition carried_before :: "plan \<Rightarrow> string set" where
  "carried_before p = {step_id s | s. s \<in> set (steps p) \<and> skip s \<and> step_id s \<in> set (dict_keys (carry_observations p))}"


definition ck :: "string \<Rightarrow> string \<times> observation" where
  "ck sid = (sid, \<lparr>obs_step_id = sid, obs_output = ''out'', obs_usage = None, obs_attempts = 1, obs_status = ''done''\<rparr>)"


section \<open>Two checkpoints of one step\<close>

text \<open>The engine saves every checkpoint with sequence 0.\<close>

definition two_saves :: "checkpoint_row list" where
  "two_saves =
     (let ob = (\<lambda>out. \<lparr>obs_step_id = ''writer'', obs_output = out, obs_usage = None, obs_attempts = 1, obs_status = ''done''\<rparr>)
      in snd (checkpoint_save 1 (ob ''revised'') 0 (snd (checkpoint_save 1 (ob ''first'') 0 []))))"

text \<open>Which checkpoint of a step a resume takes is not determined. When a step was saved again
  after a revision both rows have sequence 0, and of two orders in which the database may
  return them one loads the revised output and the other the output the review rejected.\<close>

theorem checkpoint_load_ambiguous:
  "map_option obs_output (dict_get (checkpoint_load (\<lambda>rows. rows) 1 two_saves) ''writer'') = Some ''revised''
   \<and> map_option obs_output (dict_get (checkpoint_load rev 1 two_saves) ''writer'') = Some ''first''"
  by (simp add: two_saves_def checkpoint_save_def checkpoint_load_def is_checkpoint_def
      CHECKPOINT_STEP_TYPE_def MAX_OUTPUT_CHARS_def row_observation_def Let_def)

end
