(* ===== verification/Engine.thy ===== *)
theory Engine
  imports Revision_Plans Review
begin

text \<open>
  The workflow engine (\<open>agents/workflow/engine.py\<close>). The tasks of \<open>_execute_plan\<close> are a
  transition system: one phase per step, moved by the scheduling points of the code (a step
  finds its dependencies settled, takes the semaphore, an attempt ends). What an attempt of
  the injected executor does is arbitrary. \<open>run\<close> is the loop execute, verify, decide,
  revise around it. The observation hooks, the attempt rows and the events, which never veto
  a run, are left out; so is the \<open>before_step\<close> pause hook.
\<close>

section \<open>One step\<close>

datatype outcome = Finished observation | Raised step_exn | CancelledAttempt

definition dependency_view :: "step \<Rightarrow> observations \<Rightarrow> observations" where
  "dependency_view s obs =
     foldl (\<lambda>d dep. case dict_get obs dep of None \<Rightarrow> d | Some ob \<Rightarrow> dict_set dep ob d) [] (dependencies s)"

text \<open>The wall-clock limit of a step; \<open>remaining\<close> is the budget reader's answer, if one is set.\<close>

definition step_timeout_seconds :: "step \<Rightarrow> rat option \<Rightarrow> rat option" where
  "step_timeout_seconds s remaining =
     (let limits = (case timeout_seconds s of Some t \<Rightarrow> if t > 0 then [t] else [] | None \<Rightarrow> [])
        @ (case remaining of Some r \<Rightarrow> [max r 0] | None \<Rightarrow> [])
      in if limits = [] then None else Some (Min (set limits)))"

text \<open>The error of a timeout; \<open>limit_text\<close> is the limit printed with one decimal.\<close>

definition timeout_error :: "string \<Rightarrow> step \<Rightarrow> step_exn" where
  "timeout_error limit_text s =
     \<lparr>exn_msg = ''step '' @ [CHR 0x27] @ step_id s @ [CHR 0x27] @ '' timeout after '' @ limit_text @ ''s'', exn_transient = True\<rparr>"

text \<open>The observation of a successful attempt, with the attempt number in its usage.\<close>

definition stamp_attempt :: "nat \<Rightarrow> observation \<Rightarrow> observation" where
  "stamp_attempt a ob =
     ob\<lparr>obs_usage := Some (case obs_usage ob of None \<Rightarrow> [(''attempts'', VInt (int a))]
                           | Some u \<Rightarrow> dict_set ''attempts'' (VInt (int a)) u),
        obs_attempts := int a\<rparr>"

definition retry_allowed :: "step \<Rightarrow> step_exn \<Rightarrow> nat \<Rightarrow> bool" where
  "retry_allowed s e a \<longleftrightarrow> is_transient (retry_policy s) e \<and> int a \<le> max_retries (retry_policy s)"

section \<open>The tasks of a plan\<close>

datatype phase =
    PWaiting
  | PReady observations nat
  | PRunning observations nat
  | PDone "observation option"
  | PFailed

record exec_state =
  phases :: "string \<Rightarrow> phase"
  es_obs :: observations
  in_flight :: nat
  peak :: nat
  es_cancelled :: bool

fun settled :: "phase \<Rightarrow> bool" where
  "settled (PDone _) = True"
| "settled PFailed = True"
| "settled _ = False"

text \<open>The seed observations, and those the plan carries for its skipped steps.\<close>

definition seeded :: "plan \<Rightarrow> observations \<Rightarrow> observations" where
  "seeded p seed =
     foldl (\<lambda>d s. if skip s \<and> dict_get d (step_id s) = None
                  then (case dict_get (carry_observations p) (step_id s) of
                          None \<Rightarrow> d | Some ob \<Rightarrow> dict_set (step_id s) ob d)
                  else d) seed (steps p)"

definition exec_init :: "plan \<Rightarrow> observations \<Rightarrow> exec_state" where
  "exec_init p seed = \<lparr>phases = (\<lambda>_. PWaiting), es_obs = seeded p seed, in_flight = 0, peak = 0, es_cancelled = False\<rparr>"

definition set_phase :: "step \<Rightarrow> phase \<Rightarrow> exec_state \<Rightarrow> exec_state" where
  "set_phase s ph st = st\<lparr>phases := (phases st)(step_id s := ph)\<rparr>"

definition deps_settled :: "step \<Rightarrow> exec_state \<Rightarrow> bool" where
  "deps_settled s st \<longleftrightarrow> list_all (\<lambda>d. settled (phases st d)) (dependencies s)"

text \<open>\<open>run_step\<close> once its dependencies' events are set.\<close>

definition begin_step :: "step \<Rightarrow> exec_state \<Rightarrow> exec_state" where
  "begin_step s st =
     (if list_ex (\<lambda>d. phases st d = PFailed) (dependencies s) then set_phase s PFailed st
      else if skip s then set_phase s (PDone (dict_get (es_obs st) (step_id s))) st
      else set_phase s (PReady (dependency_view s (es_obs st)) 0) st)"

text \<open>\<open>async with semaphore\<close>: a slot is free.\<close>

definition take_slot :: "step \<Rightarrow> exec_state \<Rightarrow> exec_state" where
  "take_slot s st =
     (case phases st (step_id s) of
        PReady ups a \<Rightarrow>
          (set_phase s (PRunning ups (Suc a)) st)\<lparr>in_flight := in_flight st + 1, peak := max (peak st) (in_flight st + 1)\<rparr>
      | _ \<Rightarrow> st)"

text \<open>The end of an attempt. A cancellation is raised through the gather: the run is over, and
  the phases it leaves are not read again.\<close>

definition end_attempt :: "step \<Rightarrow> outcome \<Rightarrow> exec_state \<Rightarrow> exec_state" where
  "end_attempt s out st =
     (case phases st (step_id s) of
        PRunning ups a \<Rightarrow>
          (case out of
             CancelledAttempt \<Rightarrow> st\<lparr>es_cancelled := True\<rparr>
           | Finished ob \<Rightarrow>
               (let ob' = stamp_attempt a ob
                in (set_phase s (PDone (Some ob')) st)\<lparr>in_flight := in_flight st - 1,
                     es_obs := dict_set (step_id s) ob' (es_obs st)\<rparr>)
           | Raised e \<Rightarrow>
               (set_phase s (if retry_allowed s e a then PReady ups a else PFailed) st)
                 \<lparr>in_flight := in_flight st - 1\<rparr>)
      | _ \<Rightarrow> st)"

inductive engine_step :: "plan \<Rightarrow> nat \<Rightarrow> exec_state \<Rightarrow> exec_state \<Rightarrow> bool" for p m where
  begins: "s \<in> set (steps p) \<Longrightarrow> \<not> es_cancelled st \<Longrightarrow> phases st (step_id s) = PWaiting \<Longrightarrow> deps_settled s st
    \<Longrightarrow> engine_step p m st (begin_step s st)"
| takes: "s \<in> set (steps p) \<Longrightarrow> \<not> es_cancelled st \<Longrightarrow> phases st (step_id s) = PReady ups a \<Longrightarrow> in_flight st < m
    \<Longrightarrow> engine_step p m st (take_slot s st)"
| ends: "s \<in> set (steps p) \<Longrightarrow> \<not> es_cancelled st \<Longrightarrow> phases st (step_id s) = PRunning ups a
    \<Longrightarrow> engine_step p m st (end_attempt s out st)"

text \<open>\<open>max(1, int(max_concurrency))\<close>\<close>

definition clamp_concurrency :: "int \<Rightarrow> nat" where
  "clamp_concurrency n = nat (max 1 n)"

text \<open>What \<open>run_step\<close> returned for a settled step, and the failed step the gather reports.\<close>

definition step_result :: "exec_state \<Rightarrow> step \<Rightarrow> observation option" where
  "step_result st s = (case phases st (step_id s) of PDone ob \<Rightarrow> ob | _ \<Rightarrow> None)"

definition failed_step :: "plan \<Rightarrow> exec_state \<Rightarrow> string option" where
  "failed_step p st = foldl (\<lambda>acc s. if step_result st s = None then Some (step_id s) else acc) None (steps p)"

section \<open>The run\<close>

text \<open>The error of a result, as the values its text is formatted from: the step that failed, the
  verifier's note, the reason of the decision that stopped the run, the refusal of the budget.\<close>

datatype run_error = StepFailure string | VerifierFailure string | DecisionStop action | BudgetStop string

record workflow_result =
  wr_completed :: bool
  wr_replans :: nat
  wr_max_concurrency :: nat
  wr_observations :: observations
  wr_findings :: "string list"
  wr_verifier_results :: "verifier_result list"
  wr_review_log :: "review_entry list"
  wr_reused_steps :: "string list"
  wr_error :: "run_error option"

text \<open>
  What the run is given: the execution of a plan (the observations, peak and failed step of
  some complete run of its tasks), the verifier with its state, and the replan account: the
  reading of the remaining units and the callback that spends one, which may refuse.
\<close>

record ('v, 'g) engine_env =
  ee_execute :: "plan \<Rightarrow> observations \<Rightarrow> observations \<times> nat \<times> string option"
  ee_verify :: "'v \<Rightarrow> plan \<Rightarrow> observations \<Rightarrow> verifier_result \<times> 'v"
  ee_units_left :: "'g \<Rightarrow> int option"
  ee_on_replan :: "'g \<Rightarrow> (string + unit) \<times> 'g"

record ('v, 'g) loop_state =
  ls_plan :: plan
  ls_obs :: observations
  ls_replans :: nat
  ls_peak :: nat
  ls_history :: "verifier_result list"
  ls_trace :: "review_entry list"
  ls_verifier :: 'v
  ls_account :: 'g

definition finish_run ::
  "bool \<Rightarrow> string list \<Rightarrow> run_error option \<Rightarrow> string list \<Rightarrow> ('v, 'g) loop_state \<Rightarrow> workflow_result" where
  "finish_run ok findings err reused ls =
     \<lparr>wr_completed = ok, wr_replans = ls_replans ls, wr_max_concurrency = ls_peak ls,
      wr_observations = ls_obs ls, wr_findings = findings, wr_verifier_results = ls_history ls,
      wr_review_log = ls_trace ls, wr_reused_steps = reused, wr_error = err\<rparr>"

definition block_last :: "string \<Rightarrow> review_entry list \<Rightarrow> review_entry list" where
  "block_last msg tr = (if tr = [] then [] else butlast tr @ [(last tr)\<lparr>re_blocked := Some msg\<rparr>])"

text \<open>One turn of the loop: a result, or the state to go on with.\<close>

definition run_turn ::
  "('v, 'g) engine_env \<Rightarrow> string list \<Rightarrow> ('v, 'g) loop_state
    \<Rightarrow> plan_error + ((workflow_result \<times> 'g) + ('v, 'g) loop_state)" where
  "run_turn env reused ls0 =
     (let (obs', pk, failed) = ee_execute env (ls_plan ls0) (ls_obs ls0);
          ls1 = ls0\<lparr>ls_obs := obs', ls_peak := max (ls_peak ls0) pk\<rparr>
      in case failed of
           Some sid \<Rightarrow> Inr (Inl ((finish_run False [] (Some (StepFailure sid)) [] ls1)\<lparr>wr_review_log := []\<rparr>, ls_account ls1))
         | None \<Rightarrow>
             (let (verdict, v') = ee_verify env (ls_verifier ls1) (ls_plan ls1) (ls_obs ls1);
                  decision = decide_revision (from_verifier_result verdict (int (ls_replans ls1)))
                    \<lparr>rb_plan_max = max_replans (ls_plan ls1), rb_replans_used = int (ls_replans ls1),
                     rb_guard_remaining = ee_units_left env (ls_account ls1)\<rparr>;
                  ls2 = ls1\<lparr>ls_verifier := v', ls_history := ls_history ls1 @ [verdict],
                            ls_trace := record_review (ls_trace ls1) verdict decision (int (ls_replans ls1))\<rparr>
              in if vr_verdict verdict = VPass
                 then Inr (Inl (finish_run True (vr_findings verdict) None reused ls2, ls_account ls2))
                 else if vr_verdict verdict = VFail
                 then Inr (Inl (finish_run False (vr_findings verdict)
                       (Some (VerifierFailure (if vr_note verdict = [] then ''verification failed'' else vr_note verdict))) [] ls2, ls_account ls2))
                 else if rd_action decision = Accept
                 then Inr (Inl (finish_run True (vr_findings verdict) None reused ls2, ls_account ls2))
                 else if decision_stops decision
                 then Inr (Inl (finish_run False (vr_findings verdict) (Some (DecisionStop (rd_action decision))) [] ls2, ls_account ls2))
                 else
                   (case ee_on_replan env (ls_account ls2) of
                      (Inl msg, g') \<Rightarrow>
                        Inr (Inl (finish_run False (vr_findings verdict) (Some (BudgetStop msg)) []
                          (ls2\<lparr>ls_account := g', ls_trace := block_last msg (ls_trace ls2)\<rparr>), g'))
                    | (Inr _, g') \<Rightarrow>
                        rbind (revise_plan (ls_plan ls2) (vr_revise_step_ids verdict) (ls_obs ls2) (rd_findings decision))
                          (\<lambda>q. Inr (Inr (ls2\<lparr>ls_plan := q, ls_replans := ls_replans ls2 + 1, ls_account := g'\<rparr>))))))"

text \<open>The while loop, with \<open>fuel\<close> turns; \<open>run_loop_returns\<close> shows that one turn more than the
  plan's replans is enough.\<close>

fun run_loop ::
  "nat \<Rightarrow> ('v, 'g) engine_env \<Rightarrow> string list \<Rightarrow> ('v, 'g) loop_state
    \<Rightarrow> (plan_error + (workflow_result \<times> 'g)) option" where
  "run_loop 0 env reused ls = None"
| "run_loop (Suc fuel) env reused ls =
     (case run_turn env reused ls of
        Inl e \<Rightarrow> Some (Inl e)
      | Inr (Inl r) \<Rightarrow> Some (Inr r)
      | Inr (Inr ls') \<Rightarrow> run_loop fuel env reused ls')"

definition engine_run ::
  "nat \<Rightarrow> ('v, 'g) engine_env \<Rightarrow> 'v \<Rightarrow> 'g \<Rightarrow> observations \<Rightarrow> plan
    \<Rightarrow> (plan_error + (workflow_result \<times> 'g)) option" where
  "engine_run fuel env v g checkpoints p =
     (case validate_plan p of
        Inl e \<Rightarrow> Some (Inl e)
      | Inr _ \<Rightarrow>
          (let (reused, p') = apply_checkpoints p checkpoints
           in run_loop fuel env reused
                \<lparr>ls_plan = p', ls_obs = carry_observations p', ls_replans = 0, ls_peak = 0,
                 ls_history = [], ls_trace = [], ls_verifier = v, ls_account = g\<rparr>))"

end
