(* ===== verification/Engine_Claims.thy ===== *)
theory Engine_Claims
  imports Engine
begin

text \<open>
  The engine's guarantees: no step starts before its dependencies succeeded, it sees only
  their observations, the concurrency bound holds, retries are bounded, every execution of a
  valid plan ends with every step settled, and the run loop returns after a bounded number
  of revisions, each paid for in the replan account.
\<close>

section \<open>Invariant of the tasks\<close>

definition running :: "phase \<Rightarrow> bool" where
  "running ph \<longleftrightarrow> (\<exists>ups a. ph = PRunning ups a)"

definition running_count :: "plan \<Rightarrow> exec_state \<Rightarrow> nat" where
  "running_count p st = length (filter (\<lambda>s. running (phases st (step_id s))) (steps p))"

definition max_attempts :: "step \<Rightarrow> nat" where
  "max_attempts s = nat (max_retries (retry_policy s)) + 1"

definition deps_succeeded :: "step \<Rightarrow> exec_state \<Rightarrow> bool" where
  "deps_succeeded s st \<longleftrightarrow> (\<forall>d \<in> set (dependencies s). \<exists>ob. phases st d = PDone ob)"

text \<open>What holds of a step in each phase.\<close>

definition phase_ok :: "step \<Rightarrow> exec_state \<Rightarrow> bool" where
  "phase_ok s st = (case phases st (step_id s) of
      PWaiting \<Rightarrow> True
    | PReady ups a \<Rightarrow> \<not> skip s \<and> deps_succeeded s st \<and> ups = dependency_view s (es_obs st) \<and> a < max_attempts s
    | PRunning ups a \<Rightarrow> \<not> skip s \<and> deps_succeeded s st \<and> ups = dependency_view s (es_obs st) \<and> 1 \<le> a \<and> a \<le> max_attempts s
    | PDone ob \<Rightarrow> deps_succeeded s st \<and> dict_get (es_obs st) (step_id s) = ob
    | PFailed \<Rightarrow> True)"

definition exec_inv :: "plan \<Rightarrow> nat \<Rightarrow> exec_state \<Rightarrow> bool" where
  "exec_inv p m st \<longleftrightarrow> in_flight st = running_count p st \<and> in_flight st \<le> m \<and> peak st \<le> m
     \<and> in_flight st \<le> peak st \<and> (\<forall>s \<in> set (steps p). phase_ok s st)"

lemma dependency_view_get:
  "dict_get (dependency_view s obs) k = (if k \<in> set (dependencies s) then dict_get obs k else None)"
proof -
  have "dict_get (foldl (\<lambda>d dep. case dict_get obs dep of None \<Rightarrow> d | Some ob \<Rightarrow> dict_set dep ob d) d ds) k
    = (if k \<in> set ds \<and> dict_get obs k \<noteq> None then dict_get obs k else dict_get d k)" for d ds
    by (induction ds arbitrary: d) (auto simp: dict_get_set split: option.splits)
  from this [of "[]" "dependencies s"] show ?thesis by (auto simp: dependency_view_def)
qed

lemma dependency_view_cong:
  "(\<And>d. d \<in> set (dependencies s) \<Longrightarrow> dict_get obs d = dict_get obs' d) \<Longrightarrow> dependency_view s obs = dependency_view s obs'"
  unfolding dependency_view_def by (rule foldl_cong) auto

lemma running_count_update:
  assumes "distinct (map step_id ss)" "s \<in> set ss"
  shows "length (filter (\<lambda>x. running ((ph(step_id s := new)) (step_id x))) ss) + (if running (ph (step_id s)) then 1 else 0)
    = length (filter (\<lambda>x. running (ph (step_id x))) ss) + (if running new then 1 else 0)"
  using assms
proof (induction ss)
  case (Cons x ss)
  show ?case
  proof (cases "x = s")
    case True
    then have "\<forall>x \<in> set ss. step_id x \<noteq> step_id s" using Cons.prems(1) by (metis distinct.simps(2) image_eqI list.simps(9) set_map)
    then have "filter (\<lambda>x. running ((ph(step_id s := new)) (step_id x))) ss = filter (\<lambda>x. running (ph (step_id x))) ss"
      by (auto intro!: filter_cong)
    then show ?thesis using True by simp
  next
    case False
    then have "s \<in> set ss" "step_id x \<noteq> step_id s" using Cons.prems by auto
    then show ?thesis using Cons by auto
  qed
qed simp

lemma phases_set_phase [simp]: "phases (set_phase s ph st) = (phases st)(step_id s := ph)"
  and set_phase_frame [simp]: "es_obs (set_phase s ph st) = es_obs st" "in_flight (set_phase s ph st) = in_flight st"
    "peak (set_phase s ph st) = peak st" "es_cancelled (set_phase s ph st) = es_cancelled st"
  by (simp_all add: set_phase_def)

text \<open>Moving one step leaves the others as they were: none of them is a dependency that has
  already succeeded unless the moved step was not settled.\<close>

lemma phase_ok_other:
  assumes "phase_ok x st" "step_id x \<noteq> sid" "\<not> settled (phases st sid)"
    and "phases st' = (phases st)(sid := ph)"
    and "\<And>k. k \<noteq> sid \<Longrightarrow> dict_get (es_obs st') k = dict_get (es_obs st) k"
  shows "phase_ok x st'"
proof -
  have ds: "deps_succeeded x st \<Longrightarrow> sid \<notin> set (dependencies x)"
    using assms(3) by (auto simp: deps_succeeded_def)
  then have "deps_succeeded x st \<Longrightarrow> deps_succeeded x st'"
    using assms(4) by (auto simp: deps_succeeded_def)
  moreover have "dependency_view x (es_obs st') = dependency_view x (es_obs st)" if "deps_succeeded x st"
  proof (rule dependency_view_cong)
    fix d assume "d \<in> set (dependencies x)"
    then have "d \<noteq> sid" using ds [OF that] by auto
    then show "dict_get (es_obs st') d = dict_get (es_obs st) d" by (rule assms(5))
  qed
  ultimately show ?thesis
    using assms(1,2,4,5) by (auto simp: phase_ok_def split: phase.splits)
qed

lemma deps_settled_cases:
  "deps_settled s st \<Longrightarrow> list_ex (\<lambda>d. phases st d = PFailed) (dependencies s) \<or> deps_succeeded s st"
  by (auto simp: deps_settled_def deps_succeeded_def list_all_iff list_ex_iff elim!: settled.elims)

text \<open>Every step moves one task from an unsettled phase; what it needs to keep the invariant.\<close>

lemma moved_inv:
  assumes inv: "exec_inv p m st" and p: "distinct (step_ids p)" "s \<in> set (steps p)"
    and unsettled: "\<not> settled (phases st (step_id s))"
    and st': "phases st' = (phases st)(step_id s := ph)" "phase_ok s st'"
      "\<And>k. k \<noteq> step_id s \<Longrightarrow> dict_get (es_obs st') k = dict_get (es_obs st) k"
    and count: "in_flight st' + (if running (phases st (step_id s)) then 1 else 0)
      = in_flight st + (if running ph then 1 else 0)"
    and bounds: "in_flight st' \<le> m" "peak st' \<le> m" "in_flight st' \<le> peak st'"
  shows "exec_inv p m st'"
proof -
  have "running_count p st' + (if running (phases st (step_id s)) then 1 else 0)
      = running_count p st + (if running ph then 1 else 0)"
    using running_count_update [of "steps p" s "phases st" ph] p by (simp add: running_count_def st'(1) step_ids_def)
  moreover have "in_flight st = running_count p st" using inv by (simp add: exec_inv_def)
  ultimately have "in_flight st' = running_count p st'" using count by (auto split: if_splits)
  moreover have "phase_ok x st'" if "x \<in> set (steps p)" for x
  proof (cases "step_id x = step_id s")
    case True
    then have "x = s" using p that by (auto simp: step_ids_def distinct_map inj_on_def)
    then show ?thesis using st'(2) by simp
  next
    case False
    then show ?thesis
      using phase_ok_other [OF _ False unsettled st'(1) st'(3)] inv that by (auto simp: exec_inv_def)
  qed
  ultimately show ?thesis using bounds by (simp add: exec_inv_def)
qed

lemma self_dep: "deps_succeeded s st \<Longrightarrow> \<not> settled (phases st (step_id s)) \<Longrightarrow> step_id s \<notin> set (dependencies s)"
  by (auto simp: deps_succeeded_def)

lemma deps_succeeded_moved:
  "deps_succeeded s st \<Longrightarrow> step_id s \<notin> set (dependencies s) \<Longrightarrow> phases st' = (phases st)(step_id s := ph)
    \<Longrightarrow> deps_succeeded s st'"
  by (auto simp: deps_succeeded_def)

lemma phase_ok_cancel: "phase_ok s (st\<lparr>es_cancelled := b\<rparr>) = phase_ok s st"
  by (cases "phases st (step_id s)") (simp_all add: phase_ok_def deps_succeeded_def)

lemma engine_step_inv:
  assumes "engine_step p m st st'" "exec_inv p m st" "distinct (step_ids p)"
  shows "exec_inv p m st'"
  using assms(1)
proof cases
  case (begins s)
  note inv = assms(2) [unfolded exec_inv_def]
  have un: "\<not> settled (phases st (step_id s))" using begins by simp
  have b: "in_flight st' = in_flight st" "peak st' = peak st" "es_obs st' = es_obs st"
    using begins by (auto simp: begin_step_def)
  show ?thesis
  proof (cases "list_ex (\<lambda>d. phases st d = PFailed) (dependencies s)")
    case True
    then show ?thesis
      using begins inv b
      by (intro moved_inv [OF assms(2,3) begins(2) un, of st' PFailed]) (auto simp: begin_step_def phase_ok_def running_def)
  next
    case False
    then have ds: "deps_succeeded s st" using deps_settled_cases begins by blast
    let ?ph = "if skip s then PDone (dict_get (es_obs st) (step_id s)) else PReady (dependency_view s (es_obs st)) 0"
    have ph: "phases st' = (phases st)(step_id s := ?ph)" using begins False by (simp add: begin_step_def)
    have "deps_succeeded s st'" by (rule deps_succeeded_moved [OF ds self_dep [OF ds un] ph])
    then have "phase_ok s st'" by (auto simp: phase_ok_def ph b max_attempts_def)
    then show ?thesis
      using begins inv b
      by (intro moved_inv [OF assms(2,3) begins(2) un ph]) (auto simp: running_def)
  qed
next
  case (takes s ups a)
  note inv = assms(2) [unfolded exec_inv_def]
  have un: "\<not> settled (phases st (step_id s))" using takes by simp
  have ph: "phases st' = (phases st)(step_id s := PRunning ups (Suc a))" using takes by (simp add: take_slot_def)
  have b: "in_flight st' = in_flight st + 1" "peak st' = max (peak st) (in_flight st + 1)" "es_obs st' = es_obs st"
    using takes by (simp_all add: take_slot_def)
  have ok: "phase_ok s st" using inv takes by blast
  then have ds: "deps_succeeded s st" and f: "\<not> skip s" "ups = dependency_view s (es_obs st)" "a < max_attempts s"
    using takes by (simp_all add: phase_ok_def)
  have "deps_succeeded s st'" by (rule deps_succeeded_moved [OF ds self_dep [OF ds un] ph])
  then have "phase_ok s st'" using f by (simp add: phase_ok_def ph b)
  then show ?thesis
    using takes inv b
    by (intro moved_inv [OF assms(2,3) takes(2) un ph]) (auto simp: running_def)
next
  case (ends s ups a out)
  note inv = assms(2) [unfolded exec_inv_def]
  have un: "\<not> settled (phases st (step_id s))" using ends by simp
  have ok: "phase_ok s st" using inv ends by blast
  then have ds: "deps_succeeded s st" and sk: "\<not> skip s" and ups: "ups = dependency_view s (es_obs st)" "1 \<le> a" "a \<le> max_attempts s"
    using ends by (simp_all add: phase_ok_def)
  have pos: "0 < in_flight st"
  proof -
    have "s \<in> set (filter (\<lambda>s. running (phases st (step_id s))) (steps p))" using ends by (auto simp: running_def)
    then have "0 < running_count p st" unfolding running_count_def by (rule length_pos_if_in_set)
    then show ?thesis using inv by simp
  qed
  show ?thesis
  proof (cases out)
    case (Finished ob)
    let ?ob = "stamp_attempt a ob"
    have ph: "phases st' = (phases st)(step_id s := PDone (Some ?ob))"
      and b: "in_flight st' = in_flight st - 1" "peak st' = peak st" "es_obs st' = dict_set (step_id s) ?ob (es_obs st)"
      using ends Finished by (simp_all add: end_attempt_def Let_def)
    have "deps_succeeded s st'" by (rule deps_succeeded_moved [OF ds self_dep [OF ds un] ph])
    then have "phase_ok s st'" by (simp add: phase_ok_def ph b dict_get_set)
    then show ?thesis
      using ends inv b pos
      by (intro moved_inv [OF assms(2,3) ends(2) un ph]) (auto simp: running_def dict_get_set)
  next
    case (Raised e)
    let ?ph = "if retry_allowed s e a then PReady ups a else PFailed"
    have ph: "phases st' = (phases st)(step_id s := ?ph)"
      and b: "in_flight st' = in_flight st - 1" "peak st' = peak st" "es_obs st' = es_obs st"
      using ends Raised by (simp_all add: end_attempt_def)
    have "deps_succeeded s st'" by (rule deps_succeeded_moved [OF ds self_dep [OF ds un] ph])
    moreover have "retry_allowed s e a \<Longrightarrow> a < max_attempts s" by (auto simp: retry_allowed_def max_attempts_def)
    ultimately have "phase_ok s st'" using sk ups by (auto simp: phase_ok_def ph b)
    then show ?thesis
      using ends inv b pos
      by (intro moved_inv [OF assms(2,3) ends(2) un ph]) (auto simp: running_def)
  next
    case CancelledAttempt
    then have "st' = st\<lparr>es_cancelled := True\<rparr>" using ends by (simp add: end_attempt_def)
    then show ?thesis using assms(2) by (simp add: exec_inv_def running_count_def phase_ok_cancel)
  qed
qed

inductive engine_runs :: "plan \<Rightarrow> nat \<Rightarrow> nat \<Rightarrow> exec_state \<Rightarrow> exec_state \<Rightarrow> bool" for p m where
  runs_zero: "engine_runs p m 0 st st"
| runs_more: "engine_runs p m n st st' \<Longrightarrow> engine_step p m st' st'' \<Longrightarrow> engine_runs p m (Suc n) st st''"

lemma exec_inv_init: "exec_inv p m (exec_init p seed)"
  by (simp add: exec_inv_def exec_init_def running_count_def running_def phase_ok_def)

lemma engine_runs_inv:
  "engine_runs p m n st st' \<Longrightarrow> exec_inv p m st \<Longrightarrow> distinct (step_ids p) \<Longrightarrow> exec_inv p m st'"
  by (induction rule: engine_runs.induct) (auto intro: engine_step_inv)

text \<open>C9: Dependencies and concurrency are respected. In every state of an execution of a plan with
  distinct ids, at most \<open>m\<close> steps (the concurrency bound) are in flight and the recorded peak
  is at most \<open>m\<close>; a step that runs is not skipped, all its dependencies have succeeded, it
  was handed exactly the current observations of its declared dependencies and nothing of
  any other step, and it is within its retry limit; a step that is done has its observation
  recorded and only succeeded dependencies.\<close>

theorem execution_respects_dependencies:
  assumes "engine_runs p m n (exec_init p seed) st" "distinct (step_ids p)" "s \<in> set (steps p)"
  shows "running_count p st \<le> m \<and> peak st \<le> m
    \<and> (\<forall>ups a. phases st (step_id s) = PRunning ups a \<longrightarrow>
         \<not> skip s \<and> deps_succeeded s st \<and> a \<le> max_attempts s
         \<and> (\<forall>k. dict_get ups k = (if k \<in> set (dependencies s) then dict_get (es_obs st) k else None)))
    \<and> (\<forall>ob. phases st (step_id s) = PDone ob \<longrightarrow>
         deps_succeeded s st \<and> dict_get (es_obs st) (step_id s) = ob)"
proof -
  have inv: "exec_inv p m st" using engine_runs_inv [OF assms(1) exec_inv_init assms(2)] .
  then have "phase_ok s st" using assms(3) by (simp add: exec_inv_def)
  then show ?thesis
    using inv by (auto simp: exec_inv_def phase_ok_def dependency_view_get split: phase.splits)
qed

text \<open>A reviewer that runs after its drafter.\<close>

definition rv_plan :: plan where "rv_plan = build_write_review_plan ''q''"

definition rv_step :: "nat \<Rightarrow> step" where "rv_step i = steps rv_plan ! i"

definition rv_states :: "exec_state list" where
  "rv_states =
     (let s0 = exec_init rv_plan []; s1 = begin_step (rv_step 0) s0; s2 = take_slot (rv_step 0) s1;
          s3 = end_attempt (rv_step 0) (Finished (demo_observation ''drafter'')) s2;
          s4 = begin_step (rv_step 1) s3; s5 = take_slot (rv_step 1) s4
      in [s0, s1, s2, s3, s4, s5])"

lemma rv_run: "engine_runs rv_plan 1 5 (exec_init rv_plan []) (rv_states ! 5)"
proof -
  have in_plan: "rv_step 0 \<in> set (steps rv_plan)" "rv_step 1 \<in> set (steps rv_plan)"
    by (simp_all add: rv_step_def rv_plan_def build_write_review_plan_def template_plan_def Let_def)
  have st: "rv_states ! 0 = exec_init rv_plan []" "rv_states ! 1 = begin_step (rv_step 0) (rv_states ! 0)"
    "rv_states ! 2 = take_slot (rv_step 0) (rv_states ! 1)"
    "rv_states ! 3 = end_attempt (rv_step 0) (Finished (demo_observation ''drafter'')) (rv_states ! 2)"
    "rv_states ! 4 = begin_step (rv_step 1) (rv_states ! 3)" "rv_states ! 5 = take_slot (rv_step 1) (rv_states ! 4)"
    by (simp_all add: rv_states_def Let_def)
  have c: "\<not> es_cancelled (rv_states ! 0)" "phases (rv_states ! 0) (step_id (rv_step 0)) = PWaiting" "deps_settled (rv_step 0) (rv_states ! 0)"
    "\<not> es_cancelled (rv_states ! 1)" "phases (rv_states ! 1) (step_id (rv_step 0)) = PReady [] 0" "in_flight (rv_states ! 1) < 1"
    "\<not> es_cancelled (rv_states ! 2)" "phases (rv_states ! 2) (step_id (rv_step 0)) = PRunning [] 1"
    "\<not> es_cancelled (rv_states ! 3)" "phases (rv_states ! 3) (step_id (rv_step 1)) = PWaiting" "deps_settled (rv_step 1) (rv_states ! 3)"
    "\<not> es_cancelled (rv_states ! 4)" "in_flight (rv_states ! 4) < 1"
    "phases (rv_states ! 4) (step_id (rv_step 1)) = PReady (dependency_view (rv_step 1) (es_obs (rv_states ! 3))) 0"
    by code_simp+
  have "engine_runs rv_plan 1 0 (exec_init rv_plan []) (rv_states ! 0)" unfolding st(1) by (rule engine_runs.runs_zero)
  then have "engine_runs rv_plan 1 (Suc 0) (exec_init rv_plan []) (rv_states ! 1)"
    unfolding st(2) by (rule engine_runs.runs_more) (rule engine_step.begins [OF in_plan(1) c(1-3)])
  then have "engine_runs rv_plan 1 (Suc (Suc 0)) (exec_init rv_plan []) (rv_states ! 2)"
    unfolding st(3) by (rule engine_runs.runs_more) (rule engine_step.takes [OF in_plan(1) c(4-6)])
  then have "engine_runs rv_plan 1 (Suc (Suc (Suc 0))) (exec_init rv_plan []) (rv_states ! 3)"
    unfolding st(4) by (rule engine_runs.runs_more) (rule engine_step.ends [OF in_plan(1) c(7,8)])
  then have "engine_runs rv_plan 1 (Suc (Suc (Suc (Suc 0)))) (exec_init rv_plan []) (rv_states ! 4)"
    unfolding st(5) by (rule engine_runs.runs_more) (rule engine_step.begins [OF in_plan(2) c(9-11)])
  then have "engine_runs rv_plan 1 (Suc (Suc (Suc (Suc (Suc 0))))) (exec_init rv_plan []) (rv_states ! 5)"
    unfolding st(6) by (rule engine_runs.runs_more) (rule engine_step.takes [OF in_plan(2) c(12,14,13)])
  then show ?thesis by (simp add: numeral_eq_Suc)
qed

theorem execution_respects_dependencies_witness:
  "\<exists>ups. phases (rv_states ! 5) (step_id (rv_step 1)) = PRunning ups 1
     \<and> dict_get ups ''drafter'' = dict_get (es_obs (rv_states ! 5)) ''drafter'' \<and> peak (rv_states ! 5) \<le> 1"
proof -
  have dist: "distinct (step_ids rv_plan)" and mem: "rv_step 1 \<in> set (steps rv_plan)"
    by (simp_all add: rv_step_def rv_plan_def build_write_review_plan_def template_plan_def template_step_def step_ids_def Let_def)
  have "case phases (rv_states ! 5) (step_id (rv_step 1)) of PRunning ups a \<Rightarrow> a = 1 | _ \<Rightarrow> False"
    "dependencies (rv_step 1) = [''drafter'']" by code_simp+
  then obtain ups where "phases (rv_states ! 5) (step_id (rv_step 1)) = PRunning ups 1" "dependencies (rv_step 1) = [''drafter'']"
    by (auto split: phase.splits)
  then show ?thesis using execution_respects_dependencies [OF rv_run dist mem] by auto
qed

section \<open>Executions end\<close>

text \<open>The scheduling points a step may still pass.\<close>

definition phase_weight :: "step \<Rightarrow> phase \<Rightarrow> nat" where
  "phase_weight s ph =
     (case ph of PWaiting \<Rightarrow> 2 * max_attempts s + 2
      | PReady _ a \<Rightarrow> 2 * (max_attempts s - a) + 1
      | PRunning _ a \<Rightarrow> 2 * (max_attempts s - a) + 2
      | _ \<Rightarrow> 0)"

definition work_left :: "plan \<Rightarrow> exec_state \<Rightarrow> nat" where
  "work_left p st = (\<Sum>s\<leftarrow>steps p. phase_weight s (phases st (step_id s))) + (if es_cancelled st then 0 else 1)"

definition work_bound :: "plan \<Rightarrow> nat" where
  "work_bound p = (\<Sum>s\<leftarrow>steps p. 2 * max_attempts s + 2) + 1"

lemma weight_update:
  assumes "distinct (map step_id ss)" "s \<in> set ss"
  shows "(\<Sum>x\<leftarrow>ss. phase_weight x ((ph(step_id s := new)) (step_id x))) + phase_weight s (ph (step_id s))
    = (\<Sum>x\<leftarrow>ss. phase_weight x (ph (step_id x))) + phase_weight s new"
  using assms
proof (induction ss)
  case (Cons x ss)
  show ?case
  proof (cases "x = s")
    case True
    then have "\<forall>x \<in> set ss. step_id x \<noteq> step_id s" using Cons.prems(1) by (metis distinct.simps(2) image_eqI list.simps(9) set_map)
    then have "(\<Sum>x\<leftarrow>ss. phase_weight x ((ph(step_id s := new)) (step_id x))) = (\<Sum>x\<leftarrow>ss. phase_weight x (ph (step_id x)))"
      by (intro arg_cong [of _ _ sum_list] map_cong) auto
    then show ?thesis using True by simp
  next
    case False
    then have "s \<in> set ss" "step_id x \<noteq> step_id s" using Cons.prems by auto
    then show ?thesis using Cons by auto
  qed
qed simp

lemma work_moved:
  assumes "distinct (step_ids p)" "s \<in> set (steps p)" "phases st' = (phases st)(step_id s := new)"
    and "phase_weight s new < phase_weight s (phases st (step_id s))" "es_cancelled st' = es_cancelled st"
  shows "work_left p st' < work_left p st"
  using weight_update [of "steps p" s "phases st" new] assms by (simp add: work_left_def step_ids_def)

lemma engine_step_work:
  assumes "engine_step p m st st'" "exec_inv p m st" "distinct (step_ids p)"
  shows "work_left p st' < work_left p st"
  using assms(1)
proof cases
  case (begins s)
  then have "\<exists>new. phases st' = (phases st)(step_id s := new) \<and> phase_weight s new < phase_weight s PWaiting
      \<and> es_cancelled st' = es_cancelled st"
    by (auto simp: begin_step_def phase_weight_def)
  then show ?thesis using work_moved [OF assms(3) begins(2)] begins(4) by metis
next
  case (takes s ups a)
  have "phase_ok s st" using assms(2) takes by (auto simp: exec_inv_def)
  then have "a < max_attempts s" using takes by (simp add: phase_ok_def)
  then show ?thesis
    using takes by (intro work_moved [OF assms(3) takes(2), of st' st "PRunning ups (Suc a)"])
      (auto simp: take_slot_def phase_weight_def)
next
  case (ends s ups a out)
  have "phase_ok s st" using assms(2) ends by (auto simp: exec_inv_def)
  then have a: "a \<le> max_attempts s" using ends by (simp add: phase_ok_def)
  show ?thesis
  proof (cases "out = CancelledAttempt")
    case True
    then show ?thesis using ends by (simp add: end_attempt_def work_left_def)
  next
    case False
    then have "\<exists>new. phases st' = (phases st)(step_id s := new) \<and> phase_weight s new < phase_weight s (PRunning ups a)
        \<and> es_cancelled st' = es_cancelled st"
      using ends a by (cases out) (auto simp: end_attempt_def phase_weight_def Let_def)
    then show ?thesis using work_moved [OF assms(3) ends(2)] ends(4) by metis
  qed
qed

lemma engine_runs_work:
  assumes "engine_runs p m n st st'" "exec_inv p m st" "distinct (step_ids p)"
  shows "n + work_left p st' \<le> work_left p st"
  using assms
proof (induction rule: engine_runs.induct)
  case (runs_more n st st' st'')
  then show ?case using engine_step_work [OF runs_more(2) engine_runs_inv [OF runs_more(1)]] by fastforce
qed simp

lemma some_step_enabled:
  assumes inv: "exec_inv p m st" and valid: "validate_plan p = Inr ()" and "0 < m" "\<not> es_cancelled st"
    and "s0 \<in> set (steps p)" "\<not> settled (phases st (step_id s0))"
  shows "\<exists>st'. engine_step p m st st'"
proof -
  have p: "distinct (step_ids p)" "known_deps (steps p)" "acyclic (dep_rel (steps p))"
    using valid validate_plan_conv [of p] ordered_iff_acyclic [of p] by blast+
  consider (run) s ups a where "s \<in> set (steps p)" "phases st (step_id s) = PRunning ups a"
    | (ready) s ups a where "s \<in> set (steps p)" "phases st (step_id s) = PReady ups a" "\<forall>s \<in> set (steps p). \<not> running (phases st (step_id s))"
    | (waiting) "\<forall>s \<in> set (steps p). settled (phases st (step_id s)) \<or> phases st (step_id s) = PWaiting"
  proof -
    have "running ph \<or> (\<exists>ups a. ph = PReady ups a) \<or> settled ph \<or> ph = PWaiting" for ph
      by (cases ph) (auto simp: running_def)
    then have "running (phases st (step_id s)) \<or> (\<exists>ups a. phases st (step_id s) = PReady ups a)
        \<or> settled (phases st (step_id s)) \<or> phases st (step_id s) = PWaiting" for s .
    note cases = this
    show thesis
    proof (cases "\<exists>s \<in> set (steps p). running (phases st (step_id s))")
      case True
      then show thesis using run by (auto simp: running_def)
    next
      case False
      then show thesis using ready waiting cases by blast
    qed
  qed
  then show ?thesis
  proof cases
    case run
    then show ?thesis using engine_step.ends assms(4) by blast
  next
    case ready
    then have "running_count p st = 0" by (simp add: running_count_def filter_empty_conv)
    then have "in_flight st < m" using inv assms(3) by (simp add: exec_inv_def)
    then show ?thesis using engine_step.takes [OF ready(1) assms(4) ready(2)] by blast
  next
    case waiting
    let ?W = "step_id ` {s \<in> set (steps p). phases st (step_id s) = PWaiting}"
    have "dep_rel (steps p) = (\<Union>s \<in> set (steps p). (\<lambda>d. (d, step_id s)) ` set (dependencies s))" by (auto simp: dep_rel_def)
    then have "finite (dep_rel (steps p))" by simp
    then have wf: "wf (dep_rel (steps p))" using p(3) by (simp add: finite_acyclic_wf)
    have mem: "step_id s0 \<in> ?W" using waiting assms(5,6) by auto
    obtain z where "z \<in> ?W" and min: "\<And>y. (y, z) \<in> dep_rel (steps p) \<Longrightarrow> y \<notin> ?W"
      by (rule wfE_min [OF wf mem]) blast
    then obtain s where s: "s \<in> set (steps p)" "z = step_id s" "phases st (step_id s) = PWaiting" by auto
    have "settled (phases st d)" if "d \<in> set (dependencies s)" for d
    proof -
      obtain s' where s': "s' \<in> set (steps p)" "d = step_id s'" using p(2) s(1) \<open>d \<in> set (dependencies s)\<close> by (auto simp: known_deps_def)
      have "(d, z) \<in> dep_rel (steps p)" using that s by (auto simp: dep_rel_def)
      then have "phases st d \<noteq> PWaiting" using min s' by auto
      then show ?thesis using waiting s' by auto
    qed
    then have "deps_settled s st" by (simp add: deps_settled_def list_all_iff)
    then show ?thesis using engine_step.begins [OF s(1) assms(4) s(3)] by blast
  qed
qed

text \<open>C10: Every execution of a valid plan ends. Whatever the attempts return and in whatever order the
  tasks are scheduled, an execution makes at most \<open>work_bound\<close> scheduling moves (two per
  allowed attempt and two more per step), and it can stop only when it was cancelled or every
  step has succeeded or failed: there is no deadlock.\<close>

theorem execution_terminates:
  assumes "validate_plan p = Inr ()" "0 < m" "engine_runs p m n (exec_init p seed) st"
  shows "n \<le> work_bound p
    \<and> ((\<nexists>st'. engine_step p m st st') \<longrightarrow>
         es_cancelled st \<or> (\<forall>s \<in> set (steps p). settled (phases st (step_id s))))"
proof -
  have dist: "distinct (step_ids p)" using assms(1) validate_plan_conv by blast
  have "work_left p (exec_init p seed) = work_bound p"
    by (simp add: work_left_def work_bound_def exec_init_def phase_weight_def)
  then have "n \<le> work_bound p" using engine_runs_work [OF assms(3) exec_inv_init dist] by simp
  moreover have "exec_inv p m st" using engine_runs_inv [OF assms(3) exec_inv_init dist] .
  ultimately show ?thesis using some_step_enabled [OF _ assms(1,2)] by blast
qed

theorem execution_terminates_witness: "(5 :: nat) \<le> work_bound rv_plan"
proof -
  have "validate_plan rv_plan = Inr ()" by code_simp
  then show ?thesis using execution_terminates [OF _ _ rv_run] by simp
qed

end
