(* ===== verification/Engine_Run.thy ===== *)
theory Engine_Run
  imports Engine Budget_Claims
begin

text \<open>
  The run loop of the engine: it returns, and its revisions are bounded by the plan and paid
  for in the replan account. The account is the interface \<open>replan_account\<close>; the orchestrator
  (\<open>agents/orchestrator.py\<close>) provides it from the run's budget guard. At the end, the stage
  lookup of the step executor (\<open>agents/workflow/executor.py\<close>).
\<close>

section \<open>The interface of the account\<close>

text \<open>Spending counts every attempt, also a refused one, and succeeds only within the capacity.\<close>

locale replan_account =
  fixes spend :: "'g \<Rightarrow> (string + unit) \<times> 'g" and used :: "'g \<Rightarrow> int" and capacity :: "'g \<Rightarrow> int option"
  assumes spend_counts: "capacity g = Some c \<Longrightarrow> used (snd (spend g)) = used g + 1"
    and spend_capacity: "capacity (snd (spend g)) = capacity g"
    and spend_within: "capacity g = Some c \<Longrightarrow> fst (spend g) = Inr u \<Longrightarrow> used (snd (spend g)) \<le> c"
begin

lemma spend_ok: "spend g = (Inr u, g') \<Longrightarrow> capacity g = Some c \<Longrightarrow> capacity g' = Some c \<and> used g' = used g + 1 \<and> used g' \<le> c"
  using spend_counts [of g c] spend_capacity [of g] spend_within [of g c u] by simp

lemma spend_refused: "spend g = (Inl e, g') \<Longrightarrow> capacity g = Some c \<Longrightarrow> capacity g' = Some c \<and> used g' = used g + 1"
  using spend_counts [of g c] spend_capacity [of g] by simp

end

section \<open>One turn\<close>

lemma revise_plan_max: "revise_plan p ids obs f = Inr q \<Longrightarrow> max_replans q = max_replans p"
  by (auto simp: revise_plan_def Let_def result_simps split: if_splits)

lemma decision_continues:
  "\<not> decision_stops (decide_revision v b) \<Longrightarrow> plan_allows b"
  by (auto simp: decide_revision_def decision_stops_def Let_def split: if_splits)

text \<open>The turns that end the run, and the one that goes on.\<close>

lemma run_turn_cases:
  assumes "run_turn env reused ls = Inr out"
  obtains (failed) r where "out = Inl (r, ls_account ls)" "wr_replans r = ls_replans ls"
      "wr_verifier_results r = ls_history ls" "\<not> wr_completed r"
  | (verified) r v where "out = Inl (r, ls_account ls)" "wr_replans r = ls_replans ls"
      "wr_verifier_results r = ls_history ls @ [v]"
  | (blocked) r v g' msg where "out = Inl (r, g')" "ee_on_replan env (ls_account ls) = (Inl msg, g')"
      "wr_replans r = ls_replans ls" "wr_verifier_results r = ls_history ls @ [v]" "\<not> wr_completed r"
      "int (ls_replans ls) < max_replans (ls_plan ls)"
  | (revised) ls' v g' where "out = Inr ls'" "ee_on_replan env (ls_account ls) = (Inr (), g')" "ls_account ls' = g'"
      "ls_replans ls' = ls_replans ls + 1" "max_replans (ls_plan ls') = max_replans (ls_plan ls)"
      "int (ls_replans ls) < max_replans (ls_plan ls)" "ls_history ls' = ls_history ls @ [v]"
proof -
  obtain obs' pk fl where ex: "ee_execute env (ls_plan ls) (ls_obs ls) = (obs', pk, fl)" by (metis surj_pair)
  show thesis
  proof (cases fl)
    case (Some sid)
    then have "\<exists>r. out = Inl (r, ls_account ls) \<and> wr_replans r = ls_replans ls
        \<and> wr_verifier_results r = ls_history ls \<and> \<not> wr_completed r"
      using assms by (auto simp: run_turn_def ex Let_def finish_run_def)
    then show thesis using failed by blast
  next
    case None
    obtain v v' where ve: "ee_verify env (ls_verifier ls) (ls_plan ls) obs' = (v, v')" by (metis surj_pair)
    let ?b = "\<lparr>rb_plan_max = max_replans (ls_plan ls), rb_replans_used = int (ls_replans ls),
       rb_guard_remaining = ee_units_left env (ls_account ls)\<rparr>"
    let ?d = "decide_revision (from_verifier_result v (int (ls_replans ls))) ?b"
    show thesis
    proof (cases "vr_verdict v = VPass \<or> vr_verdict v = VFail \<or> rd_action ?d = Accept \<or> decision_stops ?d")
      case True
      then show thesis
        using assms verified None
        by (auto simp: run_turn_def ex ve Let_def finish_run_def split: if_splits)
    next
      case False
      then have lt: "int (ls_replans ls) < max_replans (ls_plan ls)"
        using decision_continues [of "from_verifier_result v (int (ls_replans ls))" ?b] by (simp add: plan_allows_def)
      obtain r g' where sp: "ee_on_replan env (ls_account ls) = (r, g')" by (metis surj_pair)
      show thesis
      proof (cases r)
        case (Inl msg)
        then have "\<exists>w. out = Inl (w, g') \<and> wr_replans w = ls_replans ls
            \<and> wr_verifier_results w = ls_history ls @ [v] \<and> \<not> wr_completed w"
          using assms None False sp by (auto simp: run_turn_def ex ve Let_def finish_run_def)
        then show thesis using blocked sp lt Inl by blast
      next
        case (Inr u)
        then show thesis
          using assms revised [of _ g'] None False sp lt
          by (auto simp: run_turn_def ex ve Let_def result_simps dest: revise_plan_max)
      qed
    qed
  qed
qed

section \<open>The loop\<close>

lemma run_loop_returns:
  "nat (max_replans (ls_plan ls) - int (ls_replans ls)) < fuel \<Longrightarrow> \<exists>r. run_loop fuel env reused ls = Some r"
proof (induction fuel arbitrary: ls)
  case (Suc fuel)
  show ?case
  proof (cases "run_turn env reused ls")
    case (Inr out)
    from this show ?thesis
    proof (cases rule: run_turn_cases)
      case (revised ls' v g')
      then have "nat (max_replans (ls_plan ls') - int (ls_replans ls')) < fuel" using Suc.prems by simp
      then show ?thesis using Suc.IH [of ls'] Inr revised(1) by simp
    qed (simp_all add: Inr)
  qed simp
qed simp

lemma run_loop_bounds:
  assumes "run_loop fuel env reused ls = Some (Inr (r, g'))" "int (ls_replans ls) \<le> max 0 (max_replans (ls_plan ls))"
  shows "int (wr_replans r) \<le> max 0 (max_replans (ls_plan ls)) \<and> ls_replans ls \<le> wr_replans r
    \<and> length (wr_verifier_results r) + ls_replans ls \<le> length (ls_history ls) + wr_replans r + 1"
  using assms
proof (induction fuel arbitrary: ls)
  case (Suc fuel)
  obtain out where out: "run_turn env reused ls = Inr out" using Suc.prems(1) by (cases "run_turn env reused ls") auto
  from out show ?case
  proof (cases rule: run_turn_cases)
    case (revised ls' v g'')
    then show ?thesis using Suc.IH [of ls'] Suc.prems out by simp
  qed (use Suc.prems out in auto)
qed simp

context replan_account
begin

text \<open>What a run leaves in the account: one unit per revision, and one more when the last was
  refused; every revision made was within the capacity.\<close>

lemma run_loop_account:
  assumes "run_loop fuel env reused ls = Some (Inr (r, g'))" "ee_on_replan env = spend"
    and "capacity (ls_account ls) = Some c"
  shows "capacity g' = Some c
    \<and> int (wr_replans r - ls_replans ls) \<le> used g' - used (ls_account ls)
    \<and> used g' - used (ls_account ls) \<le> int (wr_replans r - ls_replans ls) + 1
    \<and> ls_replans ls \<le> wr_replans r
    \<and> (ls_replans ls < wr_replans r \<longrightarrow> used (ls_account ls) + int (wr_replans r - ls_replans ls) \<le> c)"
  using assms(1,3)
proof (induction fuel arbitrary: ls)
  case (Suc fuel)
  obtain out where out: "run_turn env reused ls = Inr out" using Suc.prems(1) by (cases "run_turn env reused ls") auto
  from out show ?case
  proof (cases rule: run_turn_cases)
    case (blocked r' v g'' msg)
    then have "g' = g''" "r = r'" using Suc.prems(1) out by auto
    then show ?thesis using spend_refused [of "ls_account ls" msg g'' c] blocked Suc.prems(2) assms(2) by simp
  next
    case (revised ls' v g'')
    have sp: "capacity g'' = Some c" "used g'' = used (ls_account ls) + 1" "used g'' \<le> c"
      using spend_ok [of "ls_account ls" "()" g'' c] revised(2) Suc.prems(2) assms(2) by auto
    then show ?thesis
      using Suc.IH [of ls'] Suc.prems(1) out revised by fastforce
  qed (use Suc.prems out in auto)
qed simp

end

section \<open>The budget guard as the account\<close>

text \<open>The run's guard, if it has one, and the clock its checks read.\<close>

record guard_account =
  ga_guard :: "budget_guard option"
  ga_clock :: "nat \<Rightarrow> rat"
  ga_ticks :: nat

definition replan_units_left :: "guard_account \<Rightarrow> int option" where
  "replan_units_left acc =
     map_option (\<lambda>g. max 0 (\<lfloor>num (max_replan_count (limits g))\<rfloor> - g_replans g)) (ga_guard acc)"

definition spend_replan_unit :: "guard_account \<Rightarrow> (string + unit) \<times> guard_account" where
  "spend_replan_unit acc =
     (case ga_guard acc of
        None \<Rightarrow> (Inr (), acc)
      | Some g \<Rightarrow>
          (let (r, g') = enter_replan (ga_clock acc (ga_ticks acc)) g
           in (map_sum (\<lambda>e. case e of BudgetExceeded msg \<Rightarrow> msg | _ \<Rightarrow> []) id r,
               acc\<lparr>ga_guard := Some g', ga_ticks := ga_ticks acc + 1\<rparr>)))"

definition account_used :: "guard_account \<Rightarrow> int" where
  "account_used acc = (case ga_guard acc of None \<Rightarrow> 0 | Some g \<Rightarrow> g_replans g)"

definition account_capacity :: "guard_account \<Rightarrow> int option" where
  "account_capacity acc = map_option (\<lambda>g. \<lfloor>num (max_replan_count (limits g))\<rfloor>) (ga_guard acc)"

interpretation guard_replans: replan_account spend_replan_unit account_used account_capacity
proof
  fix acc :: guard_account and c u
  assume c: "account_capacity acc = Some c"
  then obtain g where g: "ga_guard acc = Some g" "c = \<lfloor>num (max_replan_count (limits g))\<rfloor>"
    by (auto simp: account_capacity_def)
  show "account_used (snd (spend_replan_unit acc)) = account_used acc + 1"
    using g by (simp add: account_used_def spend_replan_unit_def enter_replan_def Let_def)
  assume "fst (spend_replan_unit acc) = Inr u"
  then show "account_used (snd (spend_replan_unit acc)) \<le> c"
    using g by (simp add: account_used_def spend_replan_unit_def enter_replan_def check_def exhaustion_reason_def
        Let_def le_floor_iff not_less split: option.splits if_splits)
next
  show "account_capacity (snd (spend_replan_unit acc)) = account_capacity acc" for acc
    by (simp add: account_capacity_def spend_replan_unit_def enter_replan_def Let_def split: option.splits)
qed

definition orchestrated :: "('v, guard_account) engine_env \<Rightarrow> bool" where
  "orchestrated env \<longleftrightarrow> ee_on_replan env = spend_replan_unit \<and> ee_units_left env = replan_units_left"

lemma apply_checkpoints_max: "max_replans (snd (apply_checkpoints p c)) = max_replans p"
  by (simp add: apply_checkpoints_def Let_def)

text \<open>C11: A run returns and its revisions are bounded and paid for. Whatever the executions and the
  verifier answer, a run of the engine ends within one turn more than the plan's
  \<open>max_replans\<close>; a run that ends in a result made at most \<open>max_replans\<close> revisions and asked the
  verifier at most once more; and with the orchestrator's budget guard as the account, each
  revision was counted there (plus one when the last was refused) and none exceeded the
  guard's replan limit.\<close>

theorem run_bounded_and_paid:
  assumes "nat (max_replans p) < fuel" "orchestrated env" "ga_guard acc = Some gd"
  shows "\<exists>out. engine_run fuel env v acc checkpoints p = Some out
    \<and> (\<forall>r acc'. out = Inr (r, acc') \<longrightarrow>
         int (wr_replans r) \<le> max 0 (max_replans p)
         \<and> length (wr_verifier_results r) \<le> wr_replans r + 1
         \<and> int (wr_replans r) \<le> account_used acc' - g_replans gd
         \<and> account_used acc' - g_replans gd \<le> int (wr_replans r) + 1
         \<and> (0 < wr_replans r \<longrightarrow> of_int (g_replans gd + int (wr_replans r)) \<le> num (max_replan_count (limits gd))))"
proof (cases "validate_plan p")
  case (Inl e)
  then show ?thesis by (simp add: engine_run_def)
next
  case (Inr u)
  obtain reused p' where p': "apply_checkpoints p checkpoints = (reused, p')" by (metis surj_pair)
  let ?ls = "\<lparr>ls_plan = p', ls_obs = carry_observations p', ls_replans = 0, ls_peak = 0,
     ls_history = [], ls_trace = [], ls_verifier = v, ls_account = acc\<rparr>"
  have mx: "max_replans p' = max_replans p" using apply_checkpoints_max [of p checkpoints] p' by simp
  have run: "engine_run fuel env v acc checkpoints p = run_loop fuel env reused ?ls"
    by (simp add: engine_run_def Inr p')
  obtain out where out: "run_loop fuel env reused ?ls = Some out"
    using run_loop_returns [of ?ls fuel env reused] assms(1) mx by auto
  have cap: "account_capacity acc = Some \<lfloor>num (max_replan_count (limits gd))\<rfloor>" "account_used acc = g_replans gd"
    using assms(3) by (simp_all add: account_capacity_def account_used_def)
  have "int (wr_replans r) \<le> max 0 (max_replans p) \<and> length (wr_verifier_results r) \<le> wr_replans r + 1
      \<and> int (wr_replans r) \<le> account_used acc' - g_replans gd
      \<and> account_used acc' - g_replans gd \<le> int (wr_replans r) + 1
      \<and> (0 < wr_replans r \<longrightarrow> of_int (g_replans gd + int (wr_replans r)) \<le> num (max_replan_count (limits gd)))"
    if "out = Inr (r, acc')" for r acc'
  proof -
    have o: "run_loop fuel env reused ?ls = Some (Inr (r, acc'))" using out that by simp
    show ?thesis
      using run_loop_bounds [OF o] guard_replans.run_loop_account [OF o] assms(2) cap mx
      by (auto simp: orchestrated_def le_floor_iff)
  qed
  then show ?thesis using run out by simp
qed

text \<open>A verifier that always asks for the writer to be redone, and an executor that never fails.\<close>

definition stubborn_env :: "(unit, guard_account) engine_env" where
  "stubborn_env =
     \<lparr>ee_execute = (\<lambda>p obs. (obs, 1, None)),
      ee_verify = (\<lambda>_ p obs. (\<lparr>vr_verdict = VRevise, vr_findings = [''more''], vr_revise_step_ids = [''writer''], vr_note = []\<rparr>, ())),
      ee_units_left = replan_units_left, ee_on_replan = spend_replan_unit\<rparr>"

definition fresh_account :: guard_account where
  "fresh_account = \<lparr>ga_guard = Some (new_guard None 0), ga_clock = (\<lambda>i. 1), ga_ticks = 0\<rparr>"

theorem run_bounded_and_paid_witness:
  "\<exists>r acc'. engine_run 3 stubborn_env () fresh_account [] (build_deep_research_plan ''q'') = Some (Inr (r, acc'))
     \<and> \<not> wr_completed r \<and> wr_replans r = 1 \<and> 1 \<le> account_used acc'"
proof -
  have *: "case engine_run 3 stubborn_env () fresh_account [] (build_deep_research_plan ''q'') of
      Some (Inr (r, acc')) \<Rightarrow> \<not> wr_completed r \<and> wr_replans r = 1 | _ \<Rightarrow> False" by code_simp
  have "nat (max_replans (build_deep_research_plan ''q'')) < 3"
    by (simp add: build_deep_research_plan_def template_plan_def Let_def)
  moreover have "orchestrated stubborn_env" by (simp add: orchestrated_def stubborn_env_def)
  moreover have "ga_guard fresh_account = Some (new_guard None 0)" by (simp add: fresh_account_def)
  ultimately show ?thesis
    using run_bounded_and_paid [of "build_deep_research_plan ''q''" 3 stubborn_env fresh_account "new_guard None 0" "()" "[]"] *
    by (auto simp: new_guard_def split: option.splits sum.splits)
qed

section \<open>The executor's stage lookup\<close>

text \<open>The stage map, the cache of built stages and the two optional factories. A revised step's
  stage is cached under its id and round.\<close>

record 'a stage_adapter =
  sa_stages :: "(string, 'a) dict"
  sa_factory :: "(step \<Rightarrow> 'a) option"
  sa_revise_factory :: "(step \<Rightarrow> 'a) option"
  sa_built :: "(string, 'a) dict"

definition spec_for :: "(int \<Rightarrow> string) \<Rightarrow> step \<Rightarrow> 'a stage_adapter \<Rightarrow> (plan_error + 'a) \<times> 'a stage_adapter" where
  "spec_for istr s ad =
     (case dict_get (sa_stages ad) (step_id s) of
        Some spec \<Rightarrow> (Inr spec, ad)
      | None \<Rightarrow>
          (case dict_get (sa_built ad) (step_id s) of
             Some spec \<Rightarrow> (Inr spec, ad)
           | None \<Rightarrow>
               (case sa_revise_factory ad of
                  Some f \<Rightarrow>
                    if revision_round s \<noteq> 0
                    then (let key = step_id s @ ''@r'' @ istr (revision_round s)
                          in case dict_get (sa_built ad) key of
                               Some spec \<Rightarrow> (Inr spec, ad)
                             | None \<Rightarrow> (Inr (f s), ad\<lparr>sa_built := dict_set key (f s) (sa_built ad)\<rparr>))
                    else (case sa_factory ad of
                            None \<Rightarrow> (Inl (KeyError (step_id s)), ad)
                          | Some g \<Rightarrow> (Inr (g s), ad\<lparr>sa_built := dict_set (step_id s) (g s) (sa_built ad)\<rparr>))
                | None \<Rightarrow>
                    (case sa_factory ad of
                       None \<Rightarrow> (Inl (KeyError (step_id s)), ad)
                     | Some g \<Rightarrow> (Inr (g s), ad\<lparr>sa_built := dict_set (step_id s) (g s) (sa_built ad)\<rparr>)))))"

text \<open>A revised dynamic step gets its old stage. When a step that is not in the template's
  stage map has been built once, its later revisions are answered from the cache with the
  stage of the first round, and the revision factory is never called for it.\<close>

theorem revised_step_reuses_first_stage:
  assumes "dict_get (sa_stages ad) (step_id s) = None" "dict_get (sa_built ad) (step_id s) = None"
    and "sa_factory ad = Some g" "revision_round s = 0" "step_id s' = step_id s"
  shows "fst (spec_for istr s' (snd (spec_for istr s ad))) = Inr (g s)"
  using assms by (auto simp: spec_for_def dict_get_set Let_def split: option.splits)

theorem revised_step_reuses_first_stage_witness:
  "fst (spec_for (\<lambda>_. ''1'') (template_step ''x'' ''r'' ''n'' ''t'' [] [] \<lparr>revision_round := 1, review_findings := [''bad'']\<rparr>)
     (snd (spec_for (\<lambda>_. ''1'') (template_step ''x'' ''r'' ''n'' ''t'' [] [])
        \<lparr>sa_stages = [], sa_factory = Some (\<lambda>s. (''first'', review_findings s)),
         sa_revise_factory = Some (\<lambda>s. (''revised'', review_findings s)), sa_built = []\<rparr>)))
   = Inr (''first'', [])"
  by (subst revised_step_reuses_first_stage [where g = "\<lambda>s. (''first'', review_findings s)"])
    (simp_all add: template_step_def)

text \<open>\<open>_serialize_upstream\<close>: the non-blank outputs, each under its step's heading.\<close>

definition serialize_upstream :: "observations \<Rightarrow> string" where
  "serialize_upstream ups =
     py_join [CHR 0x0A, CHR 0x0A]
       (List.map_filter (\<lambda>(sid, ob). let body = py_strip (obs_output ob) in
          if body = [] then None else Some (''['' @ sid @ '' output]'' @ [CHR 0x0A] @ body)) ups)"

end
