(* ===== verification/Run_Commands.thy ===== *)
theory Run_Commands
  imports Prelude "HOL-Library.Product_Lexorder"
begin

text \<open>
  The durable control commands of a run (\<open>agents/workflow/repository.py\<close>, \<open>CommandStore\<close>): a
  command is appended pending, claimed by one status-guarded UPDATE, then applied or failed.
  The table is the list of its rows; rows are never deleted. Each operation is one database
  statement, so a sequence of operations is any interleaving of the API and the workers.
\<close>

section \<open>The table and its operations\<close>

datatype command_status = CPending | CClaimed | CApplied | CFailed

record 'v run_command =
  cm_id :: uuid
  cm_run :: uuid
  cm_type :: string
  cm_payload :: "(string, 'v) dict"
  cm_status :: command_status
  cm_created :: timestamp
  cm_claimed_at :: "timestamp option"
  cm_claimed_by :: "string option"
  cm_applied_at :: "timestamp option"
  cm_error :: "string option"

definition append_command ::
  "uuid \<Rightarrow> timestamp \<Rightarrow> uuid \<Rightarrow> string \<Rightarrow> (string, 'v) dict option \<Rightarrow> 'v run_command list
    \<Rightarrow> 'v run_command \<times> 'v run_command list" where
  "append_command new_id now run ty payload db =
     (let c = \<lparr>cm_id = new_id, cm_run = run, cm_type = ty,
               cm_payload = (case payload of None \<Rightarrow> [] | Some p \<Rightarrow> p),
               cm_status = CPending, cm_created = now, cm_claimed_at = None, cm_claimed_by = None,
               cm_applied_at = None, cm_error = None\<rparr>
      in (c, db @ [c]))"

definition claimable :: "uuid \<Rightarrow> 'v run_command \<Rightarrow> bool" where
  "claimable run c \<longleftrightarrow> cm_run c = run \<and> cm_status c = CPending"

definition claim_row :: "timestamp \<Rightarrow> string \<Rightarrow> 'v run_command \<Rightarrow> 'v run_command" where
  "claim_row now owner c = c\<lparr>cm_status := CClaimed, cm_claimed_at := Some now, cm_claimed_by := Some owner\<rparr>"

text \<open>\<open>UPDATE \<dots> WHERE status = 'pending' RETURNING id\<close>, then the rows in the order of creation.\<close>

definition claim_pending ::
  "timestamp \<Rightarrow> uuid \<Rightarrow> string \<Rightarrow> 'v run_command list \<Rightarrow> 'v run_command list \<times> 'v run_command list" where
  "claim_pending now run owner db =
     (sort_key (\<lambda>c. (cm_created c, cm_id c)) (map (claim_row now owner) (filter (claimable run) db)),
      map (\<lambda>c. if claimable run c then claim_row now owner c else c) db)"

text \<open>Only a claimed command moves on; the answer says whether it did.\<close>

definition settle_command ::
  "('v run_command \<Rightarrow> 'v run_command) \<Rightarrow> uuid \<Rightarrow> 'v run_command list \<Rightarrow> bool \<times> 'v run_command list" where
  "settle_command f cid db =
     (case List.find (\<lambda>c. cm_id c = cid) db of
        None \<Rightarrow> (False, db)
      | Some c \<Rightarrow> if cm_status c \<noteq> CClaimed then (False, db) else (True, map_at cm_id cid f db))"

definition mark_applied :: "timestamp \<Rightarrow> uuid \<Rightarrow> 'v run_command list \<Rightarrow> bool \<times> 'v run_command list" where
  "mark_applied now = settle_command (\<lambda>c. c\<lparr>cm_status := CApplied, cm_applied_at := Some now\<rparr>)"

definition mark_failed :: "string \<Rightarrow> uuid \<Rightarrow> 'v run_command list \<Rightarrow> bool \<times> 'v run_command list" where
  "mark_failed err = settle_command (\<lambda>c. c\<lparr>cm_status := CFailed, cm_error := Some err\<rparr>)"

section \<open>Interleavings\<close>

datatype 'v command_op =
    Append uuid timestamp uuid string "(string, 'v) dict option"
  | Claim timestamp uuid string
  | Apply timestamp uuid
  | Fail string uuid

text \<open>The history of a run of operations: the commands handed out by claims, and the commands
  whose settlement was reported.\<close>

record 'v command_world =
  cw_db :: "'v run_command list"
  cw_claims :: "(uuid \<times> string) list"
  cw_settled :: "uuid list"

fun command_step :: "'v command_op \<Rightarrow> 'v command_world \<Rightarrow> 'v command_world" where
  "command_step (Append i now run ty pl) w = w\<lparr>cw_db := snd (append_command i now run ty pl (cw_db w))\<rparr>"
| "command_step (Claim now run owner) w =
     (let (cs, db') = claim_pending now run owner (cw_db w)
      in w\<lparr>cw_db := db', cw_claims := cw_claims w @ map (\<lambda>c. (cm_id c, owner)) cs\<rparr>)"
| "command_step (Apply now i) w =
     (let (ok, db') = mark_applied now i (cw_db w)
      in w\<lparr>cw_db := db', cw_settled := cw_settled w @ (if ok then [i] else [])\<rparr>)"
| "command_step (Fail err i) w =
     (let (ok, db') = mark_failed err i (cw_db w)
      in w\<lparr>cw_db := db', cw_settled := cw_settled w @ (if ok then [i] else [])\<rparr>)"

definition run_commands :: "'v command_op list \<Rightarrow> 'v command_world" where
  "run_commands ops = foldl (\<lambda>w op. command_step op w) \<lparr>cw_db = [], cw_claims = [], cw_settled = []\<rparr> ops"

fun appended_id :: "'v command_op \<Rightarrow> uuid list" where
  "appended_id (Append i now run ty pl) = [i]"
| "appended_id _ = []"

definition ids_with :: "(command_status \<Rightarrow> bool) \<Rightarrow> 'v run_command list \<Rightarrow> uuid set" where
  "ids_with P db = cm_id ` {c \<in> set db. P (cm_status c)}"

definition command_inv :: "'v command_world \<Rightarrow> bool" where
  "command_inv w \<longleftrightarrow> distinct (map cm_id (cw_db w))
     \<and> distinct (map fst (cw_claims w)) \<and> distinct (cw_settled w)
     \<and> fst ` set (cw_claims w) = ids_with (\<lambda>s. s \<noteq> CPending) (cw_db w)
     \<and> set (cw_settled w) = ids_with (\<lambda>s. s = CApplied \<or> s = CFailed) (cw_db w)"

lemma command_invD:
  assumes "command_inv w"
  shows "distinct (map cm_id (cw_db w))" "distinct (map fst (cw_claims w))" "distinct (cw_settled w)"
    "fst ` set (cw_claims w) = ids_with (\<lambda>s. s \<noteq> CPending) (cw_db w)"
    "set (cw_settled w) = ids_with (\<lambda>s. s = CApplied \<or> s = CFailed) (cw_db w)"
  using assms unfolding command_inv_def by blast+

lemma claim_row_simps [simp]:
  "cm_id (claim_row now ow c) = cm_id c" "cm_status (claim_row now ow c) = CClaimed"
  by (simp_all add: claim_row_def)

lemma ids_with_map:
  "(\<And>c. cm_id (f c) = cm_id c) \<Longrightarrow> ids_with P (map f db) = cm_id ` {c \<in> set db. P (cm_status (f c))}"
  unfolding ids_with_def by (fastforce simp: image_iff)

lemma append_inv:
  assumes "command_inv w" "i \<notin> cm_id ` set (cw_db w)"
  shows "command_inv (command_step (Append i now run ty pl) w)"
  using assms by (auto simp: command_inv_def append_command_def ids_with_def Let_def)

lemma claimed_ids:
  "map cm_id (map (\<lambda>c. if claimable run c then claim_row now ow c else c) db) = map cm_id db"
  by (simp add: comp_def if_distrib cong: map_cong if_cong)

lemma claim_inv:
  assumes "command_inv w"
  shows "command_inv (command_step (Claim now run ow) w)"
proof -
  let ?db = "cw_db w" and ?up = "\<lambda>c. if claimable run c then claim_row now ow c else c"
  let ?cs = "sort_key (\<lambda>c. (cm_created c, cm_id c)) (map (claim_row now ow) (filter (claimable run) ?db))"
  note inv = command_invD [OF assms]
  have set_cs: "cm_id ` set ?cs = cm_id ` {c \<in> set ?db. claimable run c}"
    by (auto simp: image_image)
  have "distinct (map cm_id (map (claim_row now ow) (filter (claimable run) ?db)))"
    using inv(1) by (simp add: comp_def distinct_map_filter)
  then have dist_cs: "distinct (map cm_id ?cs)" by (simp only: distinct_map_sort)
  have uniq: "c = d" if "c \<in> set ?db" "d \<in> set ?db" "cm_id c = cm_id d" for c d
    using that inv(1) by (simp add: distinct_map inj_on_def)
  have disj: "fst ` set (cw_claims w) \<inter> cm_id ` set ?cs = {}"
    unfolding set_cs inv(4) ids_with_def claimable_def by (blast dest: uniq)
  have up: "ids_with P (map ?up ?db) = cm_id ` {c \<in> set ?db. P (cm_status (?up c))}" for P
    by (rule ids_with_map) simp
  have "{c \<in> set ?db. cm_status (?up c) \<noteq> CPending}
      = {c \<in> set ?db. cm_status c \<noteq> CPending} \<union> {c \<in> set ?db. claimable run c}"
    by (auto simp: claimable_def)
  then have "ids_with (\<lambda>s. s \<noteq> CPending) (map ?up ?db) = ids_with (\<lambda>s. s \<noteq> CPending) ?db \<union> cm_id ` set ?cs"
    unfolding set_cs up by (simp only: ids_with_def image_Un)
  moreover have "{c \<in> set ?db. cm_status (?up c) = CApplied \<or> cm_status (?up c) = CFailed}
      = {c \<in> set ?db. cm_status c = CApplied \<or> cm_status c = CFailed}"
    by (auto simp: claimable_def)
  then have "ids_with (\<lambda>s. s = CApplied \<or> s = CFailed) (map ?up ?db) = ids_with (\<lambda>s. s = CApplied \<or> s = CFailed) ?db"
    unfolding up by (simp only: ids_with_def)
  moreover have "map (\<lambda>c. cm_id (?up c)) ?db = map cm_id ?db"
    by (rule map_cong) simp_all
  then have ids: "distinct (map (\<lambda>c. cm_id (?up c)) ?db)"
    using inv(1) by (simp only:)
  ultimately show ?thesis
    using inv disj dist_cs ids
    by (simp add: command_inv_def claim_pending_def comp_def image_Un image_image)
qed

lemma settle_cases:
  assumes "settle_command f i db = (ok, db')"
  obtains (no) "\<not> ok" "db' = db"
  | (yes) c where "ok" "c \<in> set db" "cm_id c = i" "cm_status c = CClaimed" "db' = map_at cm_id i f db"
proof (cases "List.find (\<lambda>c. cm_id c = i) db")
  case None
  then show thesis using assms no by (simp add: settle_command_def)
next
  case (Some c)
  note found = find_SomeD [OF Some]
  show thesis
  proof (cases "cm_status c = CClaimed")
    case True
    have "ok" "db' = map_at cm_id i f db" using assms Some True by (simp_all add: settle_command_def)
    then show thesis using yes [of c] found True by blast
  next
    case False
    then have "\<not> ok" "db' = db" using assms Some by (simp_all add: settle_command_def)
    then show thesis by (rule no)
  qed
qed

lemma settle_ids:
  assumes "settle_command f i db = (ok, db')" "\<And>c. cm_id (f c) = cm_id c"
    and "\<And>c. cm_status (f c) = CApplied \<or> cm_status (f c) = CFailed" "distinct (map cm_id db)"
  shows "map cm_id db' = map cm_id db" "ids_with (\<lambda>s. s \<noteq> CPending) db' = ids_with (\<lambda>s. s \<noteq> CPending) db"
    "ids_with (\<lambda>s. s = CApplied \<or> s = CFailed) db'
       = ids_with (\<lambda>s. s = CApplied \<or> s = CFailed) db \<union> (if ok then {i} else {})"
    "ok \<Longrightarrow> i \<notin> ids_with (\<lambda>s. s = CApplied \<or> s = CFailed) db"
proof -
  consider (no) "\<not> ok" "db' = db"
    | (yes) c where "ok" "c \<in> set db" "cm_id c = i" "cm_status c = CClaimed" "db' = map_at cm_id i f db"
    using settle_cases [OF assms(1)] by metis
  note cases = this
  have uniq: "c = d" if "c \<in> set db" "d \<in> set db" "cm_id c = cm_id d" for c d
    using that assms(4) by (simp add: distinct_map inj_on_def)
  show "map cm_id db' = map cm_id db"
    using cases by cases (simp_all add: map_at_keys assms(2))
  have up: "ids_with P (map_at cm_id i f db) = cm_id ` {c \<in> set db. P (cm_status (if cm_id c = i then f c else c))}" for P
    unfolding map_at_def by (rule ids_with_map) (simp add: assms(2))
  have moved: "cm_status (f c) \<noteq> CPending" for c using assms(3) [of c] by auto
  show "ids_with (\<lambda>s. s \<noteq> CPending) db' = ids_with (\<lambda>s. s \<noteq> CPending) db"
    using cases
  proof cases
    case yes
    have "{d \<in> set db. cm_status (if cm_id d = i then f d else d) \<noteq> CPending} = {d \<in> set db. cm_status d \<noteq> CPending}"
      using yes(2-4) moved by (intro Collect_cong) (auto dest: uniq)
    then show ?thesis unfolding yes(5) up by (simp only: ids_with_def)
  qed simp
  show "ids_with (\<lambda>s. s = CApplied \<or> s = CFailed) db'
      = ids_with (\<lambda>s. s = CApplied \<or> s = CFailed) db \<union> (if ok then {i} else {})"
    using cases
  proof cases
    case yes
    have "d \<in> set db \<and> (cm_status (if cm_id d = i then f d else d) = CApplied \<or> cm_status (if cm_id d = i then f d else d) = CFailed)
        \<longleftrightarrow> d \<in> set db \<and> (cm_status d = CApplied \<or> cm_status d = CFailed) \<or> d = c" for d
      using yes(2-4) assms(3) [of d] uniq [OF yes(2), of d] by (cases "cm_id d = i") auto
    then have "{d \<in> set db. cm_status (if cm_id d = i then f d else d) = CApplied \<or> cm_status (if cm_id d = i then f d else d) = CFailed}
        = insert c {d \<in> set db. cm_status d = CApplied \<or> cm_status d = CFailed}"
      by blast
    then show ?thesis using yes(1,3) unfolding yes(5) up by (simp add: ids_with_def)
  qed simp
  show "i \<notin> ids_with (\<lambda>s. s = CApplied \<or> s = CFailed) db" if ok
    using cases that by cases (auto simp: ids_with_def dest: uniq)
qed

lemma settle_inv:
  assumes "command_inv w" "settle_command f i (cw_db w) = (ok, db')" "\<And>c. cm_id (f c) = cm_id c"
    and "\<And>c. cm_status (f c) = CApplied \<or> cm_status (f c) = CFailed"
  shows "command_inv (w\<lparr>cw_db := db', cw_settled := cw_settled w @ (if ok then [i] else [])\<rparr>)"
proof -
  note inv = command_invD [OF assms(1)]
  note s = settle_ids [OF assms(2,3,4) inv(1)]
  show ?thesis using inv s by (simp add: command_inv_def)
qed

lemma command_step_ids:
  "map cm_id (cw_db (command_step op w)) = map cm_id (cw_db w) @ appended_id op"
  by (cases op)
    (auto simp: append_command_def claim_pending_def claimed_ids Let_def mark_applied_def mark_failed_def
       settle_command_def map_at_keys split: option.splits)

lemma command_step_inv:
  assumes "command_inv w" "set (appended_id op) \<inter> cm_id ` set (cw_db w) = {}"
  shows "command_inv (command_step op w)"
proof (cases op)
  case (Append i now run ty pl)
  then show ?thesis using append_inv [OF assms(1)] assms(2) by simp
next
  case (Claim now run ow)
  then show ?thesis using claim_inv [OF assms(1)] by simp
next
  case (Apply now i)
  then show ?thesis
    using settle_inv [OF assms(1), of _ i] by (auto simp: mark_applied_def split: prod.splits)
next
  case (Fail err i)
  then show ?thesis
    using settle_inv [OF assms(1), of _ i] by (auto simp: mark_failed_def split: prod.splits)
qed

lemma run_commands_inv:
  assumes "distinct (concat (map appended_id ops))"
  shows "command_inv (run_commands ops) \<and> map cm_id (cw_db (run_commands ops)) = concat (map appended_id ops)"
  using assms
proof (induction ops rule: rev_induct)
  case Nil
  then show ?case by (simp add: run_commands_def command_inv_def ids_with_def)
next
  case (snoc op ops)
  have step: "run_commands (ops @ [op]) = command_step op (run_commands ops)" by (simp add: run_commands_def)
  have ih: "command_inv (run_commands ops)" "map cm_id (cw_db (run_commands ops)) = concat (map appended_id ops)"
    using snoc by simp_all
  have "set (appended_id op) \<inter> set (map cm_id (cw_db (run_commands ops))) = {}"
    unfolding ih(2) using snoc.prems by auto
  then have "set (appended_id op) \<inter> cm_id ` set (cw_db (run_commands ops)) = {}" by simp
  then show ?case
    using command_step_inv [OF ih(1), of op] command_step_ids [of op "run_commands ops"] ih(2) step by simp
qed


definition demo_ops :: "nat command_op list" where
  "demo_ops = [Append 1 0 7 ''pause'' None, Append 2 1 7 ''resume'' None, Claim 2 7 ''w1'', Claim 3 7 ''w2'',
     Apply 4 1, Apply 5 1, Fail ''x'' 1, Fail ''y'' 2]"


end
