(* ===== verification/Leases.thy ===== *)
theory Leases
  imports Prelude
begin

text \<open>
  Run leases (\<open>agents/workflow/repository.py\<close>, \<open>LeaseStore\<close>): one row per run with an owner, a
  version and an expiry. The table is the list of its rows. A worker takes a lease over
  unconditionally; renewing and releasing are refused to anyone but the owner.
\<close>

section \<open>The store\<close>

record run_lease =
  le_id :: uuid
  le_run :: uuid
  le_owner :: string
  le_version :: int
  le_acquired :: timestamp
  le_expires :: timestamp

abbreviation find_lease :: "uuid \<Rightarrow> run_lease list \<Rightarrow> run_lease option" where
  "find_lease run \<equiv> List.find (\<lambda>l. le_run l = run)"

definition expiry :: "timestamp \<Rightarrow> int \<Rightarrow> timestamp" where
  "expiry now ttl = now + seconds (max 0 ttl)"

definition acquire_lease ::
  "uuid \<Rightarrow> timestamp \<Rightarrow> uuid \<Rightarrow> string \<Rightarrow> int \<Rightarrow> run_lease list \<Rightarrow> run_lease list" where
  "acquire_lease new_id now run owner ttl db =
     (case find_lease run db of
        None \<Rightarrow> db @ [\<lparr>le_id = new_id, le_run = run, le_owner = owner, le_version = 1, le_acquired = now, le_expires = expiry now ttl\<rparr>]
      | Some _ \<Rightarrow> map_at le_run run (\<lambda>l. l\<lparr>le_owner := owner, le_version := le_version l + 1,
                     le_acquired := now, le_expires := expiry now ttl\<rparr>) db)"

definition renew_lease ::
  "timestamp \<Rightarrow> uuid \<Rightarrow> string \<Rightarrow> int \<Rightarrow> run_lease list \<Rightarrow> bool \<times> run_lease list" where
  "renew_lease now run owner ttl db =
     (case find_lease run db of
        None \<Rightarrow> (False, db)
      | Some l \<Rightarrow> if le_owner l \<noteq> owner then (False, db)
          else (True, map_at le_run run (\<lambda>l. l\<lparr>le_expires := expiry now ttl, le_version := le_version l + 1\<rparr>) db))"

definition release_lease :: "uuid \<Rightarrow> string \<Rightarrow> run_lease list \<Rightarrow> bool \<times> run_lease list" where
  "release_lease run owner db =
     (case find_lease run db of
        None \<Rightarrow> (False, db)
      | Some l \<Rightarrow> if le_owner l \<noteq> owner then (False, db) else (True, filter (\<lambda>l. le_run l \<noteq> run) db))"

definition is_expired :: "timestamp \<Rightarrow> run_lease \<Rightarrow> bool" where
  "is_expired now l \<longleftrightarrow> now \<ge> le_expires l"

text \<open>\<open>_has_live_lease\<close> of the queue; a failing query counts as no lease.\<close>

definition has_live_lease :: "timestamp \<Rightarrow> run_lease list option \<Rightarrow> uuid \<Rightarrow> bool" where
  "has_live_lease now db run =
     (case db of
        None \<Rightarrow> False
      | Some ls \<Rightarrow> (case find_lease run ls of None \<Rightarrow> False | Some l \<Rightarrow> now < le_expires l))"

section \<open>Operation sequences\<close>

datatype lease_op = Acquire uuid uuid string int | Renew uuid string int | Release uuid string

fun op_run :: "lease_op \<Rightarrow> uuid" where
  "op_run (Acquire _ r _ _) = r" | "op_run (Renew r _ _) = r" | "op_run (Release r _) = r"

fun op_owner :: "lease_op \<Rightarrow> string" where
  "op_owner (Acquire _ _ w _) = w" | "op_owner (Renew _ w _) = w" | "op_owner (Release _ w) = w"

fun lease_step :: "timestamp \<Rightarrow> lease_op \<Rightarrow> run_lease list \<Rightarrow> bool \<times> run_lease list" where
  "lease_step now (Acquire i run w ttl) db = (True, acquire_lease i now run w ttl db)"
| "lease_step now (Renew run w ttl) db = renew_lease now run w ttl db"
| "lease_step now (Release run w) db = release_lease run w db"

fun run_lease_ops :: "(timestamp \<times> lease_op) list \<Rightarrow> run_lease list \<Rightarrow> bool list \<times> run_lease list" where
  "run_lease_ops [] db = ([], db)"
| "run_lease_ops ((now, op) # ops) db =
     (let (ok, db1) = lease_step now op db; (oks, db2) = run_lease_ops ops db1 in (ok # oks, db2))"

definition lease_inv :: "run_lease list \<Rightarrow> bool" where
  "lease_inv db \<longleftrightarrow> distinct (map le_run db) \<and> list_all (\<lambda>l. le_version l \<ge> 1) db"

lemma find_lease_filter:
  "find_lease r (filter (\<lambda>l. le_run l \<noteq> run) db) = (if r = run then None else find_lease r db)"
  by (induction db) auto

lemma find_lease_append:
  "find_lease r (xs @ ys) = (case find_lease r xs of None \<Rightarrow> find_lease r ys | Some l \<Rightarrow> Some l)"
  by (induction xs) auto

text \<open>Operations on other runs leave a lease alone.\<close>

lemma lease_step_other: "op_run op \<noteq> run \<Longrightarrow> find_lease run (snd (lease_step now op db)) = find_lease run db"
  by (cases op)
    (auto simp: acquire_lease_def renew_lease_def release_lease_def find_lease_append find_lease_filter
       find_map_at option.map_ident split: option.splits)

lemma lease_step_inv: "lease_inv db \<Longrightarrow> lease_inv (snd (lease_step now op db))"
  by (cases op)
    (auto simp: lease_inv_def acquire_lease_def renew_lease_def release_lease_def map_at_keys distinct_map_filter
       list_all_iff set_map_at find_None_iff split: option.splits)

text \<open>The operations that respect the ownership of \<open>w\<close>: others only renew and release, and \<open>w\<close> does
  not release.\<close>

fun honours :: "uuid \<Rightarrow> string \<Rightarrow> lease_op \<Rightarrow> bool" where
  "honours run w (Acquire _ r v _) \<longleftrightarrow> r \<noteq> run \<or> v = w"
| "honours run w (Renew r v _) \<longleftrightarrow> True"
| "honours run w (Release r v) \<longleftrightarrow> r \<noteq> run \<or> v \<noteq> w"

definition own_ops :: "uuid \<Rightarrow> string \<Rightarrow> (timestamp \<times> lease_op) list \<Rightarrow> nat" where
  "own_ops run w ops = length (filter (\<lambda>(_, op). op_run op = run \<and> op_owner op = w) ops)"

text \<open>The answers to other workers' operations on the run.\<close>

definition refused_all :: "uuid \<Rightarrow> string \<Rightarrow> (timestamp \<times> lease_op) list \<Rightarrow> bool list \<Rightarrow> bool" where
  "refused_all run w ops oks \<longleftrightarrow>
     list_all2 (\<lambda>(_, op) ok. \<not> (op_run op = run \<and> op_owner op \<noteq> w \<and> ok)) ops oks"

lemma lease_step_owned:
  assumes "find_lease run db = Some l" "le_owner l = w" "honours run w op" "lease_step now op db = (ok, db')"
  shows "\<exists>l'. find_lease run db' = Some l' \<and> le_owner l' = w
      \<and> le_version l' = le_version l + (if op_run op = run \<and> op_owner op = w then 1 else 0)
      \<and> \<not> (op_run op = run \<and> op_owner op \<noteq> w \<and> ok)"
proof (cases "op_run op = run")
  case False
  then show ?thesis using lease_step_other [OF False, of now db] assms by auto
next
  case True
  then show ?thesis
    using assms by (cases op) (auto simp: acquire_lease_def renew_lease_def release_lease_def find_map_at)
qed



text \<open>A version is only comparable within one life of the row: after a release (or a recovery,
  which deletes the row) the numbering starts again at 1.\<close>

lemma version_restarts:
  assumes "find_lease run db = Some l" "le_owner l = w"
  shows "map_option le_version (find_lease run (acquire_lease i now run v ttl (snd (release_lease run w db)))) = Some 1"
  using assms by (simp add: release_lease_def acquire_lease_def find_lease_filter find_lease_append)

end
