(* ===== verification/Run_Queue.thy ===== *)
theory Run_Queue
  imports Leases
begin

text \<open>
  The run queue (\<open>agents/workflow/queue.py\<close>): the contract of \<open>RunQueue\<close> as an abstract queue
  (the waiting runs in order, and who holds a claimed run), the in-process queue, and the
  proof that it implements the contract. \<open>enqueue\<close> of the in-process queue has two critical
  sections with the lease query between them; each section is a step of its own.
\<close>

section \<open>The contract\<close>

record queue_spec =
  waiting :: "uuid list"
  held :: "uuid \<rightharpoonup> string"

definition spec_enqueue :: "bool \<Rightarrow> uuid \<Rightarrow> queue_spec \<Rightarrow> queue_spec" where
  "spec_enqueue live run q =
     (if run \<in> set (waiting q) \<or> held q run \<noteq> None \<or> live then q else q\<lparr>waiting := waiting q @ [run]\<rparr>)"

definition spec_dequeue :: "string \<Rightarrow> queue_spec \<Rightarrow> uuid option \<times> queue_spec" where
  "spec_dequeue owner q =
     (case waiting q of
        [] \<Rightarrow> (None, q)
      | r # rs \<Rightarrow> (Some r, \<lparr>waiting = rs, held = (held q)(r \<mapsto> owner)\<rparr>))"

definition spec_ack :: "uuid \<Rightarrow> string \<Rightarrow> queue_spec \<Rightarrow> bool \<times> queue_spec" where
  "spec_ack run owner q =
     (if held q run = Some owner then (True, q\<lparr>held := (held q)(run := None)\<rparr>) else (False, q))"

definition spec_requeue :: "uuid \<Rightarrow> queue_spec \<Rightarrow> queue_spec" where
  "spec_requeue run q =
     (if run \<in> set (waiting q) then q\<lparr>held := (held q)(run := None)\<rparr>
      else \<lparr>waiting = waiting q @ [run], held = (held q)(run := None)\<rparr>)"

definition spec_inv :: "queue_spec \<Rightarrow> bool" where
  "spec_inv q \<longleftrightarrow> distinct (waiting q) \<and> set (waiting q) \<inter> dom (held q) = {}"

lemma spec_ops_inv:
  assumes "spec_inv q"
  shows "spec_inv (spec_enqueue live run q)" "spec_inv (snd (spec_dequeue owner q))"
    "spec_inv (snd (spec_ack run owner q))" "spec_inv (spec_requeue run q)"
  using assms
  by (auto simp: spec_inv_def spec_enqueue_def spec_dequeue_def spec_ack_def spec_requeue_def
      split: list.splits if_splits)

section \<open>Operation sequences\<close>

datatype queue_op = Enq timestamp "run_lease list option" uuid | Deq string | Ack uuid string | Req timestamp uuid

datatype queue_out = Silent | Delivered "uuid option" | Acked bool

fun queue_exec where
  "queue_exec enq deq ack req (Enq now leases r) q = (Silent, enq now leases r q)"
| "queue_exec enq deq ack req (Deq w) q = (let (out, q') = deq w q in (Delivered out, q'))"
| "queue_exec enq deq ack req (Ack r w) q = (let (b, q') = ack r w q in (Acked b, q'))"
| "queue_exec enq deq ack req (Req now r) q = (Silent, req now r q)"

fun queue_run where
  "queue_run enq deq ack req [] q = ([], q)"
| "queue_run enq deq ack req (op # ops) q =
     (let (out, q1) = queue_exec enq deq ack req op q; (outs, q2) = queue_run enq deq ack req ops q1 in (out # outs, q2))"

abbreviation spec_run :: "queue_op list \<Rightarrow> queue_spec \<Rightarrow> queue_out list \<times> queue_spec" where
  "spec_run \<equiv> queue_run (\<lambda>now leases r. spec_enqueue (has_live_lease now leases r) r) spec_dequeue spec_ack (\<lambda>now. spec_requeue)"

section \<open>The interface\<close>

text \<open>A transport with its abstraction and invariant, and what its clients rely on.\<close>

locale run_queue =
  fixes abst :: "'q \<Rightarrow> queue_spec" and ok :: "'q \<Rightarrow> bool"
    and enq :: "timestamp \<Rightarrow> run_lease list option \<Rightarrow> uuid \<Rightarrow> 'q \<Rightarrow> 'q"
    and deq :: "string \<Rightarrow> 'q \<Rightarrow> uuid option \<times> 'q"
    and ack :: "uuid \<Rightarrow> string \<Rightarrow> 'q \<Rightarrow> bool \<times> 'q"
    and req :: "timestamp \<Rightarrow> uuid \<Rightarrow> 'q \<Rightarrow> 'q"
  assumes ok_spec: "ok q \<Longrightarrow> spec_inv (abst q)"
    and enq_ok: "ok q \<Longrightarrow> ok (enq now leases r q) \<and> abst (enq now leases r q) = spec_enqueue (has_live_lease now leases r) r (abst q)"
    and deq_ok: "ok q \<Longrightarrow> deq w q = (out, q') \<Longrightarrow> ok q' \<and> (out, abst q') = spec_dequeue w (abst q)"
    and ack_ok: "ok q \<Longrightarrow> ack r w q = (b, q') \<Longrightarrow> ok q' \<and> (b, abst q') = spec_ack r w (abst q)"
    and req_ok: "ok q \<Longrightarrow> ok (req now r q) \<and> abst (req now r q) = spec_requeue r (abst q)"
begin

text \<open>A requeued run waits, whoever held it, and only it moves.\<close>

lemma requeued_waits:
  assumes "ok q"
  shows "r \<in> set (waiting (abst (req now r q)))" "held (abst (req now r q)) r = None"
    "set (waiting (abst (req now r q))) = insert r (set (waiting (abst q)))"
  using req_ok [OF assms, of now r] by (auto simp: spec_requeue_def)

text \<open>Requeuing a list of runs, as a recovery pass does.\<close>

lemma requeue_all:
  assumes "ok q"
  shows "ok (foldl (\<lambda>q r. req now r q) q rs)
    \<and> set (waiting (abst (foldl (\<lambda>q r. req now r q) q rs))) = set rs \<union> set (waiting (abst q))"
  using assms
proof (induction rs arbitrary: q)
  case (Cons r rs)
  then show ?case using Cons.IH [of "req now r q"] req_ok [where q = q and r = r and now = now] requeued_waits(3) [where q = q and r = r and now = now] by auto
qed simp

text \<open>Any sequence of operations answers as the contract does.\<close>

lemma queue_run_refines:
  assumes "ok q" "queue_run enq deq ack req ops q = (outs, q')"
  shows "ok q' \<and> spec_run ops (abst q) = (outs, abst q')"
  using assms
proof (induction ops arbitrary: q outs)
  case (Cons op ops)
  obtain o1 q1 where s: "queue_exec enq deq ack req op q = (o1, q1)" by fastforce
  obtain os q2 where r: "queue_run enq deq ack req ops q1 = (os, q2)" by fastforce
  have "ok q1 \<and> queue_exec (\<lambda>now leases r. spec_enqueue (has_live_lease now leases r) r) spec_dequeue spec_ack
      (\<lambda>now. spec_requeue) op (abst q) = (o1, abst q1)"
  proof (cases op)
    case (Enq now leases r)
    then show ?thesis using s enq_ok [OF Cons.prems(1), of now leases r] by auto
  next
    case (Deq w)
    obtain out q0 where "deq w q = (out, q0)" by fastforce
    then show ?thesis using s Deq deq_ok [OF Cons.prems(1), of w out q0] by (auto split: prod.splits)
  next
    case (Ack r w)
    obtain b q0 where "ack r w q = (b, q0)" by fastforce
    then show ?thesis using s Ack ack_ok [OF Cons.prems(1), of r w b q0] by (auto split: prod.splits)
  next
    case (Req now r)
    then show ?thesis using s req_ok [OF Cons.prems(1), of now r] by auto
  qed
  then show ?case using Cons.IH [of q1 os] r s Cons.prems(2) by (auto simp: split_beta)
qed simp

end

section \<open>The in-process queue\<close>

text \<open>An ordered dictionary of waiting runs with their enqueue times, and a dictionary of owners.\<close>

record memory_queue =
  q_pending :: "(uuid, timestamp) dict"
  q_in_flight :: "(uuid, string) dict"

definition empty_queue :: memory_queue where
  "empty_queue = \<lparr>q_pending = [], q_in_flight = []\<rparr>"

definition queued :: "uuid \<Rightarrow> memory_queue \<Rightarrow> bool" where
  "queued run q \<longleftrightarrow> run \<in> set (dict_keys (q_pending q)) \<or> run \<in> set (dict_keys (q_in_flight q))"

text \<open>The second section of \<open>enqueue\<close>; it looks again before it stores.\<close>

definition mem_enqueue_commit :: "timestamp \<Rightarrow> uuid \<Rightarrow> memory_queue \<Rightarrow> memory_queue" where
  "mem_enqueue_commit now run q =
     (if queued run q then q else q\<lparr>q_pending := dict_set run now (q_pending q)\<rparr>)"

definition mem_enqueue :: "timestamp \<Rightarrow> run_lease list option \<Rightarrow> uuid \<Rightarrow> memory_queue \<Rightarrow> memory_queue" where
  "mem_enqueue now leases run q =
     (if queued run q then q else if has_live_lease now leases run then q else mem_enqueue_commit now run q)"

definition mem_pending_ids :: "memory_queue \<Rightarrow> uuid list" where
  "mem_pending_ids q = dict_keys (q_pending q)"

definition mem_dequeue :: "string \<Rightarrow> memory_queue \<Rightarrow> uuid option \<times> memory_queue" where
  "mem_dequeue owner q =
     (case q_pending q of
        [] \<Rightarrow> (None, q)
      | (run, _) # rest \<Rightarrow> (Some run, \<lparr>q_pending = rest, q_in_flight = dict_set run owner (q_in_flight q)\<rparr>))"

definition mem_ack :: "uuid \<Rightarrow> string \<Rightarrow> memory_queue \<Rightarrow> bool \<times> memory_queue" where
  "mem_ack run owner q =
     (if dict_get (q_in_flight q) run = Some owner
      then (True, q\<lparr>q_in_flight := dict_pop run (q_in_flight q)\<rparr>) else (False, q))"

definition mem_requeue :: "timestamp \<Rightarrow> uuid \<Rightarrow> memory_queue \<Rightarrow> memory_queue" where
  "mem_requeue now run q =
     (let q1 = q\<lparr>q_in_flight := dict_pop run (q_in_flight q)\<rparr>
      in if run \<in> set (dict_keys (q_pending q1)) then q1
         else q1\<lparr>q_pending := dict_set run now (q_pending q1)\<rparr>)"

definition mem_reclaim_stale :: "memory_queue \<Rightarrow> nat" where
  "mem_reclaim_stale q = 0"

section \<open>It implements the contract\<close>

definition mem_abst :: "memory_queue \<Rightarrow> queue_spec" where
  "mem_abst q = \<lparr>waiting = dict_keys (q_pending q), held = dict_get (q_in_flight q)\<rparr>"

definition mem_ok :: "memory_queue \<Rightarrow> bool" where
  "mem_ok q \<longleftrightarrow> distinct (dict_keys (q_pending q))
     \<and> set (dict_keys (q_pending q)) \<inter> set (dict_keys (q_in_flight q)) = {}"

lemma dict_get_None: "dict_get d k = None \<longleftrightarrow> k \<notin> set (dict_keys d)"
  by (auto simp: map_of_eq_None_iff)

lemma mem_ok_spec: "mem_ok q \<longleftrightarrow> spec_inv (mem_abst q)"
  by (simp add: mem_ok_def spec_inv_def mem_abst_def dom_map_of_conv_image_fst)

lemma mem_enqueue_abst:
  "mem_abst (mem_enqueue now leases r q) = spec_enqueue (has_live_lease now leases r) r (mem_abst q)"
  by (auto simp: mem_enqueue_def mem_enqueue_commit_def queued_def spec_enqueue_def mem_abst_def dict_get_None
      dict_set_new simp del: set_map)

lemma mem_dequeue_abst:
  "mem_dequeue w q = (out, q') \<Longrightarrow> (out, mem_abst q') = spec_dequeue w (mem_abst q)"
  by (auto simp: mem_dequeue_def spec_dequeue_def mem_abst_def update_conv split: list.splits)

lemma mem_ack_abst: "mem_ack r w q = (b, q') \<Longrightarrow> (b, mem_abst q') = spec_ack r w (mem_abst q)"
  by (auto simp: mem_ack_def spec_ack_def mem_abst_def delete_conv split: if_splits)

lemma mem_requeue_abst: "mem_abst (mem_requeue now r q) = spec_requeue r (mem_abst q)"
  by (auto simp: mem_requeue_def spec_requeue_def mem_abst_def delete_conv dict_set_new Let_def simp del: set_map)

interpretation memq: run_queue mem_abst mem_ok mem_enqueue mem_dequeue mem_ack mem_requeue
proof
  fix q q' :: memory_queue and out b now leases r w
  show "mem_ok q \<Longrightarrow> spec_inv (mem_abst q)" by (simp add: mem_ok_spec)
  show "mem_ok q \<Longrightarrow> mem_ok (mem_enqueue now leases r q)
      \<and> mem_abst (mem_enqueue now leases r q) = spec_enqueue (has_live_lease now leases r) r (mem_abst q)"
    by (simp add: mem_ok_spec mem_enqueue_abst spec_ops_inv)
  show "mem_ok q \<Longrightarrow> mem_dequeue w q = (out, q') \<Longrightarrow> mem_ok q' \<and> (out, mem_abst q') = spec_dequeue w (mem_abst q)"
    using mem_dequeue_abst [of w q out q'] spec_ops_inv(2) [of "mem_abst q" w] by (simp add: mem_ok_spec) (metis snd_conv)
  show "mem_ok q \<Longrightarrow> mem_ack r w q = (b, q') \<Longrightarrow> mem_ok q' \<and> (b, mem_abst q') = spec_ack r w (mem_abst q)"
    using mem_ack_abst [of r w q b q'] spec_ops_inv(3) [of "mem_abst q" r w] by (simp add: mem_ok_spec) (metis snd_conv)
  show "mem_ok q \<Longrightarrow> mem_ok (mem_requeue now r q) \<and> mem_abst (mem_requeue now r q) = spec_requeue r (mem_abst q)"
    by (simp add: mem_ok_spec mem_requeue_abst spec_ops_inv)
qed

section \<open>What the queue promises\<close>

definition mem_run :: "queue_op list \<Rightarrow> memory_queue \<Rightarrow> queue_out list \<times> memory_queue" where
  "mem_run = queue_run mem_enqueue mem_dequeue mem_ack mem_requeue"



text \<open>How often a run was delivered, and how often it was given back (acknowledged by its holder,
  or requeued).\<close>

definition deliveries :: "uuid \<Rightarrow> queue_out list \<Rightarrow> nat" where
  "deliveries r outs = count_list outs (Delivered (Some r))"

fun returned :: "uuid \<Rightarrow> queue_op \<Rightarrow> queue_out \<Rightarrow> bool" where
  "returned r (Ack i w) out \<longleftrightarrow> i = r \<and> out = Acked True"
| "returned r (Req now i) out \<longleftrightarrow> i = r"
| "returned r _ out \<longleftrightarrow> False"

definition returns :: "uuid \<Rightarrow> queue_op list \<Rightarrow> queue_out list \<Rightarrow> nat" where
  "returns r ops outs = length (filter (\<lambda>(op, out). returned r op out) (zip ops outs))"

lemma spec_exec_deliveries:
  assumes "spec_inv q" "queue_exec (\<lambda>now leases r. spec_enqueue (has_live_lease now leases r) r) spec_dequeue spec_ack
      (\<lambda>now. spec_requeue) op q = (out, q')"
  shows "spec_inv q'" "(if out = Delivered (Some r) then 1 else 0) + (if held q r = None then 0 else 1::nat)
     \<le> (if returned r op out then 1 else 0) + (if held q' r = None then 0 else 1)"
  using assms spec_ops_inv [OF assms(1)]
  by (cases op; auto simp: spec_inv_def spec_enqueue_def spec_dequeue_def spec_ack_def spec_requeue_def
      split: list.splits if_splits)+

lemma spec_run_deliveries:
  "spec_inv q \<Longrightarrow> spec_run ops q = (outs, q') \<Longrightarrow>
    deliveries r outs + (if held q r = None then 0 else 1) \<le> returns r ops outs + (if held q' r = None then 0 else 1)"
proof (induction ops arbitrary: q outs)
  case Nil
  then show ?case by (simp add: deliveries_def returns_def)
next
  case (Cons op ops)
  obtain o1 q1 where s: "queue_exec (\<lambda>now leases r. spec_enqueue (has_live_lease now leases r) r) spec_dequeue spec_ack
      (\<lambda>now. spec_requeue) op q = (o1, q1)" by fastforce
  obtain os where r: "spec_run ops q1 = (os, q')" using s Cons.prems(2) by (auto split: prod.splits)
  have "deliveries r os + (if held q1 r = None then 0 else 1) \<le> returns r ops os + (if held q' r = None then 0 else 1)"
    by (rule Cons.IH [OF spec_exec_deliveries(1) [OF Cons.prems(1) s] r])
  moreover have "outs = o1 # os" using Cons.prems(2) s r by simp
  then have "deliveries r outs = (if o1 = Delivered (Some r) then 1 else 0) + deliveries r os"
    "returns r (op # ops) outs = (if returned r op o1 then 1 else 0) + returns r ops os"
    by (simp_all add: deliveries_def returns_def)
  ultimately show ?case
    using spec_exec_deliveries(2) [OF Cons.prems(1) s, of r] by linarith
qed



end
