(* ===== verification/Run_Events.thy ===== *)
theory Run_Events
  imports Prelude "HOL-Library.Sublist"
begin

text \<open>
  The durable event log of a run (\<open>agents/events.py\<close>) and the stream that replays and tails it
  (\<open>api/agent_runs.py\<close>, \<open>tail_run_events\<close>). A row carries a per-run sequence that is read as
  \<open>max + 1\<close> and inserted later, under a unique index; what other transactions commit between
  the read and the insert is an argument.
\<close>

section \<open>The store\<close>

record 'd run_event =
  ev_run :: uuid
  ev_seq :: nat
  ev_type :: string
  ev_data :: 'd

datatype event_error = IntegrityError

definition events_of :: "uuid \<Rightarrow> 'd run_event list \<Rightarrow> 'd run_event list" where
  "events_of run log = filter (\<lambda>e. ev_run e = run) log"

text \<open>\<open>coalesce(max(sequence), 0)\<close>\<close>

definition max_sequence :: "uuid \<Rightarrow> 'd run_event list \<Rightarrow> nat" where
  "max_sequence run log = foldl max 0 (map ev_seq (events_of run log))"

text \<open>One flush of new rows under the unique index on run and sequence.\<close>

definition insert_events :: "'d run_event list \<Rightarrow> 'd run_event list \<Rightarrow> event_error + 'd run_event list" where
  "insert_events rows log =
     (let key = (\<lambda>e. (ev_run e, ev_seq e))
      in if list_ex (\<lambda>e. key e \<in> set (map key log)) rows \<or> \<not> distinct (map key rows)
         then Inl IntegrityError else Inr (log @ rows))"

text \<open>The attempts of \<open>append\<close>: \<open>others n\<close> is what commits between read and insert when \<open>n\<close>
  attempts are left after this one.\<close>

fun append_attempts ::
  "nat \<Rightarrow> (nat \<Rightarrow> 'd run_event list \<Rightarrow> 'd run_event list) \<Rightarrow> uuid \<Rightarrow> string \<Rightarrow> 'd \<Rightarrow> 'd run_event list
    \<Rightarrow> (event_error + 'd run_event) \<times> 'd run_event list" where
  "append_attempts 0 others run ty d log = (Inl IntegrityError, log)"
| "append_attempts (Suc n) others run ty d log =
     (let e = \<lparr>ev_run = run, ev_seq = max_sequence run log + 1, ev_type = ty, ev_data = d\<rparr>;
          log' = others n log
      in case insert_events [e] log' of
           Inl _ \<Rightarrow> append_attempts n others run ty d log'
         | Inr l \<Rightarrow> (Inr e, l))"

definition MAX_SEQUENCE_ATTEMPTS :: nat where
  "MAX_SEQUENCE_ATTEMPTS = 3"

definition append_event ::
  "(nat \<Rightarrow> 'd run_event list \<Rightarrow> 'd run_event list) \<Rightarrow> uuid \<Rightarrow> string \<Rightarrow> 'd \<Rightarrow> 'd run_event list
    \<Rightarrow> (event_error + 'd run_event) \<times> 'd run_event list" where
  "append_event = append_attempts MAX_SEQUENCE_ATTEMPTS"

definition batch_rows :: "uuid \<Rightarrow> nat \<Rightarrow> (string \<times> 'd) list \<Rightarrow> 'd run_event list" where
  "batch_rows run start events =
     map (\<lambda>(i, ty, d). \<lparr>ev_run = run, ev_seq = start + i + 1, ev_type = ty, ev_data = d\<rparr>)
       (zip [0..<length events] events)"

definition append_many ::
  "('d run_event list \<Rightarrow> 'd run_event list) \<Rightarrow> uuid \<Rightarrow> (string \<times> 'd) list \<Rightarrow> 'd run_event list
    \<Rightarrow> (event_error + 'd run_event list) \<times> 'd run_event list" where
  "append_many others run events log =
     (if events = [] then (Inr [], log)
      else (let rows = batch_rows run (max_sequence run log) events; log' = others log
            in case insert_events rows log' of Inl e \<Rightarrow> (Inl e, log') | Inr l \<Rightarrow> (Inr rows, l)))"

definition replay :: "uuid \<Rightarrow> nat \<Rightarrow> 'd run_event list \<Rightarrow> 'd run_event list" where
  "replay run after log = sort_key ev_seq (filter (\<lambda>e. ev_run e = run \<and> ev_seq e > after) log)"

section \<open>The stream\<close>

text \<open>What one turn of the polling loop meets: whether the client has gone, the log its replay
  reads, and the answer of the status query that follows it.\<close>

record 'd tail_turn =
  tt_disconnected :: bool
  tt_log :: "'d run_event list"
  tt_terminal :: bool

text \<open>The frames sent, and whether the stream has ended after these turns.\<close>

fun tail_run_events ::
  "string set \<Rightarrow> uuid \<Rightarrow> bool \<Rightarrow> nat \<Rightarrow> 'd tail_turn list \<Rightarrow> 'd run_event list \<times> bool" where
  "tail_run_events terminal_types run already_terminal last_seq [] = ([], False)"
| "tail_run_events terminal_types run already_terminal last_seq (t # ts) =
     (if tt_disconnected t then ([], True)
      else (let events = replay run last_seq (tt_log t);
                last' = (if events = [] then last_seq else ev_seq (last events));
                terminal_sent = list_ex (\<lambda>e. ev_type e \<in> terminal_types) events
            in if terminal_sent \<or> (already_terminal \<and> events = []) \<or> (tt_terminal t \<and> events = [])
               then (events, True)
               else (let (more, ended) = tail_run_events terminal_types run already_terminal last' ts
                     in (events @ more, ended))))"

section \<open>Gapless logs\<close>

definition gapless :: "'d run_event list \<Rightarrow> bool" where
  "gapless log \<longleftrightarrow> (\<forall>run. map ev_seq (events_of run log) = [1..<length (events_of run log) + 1])"

lemma events_of_append [simp]: "events_of run (xs @ ys) = events_of run xs @ events_of run ys"
  by (simp add: events_of_def)

lemma gapless_nth:
  assumes "gapless log" "i < length (events_of run log)"
  shows "ev_seq (events_of run log ! i) = i + 1"
proof -
  have "map ev_seq (events_of run log) ! i = [1..<length (events_of run log) + 1] ! i"
    using assms(1) by (simp only: gapless_def)
  then show ?thesis using assms(2) by (simp add: nth_upt del: upt_Suc)
qed

lemma max_sequence_gapless:
  assumes "gapless log"
  shows "max_sequence run log = length (events_of run log)"
proof -
  have "foldl max (0::nat) [1..<n + 1] = n" for n
    by (induction n) auto
  then show ?thesis using assms by (simp add: max_sequence_def gapless_def del: upt_Suc)
qed

lemma key_used:
  assumes "gapless log"
  shows "(run, s) \<in> (\<lambda>e. (ev_run e, ev_seq e)) ` set log \<longleftrightarrow> 1 \<le> s \<and> s \<le> length (events_of run log)"
proof -
  have "(run, s) \<in> (\<lambda>e. (ev_run e, ev_seq e)) ` set log \<longleftrightarrow> s \<in> set (map ev_seq (events_of run log))"
    by (auto simp: events_of_def)
  also have "\<dots> \<longleftrightarrow> 1 \<le> s \<and> s \<le> length (events_of run log)"
    using assms by (simp add: gapless_def del: set_map upt_Suc) auto
  finally show ?thesis .
qed

lemma events_of_batch:
  "events_of run (batch_rows r n es) = (if run = r then batch_rows r n es else [])"
  by (auto simp: events_of_def batch_rows_def filter_empty_conv intro!: filter_True)

lemma batch_rows_seqs: "map ev_seq (batch_rows r n es) = [n + 1..<n + length es + 1]"
  by (rule nth_equalityI) (auto simp: batch_rows_def split_beta simp del: upt_Suc)

lemma length_batch_rows [simp]: "length (batch_rows r n es) = length es"
  by (simp add: batch_rows_def)

lemma batch_keys: "map (\<lambda>e. (ev_run e, ev_seq e)) (batch_rows r n es) = map (Pair r) [n + 1..<n + length es + 1]"
  by (rule nth_equalityI) (auto simp: batch_rows_def split_beta simp del: upt_Suc)

text \<open>A batch numbered from \<open>n\<close> is refused exactly when the run has meanwhile gone past \<open>n\<close>.\<close>

lemma insert_batch:
  assumes "gapless log" "n \<le> length (events_of run log)" "es \<noteq> []"
  shows "insert_events (batch_rows run n es) log =
    (if n = length (events_of run log) then Inr (log @ batch_rows run n es) else Inl IntegrityError)"
proof -
  have d: "distinct (map (\<lambda>e. (ev_run e, ev_seq e)) (batch_rows run n es))"
    by (simp add: batch_keys distinct_map inj_on_def)
  have "list_ex (\<lambda>e. (ev_run e, ev_seq e) \<in> set (map (\<lambda>e. (ev_run e, ev_seq e)) log)) (batch_rows run n es)
     \<longleftrightarrow> (\<exists>k \<in> set (map (\<lambda>e. (ev_run e, ev_seq e)) (batch_rows run n es)). k \<in> (\<lambda>e. (ev_run e, ev_seq e)) ` set log)"
    by (simp add: list_ex_iff)
  also have "\<dots> \<longleftrightarrow> (\<exists>s \<in> {n + 1..<n + length es + 1}. 1 \<le> s \<and> s \<le> length (events_of run log))"
    unfolding batch_keys by (auto simp: key_used [OF assms(1)] simp del: upt_Suc)
  also have "\<dots> \<longleftrightarrow> n \<noteq> length (events_of run log)"
    using assms(2,3) by (auto simp: Suc_le_eq intro!: bexI [of _ "n + 1"])
  finally show ?thesis using d by (simp add: insert_events_def)
qed

lemma gapless_batch:
  assumes "gapless log" "n = length (events_of run log)"
  shows "gapless (log @ batch_rows run n es)"
proof -
  have "[Suc 0..<Suc n] @ [Suc n..<Suc (n + length es)] = [Suc 0..<Suc (n + length es)]"
    by (metis Suc_le_mono add_Suc le_add1 upt_add_eq_append zero_le plus_1_eq_Suc)
  then show ?thesis
    using assms by (simp add: gapless_def events_of_batch batch_rows_seqs del: upt_Suc)
qed

lemma single_batch:
  "batch_rows run n [(ty, d)] = [\<lparr>ev_run = run, ev_seq = n + 1, ev_type = ty, ev_data = d\<rparr>]"
  by (simp add: batch_rows_def)

text \<open>What other appenders may do: keep the log gapless and only add to it.\<close>

definition fair_others :: "('d run_event list \<Rightarrow> 'd run_event list) \<Rightarrow> bool" where
  "fair_others f \<longleftrightarrow> (\<forall>l. gapless l \<longrightarrow> gapless (f l) \<and> prefix l (f l))"

lemma fair_othersD: "fair_others f \<Longrightarrow> gapless l \<Longrightarrow> gapless (f l) \<and> prefix l (f l)"
  unfolding fair_others_def by blast

lemma prefix_events: "prefix l l' \<Longrightarrow> prefix (events_of run l) (events_of run l')"
  by (auto simp: prefix_def)

lemma append_attempts_ok:
  assumes "gapless log" "\<And>i. i < n \<Longrightarrow> fair_others (others i)" "append_attempts n others run ty d log = (r, log')"
  shows "gapless log' \<and> prefix log log'
    \<and> (\<forall>e. r = Inr e \<longrightarrow> log' \<noteq> [] \<and> last log' = e \<and> ev_seq e = length (events_of run log') \<and> ev_run e = run)
    \<and> ((\<forall>i < n. \<forall>l. events_of run (others i l) = events_of run l) \<longrightarrow> 0 < n \<longrightarrow> is_ok r)"
  using assms
proof (induction n arbitrary: log)
  case (Suc n)
  let ?k = "length (events_of run log)" and ?l = "others n log"
  have l: "gapless ?l" "prefix log ?l" using fair_othersD Suc.prems(1,2) by auto
  have le: "?k \<le> length (events_of run ?l)" by (rule prefix_length_le [OF prefix_events [OF l(2)]])
  have ins: "insert_events [\<lparr>ev_run = run, ev_seq = ?k + 1, ev_type = ty, ev_data = d\<rparr>] ?l =
      (if ?k = length (events_of run ?l) then Inr (?l @ batch_rows run ?k [(ty, d)]) else Inl IntegrityError)"
    using insert_batch [OF l(1) le, of "[(ty, d)]"] by (simp add: single_batch)
  show ?case
  proof (cases "?k = length (events_of run ?l)")
    case True
    then have "r = Inr \<lparr>ev_run = run, ev_seq = ?k + 1, ev_type = ty, ev_data = d\<rparr>" "log' = ?l @ batch_rows run ?k [(ty, d)]"
      using Suc.prems(3) ins by (simp_all add: max_sequence_gapless [OF Suc.prems(1)] Let_def)
    moreover have "gapless (?l @ batch_rows run ?k [(ty, d)])" by (rule gapless_batch [OF l(1) True])
    moreover have "length (events_of run (?l @ batch_rows run ?k [(ty, d)])) = ?k + 1"
      using True by (simp add: single_batch events_of_def)
    ultimately show ?thesis
      using l(2) by (simp add: single_batch)
  next
    case False
    then have "append_attempts n others run ty d ?l = (r, log')"
      using Suc.prems(3) ins by (simp add: max_sequence_gapless [OF Suc.prems(1)] Let_def)
    have fair: "fair_others (others i)" if "i < n" for i using Suc.prems(2) that by simp
    note ih = Suc.IH [OF l(1) fair \<open>append_attempts n others run ty d ?l = (r, log')\<close>]
    have ih': "gapless log'" "prefix ?l log'"
      "\<forall>e. r = Inr e \<longrightarrow> log' \<noteq> [] \<and> last log' = e \<and> ev_seq e = length (events_of run log') \<and> ev_run e = run"
      using ih by simp_all
    have "\<exists>i < Suc n. \<exists>l. events_of run (others i l) \<noteq> events_of run l"
      using False by (intro exI [of _ n] conjI exI [of _ log]) auto
    then show ?thesis
      using ih' prefix_order.trans [OF l(2) ih'(2)] by (intro conjI) (assumption | blast)+
  qed
qed auto

text \<open>C17: Appends keep a run's sequence gapless. Whatever other well-behaved appenders commit
  between the reads and the inserts of one \<open>append\<close>, the log afterwards extends the log
  before and numbers every run's events 1, 2, 3, ...; a successful append wrote its event
  last, with the next number of its run; and without a competing append to the same run it
  succeeds.\<close>

theorem append_keeps_sequence:
  assumes "gapless log" "\<And>i. fair_others (others i)" "append_event others run ty d log = (r, log')"
  shows "gapless log' \<and> prefix log log'
    \<and> (\<forall>e. r = Inr e \<longrightarrow> log' \<noteq> [] \<and> last log' = e \<and> ev_seq e = length (events_of run log') \<and> ev_run e = run)
    \<and> ((\<forall>i < MAX_SEQUENCE_ATTEMPTS. \<forall>l. events_of run (others i l) = events_of run l) \<longrightarrow> is_ok r)"
  using append_attempts_ok [OF assms(1), of MAX_SEQUENCE_ATTEMPTS others run ty d r log'] assms(2,3)
  by (simp add: append_event_def MAX_SEQUENCE_ATTEMPTS_def)

lemma fair_batch: "fair_others (\<lambda>l. snd (append_many (\<lambda>l. l) run es l))"
  unfolding fair_others_def
proof (intro allI impI)
  fix l :: "'a run_event list"
  assume l: "gapless l"
  show "gapless (snd (append_many (\<lambda>l. l) run es l)) \<and> prefix l (snd (append_many (\<lambda>l. l) run es l))"
    using insert_batch [OF l, of "length (events_of run l)" run es] gapless_batch [OF l refl, of run es] l
    by (simp add: append_many_def max_sequence_gapless Let_def)
qed

theorem append_keeps_sequence_witness:
  "\<exists>e log'. append_event (\<lambda>i l. if i = 0 then l else snd (append_many (\<lambda>l. l) 7 [(''x'', 0::nat)] l)) 7 ''y'' 1 []
       = (Inr e, log') \<and> ev_seq e = 3 \<and> gapless log'"
proof -
  let ?o = "\<lambda>i l. if i = (0::nat) then l else snd (append_many (\<lambda>l. l) 7 [(''x'', 0::nat)] l)"
  obtain r log' where r: "append_event ?o 7 ''y'' 1 [] = (r, log')" by (rule prod.exhaust)
  have fair: "fair_others (?o i)" for i
  proof (cases "i = 0")
    case False
    then show ?thesis using fair_batch [of 7 "[(''x'', 0::nat)]"] by simp
  qed (simp add: fair_others_def)
  have "gapless ([] :: nat run_event list)" by (simp add: gapless_def events_of_def)
  from append_keeps_sequence [OF this fair r]
  have g: "gapless log'" by blast
  have "append_event ?o 7 ''y'' 1 [] =
      (Inr \<lparr>ev_run = 7, ev_seq = 3, ev_type = ''y'', ev_data = 1\<rparr>, map (\<lambda>i. \<lparr>ev_run = 7, ev_seq = i, ev_type = ''x'', ev_data = 0\<rparr>) [1, 2]
         @ [\<lparr>ev_run = 7, ev_seq = 3, ev_type = ''y'', ev_data = 1\<rparr>])"
    by (simp add: append_event_def MAX_SEQUENCE_ATTEMPTS_def numeral_3_eq_3 append_many_def batch_rows_def
        insert_events_def max_sequence_def events_of_def Let_def)
  then show ?thesis using r g by auto
qed

section \<open>Replay\<close>

lemma sort_key_sorted: "sorted (map f xs) \<Longrightarrow> sort_key f xs = xs"
  by (simp add: sort_key_id_if_sorted)

lemma replay_gapless:
  assumes "gapless log"
  shows "replay run k log = drop k (events_of run log)"
proof -
  let ?es = "events_of run log"
  have seqs: "map ev_seq ?es = [1..<length ?es + 1]" using assms by (simp add: gapless_def del: upt_Suc)
  have "filter (\<lambda>e. ev_run e = run \<and> ev_seq e > k) log = filter (\<lambda>e. ev_seq e > k) ?es"
    by (simp add: events_of_def conj_commute)
  also have "\<dots> = filter (\<lambda>e. ev_seq e > k) (take k ?es @ drop k ?es)" by simp
  also have "\<dots> = drop k ?es"
  proof -
    have "filter (\<lambda>e. ev_seq e > k) (take k ?es) = []"
      by (auto simp: filter_empty_conv in_set_conv_nth gapless_nth [OF assms])
    moreover have "filter (\<lambda>e. ev_seq e > k) (drop k ?es) = drop k ?es"
      by (rule filter_True) (auto simp: in_set_conv_nth gapless_nth [OF assms])
    ultimately show ?thesis by (simp only: filter_append append_Nil)
  qed
  finally have f: "filter (\<lambda>e. ev_run e = run \<and> ev_seq e > k) log = drop k ?es" .
  have "map ev_seq (drop k ?es) = drop k [1..<length ?es + 1]" by (simp only: drop_map [symmetric] seqs)
  then have "sorted (map ev_seq (drop k ?es))" by (simp del: upt_Suc)
  then show ?thesis by (simp add: replay_def f sort_key_sorted)
qed

lemma replay_last:
  assumes "gapless log" "replay run k log \<noteq> []"
  shows "ev_seq (last (replay run k log)) = length (events_of run log)"
proof -
  have "k < length (events_of run log)" using assms by (simp add: replay_gapless)
  then show ?thesis
    using gapless_nth [OF assms(1), of "length (events_of run log) - 1" run]
    by (simp add: replay_gapless [OF assms(1)] last_conv_nth)
qed

text \<open>The logs a stream reads: gapless, each extending the one before.\<close>

fun growing :: "'d run_event list \<Rightarrow> 'd tail_turn list \<Rightarrow> bool" where
  "growing log [] \<longleftrightarrow> True"
| "growing log (t # ts) \<longleftrightarrow> gapless (tt_log t) \<and> prefix log (tt_log t) \<and> growing (tt_log t) ts"

lemma tail_frames:
  assumes "gapless log" "growing log ts" "k = length (events_of run log)"
    "tail_run_events tys run al k ts = (frames, ended)"
  shows "\<exists>log' \<in> insert log (tt_log ` set ts). frames = replay run k log'"
  using assms
proof (induction ts arbitrary: log k frames ended)
  case Nil
  then show ?case by (simp add: replay_gapless)
next
  case (Cons t ts)
  let ?l = "tt_log t" and ?ev = "replay run k (tt_log t)"
  have l: "gapless ?l" "prefix log ?l" "growing ?l ts" using Cons.prems(2) by auto
  have ev: "?ev = drop k (events_of run ?l)" by (rule replay_gapless [OF l(1)])
  obtain zs where zs: "events_of run ?l = events_of run log @ zs"
    using prefix_events [OF l(2)] by (auto simp: prefix_def)
  have last: "(if ?ev = [] then k else ev_seq (last ?ev)) = length (events_of run ?l)"
    using replay_last [OF l(1), of run k] ev zs Cons.prems(3) by auto
  consider (gone) "tt_disconnected t" | (ends) "frames = ?ev"
    | (on) more en where "tail_run_events tys run al (length (events_of run ?l)) ts = (more, en)" "frames = ?ev @ more"
    using Cons.prems(4) last by (auto simp: Let_def split: if_splits prod.splits)
  then show ?case
  proof cases
    case gone
    then have "frames = replay run k log" using Cons.prems(1,3,4) by (simp add: replay_gapless)
    then show ?thesis by blast
  next
    case (on more en)
    obtain log' where log': "log' \<in> insert ?l (tt_log ` set ts)" "more = replay run (length (events_of run ?l)) log'"
      using Cons.IH [OF l(1,3) refl on(1)] by blast
    have "gapless log' \<and> prefix ?l log'"
    proof -
      have "growing a us \<Longrightarrow> gapless a \<Longrightarrow> b \<in> insert a (tt_log ` set us) \<Longrightarrow> gapless b \<and> prefix a b" for a b and us :: "'a tail_turn list"
        by (induction us arbitrary: a) (auto intro: prefix_order.trans)
      then show ?thesis using l(1,3) log'(1) by blast
    qed
    then obtain ys where g: "gapless log'" "events_of run log' = events_of run ?l @ ys"
      using prefix_events [of ?l log' run] by (auto simp: prefix_def)
    have "frames = replay run k log'"
      using on(2) log'(2) g zs Cons.prems(3) by (simp add: replay_gapless l(1))
    then show ?thesis using log'(1) by auto
  qed auto
qed

text \<open>A stream sends each event once, in order. A client that resumes from the number of events
  it has seen gets, however the polls fall and however the stream ends, exactly the run's
  events after that number up to some log the stream read, in order, each once: nothing is
  skipped, repeated or reordered.\<close>

theorem tail_sends_each_event_once:
  assumes "gapless log" "growing log ts" "cursor = length (events_of run log)"
    "tail_run_events terminal_types run already cursor ts = (frames, ended)"
  shows "\<exists>log' \<in> insert log (tt_log ` set ts). events_of run log @ frames = events_of run log'"
proof -
  obtain log' where log': "log' \<in> insert log (tt_log ` set ts)" "frames = replay run cursor log'"
    using tail_frames [OF assms] by blast
  have "growing a us \<Longrightarrow> gapless a \<Longrightarrow> b \<in> insert a (tt_log ` set us) \<Longrightarrow> gapless b \<and> prefix a b" for a b and us :: "'a tail_turn list"
    by (induction us arbitrary: a) (auto intro: prefix_order.trans)
  then have "gapless log' \<and> prefix log log'" using assms(1,2) log'(1) by blast
  then have "events_of run log @ frames = events_of run log'"
    using prefix_events [of log log' run] assms(3) log'(2) by (auto simp: prefix_def replay_gapless)
  then show ?thesis using log'(1) by blast
qed

definition demo_log :: "nat \<Rightarrow> nat run_event list" where
  "demo_log n = map (\<lambda>i. \<lparr>ev_run = 7, ev_seq = i, ev_type = ''delta'', ev_data = i\<rparr>) [1..<n + 1]"

definition demo_turn :: "nat \<Rightarrow> bool \<Rightarrow> nat tail_turn" where
  "demo_turn n b = \<lparr>tt_disconnected = False, tt_log = demo_log n, tt_terminal = b\<rparr>"

lemma gapless_demo: "gapless (demo_log n)"
  by (auto simp: gapless_def demo_log_def events_of_def comp_def filter_map)

lemma demo_prefix: "m \<le> n \<Longrightarrow> prefix (demo_log m) (demo_log n)"
  unfolding demo_log_def by (intro map_mono_prefix prefixI [of _ _ "[m + 1..<n + 1]"]) (metis add_le_mono1 le_add2 upt_add_eq_append le_add_diff_inverse)

theorem tail_sends_each_event_once_witness:
  "tail_run_events {''done''} 7 False 1 [demo_turn 2 False, demo_turn 4 True] = (tl (demo_log 4), False)
   \<and> events_of 7 (demo_log 1) @ tl (demo_log 4) = events_of 7 (demo_log 4)"
proof -
  have r: "tail_run_events {''done''} 7 False 1 [demo_turn 2 False, demo_turn 4 True] = (tl (demo_log 4), False)"
    by (simp add: demo_turn_def demo_log_def replay_def upt_rec)
  have "growing (demo_log 1) [demo_turn 2 False, demo_turn 4 True]"
    by (simp add: demo_turn_def gapless_demo demo_prefix)
  moreover have "1 = length (events_of 7 (demo_log 1))" by (simp add: demo_log_def events_of_def)
  ultimately obtain log' where log': "log' \<in> {demo_log 1, demo_log 2, demo_log 4}"
      "events_of 7 (demo_log 1) @ tl (demo_log 4) = events_of 7 log'"
    using tail_sends_each_event_once [OF gapless_demo _ _ r] by (auto simp: demo_turn_def)
  have len: "length (events_of 7 (demo_log n)) = n" for n by (simp add: demo_log_def events_of_def comp_def filter_map)
  have "length (events_of 7 log') = 4"
    using arg_cong [OF log'(2), of length] len [of 1] by (simp add: demo_log_def)
  then show ?thesis using log' r len by auto
qed

text \<open>A stream can end before the last events. The log is read before the run's status: when
  the worker commits the last events and then the final status between the two queries of
  one turn, the stream ends although events after its cursor are in the log.\<close>

theorem tail_can_miss_last_events:
  "\<exists>log_now frames. tail_run_events {''run.completed''} 7 False 1 [demo_turn 1 True] = (frames, True)
     \<and> prefix (tt_log (demo_turn 1 True)) log_now \<and> gapless log_now
     \<and> frames = [] \<and> replay 7 1 log_now \<noteq> []"
proof -
  have "tail_run_events {''run.completed''} 7 False 1 [demo_turn 1 True] = ([], True)"
    by (simp add: demo_turn_def demo_log_def replay_def)
  moreover have "replay 7 1 (demo_log 2) \<noteq> []" by (simp add: demo_log_def replay_def upt_rec)
  ultimately show ?thesis
    using gapless_demo [of 2] demo_prefix [of 1 2] by (auto simp: demo_turn_def)
qed

end
