(* ===== verification/Run_Recovery.thy ===== *)
theory Run_Recovery
  imports Run_Queue Run_Events
begin

text \<open>
  The recovery of runs whose worker died (\<open>agents/workflow/recovery.py\<close>) and the database side of
  the worker's handling of a run (\<open>agents/workflow/worker.py\<close>). A world holds the run rows, the
  leases, the event log and the queue. A pass reads its candidates and then reconciles them
  one by one, each in a transaction of its own; the queue enters through its requeue.
\<close>

section \<open>Runs\<close>

datatype run_status = Pending | Running | WaitingApproval | Paused | Completed | Failed | Cancelled

datatype run_error = Exhausted nat nat | ErrorText string

record agent_run =
  ar_id :: uuid
  ar_status :: run_status
  ar_started :: "timestamp option"
  ar_finished :: "timestamp option"
  ar_error :: "run_error option"

definition NON_TERMINAL :: "run_status list" where
  "NON_TERMINAL = [Pending, Running, WaitingApproval, Paused]"

datatype event_data = RetryOf nat string | StartedBy uuid string | Payload string

record 'q run_world =
  rw_runs :: "agent_run list"
  rw_leases :: "run_lease list"
  rw_events :: "event_data run_event list"
  rw_queue :: 'q

abbreviation find_run :: "uuid \<Rightarrow> agent_run list \<Rightarrow> agent_run option" where
  "find_run run \<equiv> List.find (\<lambda>r. ar_id r = run)"

section \<open>A recovery pass\<close>

definition RECOVERY_EVENT :: string where
  "RECOVERY_EVENT = ''recovery.requeued''"

definition count_retries :: "uuid \<Rightarrow> 'd run_event list \<Rightarrow> nat" where
  "count_retries run log = length (filter (\<lambda>e. ev_type e = RECOVERY_EVENT) (replay run 0 log))"

definition non_terminal :: "uuid \<Rightarrow> agent_run list \<Rightarrow> bool" where
  "non_terminal run runs = (case find_run run runs of None \<Rightarrow> False | Some r \<Rightarrow> ar_status r \<in> set NON_TERMINAL)"

definition find_expired_leases :: "timestamp \<Rightarrow> 'q run_world \<Rightarrow> (uuid \<times> uuid) list" where
  "find_expired_leases now w =
     map (\<lambda>l. (le_id l, le_run l))
       (filter (\<lambda>l. is_expired now l \<and> non_terminal (le_run l) (rw_runs w)) (rw_leases w))"

definition find_stale_running_no_lease :: "'q run_world \<Rightarrow> uuid list" where
  "find_stale_running_no_lease w =
     filter (\<lambda>run. run \<notin> set (map le_run (rw_leases w)))
       (map ar_id (filter (\<lambda>r. ar_status r \<in> {Running, WaitingApproval, Paused}) (rw_runs w)))"

text \<open>The two lists merged: each run once, with its lease when it came from a lease.\<close>

definition add_candidate :: "(uuid \<times> uuid option) list \<Rightarrow> uuid \<times> uuid option \<Rightarrow> (uuid \<times> uuid option) list" where
  "add_candidate acc c = (if fst c \<in> set (map fst acc) then acc else acc @ [c])"

definition candidates :: "timestamp \<Rightarrow> 'q run_world \<Rightarrow> (uuid \<times> uuid option) list" where
  "candidates now w =
     foldl add_candidate [] (map (\<lambda>(lid, run). (run, Some lid)) (find_expired_leases now w)
       @ map (\<lambda>run. (run, None)) (find_stale_running_no_lease w))"

definition drop_lease :: "uuid option \<Rightarrow> run_lease list \<Rightarrow> run_lease list" where
  "drop_lease lid ls = (case lid of None \<Rightarrow> ls | Some i \<Rightarrow> filter (\<lambda>l. le_id l \<noteq> i) ls)"

definition reconcile ::
  "(timestamp \<Rightarrow> uuid \<Rightarrow> 'q \<Rightarrow> 'q) \<Rightarrow> nat \<Rightarrow> timestamp \<Rightarrow> uuid \<times> uuid option \<Rightarrow> 'q run_world \<Rightarrow> bool \<times> 'q run_world" where
  "reconcile req max_retries now c w =
     (let (run, lid) = c in
      if \<not> non_terminal run (rw_runs w) then (False, w)
      else (let n = count_retries run (rw_events w) in
        if n < max_retries
        then (True, w\<lparr>rw_events := snd (append_event (\<lambda>i l. l) run RECOVERY_EVENT (RetryOf (n + 1) ''lease expired'') (rw_events w)),
                      rw_leases := drop_lease lid (rw_leases w),
                      rw_runs := map_at ar_id run (\<lambda>r. r\<lparr>ar_status := Pending, ar_error := None\<rparr>) (rw_runs w),
                      rw_queue := req now run (rw_queue w)\<rparr>)
        else (True, w\<lparr>rw_leases := drop_lease lid (rw_leases w),
                      rw_runs := map_at ar_id run (\<lambda>r. r\<lparr>ar_status := Failed, ar_finished := Some now,
                                   ar_error := Some (Exhausted n max_retries)\<rparr>) (rw_runs w)\<rparr>)))"

fun reconcile_all ::
  "(timestamp \<Rightarrow> uuid \<Rightarrow> 'q \<Rightarrow> 'q) \<Rightarrow> nat \<Rightarrow> timestamp \<Rightarrow> (uuid \<times> uuid option) list \<Rightarrow> 'q run_world
    \<Rightarrow> uuid list \<times> 'q run_world" where
  "reconcile_all req max_retries now [] w = ([], w)"
| "reconcile_all req max_retries now (c # cs) w =
     (let (acted, w1) = reconcile req max_retries now c w;
          (rest, w2) = reconcile_all req max_retries now cs w1
      in ((if acted then [fst c] else []) @ rest, w2))"

definition recovery_scan ::
  "(timestamp \<Rightarrow> uuid \<Rightarrow> 'q \<Rightarrow> 'q) \<Rightarrow> nat \<Rightarrow> timestamp \<Rightarrow> 'q run_world \<Rightarrow> uuid list \<times> 'q run_world" where
  "recovery_scan req max_retries now w = reconcile_all req max_retries now (candidates now w) w"

section \<open>The worker's transactions\<close>

text \<open>The start of \<open>_process\<close>: an unknown or finished run is only acknowledged; otherwise the lease
  is taken and the run marked running. The answer says whether the run is to be executed.\<close>

definition start_run ::
  "(uuid \<Rightarrow> string \<Rightarrow> 'q \<Rightarrow> bool \<times> 'q) \<Rightarrow> uuid \<Rightarrow> timestamp \<Rightarrow> int \<Rightarrow> string \<Rightarrow> uuid \<Rightarrow> 'q run_world \<Rightarrow> bool \<times> 'q run_world" where
  "start_run ack new_id now ttl owner run w =
     (case find_run run (rw_runs w) of
        None \<Rightarrow> (False, w\<lparr>rw_queue := snd (ack run owner (rw_queue w))\<rparr>)
      | Some r \<Rightarrow>
          if ar_status r \<in> {Completed, Failed, Cancelled}
          then (False, w\<lparr>rw_queue := snd (ack run owner (rw_queue w))\<rparr>)
          else (True, w\<lparr>rw_leases := acquire_lease new_id now run owner ttl (rw_leases w),
                        rw_runs := map_at ar_id run (\<lambda>r. r\<lparr>ar_status := Running,
                           ar_started := (case ar_started r of None \<Rightarrow> Some now | Some t \<Rightarrow> Some t)\<rparr>) (rw_runs w),
                        rw_events := snd (append_event (\<lambda>i l. l) run ''run.started'' (StartedBy run owner) (rw_events w))\<rparr>))"

definition settle_run :: "(agent_run \<Rightarrow> agent_run) \<Rightarrow> uuid \<Rightarrow> agent_run list \<Rightarrow> agent_run list" where
  "settle_run f run runs =
     map_at ar_id run (\<lambda>r. if ar_status r \<in> {Completed, Failed, Cancelled} then r else f r) runs"

definition finalize_success ::
  "(uuid \<Rightarrow> string \<Rightarrow> 'q \<Rightarrow> bool \<times> 'q) \<Rightarrow> timestamp \<Rightarrow> string \<Rightarrow> uuid \<Rightarrow> bool \<Rightarrow> 'q run_world \<Rightarrow> 'q run_world" where
  "finalize_success ack now owner run terminal w =
     w\<lparr>rw_leases := snd (release_lease run owner (rw_leases w)),
       rw_runs := (if terminal then settle_run (\<lambda>r. r\<lparr>ar_status := Completed, ar_finished := Some now\<rparr>) run (rw_runs w)
                   else rw_runs w),
       rw_queue := snd (ack run owner (rw_queue w))\<rparr>"

definition finalize_failure ::
  "(uuid \<Rightarrow> string \<Rightarrow> 'q \<Rightarrow> bool \<times> 'q) \<Rightarrow> timestamp \<Rightarrow> string \<Rightarrow> uuid \<Rightarrow> string \<Rightarrow> 'q run_world \<Rightarrow> 'q run_world" where
  "finalize_failure ack now owner run err w =
     w\<lparr>rw_leases := snd (release_lease run owner (rw_leases w)),
       rw_runs := settle_run (\<lambda>r. r\<lparr>ar_status := Failed, ar_finished := Some now, ar_error := Some (ErrorText err)\<rparr>) run (rw_runs w),
       rw_queue := snd (ack run owner (rw_queue w))\<rparr>"

definition abandon_to_recovery :: "string \<Rightarrow> uuid \<Rightarrow> 'q run_world \<Rightarrow> 'q run_world" where
  "abandon_to_recovery owner run w = w\<lparr>rw_leases := snd (release_lease run owner (rw_leases w))\<rparr>"

end
