(* ===== verification/Recovery_Claims.thy ===== *)
theory Recovery_Claims
  imports Run_Recovery
begin

text \<open>
  What a recovery pass does: it acts on exactly the runs that need recovery, gives each back
  to the queue or fails it, leaves the others alone, and a second pass finds nothing. The
  pass is proved against the queue's interface and instantiated for the in-process queue.
\<close>

section \<open>The view of one run\<close>

definition needs_recovery :: "timestamp \<Rightarrow> uuid \<Rightarrow> 'q run_world \<Rightarrow> bool" where
  "needs_recovery now run w =
     (case find_lease run (rw_leases w) of
        Some l \<Rightarrow> is_expired now l \<and> non_terminal run (rw_runs w)
      | None \<Rightarrow> (case find_run run (rw_runs w) of
                   None \<Rightarrow> False | Some r \<Rightarrow> ar_status r \<in> {Running, WaitingApproval, Paused}))"

definition world_ok :: "('q \<Rightarrow> bool) \<Rightarrow> 'q run_world \<Rightarrow> bool" where
  "world_ok ok w \<longleftrightarrow> distinct (map ar_id (rw_runs w)) \<and> distinct (map le_run (rw_leases w))
     \<and> distinct (map le_id (rw_leases w)) \<and> gapless (rw_events w) \<and> ok (rw_queue w)"

definition same_run :: "('q \<Rightarrow> queue_spec) \<Rightarrow> uuid \<Rightarrow> 'q run_world \<Rightarrow> 'q run_world \<Rightarrow> bool" where
  "same_run abst r w w' \<longleftrightarrow> find_run r (rw_runs w') = find_run r (rw_runs w)
     \<and> find_lease r (rw_leases w') = find_lease r (rw_leases w)
     \<and> count_retries r (rw_events w') = count_retries r (rw_events w)
     \<and> (r \<in> set (waiting (abst (rw_queue w))) \<longrightarrow> r \<in> set (waiting (abst (rw_queue w'))))"

text \<open>Requeued with its retry counted, or failed when the retries are used up; its lease is gone.\<close>

definition recovered :: "('q \<Rightarrow> queue_spec) \<Rightarrow> nat \<Rightarrow> timestamp \<Rightarrow> uuid \<Rightarrow> 'q run_world \<Rightarrow> 'q run_world \<Rightarrow> bool" where
  "recovered abst max_retries now r w w' \<longleftrightarrow>
     find_lease r (rw_leases w') = None \<and>
     (let n = count_retries r (rw_events w) in
      if n < max_retries
      then find_run r (rw_runs w') = map_option (\<lambda>a. a\<lparr>ar_status := Pending, ar_error := None\<rparr>) (find_run r (rw_runs w))
        \<and> count_retries r (rw_events w') = n + 1 \<and> r \<in> set (waiting (abst (rw_queue w')))
      else find_run r (rw_runs w') = map_option (\<lambda>a. a\<lparr>ar_status := Failed, ar_finished := Some now,
             ar_error := Some (Exhausted n max_retries)\<rparr>) (find_run r (rw_runs w))
        \<and> count_retries r (rw_events w') = n)"

lemma recovered_same: "recovered abst m now r w w1 \<Longrightarrow> same_run abst r w1 w2 \<Longrightarrow> recovered abst m now r w w2"
  by (simp add: recovered_def same_run_def Let_def split: if_splits)

lemma same_recovered: "same_run abst r w w1 \<Longrightarrow> recovered abst m now r w1 w2 \<Longrightarrow> recovered abst m now r w w2"
  by (simp add: recovered_def same_run_def Let_def split: if_splits)

lemma same_run_trans: "same_run abst r w w1 \<Longrightarrow> same_run abst r w1 w2 \<Longrightarrow> same_run abst r w w2"
  by (simp add: same_run_def)

section \<open>The event log\<close>

lemma append_alone:
  assumes "gapless log"
  shows "snd (append_event (\<lambda>i l. l) run ty d log) = log @ batch_rows run (length (events_of run log)) [(ty, d)]"
  using insert_batch [OF assms le_refl, of "[(ty, d)]" run]
  by (simp add: append_event_def MAX_SEQUENCE_ATTEMPTS_def numeral_3_eq_3 max_sequence_gapless [OF assms] single_batch Let_def)

lemma count_retries_gapless:
  "gapless log \<Longrightarrow> count_retries run log = length (filter (\<lambda>e. ev_type e = RECOVERY_EVENT) (events_of run log))"
  by (simp add: count_retries_def replay_gapless)

lemma count_retries_append:
  assumes "gapless log"
  shows "gapless (snd (append_event (\<lambda>i l. l) run ty d log))"
    "count_retries r (snd (append_event (\<lambda>i l. l) run ty d log))
       = count_retries r log + (if r = run \<and> ty = RECOVERY_EVENT then 1 else 0)"
proof -
  show g: "gapless (snd (append_event (\<lambda>i l. l) run ty d log))"
    unfolding append_alone [OF assms] by (rule gapless_batch [OF assms refl])
  show "count_retries r (snd (append_event (\<lambda>i l. l) run ty d log))
       = count_retries r log + (if r = run \<and> ty = RECOVERY_EVENT then 1 else 0)"
    using count_retries_gapless [OF g, of r] count_retries_gapless [OF assms, of r]
    by (simp add: append_alone [OF assms] events_of_batch) (simp add: single_batch)
qed

section \<open>Reconciling one candidate\<close>

definition valid_candidate :: "uuid \<times> uuid option \<Rightarrow> 'q run_world \<Rightarrow> bool" where
  "valid_candidate c w \<longleftrightarrow> non_terminal (fst c) (rw_runs w)
     \<and> map_option le_id (find_lease (fst c) (rw_leases w)) = snd c"

lemma find_unique:
  assumes "distinct (map f xs)" "x \<in> set xs"
  shows "List.find (\<lambda>y. f y = f x) xs = Some x"
  using assms by (induction xs) auto

lemma find_lease_drop:
  assumes "distinct (map le_id ls)" "distinct (map le_run ls)" "map_option le_id (find_lease run ls) = lid"
  shows "find_lease r (drop_lease lid ls) = (if r = run then None else find_lease r ls)"
proof (cases "find_lease run ls")
  case None
  then show ?thesis using assms(3) by (auto simp: drop_lease_def)
next
  case (Some l)
  then have l: "l \<in> set ls" "le_run l = run" "lid = Some (le_id l)" using assms(3) find_SomeD [OF Some] by auto
  have "le_id x \<noteq> le_id l \<longleftrightarrow> le_run x \<noteq> run" if "x \<in> set ls" for x
    using that l assms(1,2) by (auto simp: distinct_map inj_on_def)
  then have "drop_lease lid ls = filter (\<lambda>x. le_run x \<noteq> run) ls"
    using l(3) by (simp add: drop_lease_def cong: filter_cong)
  then show ?thesis by (simp add: find_lease_filter)
qed

lemma drop_lease_distinct: "distinct (map f ls) \<Longrightarrow> distinct (map f (drop_lease lid ls))"
  by (cases lid) (simp_all add: drop_lease_def distinct_map_filter)

context run_queue
begin

lemma reconcile_effect:
  assumes "world_ok ok w" "valid_candidate c w" "reconcile req m now c w = (b, w')"
  shows "b \<and> world_ok ok w' \<and> recovered abst m now (fst c) w w' \<and> (\<forall>r. r \<noteq> fst c \<longrightarrow> same_run abst r w w')"
proof -
  obtain run lid where c: "c = (run, lid)" by (cases c)
  have w: "distinct (map ar_id (rw_runs w))" "distinct (map le_run (rw_leases w))" "distinct (map le_id (rw_leases w))"
      "gapless (rw_events w)" "ok (rw_queue w)"
    using assms(1) by (auto simp: world_ok_def)
  have v: "non_terminal run (rw_runs w)" "map_option le_id (find_lease run (rw_leases w)) = lid"
    using assms(2) c by (auto simp: valid_candidate_def)
  note lease = find_lease_drop [OF w(3,2) v(2)] drop_lease_distinct [OF w(2), of lid] drop_lease_distinct [OF w(3), of lid]
  note log = count_retries_append [OF w(4)]
  note queue = req_ok [OF w(5), of now run] requeued_waits [OF w(5), where r = run and now = now]
  note id = option.map_ident
  show ?thesis
  proof (cases "count_retries run (rw_events w) < m")
    case True
    then have "b" "w' = w\<lparr>rw_events := snd (append_event (\<lambda>i l. l) run RECOVERY_EVENT
             (RetryOf (count_retries run (rw_events w) + 1) ''lease expired'') (rw_events w)),
           rw_leases := drop_lease lid (rw_leases w),
           rw_runs := map_at ar_id run (\<lambda>r. r\<lparr>ar_status := Pending, ar_error := None\<rparr>) (rw_runs w),
           rw_queue := req now run (rw_queue w)\<rparr>"
      using assms(3) v(1) c by (simp_all add: reconcile_def Let_def)
    then show ?thesis
      using c w True lease log queue
      by (simp add: world_ok_def recovered_def same_run_def find_map_at map_at_keys id Let_def)
  next
    case False
    then have "b" "w' = w\<lparr>rw_leases := drop_lease lid (rw_leases w),
           rw_runs := map_at ar_id run (\<lambda>r. r\<lparr>ar_status := Failed, ar_finished := Some now,
             ar_error := Some (Exhausted (count_retries run (rw_events w)) m)\<rparr>) (rw_runs w)\<rparr>"
      using assms(3) v(1) c by (simp_all add: reconcile_def Let_def)
    then show ?thesis
      using c w False lease
      by (simp add: world_ok_def recovered_def same_run_def find_map_at map_at_keys id Let_def)
  qed
qed

lemma valid_candidate_same: "same_run abst (fst c) w w' \<Longrightarrow> valid_candidate c w \<Longrightarrow> valid_candidate c w'"
  by (simp add: same_run_def valid_candidate_def non_terminal_def)

lemma reconcile_all_effect:
  assumes "world_ok ok w" "distinct (map fst cs)" "list_all (\<lambda>c. valid_candidate c w) cs"
    "reconcile_all req m now cs w = (acted, w')"
  shows "acted = map fst cs \<and> world_ok ok w' \<and> (\<forall>r \<in> fst ` set cs. recovered abst m now r w w')
    \<and> (\<forall>r. r \<notin> fst ` set cs \<longrightarrow> same_run abst r w w')"
  using assms
proof (induction cs arbitrary: w acted)
  case Nil
  then show ?case by (simp add: same_run_def)
next
  case (Cons c cs)
  obtain b w1 where s: "reconcile req m now c w = (b, w1)" by fastforce
  obtain rest where rest: "reconcile_all req m now cs w1 = (rest, w')"
    using Cons.prems(4) s by (auto simp: Let_def split: prod.splits)
  have out: "acted = (if b then [fst c] else []) @ rest"
    using Cons.prems(4) s rest by (simp add: Let_def)
  have vc: "valid_candidate c w" using Cons.prems(3) by simp
  have one: "b" "world_ok ok w1" "recovered abst m now (fst c) w w1" "\<And>r. r \<noteq> fst c \<Longrightarrow> same_run abst r w w1"
    using reconcile_effect [OF Cons.prems(1) vc s] by auto
  have "list_all (\<lambda>d. valid_candidate d w1) cs"
    unfolding list_all_iff
  proof
    fix d assume d: "d \<in> set cs"
    then have "fst d \<noteq> fst c" using imageI [OF d, of fst] Cons.prems(2) by (metis distinct.simps(2) list.simps(9) set_map)
    then show "valid_candidate d w1"
      using valid_candidate_same [OF one(4)] Cons.prems(3) d by (simp add: list_all_iff)
  qed
  then have ih: "rest = map fst cs" "world_ok ok w'" "\<And>r. r \<in> fst ` set cs \<Longrightarrow> recovered abst m now r w1 w'"
      "\<And>r. r \<notin> fst ` set cs \<Longrightarrow> same_run abst r w1 w'"
    using Cons.IH [OF one(2) _ _ rest] Cons.prems(2) by auto
  have "recovered abst m now r w w'" if "r \<in> fst ` set (c # cs)" for r
  proof (cases "r = fst c")
    case True
    then show ?thesis using recovered_same [OF one(3)] ih(4) Cons.prems(2) by auto
  next
    case False
    then show ?thesis using same_recovered [OF one(4) ih(3)] that by auto
  qed
  moreover have "same_run abst r w w'" if "r \<notin> fst ` set (c # cs)" for r
    using same_run_trans [OF one(4) ih(4)] that by auto
  ultimately show ?case using out one(1) ih(1,2) by auto
qed

end

section \<open>The candidates\<close>

lemma add_candidates:
  "distinct (map fst acc) \<Longrightarrow> distinct (map fst (foldl add_candidate acc cs))
     \<and> fst ` set (foldl add_candidate acc cs) = fst ` set acc \<union> fst ` set cs
     \<and> set (foldl add_candidate acc cs) \<subseteq> set acc \<union> set cs"
proof (induction cs arbitrary: acc)
  case (Cons c cs)
  have "distinct (map fst (add_candidate acc c))" using Cons.prems by (auto simp: add_candidate_def)
  from Cons.IH [OF this] show ?case by (auto simp: add_candidate_def split: if_splits)
qed simp

lemma candidates_ok:
  assumes "world_ok ok w"
  shows "distinct (map fst (candidates now w))" "fst ` set (candidates now w) = {r. needs_recovery now r w}"
    "list_all (\<lambda>c. valid_candidate c w) (candidates now w)"
proof -
  let ?cs = "map (\<lambda>(lid, run). (run, Some lid)) (find_expired_leases now w) @ map (\<lambda>run. (run, None)) (find_stale_running_no_lease w)"
  have w: "distinct (map ar_id (rw_runs w))" "distinct (map le_run (rw_leases w))"
    using assms by (auto simp: world_ok_def)
  have lease: "find_lease (le_run l) (rw_leases w) = Some l" if "l \<in> set (rw_leases w)" for l
    by (rule find_unique [OF w(2) that])
  have run: "find_run (ar_id a) (rw_runs w) = Some a" if "a \<in> set (rw_runs w)" for a
    by (rule find_unique [OF w(1) that])
  note cand = add_candidates [of "[]" ?cs, folded candidates_def]
  show "distinct (map fst (candidates now w))" using cand by simp
  have no_lease: "find_lease r (rw_leases w) = None \<longleftrightarrow> r \<notin> le_run ` set (rw_leases w)" for r
    by (auto simp: find_None_iff)
  have in_cs: "(r, x) \<in> set ?cs \<longleftrightarrow> (\<exists>l \<in> set (rw_leases w). le_run l = r \<and> x = Some (le_id l) \<and> is_expired now l \<and> non_terminal r (rw_runs w))
      \<or> (x = None \<and> find_lease r (rw_leases w) = None \<and> (\<exists>a \<in> set (rw_runs w). ar_id a = r \<and> ar_status a \<in> {Running, WaitingApproval, Paused}))" for r x
    unfolding no_lease by (auto simp: find_expired_leases_def find_stale_running_no_lease_def image_iff)
  have valid: "valid_candidate (r, x) w \<and> needs_recovery now r w" if "(r, x) \<in> set ?cs" for r x
    using that unfolding in_cs
  proof (elim disjE conjE bexE)
    fix l assume "l \<in> set (rw_leases w)" "le_run l = r" "x = Some (le_id l)" "is_expired now l" "non_terminal r (rw_runs w)"
    then show ?thesis using lease [of l] by (simp add: valid_candidate_def needs_recovery_def)
  next
    fix a assume "x = None" "find_lease r (rw_leases w) = None" "a \<in> set (rw_runs w)" "ar_id a = r"
      "ar_status a \<in> {Running, WaitingApproval, Paused}"
    then show ?thesis
      using run [of a] by (auto simp: valid_candidate_def needs_recovery_def non_terminal_def NON_TERMINAL_def)
  qed
  have complete: "\<exists>x. (r, x) \<in> set ?cs" if nr: "needs_recovery now r w" for r
  proof (cases "find_lease r (rw_leases w)")
    case None
    then obtain a where "find_run r (rw_runs w) = Some a" "ar_status a \<in> {Running, WaitingApproval, Paused}"
      using nr None by (auto simp: needs_recovery_def split: option.splits)
    then show ?thesis unfolding in_cs using None find_SomeD [of _ "rw_runs w" a] by blast
  next
    case (Some l)
    then show ?thesis
      unfolding in_cs using nr find_SomeD [OF Some] by (auto simp: needs_recovery_def)
  qed
  have "fst ` set ?cs = {r. needs_recovery now r w}"
  proof (intro set_eqI iffI)
    fix r assume "r \<in> fst ` set ?cs"
    then obtain x where "(r, x) \<in> set ?cs" by (rule imageE) (metis prod.collapse)
    then show "r \<in> {r. needs_recovery now r w}" using valid by blast
  next
    fix r assume "r \<in> {r. needs_recovery now r w}"
    then obtain x where "(r, x) \<in> set ?cs" using complete by blast
    then show "r \<in> fst ` set ?cs" by (rule rev_image_eqI) simp
  qed
  then show "fst ` set (candidates now w) = {r. needs_recovery now r w}" using cand by simp
  have "set (candidates now w) \<subseteq> set ?cs" using cand by simp
  then show "list_all (\<lambda>c. valid_candidate c w) (candidates now w)"
    using valid by (auto simp: list_all_iff simp del: set_append set_map)
qed

lemma needs_recovery_same: "same_run abst r w w' \<Longrightarrow> needs_recovery now r w' = needs_recovery now r w"
  unfolding needs_recovery_def same_run_def non_terminal_def by (auto split: option.splits)

lemma recovered_settled: "recovered abst m now r w w' \<Longrightarrow> \<not> needs_recovery now' r w'"
  by (auto simp: recovered_def needs_recovery_def Let_def split: if_splits option.splits)

context run_queue
begin

lemma scan_effect:
  assumes "world_ok ok w" "recovery_scan req m now w = (acted, w')"
  shows "world_ok ok w'" "set acted = {r. needs_recovery now r w}" "distinct acted"
    "\<And>r. needs_recovery now r w \<Longrightarrow> recovered abst m now r w w'"
    "\<And>r. \<not> needs_recovery now r w \<Longrightarrow> same_run abst r w w'"
    "recovery_scan req m now w' = ([], w')"
proof -
  note eff = reconcile_all_effect [OF assms(1) candidates_ok(1,3) [OF assms(1)] assms(2) [unfolded recovery_scan_def]]
  note cand = candidates_ok [OF assms(1), of now]
  show ok': "world_ok ok w'" "set acted = {r. needs_recovery now r w}" "distinct acted"
    using eff cand(1,2) by auto
  show rec: "\<And>r. needs_recovery now r w \<Longrightarrow> recovered abst m now r w w'"
    and same: "\<And>r. \<not> needs_recovery now r w \<Longrightarrow> same_run abst r w w'"
    using eff cand(2) by auto
  have "\<not> needs_recovery now r w'" for r
    using recovered_settled [OF rec] needs_recovery_same [OF same] by blast
  then have "candidates now w' = []" using candidates_ok(2) [OF ok'(1), of now] by simp
  then show "recovery_scan req m now w' = ([], w')" by (simp add: recovery_scan_def)
qed

end

text \<open>C14: A recovery pass settles exactly the abandoned runs. A pass over a consistent world acts, once
  each, on exactly the unfinished runs whose lease has expired and the executing runs
  without a lease; each of them has its lease removed and is either pending and waiting in
  the queue with one more retry on record, or, when its retries are used up, failed; every
  other run keeps its row, lease and place in the queue; and a second pass at the same time
  finds nothing to do.\<close>

theorem recovery_settles_abandoned:
  assumes "world_ok mem_ok w" "recovery_scan mem_requeue max_retries now w = (acted, w')"
  shows "set acted = {r. needs_recovery now r w} \<and> distinct acted \<and> world_ok mem_ok w'
    \<and> (\<forall>r. if needs_recovery now r w then recovered mem_abst max_retries now r w w' else same_run mem_abst r w w')
    \<and> recovery_scan mem_requeue max_retries now w' = ([], w')"
  using memq.scan_effect [OF assms] by auto

definition demo_world :: "memory_queue run_world" where
  "demo_world =
     \<lparr>rw_runs = [\<lparr>ar_id = 1, ar_status = Running, ar_started = Some 0, ar_finished = None, ar_error = None\<rparr>,
                 \<lparr>ar_id = 2, ar_status = Running, ar_started = Some 0, ar_finished = None, ar_error = None\<rparr>,
                 \<lparr>ar_id = 3, ar_status = Running, ar_started = Some 0, ar_finished = None, ar_error = None\<rparr>],
      rw_leases = [\<lparr>le_id = 10, le_run = 1, le_owner = ''a'', le_version = 1, le_acquired = 0, le_expires = 5\<rparr>,
                   \<lparr>le_id = 11, le_run = 2, le_owner = ''b'', le_version = 1, le_acquired = 0, le_expires = 50\<rparr>],
      rw_events = [\<lparr>ev_run = 3, ev_seq = 1, ev_type = RECOVERY_EVENT, ev_data = RetryOf 1 ''lease expired''\<rparr>],
      rw_queue = empty_queue\<rparr>"

theorem recovery_settles_abandoned_witness:
  "case recovery_scan mem_requeue 1 10 demo_world of (acted, w') \<Rightarrow>
     acted = [1, 3] \<and> mem_pending_ids (rw_queue w') = [1] \<and> map ar_status (rw_runs w') = [Pending, Running, Failed]
     \<and> recovery_scan mem_requeue 1 10 w' = ([], w')"
proof -
  have ok: "world_ok mem_ok demo_world"
    by (auto simp: world_ok_def demo_world_def gapless_def events_of_def mem_ok_def empty_queue_def)
  obtain acted w' where s: "recovery_scan mem_requeue 1 10 demo_world = (acted, w')" by fastforce
  have "case recovery_scan mem_requeue 1 10 demo_world of (acted, w') \<Rightarrow>
     acted = [1, 3] \<and> mem_pending_ids (rw_queue w') = [1] \<and> map ar_status (rw_runs w') = [Pending, Running, Failed]"
    by code_simp
  then show ?thesis using recovery_settles_abandoned [OF ok s] s by auto
qed

section \<open>The retry budget\<close>

text \<open>Passes at any times, with worker steps between them that add no recovery events.\<close>

inductive recovery_runs :: "nat \<Rightarrow> memory_queue run_world \<Rightarrow> memory_queue run_world \<Rightarrow> bool" for m where
  start: "recovery_runs m w w"
| scan: "recovery_runs m w w1 \<Longrightarrow> recovery_scan mem_requeue m now w1 = (acted, w2) \<Longrightarrow> recovery_runs m w w2"
| work: "recovery_runs m w w1 \<Longrightarrow> world_ok mem_ok w2
    \<Longrightarrow> (\<And>r. count_retries r (rw_events w2) = count_retries r (rw_events w1)) \<Longrightarrow> recovery_runs m w w2"

text \<open>Recovery gives up. However many passes are made, at whatever times, and whatever the workers do
  to runs, leases and queue in between, no run is requeued by recovery more often than the
  retry limit allows (or than it already had been).\<close>

theorem recovery_retries_bounded:
  assumes "recovery_runs max_retries w w'" "world_ok mem_ok w"
  shows "count_retries r (rw_events w') \<le> max max_retries (count_retries r (rw_events w)) \<and> world_ok mem_ok w'"
  using assms
proof (induction rule: recovery_runs.induct)
  case (scan w w1 now acted w2)
  then have ih: "count_retries r (rw_events w1) \<le> max max_retries (count_retries r (rw_events w))" "world_ok mem_ok w1"
    by auto
  note eff = memq.scan_effect [OF ih(2) scan.hyps(2)]
  have "count_retries r (rw_events w2) \<le> max max_retries (count_retries r (rw_events w1))"
    using eff(4,5) [of r]
    by (cases "needs_recovery now r w1") (auto simp: recovered_def same_run_def Let_def split: if_splits)
  then show ?case using ih(1) eff(1) by simp
qed auto

theorem recovery_retries_bounded_witness:
  "count_retries 1 (rw_events (snd (recovery_scan mem_requeue 1 20 (snd (recovery_scan mem_requeue 1 10 demo_world))))) \<le> 1"
proof -
  have ok: "world_ok mem_ok demo_world"
    by (auto simp: world_ok_def demo_world_def gapless_def events_of_def mem_ok_def empty_queue_def)
  have "recovery_runs 1 demo_world (snd (recovery_scan mem_requeue 1 20 (snd (recovery_scan mem_requeue 1 10 demo_world))))"
    by (rule recovery_runs.scan [OF recovery_runs.scan [OF recovery_runs.start]]) (rule surjective_pairing)+
  from recovery_retries_bounded [OF this ok, of 1] show ?thesis
    by (simp add: demo_world_def count_retries_def replay_def)
qed

section \<open>A race\<close>

text \<open>Recovery can revoke a live lease. The candidates are read in one transaction and reconciled in
  later ones that look at the run's status but not at the lease again: an owner that renewed
  its expired lease in between still loses it, and the run is given to the queue while its
  owner executes it.\<close>

theorem recovery_revokes_renewed_lease:
  "case renew_lease 10 1 ''a'' 60 (rw_leases demo_world) of (renewed, leases) \<Rightarrow>
     (1, Some 10) \<in> set (candidates 9 demo_world) \<and> renewed
     \<and> has_live_lease 11 (Some leases) 1
     \<and> (case reconcile mem_requeue 1 11 (1, Some 10) (demo_world\<lparr>rw_leases := leases\<rparr>) of (acted, w') \<Rightarrow>
          acted \<and> find_lease 1 (rw_leases w') = None \<and> mem_pending_ids (rw_queue w') = [1])"
  by code_simp

end
