(* ===== verification/Agent_Graph.thy ===== *)
theory Agent_Graph
  imports Plan_Claims
begin

text \<open>
  The graph of agents a run shows (\<open>agents/graph.py\<close>), the declared topologies
  (\<open>agents/workflow/topology.py\<close>) and the graph drawn from a plan. Of nodes and edges the
  display texts (names, roles, titles, labels) are left out; every field that the code reads
  back is kept.
\<close>

section \<open>Graphs\<close>

datatype node_status = NPending | NQueued | NRunning | NWaiting | NCompleted | NFailed | NCancelled

datatype edge_status = EPending | EActive | ECompleted | EFailed

datatype edge_type = Dependency | Handoff | Delegation

datatype graph_mode = Sequential | Parallel | Hybrid

record agent_node =
  gn_id :: string
  gn_stage :: nat
  gn_lane :: nat
  gn_status :: node_status
  gn_started :: "timestamp option"
  gn_finished :: "timestamp option"
  gn_tool :: "(string \<times> string \<times> string) option"
  gn_output :: "string option"
  gn_retrying :: "(nat \<times> string) option"
  gn_error :: "string option"

record agent_edge =
  ge_id :: string
  ge_source :: string
  ge_target :: string
  ge_type :: edge_type
  ge_status :: edge_status

record agent_graph =
  ag_runtime :: string
  ag_mode :: graph_mode
  ag_status :: string
  ag_nodes :: "agent_node list"
  ag_edges :: "agent_edge list"
  ag_started :: "timestamp option"
  ag_finished :: "timestamp option"

definition graph_node :: "string \<Rightarrow> agent_graph \<Rightarrow> agent_node option" where
  "graph_node i g = List.find (\<lambda>n. gn_id n = i) (ag_nodes g)"

definition graph_edge :: "string \<Rightarrow> agent_graph \<Rightarrow> agent_edge option" where
  "graph_edge i g = List.find (\<lambda>e. ge_id e = i) (ag_edges g)"

definition predecessors :: "string \<Rightarrow> agent_graph \<Rightarrow> string list" where
  "predecessors i g = map ge_source (filter (\<lambda>e. ge_target e = i) (ag_edges g))"

definition recompute_active :: "agent_graph \<Rightarrow> string list" where
  "recompute_active g = map gn_id (filter (\<lambda>n. gn_status n = NRunning) (ag_nodes g))"

definition new_node :: "string \<Rightarrow> nat \<Rightarrow> nat \<Rightarrow> agent_node" where
  "new_node i stage lane =
     \<lparr>gn_id = i, gn_stage = stage, gn_lane = lane, gn_status = NPending, gn_started = None, gn_finished = None,
      gn_tool = None, gn_output = None, gn_retrying = None, gn_error = None\<rparr>"

definition new_edge :: "string \<Rightarrow> string \<Rightarrow> string \<Rightarrow> edge_type \<Rightarrow> agent_edge" where
  "new_edge i s t ty = \<lparr>ge_id = i, ge_source = s, ge_target = t, ge_type = ty, ge_status = EPending\<rparr>"

definition new_graph :: "string \<Rightarrow> graph_mode \<Rightarrow> agent_node list \<Rightarrow> agent_edge list \<Rightarrow> agent_graph" where
  "new_graph runtime mode nodes edges =
     \<lparr>ag_runtime = runtime, ag_mode = mode, ag_status = ''pending'', ag_nodes = nodes, ag_edges = edges,
      ag_started = None, ag_finished = None\<rparr>"

section \<open>The static graphs\<close>

definition build_deep_research_graph :: agent_graph where
  "build_deep_research_graph = new_graph ''crewai'' Sequential
     [new_node ''researcher'' 0 0, new_node ''analyst'' 1 0, new_node ''writer'' 2 0]
     [new_edge ''researcher-analyst'' ''researcher'' ''analyst'' Handoff,
      new_edge ''analyst-writer'' ''analyst'' ''writer'' Handoff]"

definition build_parallel_research_graph :: agent_graph where
  "build_parallel_research_graph = new_graph ''crewai'' Parallel
     [new_node ''coordinator'' 0 0, new_node ''web-researcher'' 1 0, new_node ''kb-researcher'' 1 1,
      new_node ''analyst'' 2 0, new_node ''writer'' 3 0]
     [new_edge ''coord-web'' ''coordinator'' ''web-researcher'' Dependency,
      new_edge ''coord-kb'' ''coordinator'' ''kb-researcher'' Dependency,
      new_edge ''web-analyst'' ''web-researcher'' ''analyst'' Handoff,
      new_edge ''kb-analyst'' ''kb-researcher'' ''analyst'' Handoff,
      new_edge ''analyst-writer'' ''analyst'' ''writer'' Handoff]"

definition build_debate_graph :: agent_graph where
  "build_debate_graph = new_graph ''crewai'' Parallel
     [new_node ''advocate-a'' 0 0, new_node ''advocate-b'' 0 1, new_node ''judge'' 1 0]
     [new_edge ''advocate-a-judge'' ''advocate-a'' ''judge'' Handoff,
      new_edge ''advocate-b-judge'' ''advocate-b'' ''judge'' Handoff]"

definition build_write_review_graph :: agent_graph where
  "build_write_review_graph = new_graph ''crewai'' Sequential
     [new_node ''drafter'' 0 0, new_node ''reviewer'' 1 0, new_node ''finalizer'' 2 0]
     [new_edge ''drafter-reviewer'' ''drafter'' ''reviewer'' Handoff,
      new_edge ''reviewer-finalizer'' ''reviewer'' ''finalizer'' Handoff]"

definition build_single_agent_graph :: agent_graph where
  "build_single_agent_graph = new_graph ''native'' Sequential [new_node ''assistant'' 0 0] []"

definition build_task_decomposition_graph :: "int \<Rightarrow> agent_graph" where
  "build_task_decomposition_graph worker_count =
     (let n = clamp_workers worker_count
      in new_graph ''crewai'' Parallel
           ([new_node ''decomposer'' 0 0] @ map (\<lambda>i. new_node (worker_id i) 1 (i - 1)) [1..<n + 1]
              @ [new_node ''integrator'' 2 0])
           (map (\<lambda>i. new_edge (''decomposer-'' @ worker_id i) ''decomposer'' (worker_id i) Dependency) [1..<n + 1]
              @ map (\<lambda>i. new_edge (worker_id i @ ''-integrator'') (worker_id i) ''integrator'' Handoff) [1..<n + 1]))"

section \<open>Topologies\<close>

datatype stage_shape = ShapeSequential | ShapeParallel | ShapeJoin

record stage_decl =
  sd_id :: string
  sd_role :: string
  sd_stage :: nat
  sd_shape :: stage_shape
  sd_lane :: nat
  sd_final :: bool

text \<open>The builder references, as names; \<open>run_graph_builder\<close> and \<open>run_plan_builder\<close> resolve them.\<close>

datatype builder = DeepResearch | ParallelResearch | Debate | WriteReview | TaskDecomposition | SingleAgent

record topology_spec =
  tp_profile :: string
  tp_stages :: "stage_decl list"
  tp_graph_builder :: builder
  tp_plan_builder :: builder
  tp_stage_builder :: "builder option"
  tp_max_workers :: nat
  tp_max_revision_rounds :: nat
  tp_multi_agent :: bool
  tp_engine_supported :: bool
  tp_answer_stage :: string

definition stage :: "string \<Rightarrow> string \<Rightarrow> nat \<Rightarrow> stage_shape \<Rightarrow> nat \<Rightarrow> bool \<Rightarrow> stage_decl" where
  "stage i r n sh l f = \<lparr>sd_id = i, sd_role = r, sd_stage = n, sd_shape = sh, sd_lane = l, sd_final = f\<rparr>"

definition topology :: "string \<Rightarrow> stage_decl list \<Rightarrow> builder \<Rightarrow> string \<Rightarrow> topology_spec" where
  "topology p ss b ans =
     \<lparr>tp_profile = p, tp_stages = ss, tp_graph_builder = b, tp_plan_builder = b, tp_stage_builder = Some b,
      tp_max_workers = 1, tp_max_revision_rounds = 1, tp_multi_agent = True, tp_engine_supported = True, tp_answer_stage = ans\<rparr>"

definition TOPOLOGIES :: "topology_spec list" where
  "TOPOLOGIES =
     [topology ''deep_research''
        [stage ''researcher'' ''researcher'' 1 ShapeSequential 0 False, stage ''analyst'' ''analyst'' 2 ShapeJoin 0 False,
         stage ''writer'' ''writer'' 3 ShapeSequential 0 True] DeepResearch ''writer'',
      topology ''parallel_research''
        [stage ''coordinator'' ''coordinator'' 1 ShapeParallel 0 False, stage ''coordinator'' ''coordinator'' 1 ShapeParallel 1 False,
         stage ''analyst'' ''analyst'' 2 ShapeJoin 0 False, stage ''writer'' ''writer'' 3 ShapeSequential 0 True] ParallelResearch ''writer'',
      topology ''debate''
        [stage ''side_a'' ''advocate'' 1 ShapeParallel 0 False, stage ''side_b'' ''advocate'' 1 ShapeParallel 1 False,
         stage ''judge'' ''judge'' 2 ShapeJoin 0 True] Debate ''judge'',
      topology ''write_review''
        [stage ''drafter'' ''drafter'' 1 ShapeSequential 0 False, stage ''reviewer'' ''reviewer'' 2 ShapeSequential 0 False,
         stage ''finalizer'' ''finalizer'' 3 ShapeSequential 0 True] WriteReview ''finalizer'',
      (topology ''task_decomposition''
        [stage ''decomposer'' ''coordinator'' 1 ShapeSequential 0 False, stage ''worker'' ''worker'' 2 ShapeParallel 0 False,
         stage ''integrator'' ''integrator'' 3 ShapeJoin 0 True] TaskDecomposition ''integrator'')\<lparr>tp_max_workers := 6\<rparr>,
      (topology ''general'' [stage ''assistant'' ''assistant'' 1 ShapeSequential 0 True] SingleAgent ''writer'')
        \<lparr>tp_plan_builder := DeepResearch, tp_stage_builder := None, tp_multi_agent := False, tp_engine_supported := False\<rparr>]"

definition declared_profiles :: "string list" where
  "declared_profiles = map tp_profile TOPOLOGIES"

definition topology_for :: "string option \<Rightarrow> bool \<Rightarrow> topology_spec option" where
  "topology_for prof strict =
     (let key = py_strip (case prof of None \<Rightarrow> [] | Some p \<Rightarrow> p);
          look = (\<lambda>k. List.find (\<lambda>t. tp_profile t = k) TOPOLOGIES)
      in case look key of
           Some t \<Rightarrow> Some t
         | None \<Rightarrow> if strict then None else look ''deep_research'')"

definition multi_agent_profiles :: "string list" where
  "multi_agent_profiles = map tp_profile (filter (\<lambda>t. tp_multi_agent t \<and> tp_stage_builder t \<noteq> None) TOPOLOGIES)"

text \<open>The default worker count of the decomposition builders is 3. The debate builders put the two
  sides of the question into their texts; the sides are arguments here.\<close>

definition run_graph_builder :: "builder \<Rightarrow> agent_graph" where
  "run_graph_builder b =
     (case b of DeepResearch \<Rightarrow> build_deep_research_graph | ParallelResearch \<Rightarrow> build_parallel_research_graph
      | Debate \<Rightarrow> build_debate_graph | WriteReview \<Rightarrow> build_write_review_graph
      | TaskDecomposition \<Rightarrow> build_task_decomposition_graph 3 | SingleAgent \<Rightarrow> build_single_agent_graph)"

definition run_plan_builder :: "(string \<Rightarrow> (string \<times> string) option) \<Rightarrow> builder \<Rightarrow> string \<Rightarrow> plan" where
  "run_plan_builder sides b question =
     (case b of DeepResearch \<Rightarrow> build_deep_research_plan question | ParallelResearch \<Rightarrow> build_parallel_research_plan question
      | Debate \<Rightarrow> build_debate_plan sides question | WriteReview \<Rightarrow> build_write_review_plan question
      | TaskDecomposition \<Rightarrow> build_task_decomposition_plan question 3 | SingleAgent \<Rightarrow> build_deep_research_plan question)"

definition build_graph_for_profile :: "string option \<Rightarrow> agent_graph" where
  "build_graph_for_profile p = (case topology_for p False of None \<Rightarrow> build_deep_research_graph | Some t \<Rightarrow> run_graph_builder (tp_graph_builder t))"

definition lanes_of :: "stage_decl list \<Rightarrow> nat list" where
  "lanes_of ss = map (\<lambda>k. length (filter (\<lambda>s. sd_stage s = k) ss)) (sort (remdups (map sd_stage ss)))"

definition shape_of :: "stage_decl list \<Rightarrow> string" where
  "shape_of ss =
     (if ss = [] then ''empty''
      else if list_ex (\<lambda>s. sd_shape s = ShapeParallel) ss
      then (if list_ex (\<lambda>s. sd_shape s = ShapeJoin) ss then ''fan_out_join'' else ''fan_out'')
      else ''chain'')"

section \<open>The graph of a plan\<close>

text \<open>The stage of a step is the length of its longest dependency chain; \<open>order\<close> is the plan's
  topological order.\<close>

definition depth_step :: "(string, string list) dict \<Rightarrow> (string, nat) dict \<Rightarrow> string \<Rightarrow> (string, nat) dict" where
  "depth_step deps depth i =
     (case dict_get deps i of
        Some (d # ds) \<Rightarrow> dict_set i (1 + Max (set (map (\<lambda>d. dict_get_or depth d 0) (d # ds)))) depth
      | _ \<Rightarrow> dict_set i 0 depth)"

definition stage_depths :: "plan \<Rightarrow> string list \<Rightarrow> (string, nat) dict" where
  "stage_depths p order = foldl (depth_step (deps_dict (steps p))) [] order"

definition lane_step ::
  "(string, nat) dict \<Rightarrow> (string, nat) dict \<times> (nat, nat) dict \<Rightarrow> step \<Rightarrow> (string, nat) dict \<times> (nat, nat) dict" where
  "lane_step stages acc s =
     (let (lanes, counters) = acc; st = dict_get_or stages (step_id s) 0; lane = dict_get_or counters st 0
      in (dict_set (step_id s) lane lanes, dict_set st (lane + 1) counters))"

definition lane_indexes :: "(string, nat) dict \<Rightarrow> plan \<Rightarrow> (string, nat) dict" where
  "lane_indexes stages p = fst (foldl (lane_step stages) ([], []) (steps p))"

text \<open>\<open>template\<close> is the static graph of the plan's profile, if it could be built; it is taken over
  when its node ids are the plan's step ids. A plan whose order fails raises.\<close>

definition graph_from_plan :: "agent_graph option \<Rightarrow> plan \<Rightarrow> plan_error + agent_graph" where
  "graph_from_plan template p =
     (case toposort p of
        None \<Rightarrow> Inl (CycleDetected [])
      | Some (Inl e) \<Rightarrow> Inl e
      | Some (Inr order) \<Rightarrow>
          (let (presentation, mode) =
             (case template of
                Some g \<Rightarrow> if ag_nodes g \<noteq> [] \<and> set (map gn_id (ag_nodes g)) = set (step_ids p) then (ag_nodes g, ag_mode g) else ([], Sequential)
              | None \<Rightarrow> ([], Sequential));
             stages = stage_depths p order;
             lanes = lane_indexes stages p;
             nodes = map (\<lambda>s. case List.find (\<lambda>n. gn_id n = step_id s) (rev presentation) of
                 Some n \<Rightarrow> n\<lparr>gn_status := NPending\<rparr>
               | None \<Rightarrow> new_node (step_id s) (dict_get_or stages (step_id s) 0) (dict_get_or lanes (step_id s) 0)) (steps p);
             edges = concat (map (\<lambda>s. map (\<lambda>d. new_edge (d @ ''-'' @ step_id s) d (step_id s) Handoff) (dependencies s)) (steps p))
           in Inr (new_graph ''crewai'' mode nodes edges)))"

end
