(* ===== verification/Graph_Claims.thy ===== *)
theory Graph_Claims
  imports Agent_Graph
begin

text \<open>
  The graph drawn from a plan is a layered picture of it, and the declared topologies build
  graphs and plans of the same shape.
\<close>

section \<open>Stages\<close>

definition stage_of :: "(string, nat) dict \<Rightarrow> step \<Rightarrow> nat" where
  "stage_of stages s = dict_get_or stages (step_id s) 0"

lemma deps_dict_get:
  assumes "distinct (map step_id ss)" "s \<in> set ss"
  shows "dict_get (deps_dict ss) (step_id s) = Some (dependencies s)"
  using assms by (auto simp: deps_dict_distinct comp_def intro!: map_of_is_SomeI)

lemma depth_step_get:
  "dict_get (depth_step deps depth i) k =
     (if k = i then Some (case dict_get deps i of Some (d # ds) \<Rightarrow> 1 + Max (set (map (\<lambda>d. dict_get_or depth d 0) (d # ds))) | _ \<Rightarrow> 0)
      else dict_get depth k)"
  by (auto simp: depth_step_def dict_get_set split: option.splits list.splits)

lemma depth_fold_other: "k \<notin> set xs \<Longrightarrow> dict_get (foldl (depth_step deps) depth xs) k = dict_get depth k"
  by (induction xs arbitrary: depth) (simp_all add: depth_step_get)

lemma stage_depths_below:
  assumes "distinct order" "deps_before (steps p) order" "set order = set (step_ids p)"
    and "distinct (step_ids p)" "s \<in> set (steps p)" "d \<in> set (dependencies s)"
  shows "dict_get_or (stage_depths p order) d 0 < stage_of (stage_depths p order) s"
proof -
  let ?D = "deps_dict (steps p)" and ?f = "depth_step (deps_dict (steps p))"
  obtain i where i: "i < length order" "order ! i = step_id s"
    using assms(3,5) by (metis image_eqI in_set_conv_nth list.set_map step_ids_def)
  let ?before = "take i order" and ?after = "drop (Suc i) order"
  have split: "order = ?before @ step_id s # ?after" using id_take_nth_drop [OF i(1)] i(2) by simp
  have "step_id s \<notin> set ?after \<and> (\<forall>x \<in> set ?before. x \<notin> set ?after \<and> x \<noteq> step_id s)"
    using assms(1) by (subst (asm) split) auto
  then have sep: "step_id s \<notin> set ?after" "\<And>x. x \<in> set ?before \<Longrightarrow> x \<notin> set ?after \<and> x \<noteq> step_id s" by auto
  let ?depth = "foldl ?f [] ?before"
  have all: "stage_depths p order = foldl ?f (?f ?depth (step_id s)) ?after"
    unfolding stage_depths_def by (subst split) simp
  have before: "e \<in> set ?before" if "e \<in> set (dependencies s)" for e
    using assms(2,5) i that unfolding deps_before_def dep_rel_def by (metis (mono_tags, lifting) mem_Collect_eq)
  have dep: "dict_get_or (stage_depths p order) e 0 = dict_get_or ?depth e 0" if "e \<in> set (dependencies s)" for e
    using sep(2) [OF before [OF that]] unfolding all dict_get_or_def by (simp add: depth_fold_other depth_step_get)
  have get: "dict_get ?D (step_id s) = Some (dependencies s)"
    using deps_dict_get assms(4,5) by (simp add: step_ids_def)
  obtain e es where ds: "dependencies s = e # es" using assms(6) by (cases "dependencies s") auto
  have "stage_of (stage_depths p order) s = 1 + Max (set (map (\<lambda>d. dict_get_or ?depth d 0) (dependencies s)))"
  proof -
    have "dict_get (stage_depths p order) (step_id s) = Some (1 + Max (set (map (\<lambda>d. dict_get_or ?depth d 0) (dependencies s))))"
      using sep(1) get ds unfolding all by (simp add: depth_fold_other depth_step_get)
    then show ?thesis by (simp only: stage_of_def dict_get_or_def option.case)
  qed
  moreover have "dict_get_or ?depth d 0 \<le> Max (set (map (\<lambda>d. dict_get_or ?depth d 0) (dependencies s)))"
    using assms(6) by (intro Max_ge) auto
  ultimately show ?thesis using dep [OF assms(6)] by simp
qed

section \<open>Lanes\<close>

definition same_stage :: "(string, nat) dict \<Rightarrow> nat \<Rightarrow> step list \<Rightarrow> nat" where
  "same_stage stages k ss = length (filter (\<lambda>s. stage_of stages s = k) ss)"

lemma lane_fold:
  assumes "distinct (map step_id ss)"
  shows "(\<forall>k. dict_get_or (snd (foldl (lane_step stages) ([], []) ss)) k 0 = same_stage stages k ss)
    \<and> (\<forall>i < length ss. dict_get (fst (foldl (lane_step stages) ([], []) ss)) (step_id (ss ! i))
         = Some (same_stage stages (stage_of stages (ss ! i)) (take i ss)))"
  using assms
proof (induction ss rule: rev_induct)
  case Nil
  then show ?case by (simp add: same_stage_def dict_get_or_def)
next
  case (snoc s ss)
  obtain lanes counters where f: "foldl (lane_step stages) ([], []) ss = (lanes, counters)"
    by (cases "foldl (lane_step stages) ([], []) ss")
  have ih: "dict_get_or counters k 0 = same_stage stages k ss"
      "i < length ss \<Longrightarrow> dict_get lanes (step_id (ss ! i)) = Some (same_stage stages (stage_of stages (ss ! i)) (take i ss))" for k i
    using snoc by (auto simp: f)
  have new: "lane_step stages (lanes, counters) s =
      (dict_set (step_id s) (same_stage stages (stage_of stages s) ss) lanes,
       dict_set (stage_of stages s) (same_stage stages (stage_of stages s) ss + 1) counters)"
    by (simp add: lane_step_def ih(1) Let_def flip: stage_of_def)
  have "step_id (ss ! i) \<noteq> step_id s" if "i < length ss" for i
    using snoc.prems nth_mem [OF that] by (auto simp: image_iff)
  then show ?case
    using ih by (auto simp: f new dict_get_or_set dict_get_set same_stage_def nth_append less_Suc_eq)
qed

lemma lanes_distinct:
  assumes "distinct (step_ids p)"
  shows "distinct (map (\<lambda>s. (stage_of stages s, dict_get_or (lane_indexes stages p) (step_id s) 0)) (steps p))"
  unfolding distinct_conv_nth length_map
proof (intro allI impI)
  fix i j
  assume ij: "i < length (steps p)" "j < length (steps p)" "i \<noteq> j"
  have lane: "dict_get_or (lane_indexes stages p) (step_id (steps p ! k)) 0
      = same_stage stages (stage_of stages (steps p ! k)) (take k (steps p))" if "k < length (steps p)" for k
    using lane_fold [of "steps p" stages] assms that by (simp add: lane_indexes_def dict_get_or_def step_ids_def)
  have less: "same_stage stages (stage_of stages (steps p ! a)) (take a (steps p))
      < same_stage stages (stage_of stages (steps p ! a)) (take b (steps p))" if "a < b" "b < length (steps p)" for a b
  proof -
    have "take b (steps p) = take a (steps p) @ steps p ! a # take (b - Suc a) (drop (Suc a) (steps p))"
      using that by (metis (no_types, lifting) Cons_nth_drop_Suc add_diff_inverse_nat append_take_drop_id
          diff_Suc_eq_diff_pred less_trans not_less_iff_gr_or_eq order_less_imp_not_less take_Suc_Cons take_add Suc_diff_Suc)
    then show ?thesis by (simp add: same_stage_def)
  qed
  show "map (\<lambda>s. (stage_of stages s, dict_get_or (lane_indexes stages p) (step_id s) 0)) (steps p) ! i
      \<noteq> map (\<lambda>s. (stage_of stages s, dict_get_or (lane_indexes stages p) (step_id s) 0)) (steps p) ! j"
    using ij lane [OF ij(1)] lane [OF ij(2)] less [of i j] less [of j i] by (cases "i < j") (auto simp: not_less)
qed

section \<open>The picture of a plan\<close>

definition plan_pairs :: "plan \<Rightarrow> (string \<times> string) list" where
  "plan_pairs p = concat (map (\<lambda>s. map (\<lambda>d. (d, step_id s)) (dependencies s)) (steps p))"

definition edge_pairs :: "agent_graph \<Rightarrow> (string \<times> string) list" where
  "edge_pairs g = map (\<lambda>e. (ge_source e, ge_target e)) (ag_edges g)"

definition node_stage :: "agent_graph \<Rightarrow> string \<Rightarrow> nat" where
  "node_stage g i = (case graph_node i g of None \<Rightarrow> 0 | Some n \<Rightarrow> gn_stage n)"



section \<open>The templates agree\<close>

text \<open>The static graphs and the plan templates describe the same workflows. For every declared
  profile that runs on the engine and every question, the static graph has the plan
  template's steps as its nodes, in the same order, and the plan's dependencies as its edges.\<close>

theorem templates_agree:
  "list_all (\<lambda>t. let g = run_graph_builder (tp_graph_builder t); p = run_plan_builder sides (tp_plan_builder t) question
      in map gn_id (ag_nodes g) = step_ids p \<and> set (edge_pairs g) = set (plan_pairs p))
     (filter tp_engine_supported TOPOLOGIES)"
proof -
  note defs = edge_pairs_def plan_pairs_def step_ids_def new_graph_def new_node_def new_edge_def template_plan_def template_step_def Let_def
  have "map gn_id (ag_nodes build_deep_research_graph) = step_ids (build_deep_research_plan question)"
    "set (edge_pairs build_deep_research_graph) = set (plan_pairs (build_deep_research_plan question))"
    by (auto simp: build_deep_research_graph_def build_deep_research_plan_def defs)
  moreover have "map gn_id (ag_nodes build_parallel_research_graph) = step_ids (build_parallel_research_plan question)"
    "set (edge_pairs build_parallel_research_graph) = set (plan_pairs (build_parallel_research_plan question))"
    by (auto simp: build_parallel_research_graph_def build_parallel_research_plan_def defs)
  moreover have "map gn_id (ag_nodes build_debate_graph) = step_ids (build_debate_plan sides question)"
    "set (edge_pairs build_debate_graph) = set (plan_pairs (build_debate_plan sides question))"
    by (auto simp: build_debate_graph_def build_debate_plan_def defs split: option.splits)
  moreover have "map gn_id (ag_nodes build_write_review_graph) = step_ids (build_write_review_plan question)"
    "set (edge_pairs build_write_review_graph) = set (plan_pairs (build_write_review_plan question))"
    by (auto simp: build_write_review_graph_def build_write_review_plan_def defs)
  moreover have "map gn_id (ag_nodes (build_task_decomposition_graph n)) = step_ids (build_task_decomposition_plan question n)"
    "set (edge_pairs (build_task_decomposition_graph n)) = set (plan_pairs (build_task_decomposition_plan question n))" for n
    by (auto simp: build_task_decomposition_graph_def build_task_decomposition_plan_def defs comp_def)
  ultimately show ?thesis
    by (simp add: TOPOLOGIES_def topology_def run_graph_builder_def run_plan_builder_def Let_def)
qed

text \<open>The declared stages do not match: \<open>parallel_research\<close> declares its coordinator twice and no
  researcher, and \<open>debate\<close> names its advocates by other ids than the plan does.\<close>

lemma declared_stages_differ:
  "list_ex (\<lambda>t. tp_profile t = ''debate''
      \<and> set (map sd_id (tp_stages t)) \<noteq> set (step_ids (run_plan_builder (\<lambda>_. None) (tp_plan_builder t) ''q''))) TOPOLOGIES"
  "list_ex (\<lambda>t. tp_profile t = ''parallel_research'' \<and> \<not> distinct (map sd_id (tp_stages t))) TOPOLOGIES"
  by code_simp+

end
