(* ===== verification/Lifecycle.thy ===== *)
theory Lifecycle
  imports Agent_Graph
begin

text \<open>
  The state machine of the agents' graph (\<open>agents/lifecycle.py\<close>): each callback of a run
  changes the statuses of nodes and edges and emits events. Of an event the subject and the
  new status are kept; durations, usage and cost, which are only shown, are left out.
\<close>

datatype lifecycle_event =
    EvGraph agent_graph
  | EvRun string "string list"
  | EvAgent string node_status
  | EvEdge string edge_status

record emitter =
  em_graph :: agent_graph
  em_events :: "lifecycle_event list"

definition TERMINAL :: "node_status list" where
  "TERMINAL = [NCompleted, NFailed, NCancelled]"

definition emit :: "lifecycle_event \<Rightarrow> emitter \<Rightarrow> emitter" where
  "emit ev em = em\<lparr>em_events := em_events em @ [ev]\<rparr>"

definition set_node :: "string \<Rightarrow> (agent_node \<Rightarrow> agent_node) \<Rightarrow> emitter \<Rightarrow> emitter" where
  "set_node i f em = em\<lparr>em_graph := (em_graph em)\<lparr>ag_nodes := map_at gn_id i f (ag_nodes (em_graph em))\<rparr>\<rparr>"

definition node_of :: "string \<Rightarrow> emitter \<Rightarrow> agent_node option" where
  "node_of i em = graph_node i (em_graph em)"

definition emit_run :: "string \<Rightarrow> emitter \<Rightarrow> emitter" where
  "emit_run dflt em =
     emit (EvRun (if ag_status (em_graph em) = [] then dflt else ag_status (em_graph em)) (recompute_active (em_graph em))) em"

definition emit_graph_initialized :: "emitter \<Rightarrow> emitter" where
  "emit_graph_initialized em =
     (let em' = em\<lparr>em_graph := (em_graph em)\<lparr>ag_status := ''pending''\<rparr>\<rparr> in emit (EvGraph (em_graph em')) em')"

definition emit_run_status :: "timestamp \<Rightarrow> string \<Rightarrow> emitter \<Rightarrow> emitter" where
  "emit_run_status now st em =
     (let g = em_graph em;
          g1 = (if st = ''running'' \<and> ag_started g = None then g\<lparr>ag_started := Some now\<rparr> else g);
          g2 = (if st \<in> {''completed'', ''failed'', ''cancelled''} \<and> ag_finished g1 = None then g1\<lparr>ag_finished := Some now\<rparr> else g1);
          em' = em\<lparr>em_graph := g2\<lparr>ag_status := st\<rparr>\<rparr>
      in emit (EvRun st (recompute_active (em_graph em'))) em')"

text \<open>\<open>_set_edge\<close> on the edges of a source that satisfy \<open>P\<close>, one after the other; an edge already in
  the status is not reported.\<close>

definition edge_moves :: "edge_status list \<Rightarrow> agent_edge \<Rightarrow> lifecycle_event list" where
  "edge_moves sts e = map (\<lambda>s. EvEdge (ge_id e) s) (filter (\<lambda>s. s \<noteq> ge_status e) sts)"

definition move_edges :: "(agent_edge \<Rightarrow> bool) \<Rightarrow> edge_status list \<Rightarrow> emitter \<Rightarrow> emitter" where
  "move_edges P sts em =
     em\<lparr>em_graph := (em_graph em)\<lparr>ag_edges := map (\<lambda>e. if P e then e\<lparr>ge_status := last sts\<rparr> else e) (ag_edges (em_graph em))\<rparr>,
        em_events := em_events em @ concat (map (edge_moves sts) (filter P (ag_edges (em_graph em))))\<rparr>"

section \<open>Agent transitions\<close>

definition emit_agent_started :: "timestamp \<Rightarrow> string \<Rightarrow> emitter \<Rightarrow> bool \<times> emitter" where
  "emit_agent_started now i em =
     (case node_of i em of
        None \<Rightarrow> (False, em)
      | Some n \<Rightarrow>
          if gn_status n \<in> set TERMINAL then (False, em)
          else if list_ex (\<lambda>e. ge_target e = i \<and> ge_status e \<noteq> ECompleted) (ag_edges (em_graph em))
          then (False, if gn_status n = NWaiting then em
                       else emit (EvAgent i NWaiting) (set_node i (\<lambda>n. n\<lparr>gn_status := NWaiting\<rparr>) em))
          else (True, emit_run ''running'' (emit (EvAgent i NRunning)
                 (set_node i (\<lambda>n. n\<lparr>gn_status := NRunning, gn_started := Some now\<rparr>) em))))"

definition emit_agent_waiting :: "string \<Rightarrow> emitter \<Rightarrow> emitter" where
  "emit_agent_waiting i em =
     (case node_of i em of
        None \<Rightarrow> em
      | Some n \<Rightarrow> if gn_status n \<in> set TERMINAL then em
          else emit (EvAgent i NWaiting) (set_node i (\<lambda>n. n\<lparr>gn_status := NWaiting\<rparr>) em))"

definition emit_agent_completed :: "timestamp \<Rightarrow> string \<Rightarrow> string option \<Rightarrow> emitter \<Rightarrow> emitter" where
  "emit_agent_completed now i summary em =
     (case node_of i em of
        None \<Rightarrow> em
      | Some n \<Rightarrow>
          if gn_status n = NCompleted \<or> gn_status n = NCancelled then em
          else emit_run ''running''
            (move_edges (\<lambda>e. ge_source e = i \<and> ge_status e = EPending) [EActive, ECompleted]
              (emit (EvAgent i NCompleted)
                (set_node i (\<lambda>n. n\<lparr>gn_status := NCompleted, gn_finished := Some now,
                   gn_output := (case summary of Some (c # cs) \<Rightarrow> Some (c # cs) | _ \<Rightarrow> gn_output n),
                   gn_error := None, gn_retrying := None\<rparr>) em))))"

definition emit_agent_cancelled :: "timestamp \<Rightarrow> string \<Rightarrow> emitter \<Rightarrow> emitter" where
  "emit_agent_cancelled now i em =
     (case node_of i em of
        None \<Rightarrow> em
      | Some n \<Rightarrow> if gn_status n \<in> set TERMINAL then em
          else emit (EvAgent i NCancelled) (set_node i (\<lambda>n. n\<lparr>gn_status := NCancelled, gn_finished := Some now\<rparr>) em))"

text \<open>The walk of \<open>cancel_downstream\<close> over the edges; the top of the stack is the head.\<close>

definition targets_of :: "agent_edge list \<Rightarrow> string \<Rightarrow> string list" where
  "targets_of es i = map ge_target (filter (\<lambda>e. ge_source e = i) es)"

function reach_loop :: "agent_edge list \<Rightarrow> string list \<Rightarrow> string list \<Rightarrow> string list" where
  "reach_loop es seen [] = seen"
| "reach_loop es seen (i # stack) =
     (let (seen', stack') = foldl push_child (seen, stack) (targets_of es i) in reach_loop es seen' stack')"
  by pat_completeness auto

termination
proof (relation "inv_image (less_than <*lex*> less_than)
    (\<lambda>(es, seen, stack). (card (set (map ge_target es) - set seen), length stack))", goal_cases)
  case (2 es seen i stack acc seen' stack')
  have "set (targets_of es i) \<subseteq> set (map ge_target es)" by (auto simp: targets_of_def)
  from push_children_progress [OF _ this, of seen stack seen' stack' i] show ?case using 2 by simp
qed auto

declare reach_loop.simps [simp del]

text \<open>The reachable set is walked in some order; here in the order it was found.\<close>

definition cancel_reachable :: "timestamp \<Rightarrow> emitter \<Rightarrow> string \<Rightarrow> emitter" where
  "cancel_reachable now em i =
     (case node_of i em of
        None \<Rightarrow> em
      | Some n \<Rightarrow> if gn_status n \<notin> set TERMINAL \<and> gn_status n \<noteq> NRunning then emit_agent_cancelled now i em else em)"

definition cancel_downstream :: "timestamp \<Rightarrow> string \<Rightarrow> emitter \<Rightarrow> emitter" where
  "cancel_downstream now i em = foldl (cancel_reachable now) em (reach_loop (ag_edges (em_graph em)) [] [i])"

definition emit_agent_failed :: "timestamp \<Rightarrow> string \<Rightarrow> string \<Rightarrow> emitter \<Rightarrow> emitter" where
  "emit_agent_failed now i err em =
     (case node_of i em of
        None \<Rightarrow> em
      | Some n \<Rightarrow>
          cancel_downstream now i
            (emit_run ''failed''
              (move_edges (\<lambda>e. ge_source e = i \<and> ge_status e \<noteq> ECompleted) [EFailed]
                (emit (EvAgent i NFailed)
                  (set_node i (\<lambda>n. n\<lparr>gn_status := NFailed, gn_finished := Some now, gn_error := Some err\<rparr>) em)))))"

definition emit_agent_retrying :: "string \<Rightarrow> nat \<Rightarrow> string \<Rightarrow> emitter \<Rightarrow> emitter" where
  "emit_agent_retrying i attempt err em =
     (case node_of i em of
        None \<Rightarrow> em
      | Some n \<Rightarrow>
          if gn_status n = NCancelled then em
          else emit_run ''running'' (emit (EvAgent i NRunning)
                 (set_node i (\<lambda>n. n\<lparr>gn_status := NRunning, gn_retrying := Some (attempt, err), gn_error := None\<rparr>) em)))"

definition cancel_one :: "timestamp \<Rightarrow> string list \<times> emitter \<Rightarrow> agent_node \<Rightarrow> string list \<times> emitter" where
  "cancel_one now acc n =
     (let (ids, em) = acc in
      case node_of (gn_id n) em of
        None \<Rightarrow> acc
      | Some m \<Rightarrow> if gn_status m \<in> set TERMINAL then acc else (ids @ [gn_id n], emit_agent_cancelled now (gn_id n) em))"

definition cancel_unfinished :: "timestamp \<Rightarrow> emitter \<Rightarrow> string list \<times> emitter" where
  "cancel_unfinished now em = foldl (cancel_one now) ([], em) (ag_nodes (em_graph em))"

definition set_current_tool :: "string \<Rightarrow> string \<times> string \<times> string \<Rightarrow> emitter \<Rightarrow> emitter" where
  "set_current_tool i tool em = (case node_of i em of None \<Rightarrow> em | Some _ \<Rightarrow> set_node i (\<lambda>n. n\<lparr>gn_tool := Some tool\<rparr>) em)"

definition clear_current_tool :: "string \<Rightarrow> emitter \<Rightarrow> emitter" where
  "clear_current_tool i em = (case node_of i em of None \<Rightarrow> em | Some _ \<Rightarrow> set_node i (\<lambda>n. n\<lparr>gn_tool := None\<rparr>) em)"

end
