(* ===== verification/Lifecycle_Claims.thy ===== *)
theory Lifecycle_Claims
  imports Lifecycle
begin

text \<open>
  What the agents' graph shows can be trusted: a failure cancels exactly what it makes
  impossible, the end of a run leaves nothing open, and a node is only ever shown running
  when everything it waits for has completed.
\<close>

section \<open>Statuses and edges under the operations\<close>

definition status_of :: "emitter \<Rightarrow> string \<Rightarrow> node_status option" where
  "status_of em i = map_option gn_status (node_of i em)"

abbreviation edges_of :: "emitter \<Rightarrow> agent_edge list" where
  "edges_of em \<equiv> ag_edges (em_graph em)"

abbreviation ids_of :: "emitter \<Rightarrow> string list" where
  "ids_of em \<equiv> map gn_id (ag_nodes (em_graph em))"

lemma status_simps [simp]:
  "status_of (emit ev em) = status_of em" "edges_of (emit ev em) = edges_of em" "ids_of (emit ev em) = ids_of em"
  "status_of (emit_run d em) = status_of em" "edges_of (emit_run d em) = edges_of em" "ids_of (emit_run d em) = ids_of em"
  "status_of (move_edges P sts em) = status_of em" "ids_of (move_edges P sts em) = ids_of em"
  "edges_of (move_edges P sts em) = map (\<lambda>e. if P e then e\<lparr>ge_status := last sts\<rparr> else e) (edges_of em)"
  "edges_of (set_node i f em) = edges_of em"
  by (simp_all add: emit_def emit_run_def move_edges_def set_node_def status_of_def node_of_def graph_node_def fun_eq_iff)

lemma status_set_node:
  assumes "\<And>n. gn_id (f n) = gn_id n"
  shows "status_of (set_node i f em) j = (if j = i then map_option (\<lambda>n. gn_status (f n)) (node_of i em) else status_of em j)"
    "ids_of (set_node i f em) = ids_of em"
  using assms
  by (simp_all add: status_of_def node_of_def graph_node_def set_node_def find_map_at map_at_keys option.map_comp comp_def)

lemma node_of_status: "node_of i em = None \<longleftrightarrow> status_of em i = None" "node_of i em = Some n \<Longrightarrow> status_of em i = Some (gn_status n)"
  by (simp_all add: status_of_def)

lemma cancelled_status:
  "status_of (emit_agent_cancelled now i em) j
     = (if j = i \<and> status_of em i \<notin> {None} \<union> Some ` set TERMINAL then Some NCancelled else status_of em j)"
  "edges_of (emit_agent_cancelled now i em) = edges_of em" "ids_of (emit_agent_cancelled now i em) = ids_of em"
  by (auto simp: emit_agent_cancelled_def status_set_node node_of_status(1) dest: node_of_status(2) split: option.splits)

section \<open>Failing fast\<close>

definition edge_rel :: "agent_edge list \<Rightarrow> (string \<times> string) set" where
  "edge_rel es = (\<lambda>e. (ge_source e, ge_target e)) ` set es"

lemma set_targets_of: "set (targets_of es i) = {k. (i, k) \<in> edge_rel es}"
  by (force simp: targets_of_def edge_rel_def)

lemma reach_loop_closure:
  "closure_inv (edge_rel es) roots seen stack \<Longrightarrow> set (reach_loop es seen stack) = reached (edge_rel es) roots"
proof (induction es seen stack rule: reach_loop.induct)
  case (2 es seen i stack)
  obtain seen' stack' where f: "foldl push_child (seen, stack) (targets_of es i) = (seen', stack')"
    by (cases "foldl push_child (seen, stack) (targets_of es i)")
  show ?case
    using 2(1) f closure_inv_push [OF 2(2) f set_targets_of] by (simp add: reach_loop.simps Let_def)
qed (simp add: reach_loop.simps closure_inv_end)

lemma reach_loop_from: "set (reach_loop es [] [i]) = {k. (i, k) \<in> (edge_rel es)\<^sup>+}"
  using reach_loop_closure [OF closure_inv_start [where stack = "[i]", OF refl]] by (auto simp: reached_def)

definition open_or_kept :: "node_status option \<Rightarrow> bool" where
  "open_or_kept st \<longleftrightarrow> st \<in> {None, Some NRunning} \<union> Some ` set TERMINAL"

lemma cancel_reachable_status:
  "status_of (cancel_reachable now em i) j
     = (if j = i \<and> \<not> open_or_kept (status_of em i) then Some NCancelled else status_of em j)"
  "edges_of (cancel_reachable now em i) = edges_of em" "ids_of (cancel_reachable now em i) = ids_of em"
  by (auto simp: cancel_reachable_def cancelled_status open_or_kept_def node_of_status(1) dest: node_of_status(2) split: option.splits)

lemma cancel_all_status:
  "status_of (foldl (cancel_reachable now) em is) j
     = (if j \<in> set is \<and> \<not> open_or_kept (status_of em j) then Some NCancelled else status_of em j)
   \<and> edges_of (foldl (cancel_reachable now) em is) = edges_of em \<and> ids_of (foldl (cancel_reachable now) em is) = ids_of em"
proof (induction "is" arbitrary: em)
  case (Cons i "is")
  have "open_or_kept (Some NCancelled)" by (simp add: open_or_kept_def TERMINAL_def)
  then show ?case using Cons.IH [of "cancel_reachable now em i"] by (auto simp: cancel_reachable_status)
qed simp

lemma cancel_downstream_status:
  "status_of (cancel_downstream now i em) j
     = (if (i, j) \<in> (edge_rel (edges_of em))\<^sup>+ \<and> \<not> open_or_kept (status_of em j) then Some NCancelled else status_of em j)"
  "edges_of (cancel_downstream now i em) = edges_of em" "ids_of (cancel_downstream now i em) = ids_of em"
  using cancel_all_status [of now em "reach_loop (edges_of em) [] [i]" j]
  by (simp_all add: cancel_downstream_def reach_loop_from)

lemma edge_rel_moved: "edge_rel (map (\<lambda>e. if P e then e\<lparr>ge_status := s\<rparr> else e) es) = edge_rel es"
  by (induction es) (auto simp: edge_rel_def)

lemma failed_edges:
  assumes "status_of em i \<noteq> None"
  shows "edges_of (emit_agent_failed now i err em)
    = map (\<lambda>e. if ge_source e = i \<and> ge_status e \<noteq> ECompleted then e\<lparr>ge_status := EFailed\<rparr> else e) (edges_of em)"
  using assms by (auto simp: emit_agent_failed_def cancel_downstream_status node_of_status(1) split: option.splits)

lemma not_kept_iff: "\<not> open_or_kept st \<longleftrightarrow> st \<in> {Some NPending, Some NQueued, Some NWaiting}"
  by (cases st; cases "the st") (auto simp: open_or_kept_def TERMINAL_def)

lemma failed_status:
  assumes "status_of em i \<noteq> None"
  shows "status_of (emit_agent_failed now i err em) j = (if j = i then Some NFailed
      else if (i, j) \<in> (edge_rel (edges_of em))\<^sup>+ \<and> status_of em j \<in> {Some NPending, Some NQueued, Some NWaiting}
           then Some NCancelled else status_of em j)"
proof -
  obtain n where n: "node_of i em = Some n" using assms by (auto simp: status_of_def)
  have "open_or_kept (Some NFailed)" by (simp add: open_or_kept_def TERMINAL_def)
  then show ?thesis
    using not_kept_iff [of "status_of em j"]
    by (auto simp add: emit_agent_failed_def n cancel_downstream_status status_set_node edge_rel_moved)
qed

text \<open>A failure cancels exactly what it makes impossible. After an agent has failed its node is
  failed; every node reachable from it along the edges that had not started (pending, queued
  or waiting) is cancelled; nodes that are running or finished, and nodes that are not
  reachable, keep their status; and none of its outgoing edges is left open.\<close>

theorem failure_cancels_downstream:
  assumes "status_of em i \<noteq> None"
  shows "status_of (emit_agent_failed now i err em) i = Some NFailed
    \<and> (\<forall>j. j \<noteq> i \<longrightarrow> status_of (emit_agent_failed now i err em) j =
        (if (i, j) \<in> (edge_rel (edges_of em))\<^sup>+ \<and> status_of em j \<in> {Some NPending, Some NQueued, Some NWaiting}
         then Some NCancelled else status_of em j))
    \<and> list_all (\<lambda>e. ge_source e = i \<longrightarrow> ge_status e \<in> {ECompleted, EFailed}) (edges_of (emit_agent_failed now i err em))"
proof -
  have "list_all (\<lambda>e. ge_source e = i \<longrightarrow> ge_status e \<in> {ECompleted, EFailed}) (edges_of (emit_agent_failed now i err em))"
    unfolding failed_edges [OF assms] list.pred_map by (simp add: list_all_iff)
  then show ?thesis using failed_status [OF assms, of now err] by simp
qed

definition demo_emitter :: emitter where
  "demo_emitter = snd (emit_agent_started 1 ''web-researcher'' (emit_agent_completed 1 ''coordinator'' None
     (snd (emit_agent_started 0 ''coordinator'' \<lparr>em_graph = build_parallel_research_graph, em_events = []\<rparr>))))"

theorem failure_cancels_downstream_witness:
  "map (status_of (emit_agent_failed 2 ''web-researcher'' ''x'' demo_emitter))
       [''coordinator'', ''web-researcher'', ''kb-researcher'', ''analyst'', ''writer'']
     = [Some NCompleted, Some NFailed, Some NPending, Some NCancelled, Some NCancelled]
   \<and> status_of (emit_agent_failed 2 ''web-researcher'' ''x'' demo_emitter) ''web-researcher'' = Some NFailed"
proof -
  have "status_of demo_emitter ''web-researcher'' \<noteq> None" by code_simp
  moreover have "map (status_of (emit_agent_failed 2 ''web-researcher'' ''x'' demo_emitter))
       [''coordinator'', ''web-researcher'', ''kb-researcher'', ''analyst'', ''writer'']
     = [Some NCompleted, Some NFailed, Some NPending, Some NCancelled, Some NCancelled]" by code_simp
  ultimately show ?thesis using failure_cancels_downstream [of demo_emitter "''web-researcher''" 2 "''x''"] by blast
qed

section \<open>Joins\<close>

text \<open>The callbacks of a run, reported the way the runtimes report them: only a running agent
  completes or fails, and only a running or failed one is retried.\<close>

inductive lifecycle_step :: "emitter \<Rightarrow> emitter \<Rightarrow> bool" where
  starts: "lifecycle_step em (snd (emit_agent_started now i em))"
| waits: "lifecycle_step em (emit_agent_waiting i em)"
| completes: "status_of em i = Some NRunning \<Longrightarrow> lifecycle_step em (emit_agent_completed now i summary em)"
| fails: "status_of em i = Some NRunning \<Longrightarrow> lifecycle_step em (emit_agent_failed now i err em)"
| retries: "status_of em i \<in> {Some NRunning, Some NFailed} \<Longrightarrow> lifecycle_step em (emit_agent_retrying i attempt err em)"
| cancels: "lifecycle_step em (emit_agent_cancelled now i em)"
| closes: "lifecycle_step em (snd (cancel_unfinished now em))"
| run_status: "lifecycle_step em (emit_run_status now st em)"

definition started :: "node_status option \<Rightarrow> bool" where
  "started st \<longleftrightarrow> st \<in> {Some NRunning, Some NCompleted, Some NFailed}"

definition join_inv :: "emitter \<Rightarrow> bool" where
  "join_inv em \<longleftrightarrow>
     (\<forall>e \<in> set (edges_of em). (ge_status e = ECompleted \<longrightarrow> status_of em (ge_source e) = Some NCompleted)
        \<and> (started (status_of em (ge_target e)) \<longrightarrow> ge_status e = ECompleted))"

lemma join_invD:
  "join_inv em \<Longrightarrow> e \<in> set (edges_of em) \<Longrightarrow> ge_status e = ECompleted \<Longrightarrow> status_of em (ge_source e) = Some NCompleted"
  "join_inv em \<Longrightarrow> e \<in> set (edges_of em) \<Longrightarrow> started (status_of em (ge_target e)) \<Longrightarrow> ge_status e = ECompleted"
  by (auto simp: join_inv_def)

text \<open>An operation that keeps the edges, no completed node, and starts nothing new.\<close>

lemma join_inv_kept:
  assumes "join_inv em" "edges_of em' = edges_of em"
    and "\<And>j. status_of em j = Some NCompleted \<Longrightarrow> status_of em' j = Some NCompleted"
    and "\<And>j. started (status_of em' j) \<Longrightarrow> started (status_of em j)"
  shows "join_inv em'"
  using assms unfolding join_inv_def by metis

lemma cancel_unfinished_status:
  "(\<forall>j. status_of (snd (cancel_unfinished now em)) j
     = (if j \<in> set (ids_of em) \<and> status_of em j \<notin> {None} \<union> Some ` set TERMINAL then Some NCancelled else status_of em j))
   \<and> edges_of (snd (cancel_unfinished now em)) = edges_of em"
proof -
  have "(\<forall>j. status_of (snd (foldl (cancel_one now) (ids, em) ns)) j
       = (if j \<in> gn_id ` set ns \<and> status_of em j \<notin> {None} \<union> Some ` set TERMINAL then Some NCancelled else status_of em j))
     \<and> edges_of (snd (foldl (cancel_one now) (ids, em) ns)) = edges_of em" for ids ns
  proof (induction ns arbitrary: em ids)
    case (Cons n ns)
    obtain ids1 em1 where one: "cancel_one now (ids, em) n = (ids1, em1)" by (cases "cancel_one now (ids, em) n")
    have st: "status_of em1 j
        = (if j = gn_id n \<and> status_of em j \<notin> {None} \<union> Some ` set TERMINAL then Some NCancelled else status_of em j)"
      and ed: "edges_of em1 = edges_of em" for j
      using one by (auto simp: cancel_one_def cancelled_status node_of_status(1) dest: node_of_status(2) split: option.splits if_splits)
    have "Some NCancelled \<in> {None} \<union> Some ` set TERMINAL" by (simp add: TERMINAL_def)
    then show ?case using Cons.IH [of ids1 em1] st ed one by auto
  qed simp
  from this [of "[]" "ag_nodes (em_graph em)"] show ?thesis by (simp add: cancel_unfinished_def)
qed

lemma started_status:
  "emit_agent_started now i em = (b, em') \<Longrightarrow> edges_of em' = edges_of em"
  "emit_agent_started now i em = (b, em') \<Longrightarrow> status_of em' j = status_of em j
     \<or> j = i \<and> status_of em i \<notin> {None} \<union> Some ` set TERMINAL
       \<and> (status_of em' i = Some NWaiting \<or> status_of em' i = Some NRunning \<and> list_all (\<lambda>e. ge_target e = i \<longrightarrow> ge_status e = ECompleted) (edges_of em))"
  by (auto simp: emit_agent_started_def status_set_node list_ex_iff list_all_iff dest: node_of_status(2) split: option.splits if_splits)

lemma completed_effect:
  assumes "status_of em i = Some NRunning"
  shows "status_of (emit_agent_completed now i summary em) j = (if j = i then Some NCompleted else status_of em j)"
    "edges_of (emit_agent_completed now i summary em)
       = map (\<lambda>e. if ge_source e = i \<and> ge_status e = EPending then e\<lparr>ge_status := ECompleted\<rparr> else e) (edges_of em)"
  using assms by (auto simp: emit_agent_completed_def status_set_node node_of_status(1) dest: node_of_status(2) split: option.splits)

lemma lifecycle_step_join:
  assumes "lifecycle_step em em'" "join_inv em"
  shows "join_inv em'"
  using assms(1)
proof cases
  case (starts now i)
  obtain b where s: "emit_agent_started now i em = (b, em')" using starts by (cases "emit_agent_started now i em") simp
  note st = started_status [OF s]
  show ?thesis
    unfolding join_inv_def st(1)
  proof (intro ballI conjI impI)
    fix e assume e: "e \<in> set (edges_of em)"
    show "status_of em' (ge_source e) = Some NCompleted" if "ge_status e = ECompleted"
      using join_invD(1) [OF assms(2) e that] st(2) [of "ge_source e"] by (auto simp: TERMINAL_def)
    show "ge_status e = ECompleted" if "started (status_of em' (ge_target e))"
      using join_invD(2) [OF assms(2) e] st(2) [of "ge_target e"] that e by (auto simp: started_def list_all_iff)
  qed
next
  case (waits i)
  then have ed: "edges_of em' = edges_of em" and st: "status_of em' j = status_of em j
      \<or> j = i \<and> status_of em i \<notin> {None} \<union> Some ` set TERMINAL \<and> status_of em' i = Some NWaiting" for j
    by (auto simp: emit_agent_waiting_def status_set_node dest: node_of_status(2) split: option.splits)
  show ?thesis
  proof (rule join_inv_kept [OF assms(2) ed])
    show "status_of em' j = Some NCompleted" if "status_of em j = Some NCompleted" for j
      using st [of j] that by (auto simp: TERMINAL_def)
    show "started (status_of em j)" if "started (status_of em' j)" for j
      using st [of j] that by (auto simp: started_def)
  qed
next
  case (completes i now summary)
  note st = completed_effect [OF completes(2), of now summary, folded completes(1)]
  show ?thesis
    unfolding join_inv_def
  proof (intro ballI conjI impI)
    fix e assume "e \<in> set (edges_of em')"
    then obtain d where d: "d \<in> set (edges_of em)" "e = (if ge_source d = i \<and> ge_status d = EPending then d\<lparr>ge_status := ECompleted\<rparr> else d)"
      unfolding st(2) by auto
    show "status_of em' (ge_source e) = Some NCompleted" if "ge_status e = ECompleted"
      using that d join_invD(1) [OF assms(2) d(1)] by (auto simp: st(1) split: if_splits)
    show "ge_status e = ECompleted" if "started (status_of em' (ge_target e))"
      using that d join_invD(2) [OF assms(2) d(1)] completes(2) by (auto simp: st(1) started_def split: if_splits)
  qed
next
  case (fails i now err)
  have some: "status_of em i \<noteq> None" using fails(2) by simp
  note st = failed_status [OF some, of now err, folded fails(1)]
  have ed: "edges_of em' = map (\<lambda>e. if ge_source e = i \<and> ge_status e \<noteq> ECompleted then e\<lparr>ge_status := EFailed\<rparr> else e) (edges_of em)"
    using failed_edges [OF some] fails(1) by simp
  show ?thesis
    unfolding join_inv_def
  proof (intro ballI conjI impI)
    fix e assume "e \<in> set (edges_of em')"
    then obtain d where d: "d \<in> set (edges_of em)" "e = (if ge_source d = i \<and> ge_status d \<noteq> ECompleted then d\<lparr>ge_status := EFailed\<rparr> else d)"
      unfolding ed by auto
    show "status_of em' (ge_source e) = Some NCompleted" if "ge_status e = ECompleted"
      using that d join_invD(1) [OF assms(2) d(1)] fails(2) by (auto simp: st split: if_splits)
    show "ge_status e = ECompleted" if "started (status_of em' (ge_target e))"
    proof -
      have "started (status_of em (ge_target d))"
        using that d(2) fails(2) by (auto simp: st started_def split: if_splits)
      then show ?thesis using join_invD(2) [OF assms(2) d(1)] d(2) by simp
    qed
  qed
next
  case (retries i attempt err)
  then have ed: "edges_of em' = edges_of em" and st: "status_of em' j = (if j = i then Some NRunning else status_of em j)" for j
    by (auto simp: emit_agent_retrying_def status_set_node node_of_status(1) dest: node_of_status(2) split: option.splits)
  show ?thesis
  proof (rule join_inv_kept [OF assms(2) ed])
    show "status_of em' j = Some NCompleted" if "status_of em j = Some NCompleted" for j
      using st [of j] that retries(2) by auto
    show "started (status_of em j)" if "started (status_of em' j)" for j
      using st [of j] that retries(2) by (auto simp: started_def split: if_splits)
  qed
next
  case (cancels now i)
  then show ?thesis
    by (intro join_inv_kept [OF assms(2)]) (auto simp: cancelled_status started_def TERMINAL_def split: if_splits)
next
  case (closes now)
  then show ?thesis
    using cancel_unfinished_status [of now em]
    by (intro join_inv_kept [OF assms(2)]) (auto simp: started_def TERMINAL_def split: if_splits)
next
  case (run_status now st)
  then have "edges_of em' = edges_of em" "status_of em' = status_of em"
    by (auto simp: emit_run_status_def Let_def emit_def status_of_def node_of_def graph_node_def fun_eq_iff)
  then show ?thesis using assms(2) by (simp add: join_inv_def)
qed



text \<open>Only a failure report can move a cancelled node: \<open>emit_agent_failed\<close> has no guard, so a late
  report turns a cancelled node into a failed one, which may then be retried.\<close>

lemma cancelled_node_revived:
  "status_of (emit_agent_retrying ''a'' 2 ''x'' (emit_agent_failed 1 ''a'' ''x'' (emit_agent_cancelled 0 ''a''
     \<lparr>em_graph = new_graph ''native'' Sequential [new_node ''a'' 0 0] [], em_events = []\<rparr>))) ''a'' = Some NRunning"
  by code_simp

end
