(* ===== verification/Apply_Patch.thy ===== *)
theory Apply_Patch
  imports Texts
begin

text \<open>
  The structured edit format of the agents (\<open>agents/apply_patch.py\<close>): a line-oriented parser
  from patch text to file operations, and an applier on an in-memory map from paths to
  lines. Each exception is a value; the map is returned as it was when the exception was
  raised, since the code mutates it in place.
\<close>

section \<open>Data\<close>

datatype line_kind = Ctx | Minus | Plus

type_synonym hunk = "(line_kind \<times> string) list"

datatype patch_action = ActAdd | ActDelete | ActUpdate

record file_op =
  fo_action :: patch_action
  fo_path :: string
  fo_move_to :: "string option"
  fo_content :: "string list"
  fo_hunks :: "hunk list"

datatype patch_error = DeleteNotFound string | UpdateNotFound string | HunkNotFound "string list"

definition new_op :: "patch_action \<Rightarrow> string \<Rightarrow> file_op" where
  "new_op a p = \<lparr>fo_action = a, fo_path = p, fo_move_to = None, fo_content = [], fo_hunks = []\<rparr>"

section \<open>The parser\<close>

definition starts_with :: "string \<Rightarrow> string \<Rightarrow> bool" where
  "starts_with s pre \<longleftrightarrow> take (length pre) s = pre"

text \<open>\<open>str.splitlines\<close> on the line breaks a text of one-byte characters can hold.\<close>

definition is_break :: "char \<Rightarrow> bool" where
  "is_break c \<longleftrightarrow> (let n = (of_char c :: nat) in (10 \<le> n \<and> n \<le> 13) \<or> (28 \<le> n \<and> n \<le> 30) \<or> n = 133)"

fun split_lines :: "string \<Rightarrow> string \<Rightarrow> string list" where
  "split_lines acc [] = (if acc = [] then [] else [rev acc])"
| "split_lines acc (c # s) =
     (if is_break c
      then rev acc # (case s of
             d # t \<Rightarrow> if c = CHR 0x0D \<and> d = CHR 0x0A then split_lines [] t else split_lines [] s
           | [] \<Rightarrow> [])
      else split_lines (c # acc) s)"

text \<open>The loop's variables: the operations so far, whether \<open>current\<close> is the last of them, and the
  hunk being read.\<close>

record patch_state =
  ps_ops :: "file_op list"
  ps_current :: bool
  ps_hunk :: "hunk option"

definition update_current :: "(file_op \<Rightarrow> file_op) \<Rightarrow> patch_state \<Rightarrow> patch_state" where
  "update_current f st = st\<lparr>ps_ops := butlast (ps_ops st) @ [f (last (ps_ops st))]\<rparr>"

definition flush_hunk :: "patch_state \<Rightarrow> patch_state" where
  "flush_hunk st =
     (case ps_hunk st of
        Some (l # ls) \<Rightarrow>
          (if ps_current st then update_current (\<lambda>op. op\<lparr>fo_hunks := fo_hunks op @ [l # ls]\<rparr>) st else st)\<lparr>ps_hunk := None\<rparr>
      | _ \<Rightarrow> st\<lparr>ps_hunk := None\<rparr>)"

definition open_op :: "patch_action \<Rightarrow> string \<Rightarrow> patch_state \<Rightarrow> patch_state" where
  "open_op a path st =
     (let st' = flush_hunk st in st'\<lparr>ps_ops := ps_ops st' @ [new_op a path], ps_current := True\<rparr>)"

definition hunk_line :: "string \<Rightarrow> line_kind \<times> string" where
  "hunk_line raw =
     (if starts_with raw ''+'' then (Plus, tl raw)
      else if starts_with raw ''-'' then (Minus, tl raw)
      else if starts_with raw ''@@'' then (Ctx, py_lstrip (drop 2 raw))
      else (Ctx, raw))"

definition content_line :: "string \<Rightarrow> patch_state \<Rightarrow> patch_state" where
  "content_line raw st =
     (if \<not> ps_current st then st
      else if fo_action (last (ps_ops st)) = ActAdd
      then update_current (\<lambda>op. op\<lparr>fo_content := fo_content op @ [if starts_with raw ''+'' then tl raw else raw]\<rparr>) st
      else st\<lparr>ps_hunk := Some ((case ps_hunk st of None \<Rightarrow> [] | Some h \<Rightarrow> h) @ [hunk_line raw])\<rparr>)"

definition ADD_FILE :: string where "ADD_FILE = ''*** Add File:''"
definition DELETE_FILE :: string where "DELETE_FILE = ''*** Delete File:''"
definition UPDATE_FILE :: string where "UPDATE_FILE = ''*** Update File:''"
definition MOVE_TO :: string where "MOVE_TO = ''*** Move to:''"

definition patch_line :: "patch_state \<Rightarrow> string \<Rightarrow> patch_state" where
  "patch_line st raw =
     (let s = py_strip raw; rest = (\<lambda>pre. py_strip (drop (length pre) s)) in
      if starts_with s ADD_FILE then open_op ActAdd (rest ADD_FILE) st
      else if starts_with s DELETE_FILE then open_op ActDelete (rest DELETE_FILE) st
      else if starts_with s UPDATE_FILE then open_op ActUpdate (rest UPDATE_FILE) st
      else if starts_with s MOVE_TO \<and> ps_current st then update_current (\<lambda>op. op\<lparr>fo_move_to := Some (rest MOVE_TO)\<rparr>) st
      else if starts_with s ''*** End of File'' then st
      else if starts_with s ''***'' then (flush_hunk st)\<lparr>ps_current := False\<rparr>
      else content_line raw st)"

definition parse_lines :: "string list \<Rightarrow> file_op list" where
  "parse_lines ls =
     (let body = tl (dropWhile (\<lambda>l. \<not> starts_with (py_strip l) ''*** Begin Patch'') ls)
      in ps_ops (flush_hunk (foldl patch_line \<lparr>ps_ops = [], ps_current = False, ps_hunk = None\<rparr>
           (takeWhile (\<lambda>l. \<not> starts_with (py_strip l) ''*** End Patch'') body))))"

definition parse_patch :: "string \<Rightarrow> file_op list" where
  "parse_patch t = parse_lines (split_lines [] t)"

section \<open>The applier\<close>

definition matches_at :: "string list \<Rightarrow> string list \<Rightarrow> nat \<Rightarrow> bool" where
  "matches_at hay needle i \<longleftrightarrow> map py_strip (take (length needle) (drop i hay)) = map py_strip needle"

definition find_subseq :: "string list \<Rightarrow> string list \<Rightarrow> nat option" where
  "find_subseq hay needle =
     (if needle = [] then None
      else List.find (matches_at hay needle) [0..<Suc (length hay) - length needle])"

definition needle_of :: "hunk \<Rightarrow> string list" where
  "needle_of h = map snd (filter (\<lambda>(k, t). k \<noteq> Plus) h)"

definition replacement_of :: "hunk \<Rightarrow> string list" where
  "replacement_of h = map snd (filter (\<lambda>(k, t). k \<noteq> Minus) h)"

definition apply_hunk :: "string list \<Rightarrow> hunk \<Rightarrow> patch_error + string list" where
  "apply_hunk lines h =
     (if needle_of h = [] then Inr (lines @ map snd (filter (\<lambda>(k, t). k = Plus) h))
      else (case find_subseq lines (needle_of h) of
              None \<Rightarrow> Inl (HunkNotFound (take 3 (needle_of h)))
            | Some i \<Rightarrow> Inr (take i lines @ replacement_of h @ drop (i + length (needle_of h)) lines)))"

fun apply_hunks :: "string list \<Rightarrow> hunk list \<Rightarrow> patch_error + string list" where
  "apply_hunks src [] = Inr src"
| "apply_hunks src (h # hs) = rbind (apply_hunk src h) (\<lambda>src'. apply_hunks src' hs)"

type_synonym files = "(string, string list) dict"

text \<open>One operation: the deltas are the paths and actions reported.\<close>

definition apply_op :: "file_op \<Rightarrow> files \<Rightarrow> (patch_error + string \<times> patch_action) \<times> files" where
  "apply_op op files =
     (case fo_action op of
        ActAdd \<Rightarrow> (Inr (fo_path op, ActAdd), dict_set (fo_path op) (fo_content op) files)
      | ActDelete \<Rightarrow>
          if dict_get files (fo_path op) = None then (Inl (DeleteNotFound (fo_path op)), files)
          else (Inr (fo_path op, ActDelete), dict_pop (fo_path op) files)
      | ActUpdate \<Rightarrow>
          (case dict_get files (fo_path op) of
             None \<Rightarrow> (Inl (UpdateNotFound (fo_path op)), files)
           | Some src \<Rightarrow>
               (case apply_hunks src (fo_hunks op) of
                  Inl e \<Rightarrow> (Inl e, files)
                | Inr src' \<Rightarrow>
                    (let target = (case fo_move_to op of Some (c # cs) \<Rightarrow> c # cs | _ \<Rightarrow> fo_path op);
                         stored = dict_set target src' files
                     in (Inr (target, ActUpdate), if target \<noteq> fo_path op then dict_pop (fo_path op) stored else stored)))))"

fun apply_ops :: "file_op list \<Rightarrow> files \<Rightarrow> (patch_error + (string \<times> patch_action) list) \<times> files" where
  "apply_ops [] files = (Inr [], files)"
| "apply_ops (op # ops) files =
     (case apply_op op files of
        (Inl e, files') \<Rightarrow> (Inl e, files')
      | (Inr d, files') \<Rightarrow>
          (case apply_ops ops files' of
             (Inl e, fs) \<Rightarrow> (Inl e, fs)
           | (Inr ds, fs) \<Rightarrow> (Inr (d # ds), fs)))"

section \<open>Applying a hunk\<close>

lemma find_subseq_Some:
  assumes "find_subseq hay needle = Some i"
  shows "i + length needle \<le> length hay" "matches_at hay needle i" "\<And>j. j < i \<Longrightarrow> \<not> matches_at hay needle j"
proof -
  let ?n = "Suc (length hay) - length needle"
  have f: "needle \<noteq> []" "List.find (matches_at hay needle) [0..<?n] = Some i"
    using assms by (auto simp: find_subseq_def split: if_splits)
  obtain k where k: "k < ?n" "matches_at hay needle ([0..<?n] ! k)" "i = [0..<?n] ! k"
      "\<forall>j<k. \<not> matches_at hay needle ([0..<?n] ! j)"
    using f(2) by (auto simp: find_Some_iff)
  then have "i = k" by simp
  then show "i + length needle \<le> length hay" "matches_at hay needle i" "\<And>j. j < i \<Longrightarrow> \<not> matches_at hay needle j"
    using k f(1) by (auto simp: length_greater_0_conv [symmetric] simp del: length_greater_0_conv)
qed

lemma find_subseq_None:
  assumes "find_subseq hay needle = None" "needle \<noteq> []" "i + length needle \<le> length hay"
  shows "\<not> matches_at hay needle i"
  using assms by (auto simp: find_subseq_def find_None_iff)

text \<open>A hunk is spliced in at its first place. Applying a hunk with context or removed lines either
  finds them, compared without surrounding white space, as consecutive lines, replaces the
  first such stretch by the hunk's context and added lines and keeps everything before and
  after it; or, when no stretch of the file matches, is refused and reports the lines.\<close>

theorem apply_hunk_splices:
  assumes "needle_of h \<noteq> []"
  shows "case apply_hunk lines h of
      Inr out \<Rightarrow> (\<exists>pre mid post. lines = pre @ mid @ post \<and> map py_strip mid = map py_strip (needle_of h)
          \<and> out = pre @ replacement_of h @ post \<and> (\<forall>j < length pre. \<not> matches_at lines (needle_of h) j))
    | Inl e \<Rightarrow> e = HunkNotFound (take 3 (needle_of h))
        \<and> (\<forall>pre mid post. lines = pre @ mid @ post \<longrightarrow> map py_strip mid \<noteq> map py_strip (needle_of h))"
proof (cases "find_subseq lines (needle_of h)")
  case None
  have "map py_strip mid \<noteq> map py_strip (needle_of h)" if l: "lines = pre @ mid @ post" for pre mid post
  proof
    assume eq: "map py_strip mid = map py_strip (needle_of h)"
    then have len: "length mid = length (needle_of h)" by (rule map_eq_imp_length_eq)
    then have "\<not> matches_at lines (needle_of h) (length pre)"
      using l by (intro find_subseq_None [OF None assms]) simp
    then show False using eq len l by (simp add: matches_at_def)
  qed
  then show ?thesis using assms None by (simp add: apply_hunk_def)
next
  case (Some i)
  note f = find_subseq_Some [OF Some]
  let ?n = "length (needle_of h)"
  have "lines = take i lines @ take ?n (drop i lines) @ drop (i + ?n) lines"
    by (metis append_take_drop_id drop_drop add.commute)
  moreover have "map py_strip (take ?n (drop i lines)) = map py_strip (needle_of h)"
    using f(2) by (simp add: matches_at_def)
  moreover have "\<forall>j < length (take i lines). \<not> matches_at lines (needle_of h) j" using f(3) by simp
  moreover have "apply_hunk lines h = Inr (take i lines @ replacement_of h @ drop (i + ?n) lines)"
    using assms Some by (simp add: apply_hunk_def)
  ultimately show ?thesis unfolding sum.case by (simp only: sum.case) blast
qed

theorem apply_hunk_splices_witness:
  "apply_hunk [''a'', ''b'', ''c''] [(Ctx, ''b''), (Minus, ''c''), (Plus, ''d'')] = Inr [''a'', ''b'', ''d'']
   \<and> (\<exists>pre mid post. [''a'', ''b'', ''c''] = pre @ mid @ post \<and> map py_strip mid = [''b'', ''c'']
        \<and> [''a'', ''b'', ''d''] = pre @ [''b'', ''d''] @ post)"
proof -
  let ?h = "[(Ctx, ''b''), (Minus, ''c''), (Plus, ''d'')]"
  have n: "needle_of ?h = [''b'', ''c'']" "replacement_of ?h = [''b'', ''d'']"
    by (simp_all add: needle_of_def replacement_of_def)
  have a: "apply_hunk [''a'', ''b'', ''c''] ?h = Inr [''a'', ''b'', ''d'']" by code_simp
  have s: "map py_strip [''b'', ''c''] = [''b'', ''c'']" by code_simp
  have "needle_of ?h \<noteq> []" by (simp add: n)
  from apply_hunk_splices [OF this, of "[''a'', ''b'', ''c'']", unfolded n a sum.case s]
  obtain pre mid post where "[''a'', ''b'', ''c''] = pre @ mid @ post" "map py_strip mid = [''b'', ''c'']"
      "[''a'', ''b'', ''d''] = pre @ [''b'', ''d''] @ post"
    by (elim exE conjE)
  then show ?thesis using a by (intro conjI exI)
qed

text \<open>The comparison ignores white space but the splice writes the hunk's own context lines: a hunk
  that changes nothing can still re-indent the file.\<close>

lemma context_is_rewritten:
  "apply_hunk [''def f():'', ''    return 1''] [(Ctx, ''return 1'')] = Inr [''def f():'', ''return 1'']"
  by code_simp


section \<open>What the parser can produce\<close>

definition one_hunk :: "patch_state \<Rightarrow> bool" where
  "one_hunk st \<longleftrightarrow> list_all (\<lambda>op. length (fo_hunks op) \<le> 1) (ps_ops st)
     \<and> (ps_current st \<longrightarrow> ps_ops st \<noteq> [] \<and> fo_hunks (last (ps_ops st)) = [])"

lemma one_hunk_update:
  assumes "one_hunk st" "ps_current st" "\<And>op. fo_hunks op = [] \<Longrightarrow> length (fo_hunks (f op)) \<le> 1"
  shows "list_all (\<lambda>op. length (fo_hunks op) \<le> 1) (ps_ops (update_current f st))"
  using assms by (cases "ps_ops st" rule: rev_cases) (auto simp: one_hunk_def update_current_def)

lemma one_hunk_flush:
  assumes "one_hunk st"
  shows "list_all (\<lambda>op. length (fo_hunks op) \<le> 1) (ps_ops (flush_hunk st))"
  using assms one_hunk_update [OF assms]
  by (auto simp: flush_hunk_def one_hunk_def split: option.splits list.splits)

lemma one_hunk_line: "one_hunk st \<Longrightarrow> one_hunk (patch_line st raw)"
proof -
  assume st: "one_hunk st"
  have keep: "one_hunk (update_current f st)" if "ps_current st" "\<And>op. fo_hunks (f op) = fo_hunks op" for f
    using st that by (cases "ps_ops st" rule: rev_cases) (auto simp: one_hunk_def update_current_def)
  have opened: "one_hunk (open_op a p st)" for a p
    using one_hunk_flush [OF st] by (simp add: one_hunk_def open_op_def new_op_def Let_def)
  have closed: "one_hunk ((flush_hunk st)\<lparr>ps_current := False\<rparr>)"
    using one_hunk_flush [OF st] by (simp add: one_hunk_def)
  have content: "one_hunk (content_line raw st)"
    using st keep by (simp add: content_line_def one_hunk_def)
  show ?thesis
    unfolding patch_line_def Let_def by (simp add: opened closed content st keep)
qed

text \<open>Every parsed operation has at most one hunk: the parser only closes a hunk at the next file
  header, so several \<open>@@\<close> sections of one file are merged into a single run of lines.\<close>

theorem parsed_ops_have_one_hunk: "list_all (\<lambda>op. length (fo_hunks op) \<le> 1) (parse_lines ls)"
proof -
  have "one_hunk (foldl patch_line \<lparr>ps_ops = [], ps_current = False, ps_hunk = None\<rparr> body)" for body
    by (rule foldl_inv [where P = one_hunk]) (simp_all add: one_hunk_line, simp add: one_hunk_def)
  then show ?thesis unfolding parse_lines_def Let_def by (rule one_hunk_flush)
qed

text \<open>So a patch with two sections is refused although each of its sections applies.\<close>

lemma two_sections_refused:
  "let file = (''f'', [''a'', ''b'', ''c'', ''d'', ''e'']);
       patch = [''*** Begin Patch'', ''*** Update File: f'', ''@@ a'', ''-b'', ''+x'', ''@@ d'', ''-e'', ''+y'', ''*** End Patch'']
   in apply_ops (parse_lines patch) [file] = (Inl (HunkNotFound [''a'', ''b'', ''d'']), [file])
      \<and> (case apply_hunks (snd file) [[(Ctx, ''a''), (Minus, ''b''), (Plus, ''x'')], [(Ctx, ''d''), (Minus, ''e''), (Plus, ''y'')]] of
           Inr out \<Rightarrow> out = [''a'', ''x'', ''c'', ''d'', ''y''] | Inl _ \<Rightarrow> False)"
  by code_simp

section \<open>Printing and parsing\<close>

definition header :: "string \<Rightarrow> string \<Rightarrow> string" where
  "header pre path = pre @ '' '' @ path"

fun print_hunk_line :: "line_kind \<times> string \<Rightarrow> string" where
  "print_hunk_line (Plus, t) = CHR ''+'' # t"
| "print_hunk_line (Minus, t) = CHR ''-'' # t"
| "print_hunk_line (Ctx, t) = t"

fun print_op :: "file_op \<Rightarrow> string list" where
  "print_op op =
     (case fo_action op of
        ActAdd \<Rightarrow> header ADD_FILE (fo_path op) # map (\<lambda>l. CHR ''+'' # l) (fo_content op)
      | ActDelete \<Rightarrow> [header DELETE_FILE (fo_path op)]
      | ActUpdate \<Rightarrow> header UPDATE_FILE (fo_path op)
          # (case fo_move_to op of None \<Rightarrow> [] | Some m \<Rightarrow> [header MOVE_TO m])
          @ concat (map (map print_hunk_line) (fo_hunks op)))"

definition print_patch :: "file_op list \<Rightarrow> string list" where
  "print_patch ops = [''*** Begin Patch''] @ concat (map print_op ops) @ [''*** End Patch'']"

text \<open>A context line can be printed as it is when it does not look like a marker.\<close>

definition plain_line :: "line_kind \<times> string \<Rightarrow> bool" where
  "plain_line l \<longleftrightarrow> fst l = Ctx \<longrightarrow> \<not> starts_with (snd l) ''+'' \<and> \<not> starts_with (snd l) ''-''
     \<and> \<not> starts_with (snd l) ''@@'' \<and> \<not> starts_with (py_strip (snd l)) ''***''"

definition printable :: "file_op \<Rightarrow> bool" where
  "printable op \<longleftrightarrow> py_strip (fo_path op) = fo_path op \<and>
     (case fo_action op of
        ActAdd \<Rightarrow> fo_move_to op = None \<and> fo_hunks op = []
      | ActDelete \<Rightarrow> fo_move_to op = None \<and> fo_hunks op = [] \<and> fo_content op = []
      | ActUpdate \<Rightarrow> fo_content op = [] \<and> (case fo_move_to op of None \<Rightarrow> True | Some m \<Rightarrow> py_strip m = m)
          \<and> (case fo_hunks op of [] \<Rightarrow> True | [h] \<Rightarrow> h \<noteq> [] \<and> list_all plain_line h | _ \<Rightarrow> False))"

lemma starts_with_append [simp]: "starts_with (p @ s) p"
  by (simp add: starts_with_def)

lemma py_strip_kept: "x \<noteq> [] \<Longrightarrow> \<not> is_space (hd x) \<Longrightarrow> \<not> is_space (last x) \<Longrightarrow> py_strip x = x"
  by (simp add: py_strip_def py_lstrip_keeps py_strip_keeps_last)

lemma py_strip_ends:
  assumes "py_strip p = p" "p \<noteq> []"
  shows "\<not> is_space (hd p)" "\<not> is_space (last p)"
proof -
  have "py_rstrip (py_lstrip p) = p" using assms(1) by (simp add: py_strip_def)
  moreover from this have "py_lstrip p \<noteq> []" using assms(2) by (auto simp: py_rstrip_def)
  ultimately show "\<not> is_space (hd p)" "\<not> is_space (last p)"
    using assms(2) py_rstrip_hd [of "py_lstrip p"] py_lstrip_hd [of p] py_rstrip_last [of "py_lstrip p"] by auto
qed

lemma strip_header:
  assumes "py_strip p = p" "pre \<noteq> []" "\<not> is_space (hd pre)" "\<not> is_space (last pre)"
  shows "starts_with (py_strip (header pre p)) pre" "py_strip (drop (length pre) (py_strip (header pre p))) = p"
proof -
  have "py_strip (header pre p) = (if p = [] then pre else header pre p)"
  proof (cases "p = []")
    case True
    have "py_strip (pre @ '' '') = py_rstrip (pre @ '' '')"
      using assms(2,3) by (simp add: py_strip_def py_lstrip_keeps hd_append)
    also have "\<dots> = py_rstrip pre" by (simp add: py_rstrip_def is_space_def)
    finally show ?thesis using True assms(2,4) by (simp add: header_def py_strip_keeps_last)
  next
    case False
    have "py_strip (header pre p) = header pre p"
      using assms(2,3) False py_strip_ends [OF assms(1) False]
      by (intro py_strip_kept) (auto simp: header_def hd_append)
    then show ?thesis using False by simp
  qed
  then show "starts_with (py_strip (header pre p)) pre" "py_strip (drop (length pre) (py_strip (header pre p))) = p"
    using assms(1)
    by (auto simp: header_def starts_with_def) (simp add: py_strip_def py_lstrip_def is_space_def)
qed

lemma starts_with_cong: "starts_with s p \<Longrightarrow> starts_with s q \<longleftrightarrow> take (length q) (p @ drop (length p) s) = q"
  by (metis append_take_drop_id starts_with_def)

lemma header_lines:
  assumes "py_strip p = p"
  shows "patch_line st (header ADD_FILE p) = open_op ActAdd p st"
    "patch_line st (header DELETE_FILE p) = open_op ActDelete p st"
    "patch_line st (header UPDATE_FILE p) = open_op ActUpdate p st"
    "ps_current st \<Longrightarrow> patch_line st (header MOVE_TO p) = update_current (\<lambda>op. op\<lparr>fo_move_to := Some p\<rparr>) st"
proof -
  have n: "\<not> is_space CHR ''*''" "\<not> is_space CHR '':''" by (simp_all add: is_space_def)
  have a: "starts_with (py_strip (header ADD_FILE p)) ADD_FILE" "py_strip (drop (length ADD_FILE) (py_strip (header ADD_FILE p))) = p"
    using strip_header [OF assms, of ADD_FILE] n by (simp_all add: ADD_FILE_def)
  have d: "starts_with (py_strip (header DELETE_FILE p)) DELETE_FILE" "py_strip (drop (length DELETE_FILE) (py_strip (header DELETE_FILE p))) = p"
    using strip_header [OF assms, of DELETE_FILE] n by (simp_all add: DELETE_FILE_def)
  have u: "starts_with (py_strip (header UPDATE_FILE p)) UPDATE_FILE" "py_strip (drop (length UPDATE_FILE) (py_strip (header UPDATE_FILE p))) = p"
    using strip_header [OF assms, of UPDATE_FILE] n by (simp_all add: UPDATE_FILE_def)
  have m: "starts_with (py_strip (header MOVE_TO p)) MOVE_TO" "py_strip (drop (length MOVE_TO) (py_strip (header MOVE_TO p))) = p"
    using strip_header [OF assms, of MOVE_TO] n by (simp_all add: MOVE_TO_def)
  have dn: "\<not> starts_with (py_strip (header DELETE_FILE p)) ADD_FILE"
    unfolding starts_with_cong [OF d(1)] by (simp add: ADD_FILE_def DELETE_FILE_def)
  have un: "\<not> starts_with (py_strip (header UPDATE_FILE p)) ADD_FILE" "\<not> starts_with (py_strip (header UPDATE_FILE p)) DELETE_FILE"
    unfolding starts_with_cong [OF u(1)] by (simp_all add: ADD_FILE_def DELETE_FILE_def UPDATE_FILE_def)
  have mn: "\<not> starts_with (py_strip (header MOVE_TO p)) ADD_FILE" "\<not> starts_with (py_strip (header MOVE_TO p)) DELETE_FILE"
      "\<not> starts_with (py_strip (header MOVE_TO p)) UPDATE_FILE"
    unfolding starts_with_cong [OF m(1)] by (simp_all add: ADD_FILE_def DELETE_FILE_def UPDATE_FILE_def MOVE_TO_def)
  show "patch_line st (header ADD_FILE p) = open_op ActAdd p st" by (simp add: patch_line_def a Let_def)
  show "patch_line st (header DELETE_FILE p) = open_op ActDelete p st" by (simp add: patch_line_def d dn Let_def)
  show "patch_line st (header UPDATE_FILE p) = open_op ActUpdate p st" by (simp add: patch_line_def u un Let_def)
  show "ps_current st \<Longrightarrow> patch_line st (header MOVE_TO p) = update_current (\<lambda>op. op\<lparr>fo_move_to := Some p\<rparr>) st"
    by (simp add: patch_line_def m mn Let_def)
qed

lemma starts_with_prefix: "starts_with s (p @ q) \<Longrightarrow> starts_with s p"
proof -
  assume "starts_with s (p @ q)"
  then have "take (length p) (take (length (p @ q)) s) = take (length p) (p @ q)" by (simp only: starts_with_def)
  then show ?thesis by (simp add: starts_with_def)
qed

lemma not_marker:
  assumes "\<not> starts_with (py_strip raw) ''***''"
  shows "patch_line st raw = content_line raw st"
proof -
  have "\<not> starts_with (py_strip raw) (''***'' @ q)" for q
    using assms starts_with_prefix by blast
  from this [of "'' Add File:''"] this [of "'' Delete File:''"] this [of "'' Update File:''"] this [of "'' Move to:''"] this [of "'' End of File''"]
  show ?thesis
    using assms by (simp add: patch_line_def Let_def ADD_FILE_def DELETE_FILE_def UPDATE_FILE_def MOVE_TO_def)
qed


lemma hunk_line_print: "plain_line l \<Longrightarrow> hunk_line (print_hunk_line l) = l"
  by (cases l rule: print_hunk_line.cases) (auto simp: hunk_line_def plain_line_def starts_with_def)

lemma print_not_marker:
  assumes "plain_line l"
  shows "\<not> starts_with (py_strip (print_hunk_line l)) ''***''"
proof (cases l rule: print_hunk_line.cases)
  case (1 t)
  have "py_strip (CHR ''+'' # t) = py_rstrip (CHR ''+'' # t)" by (simp add: py_strip_def py_lstrip_def is_space_def)
  then show ?thesis using 1 py_rstrip_hd [of "CHR ''+'' # t"] by (cases "py_rstrip (CHR ''+'' # t)") (auto simp: starts_with_def)
next
  case (2 t)
  have "py_strip (CHR ''-'' # t) = py_rstrip (CHR ''-'' # t)" by (simp add: py_strip_def py_lstrip_def is_space_def)
  then show ?thesis using 2 py_rstrip_hd [of "CHR ''-'' # t"] by (cases "py_rstrip (CHR ''-'' # t)") (auto simp: starts_with_def)
next
  case (3 t)
  then show ?thesis using assms by (simp add: plain_line_def)
qed

text \<open>The lines of a hunk collect into the open hunk of an update.\<close>

lemma hunk_lines:
  assumes "ps_current st" "fo_action (last (ps_ops st)) \<noteq> ActAdd" "list_all plain_line h"
  shows "foldl patch_line st (map print_hunk_line h)
    = (if h = [] then st else st\<lparr>ps_hunk := Some ((case ps_hunk st of None \<Rightarrow> [] | Some h0 \<Rightarrow> h0) @ h)\<rparr>)"
  using assms
proof (induction h arbitrary: st)
  case (Cons l h)
  have one: "patch_line st (print_hunk_line l) = st\<lparr>ps_hunk := Some ((case ps_hunk st of None \<Rightarrow> [] | Some h0 \<Rightarrow> h0) @ [l])\<rparr>"
    using Cons.prems not_marker [OF print_not_marker] by (simp add: content_line_def hunk_line_print)
  show ?case using Cons.prems Cons.IH by (simp add: one)
qed simp

lemma add_lines:
  assumes "ps_current st" "ps_ops st = ops @ [op]" "fo_action op = ActAdd"
  shows "foldl patch_line st (map (\<lambda>l. CHR ''+'' # l) ls) = st\<lparr>ps_ops := ops @ [op\<lparr>fo_content := fo_content op @ ls\<rparr>]\<rparr>"
  using assms
proof (induction ls arbitrary: st op)
  case (Cons l ls)
  have "\<not> starts_with (py_strip (CHR ''+'' # l)) ''***''"
    using print_not_marker [of "(Plus, l)"] by (simp add: plain_line_def)
  then have one: "patch_line st (CHR ''+'' # l) = st\<lparr>ps_ops := ops @ [op\<lparr>fo_content := fo_content op @ [l]\<rparr>]\<rparr>"
    using Cons.prems not_marker by (simp add: content_line_def update_current_def starts_with_def)
  show ?case using Cons.prems Cons.IH [of "st\<lparr>ps_ops := ops @ [op\<lparr>fo_content := fo_content op @ [l]\<rparr>]\<rparr>" "op\<lparr>fo_content := fo_content op @ [l]\<rparr>"]
    by (simp add: one)
qed simp

lemma flushed_open: "ps_ops (open_op a p st) = ps_ops (flush_hunk st) @ [new_op a p]" "ps_current (open_op a p st)" "ps_hunk (open_op a p st) = None"
  by (simp_all add: open_op_def Let_def flush_hunk_def update_current_def split: option.splits list.splits)

lemma print_op_parses:
  assumes "printable op"
  shows "ps_ops (flush_hunk (foldl patch_line st (print_op op))) = ps_ops (flush_hunk st) @ [op]"
proof (cases "fo_action op")
  case ActAdd
  let ?st = "open_op ActAdd (fo_path op) st"
  have "foldl patch_line st (print_op op) = ?st\<lparr>ps_ops := ps_ops (flush_hunk st) @ [(new_op ActAdd (fo_path op))\<lparr>fo_content := fo_content op\<rparr>]\<rparr>"
    using assms ActAdd add_lines [of ?st "ps_ops (flush_hunk st)" "new_op ActAdd (fo_path op)" "fo_content op"] flushed_open [of ActAdd "fo_path op" st]
    by (simp add: printable_def header_lines(1) new_op_def)
  moreover have "(new_op ActAdd (fo_path op))\<lparr>fo_content := fo_content op\<rparr> = op"
    using assms ActAdd by (simp add: printable_def new_op_def)
  ultimately show ?thesis by (simp add: flush_hunk_def flushed_open)
next
  case ActDelete
  have "new_op ActDelete (fo_path op) = op" using assms ActDelete by (simp add: printable_def new_op_def)
  then show ?thesis
    using assms ActDelete flushed_open [of ActDelete "fo_path op" st]
    by (simp add: printable_def header_lines(2)) (simp add: flush_hunk_def)
next
  case ActUpdate
  let ?st = "open_op ActUpdate (fo_path op) st" and ?op = "(new_op ActUpdate (fo_path op))\<lparr>fo_move_to := fo_move_to op\<rparr>"
  define st1 where "st1 = ?st\<lparr>ps_ops := ps_ops (flush_hunk st) @ [?op]\<rparr>"
  note fo = flushed_open [of ActUpdate "fo_path op" st]
  have path: "py_strip (fo_path op) = fo_path op" using assms by (simp add: printable_def)
  have st1: "foldl patch_line st (header UPDATE_FILE (fo_path op) # (case fo_move_to op of None \<Rightarrow> [] | Some m \<Rightarrow> [header MOVE_TO m])) = st1"
  proof (cases "fo_move_to op")
    case None
    then have "st1 = ?st" using fo(1) by (simp add: st1_def new_op_def)
    then show ?thesis using None by (simp add: header_lines(3) [OF path])
  next
    case (Some m)
    then have "py_strip m = m" using assms ActUpdate by (simp add: printable_def)
    then show ?thesis using Some fo by (simp add: header_lines(3) [OF path] header_lines(4) st1_def update_current_def)
  qed
  have cur: "ps_current st1" "fo_action (last (ps_ops st1)) \<noteq> ActAdd" "ps_hunk st1 = None" "ps_ops st1 = ps_ops (flush_hunk st) @ [?op]"
    using fo by (simp_all add: st1_def new_op_def)
  have split: "foldl patch_line st (print_op op) = foldl patch_line st1 (concat (map (map print_hunk_line) (fo_hunks op)))"
    using ActUpdate st1 by simp
  show ?thesis
  proof (cases "fo_hunks op")
    case Nil
    have "?op = op" using assms ActUpdate Nil by (simp add: printable_def new_op_def)
    then show ?thesis using cur split Nil by (simp add: flush_hunk_def)
  next
    case (Cons h hs)
    then have h: "hs = []" "h \<noteq> []" "list_all plain_line h" using assms ActUpdate by (auto simp: printable_def split: list.splits)
    have "?op\<lparr>fo_hunks := [h]\<rparr> = op" using assms ActUpdate Cons h(1) by (simp add: printable_def new_op_def)
    moreover obtain l ls where "h = l # ls" using h(2) by (cases h) auto
    ultimately show ?thesis
      using cur split Cons h hunk_lines [OF cur(1,2) h(3)]
      by (simp add: flush_hunk_def update_current_def new_op_def)
  qed
qed

lemma print_ops_parse:
  "list_all printable ops \<Longrightarrow> ps_ops (flush_hunk (foldl patch_line st (concat (map print_op ops)))) = ps_ops (flush_hunk st) @ ops"
proof (induction ops arbitrary: st)
  case (Cons op ops)
  then show ?case using print_op_parses [of op st] by (simp del: print_op.simps)
qed simp


definition END_PATCH :: string where "END_PATCH = ''*** End Patch''"

lemma header_not_end:
  assumes "py_strip p = p"
  shows "\<not> starts_with (py_strip (header ADD_FILE p)) END_PATCH" "\<not> starts_with (py_strip (header DELETE_FILE p)) END_PATCH"
    "\<not> starts_with (py_strip (header UPDATE_FILE p)) END_PATCH" "\<not> starts_with (py_strip (header MOVE_TO p)) END_PATCH"
proof -
  have n: "\<not> is_space CHR ''*''" "\<not> is_space CHR '':''" by (simp_all add: is_space_def)
  have "starts_with (py_strip (header ADD_FILE p)) ADD_FILE" "starts_with (py_strip (header DELETE_FILE p)) DELETE_FILE"
    "starts_with (py_strip (header UPDATE_FILE p)) UPDATE_FILE" "starts_with (py_strip (header MOVE_TO p)) MOVE_TO"
    using strip_header(1) [OF assms, of ADD_FILE] strip_header(1) [OF assms, of DELETE_FILE]
      strip_header(1) [OF assms, of UPDATE_FILE] strip_header(1) [OF assms, of MOVE_TO] n
    by (simp_all add: ADD_FILE_def DELETE_FILE_def UPDATE_FILE_def MOVE_TO_def)
  note s = this [THEN starts_with_cong]
  show "\<not> starts_with (py_strip (header ADD_FILE p)) END_PATCH" unfolding s by (simp add: ADD_FILE_def END_PATCH_def)
  show "\<not> starts_with (py_strip (header DELETE_FILE p)) END_PATCH" unfolding s by (simp add: DELETE_FILE_def END_PATCH_def)
  show "\<not> starts_with (py_strip (header UPDATE_FILE p)) END_PATCH" unfolding s by (simp add: UPDATE_FILE_def END_PATCH_def)
  show "\<not> starts_with (py_strip (header MOVE_TO p)) END_PATCH" unfolding s by (simp add: MOVE_TO_def END_PATCH_def)
qed

lemma plain_not_end: "plain_line l \<Longrightarrow> \<not> starts_with (py_strip (print_hunk_line l)) END_PATCH"
  using print_not_marker [of l] starts_with_prefix [of _ "''***''" "'' End Patch''"] by (auto simp: END_PATCH_def)

lemma print_op_no_end:
  assumes "printable op" "l \<in> set (print_op op)"
  shows "\<not> starts_with (py_strip l) END_PATCH"
proof (cases "fo_action op")
  case ActAdd
  then show ?thesis
    using assms header_not_end plain_not_end [of "(Plus, _)"] by (auto simp: printable_def plain_line_def)
next
  case ActDelete
  then show ?thesis using assms header_not_end by (auto simp: printable_def)
next
  case ActUpdate
  then have "l = header UPDATE_FILE (fo_path op) \<or> (\<exists>m. fo_move_to op = Some m \<and> l = header MOVE_TO m)
      \<or> (\<exists>h \<in> set (fo_hunks op). \<exists>x \<in> set h. l = print_hunk_line x)"
    using assms(2) by (cases "fo_move_to op") auto
  moreover have "plain_line x" if "h \<in> set (fo_hunks op)" "x \<in> set h" for h x
    using assms(1) ActUpdate that by (auto simp: printable_def list_all_iff split: list.splits)
  ultimately show ?thesis
    using assms(1) ActUpdate header_not_end plain_not_end by (auto simp: printable_def)
qed


definition demo_patch_ops :: "file_op list" where
  "demo_patch_ops = [(new_op ActAdd ''hello.txt'')\<lparr>fo_content := [''Hello'', ''*** world'']\<rparr>,
     (new_op ActUpdate ''src/app.py'')\<lparr>fo_move_to := Some ''src/main.py'',
        fo_hunks := [[(Ctx, ''def greet():''), (Minus, ''  pass''), (Plus, ''  return 1'')]]\<rparr>,
     new_op ActDelete ''old.txt'']"


end
