(* ===== verification/Json.thy ===== *)
theory Json
  imports Texts Complex_Main
begin

text \<open>
  The values of JSON as Python holds them: what \<open>json.loads\<close> returns and what a tool call carries as
  arguments. A float is left abstract as a number; the keys of an object are distinct.
\<close>

datatype json =
    JNull
  | JBool bool
  | JInt int
  | JFloat rat
  | JStr string
  | JList "json list"
  | JDict "(string \<times> json) list"

text \<open>Truth of a value in a condition, as in \<open>value or default\<close>.\<close>

fun truthy :: "json \<Rightarrow> bool" where
  "truthy JNull = False"
| "truthy (JBool b) = b"
| "truthy (JInt n) = (n \<noteq> 0)"
| "truthy (JFloat x) = (x \<noteq> 0)"
| "truthy (JStr s) = (s \<noteq> [])"
| "truthy (JList xs) = (xs \<noteq> [])"
| "truthy (JDict d) = (d \<noteq> [])"

text \<open>\<open>list(v)\<close>: None where Python raises a \<open>TypeError\<close>.\<close>

fun py_list :: "json \<Rightarrow> json list option" where
  "py_list (JList xs) = Some xs"
| "py_list (JStr s) = Some (map (\<lambda>c. JStr [c]) s)"
| "py_list (JDict d) = Some (map (JStr \<circ> fst) d)"
| "py_list _ = None"

text \<open>\<open>str(v)\<close>, given the text of the values that are not strings.\<close>

fun py_str :: "(json \<Rightarrow> string) \<Rightarrow> json \<Rightarrow> string" where
  "py_str repr_of (JStr s) = s"
| "py_str repr_of v = repr_of v"

text \<open>\<open>str.lower\<close> on ASCII letters.\<close>

definition lower_char :: "char \<Rightarrow> char" where
  "lower_char c = (let n = (of_char c :: nat) in if 65 \<le> n \<and> n \<le> 90 then char_of (n + 32) else c)"

definition py_lower :: "string \<Rightarrow> string" where
  "py_lower s = map lower_char s"

lemma py_lower_Nil [simp]: "py_lower [] = []"
  by (simp add: py_lower_def)

text \<open>Python's \<open>needle in text\<close>.\<close>

fun py_contains :: "string \<Rightarrow> string \<Rightarrow> bool" where
  "py_contains needle [] = (needle = [])"
| "py_contains needle (c # s) = (take (length needle) (c # s) = needle \<or> py_contains needle s)"

lemma py_contains_iff: "py_contains needle s \<longleftrightarrow> (\<exists>pre post. s = pre @ needle @ post)"
proof (induction s)
  case (Cons c s)
  show ?case
  proof
    assume "py_contains needle (c # s)"
    then consider "take (length needle) (c # s) = needle" | "py_contains needle s" by auto
    then show "\<exists>pre post. c # s = pre @ needle @ post"
    proof cases
      case 1
      then have "c # s = [] @ needle @ drop (length needle) (c # s)" by (metis append_Nil append_take_drop_id)
      then show ?thesis by blast
    next
      case 2
      then obtain pre post where "s = pre @ needle @ post" using Cons.IH by blast
      then have "c # s = (c # pre) @ needle @ post" by simp
      then show ?thesis by blast
    qed
  next
    assume "\<exists>pre post. c # s = pre @ needle @ post"
    then obtain pre post where s: "c # s = pre @ needle @ post" by blast
    show "py_contains needle (c # s)"
    proof (cases pre)
      case Nil
      then have "take (length needle) (c # s) = needle" using s by simp
      then show ?thesis by simp
    next
      case (Cons d pre')
      then have "s = pre' @ needle @ post" using s by simp
      then show ?thesis using Cons.IH by auto
    qed
  qed
qed auto

end
