(* ===== verification/Tool_Policy.thy ===== *)
theory Tool_Policy
  imports Json
begin

text \<open>
  The tool safety policy (\<open>agents/policies/tool_policy.py\<close>): the risk of a tool, whether it may run at
  all, and the guard that lets only a single read-only SQL statement through. The regular
  expressions of the guard are written out as the scans they denote.
\<close>

section \<open>Risk and permission\<close>

datatype risk_level = RiskLow | RiskMedium | RiskHigh

record tool =
  tl_name :: string
  tl_dangerous :: bool
  tl_requires_user :: bool

definition DANGEROUS_TOOL_RISK :: "(string, risk_level) dict" where
  "DANGEROUS_TOOL_RISK = [(''python_exec'', RiskHigh), (''db_query'', RiskHigh)]"

definition NETWORK_TOOL_RISK :: "(string, risk_level) dict" where
  "NETWORK_TOOL_RISK = [(''http_get'', RiskMedium), (''web_search'', RiskLow), (''file_analyze'', RiskLow), (''datetime_now'', RiskLow)]"

definition risk_level_for :: "tool \<Rightarrow> risk_level" where
  "risk_level_for t =
     (if tl_dangerous t then dict_get_or DANGEROUS_TOOL_RISK (tl_name t) RiskHigh
      else dict_get_or NETWORK_TOOL_RISK (tl_name t) RiskLow)"

definition should_require_approval :: "tool \<Rightarrow> bool" where
  "should_require_approval t = tl_dangerous t"

record user =
  us_id :: uuid
  us_role :: string

record tool_settings =
  ts_env :: string
  ts_allow_python_exec :: bool
  ts_python_sandbox :: string
  ts_sandbox_mode :: string

definition is_dev :: "tool_settings \<Rightarrow> bool" where
  "is_dev s = (ts_env s = ''dev'')"

definition has_admin_role :: "user option \<Rightarrow> bool" where
  "has_admin_role u = (case u of None \<Rightarrow> False | Some v \<Rightarrow> us_role v = ''admin'')"

text \<open>None is the \<open>SandboxConfigError\<close> of an unknown mode.\<close>

definition sandbox_mode :: "tool_settings \<Rightarrow> string option" where
  "sandbox_mode s =
     (let raw = py_lower (py_strip (ts_sandbox_mode s)); mode = (if raw = [] then ''local'' else raw)
      in if mode = ''local'' \<or> mode = ''docker'' then Some mode else None)"

definition isolated_sandbox_configured :: "tool_settings \<Rightarrow> bool" where
  "isolated_sandbox_configured s =
     (if py_lower (py_strip (ts_python_sandbox s)) \<noteq> ''docker'' then False
      else (case sandbox_mode s of None \<Rightarrow> False | Some m \<Rightarrow> m = ''docker''))"

definition python_exec_enabled :: "tool_settings \<Rightarrow> bool" where
  "python_exec_enabled s = (is_dev s \<or> (ts_allow_python_exec s \<and> isolated_sandbox_configured s))"

definition is_tool_allowed :: "string set \<Rightarrow> tool_settings \<Rightarrow> string \<Rightarrow> user option \<Rightarrow> bool option \<Rightarrow> bool" where
  "is_tool_allowed disabled s name u strict0 =
     (if name \<in> disabled then False
      else (let strict = (case strict0 of None \<Rightarrow> \<not> is_dev s | Some b \<Rightarrow> b) in
        if name = ''python_exec'' \<and> strict \<and> \<not> python_exec_enabled s then False
        else if name = ''db_query'' \<and> strict \<and> \<not> has_admin_role u then False
        else True))"

section \<open>The read-only SQL guard\<close>

datatype sql_error = EmptySQL | OnlyComments | ManyStatements | NotReadOnly string | ForbiddenKeyword

text \<open>The characters of \<open>\w\<close> in a one-byte text.\<close>

definition is_word :: "char \<Rightarrow> bool" where
  "is_word c \<longleftrightarrow> (let n = (of_char c :: nat) in
     (48 \<le> n \<and> n \<le> 57) \<or> (65 \<le> n \<and> n \<le> 90) \<or> n = 95 \<or> (97 \<le> n \<and> n \<le> 122)
     \<or> n \<in> {170, 178, 179, 181, 185, 186, 188, 189, 190}
     \<or> (192 \<le> n \<and> n \<le> 214) \<or> (216 \<le> n \<and> n \<le> 246) \<or> 248 \<le> n)"

definition is_identifier :: "char \<Rightarrow> bool" where
  "is_identifier c \<longleftrightarrow> (let n = (of_char c :: nat) in (65 \<le> n \<and> n \<le> 90) \<or> n = 95 \<or> (97 \<le> n \<and> n \<le> 122))"

definition FORBIDDEN_KEYWORDS :: "string list" where
  "FORBIDDEN_KEYWORDS =
     [''insert'', ''update'', ''delete'', ''drop'', ''alter'', ''truncate'', ''merge'', ''grant'', ''revoke'', ''create'',
      ''vacuum'', ''copy'', ''attach'', ''detach'', ''pragma'', ''call'', ''exec'', ''execute'', ''into'',
      ''pg_sleep'', ''pg_terminate_backend'', ''lo_export'', ''lo_import'', ''pg_read_file'', ''pg_ls_dir'']"

fun next_is :: "char \<Rightarrow> string \<Rightarrow> bool" where
  "next_is c [] = False"
| "next_is c (d # s) = (d = c)"

lemma next_is_iff: "next_is c s \<longleftrightarrow> (\<exists>t. s = c # t)"
  by (cases s) auto

text \<open>The rest after the first end of a block comment.\<close>

fun after_close :: "string \<Rightarrow> string option" where
  "after_close [] = None"
| "after_close (c # s) =
     (if c = CHR ''*'' \<and> next_is CHR ''/'' s then Some (tl s) else after_close s)"

lemma after_close_length: "after_close s = Some r \<Longrightarrow> length r < length s"
  by (induction s) (auto split: if_splits)

text \<open>\<open>_BLOCK_COMMENT.sub\<close>: every closed block comment becomes a space.\<close>

function strip_block :: "string \<Rightarrow> string" where
  "strip_block [] = []"
| "strip_block (c # s) =
     (if c = CHR ''/'' \<and> next_is CHR ''*'' s
      then (case after_close (tl s) of Some r \<Rightarrow> CHR '' '' # strip_block r | None \<Rightarrow> c # strip_block s)
      else c # strip_block s)"
  by pat_completeness auto
termination
  by (relation "measure length") (auto dest!: after_close_length simp: less_Suc_eq_le intro: le_trans less_imp_le)

text \<open>\<open>_LINE_COMMENT.sub\<close>: the text from two dashes to the end of the line becomes a space.\<close>

function strip_line :: "string \<Rightarrow> string" where
  "strip_line [] = []"
| "strip_line (c # s) =
     (if c = CHR ''-'' \<and> next_is CHR ''-'' s then CHR '' '' # strip_line (dropWhile (\<lambda>d. d \<noteq> CHR 0x0A) (tl s))
      else c # strip_line s)"
  by pat_completeness auto
termination
  by (relation "measure length") (auto intro: le_less_trans [OF length_dropWhile_le])

definition rstrip_semicolons :: "string \<Rightarrow> string" where
  "rstrip_semicolons s = rev (dropWhile (\<lambda>c. c = CHR '';'') (rev s))"

text \<open>\<open>_FORBIDDEN_KEYWORDS.search\<close>: a keyword between two word boundaries; the flag says whether the
  character before is of a word.\<close>

definition keyword_here :: "string \<Rightarrow> bool" where
  "keyword_here s \<longleftrightarrow>
     list_ex (\<lambda>k. take (length k) (py_lower s) = k
       \<and> (case drop (length k) s of [] \<Rightarrow> True | d # _ \<Rightarrow> \<not> is_word d)) FORBIDDEN_KEYWORDS"

fun has_keyword :: "bool \<Rightarrow> string \<Rightarrow> bool" where
  "has_keyword w [] = False"
| "has_keyword w (c # s) = ((\<not> w \<and> keyword_here (c # s)) \<or> has_keyword (is_word c) s)"

definition validate_readonly_sql :: "string \<Rightarrow> sql_error + string" where
  "validate_readonly_sql sql =
     (if py_strip sql = [] then Inl EmptySQL
      else (let cleaned = strip_line (strip_block sql);
                stripped = py_strip (rstrip_semicolons (py_strip cleaned));
                first_word = py_lower (takeWhile is_identifier stripped)
        in if stripped = [] then Inl OnlyComments
           else if CHR '';'' \<in> set stripped then Inl ManyStatements
           else if first_word \<notin> {''select'', ''with''} then Inl (NotReadOnly first_word)
           else if has_keyword False stripped then Inl ForbiddenKeyword
           else Inr stripped))"

section \<open>Comments\<close>

fun has_block :: "string \<Rightarrow> bool" where
  "has_block [] = False"
| "has_block (c # s) = ((c = CHR ''/'' \<and> next_is CHR ''*'' s \<and> after_close (tl s) \<noteq> None) \<or> has_block s)"

fun has_dashes :: "string \<Rightarrow> bool" where
  "has_dashes [] = False"
| "has_dashes (c # s) = ((c = CHR ''-'' \<and> next_is CHR ''-'' s) \<or> has_dashes s)"

lemma strip_block_induct [case_names Nil comment plain]:
  assumes "P []"
    and "\<And>c s r. next_is CHR ''*'' s \<Longrightarrow> after_close (tl s) = Some r \<Longrightarrow> strip_block (c # s) = CHR '' '' # strip_block r \<Longrightarrow> P r \<Longrightarrow> P (c # s)"
    and "\<And>c s. (c = CHR ''/'' \<Longrightarrow> next_is CHR ''*'' s \<Longrightarrow> after_close (tl s) = None) \<Longrightarrow> strip_block (c # s) = c # strip_block s \<Longrightarrow> P s \<Longrightarrow> P (c # s)"
  shows "P s"
proof (induction s rule: strip_block.induct)
  case (2 c s)
  show ?case
  proof (cases "c = CHR ''/'' \<and> next_is CHR ''*'' s")
    case True
    show ?thesis
    proof (cases "after_close (tl s)")
      case None
      then show ?thesis using True "2.IH"(1) assms(3) by simp
    next
      case (Some r)
      then show ?thesis using True "2.IH"(2) assms(2) by simp
    qed
  next
    case False
    then have "strip_block (c # s) = c # strip_block s" by auto
    then show ?thesis using False "2.IH"(3) assms(3) by blast
  qed
qed (rule assms(1))

lemma strip_line_induct [case_names Nil comment plain]:
  assumes "P []"
    and "\<And>c s. strip_line (c # s) = CHR '' '' # strip_line (dropWhile (\<lambda>d. d \<noteq> CHR 0x0A) (tl s)) \<Longrightarrow> P (dropWhile (\<lambda>d. d \<noteq> CHR 0x0A) (tl s)) \<Longrightarrow> P (c # s)"
    and "\<And>c s. \<not> (c = CHR ''-'' \<and> next_is CHR ''-'' s) \<Longrightarrow> strip_line (c # s) = c # strip_line s \<Longrightarrow> P s \<Longrightarrow> P (c # s)"
  shows "P s"
proof (induction s rule: strip_line.induct)
  case (2 c s)
  show ?case
  proof (cases "c = CHR ''-'' \<and> next_is CHR ''-'' s")
    case True
    then show ?thesis using "2.IH"(1) assms(2) by simp
  next
    case False
    then have "strip_line (c # s) = c # strip_line s" by auto
    then show ?thesis using False "2.IH"(2) assms(3) by blast
  qed
qed (rule assms(1))

lemma hd_strip_block: "strip_block s = c # t \<Longrightarrow> c \<noteq> CHR '' '' \<Longrightarrow> \<exists>u. s = c # u"
  by (cases s) (auto split: if_splits option.splits)

lemma hd_strip_line: "strip_line s = c # t \<Longrightarrow> c \<noteq> CHR '' '' \<Longrightarrow> \<exists>u. s = c # u"
  by (cases s) (auto split: if_splits)

lemma after_close_tl: "after_close (tl s) \<noteq> None \<Longrightarrow> after_close s \<noteq> None"
  by (cases s) auto

lemma after_close_strip_block: "after_close (strip_block s) \<noteq> None \<Longrightarrow> after_close s \<noteq> None"
proof (induction s rule: strip_block_induct)
  case (comment c s r)
  then have "after_close s \<noteq> None" using after_close_tl [of s] by simp
  then show ?case by simp
next
  case (plain c s)
  have "c = CHR ''*'' \<and> next_is CHR ''/'' (strip_block s) \<Longrightarrow> next_is CHR ''/'' s"
    using hd_strip_block [of s] by (auto simp: next_is_iff)
  then show ?case using plain(3,4) unfolding plain(2) by (auto split: if_splits)
qed simp

lemma no_block_strip_block: "\<not> has_block (strip_block s)"
proof (induction s rule: strip_block_induct)
  case (comment c s r)
  then show ?case by simp
next
  case (plain c s)
  have False if slash: "c = CHR ''/''" and star: "next_is CHR ''*'' (strip_block s)" and closed: "after_close (tl (strip_block s)) \<noteq> None"
  proof -
    obtain t where t: "s = CHR ''*'' # t" using hd_strip_block [of s] star by (auto simp: next_is_iff)
    then have "after_close t \<noteq> None" using closed after_close_strip_block [of t] by simp
    then show False using plain(1) slash t by simp
  qed
  then show ?case using plain(3) unfolding plain(2) has_block.simps by blast
qed simp

lemma strip_block_id: "\<not> has_block s \<Longrightarrow> strip_block s = s"
  by (induction s) (auto split: option.splits)

lemma after_close_suffix: "after_close (dropWhile P s) \<noteq> None \<Longrightarrow> after_close s \<noteq> None"
  by (induction s) (auto split: if_splits)

lemma has_block_dropWhile: "has_block (dropWhile P s) \<Longrightarrow> has_block s"
  by (induction s) (auto split: if_splits)

lemma has_block_tl: "has_block (tl s) \<Longrightarrow> has_block s"
  by (cases s) auto

lemma after_close_strip_line: "after_close (strip_line s) \<noteq> None \<Longrightarrow> after_close s \<noteq> None"
proof (induction s rule: strip_line_induct)
  case (comment c s)
  then have "after_close (dropWhile (\<lambda>d. d \<noteq> CHR 0x0A) (tl s)) \<noteq> None" by simp
  then have "after_close s \<noteq> None" using after_close_suffix after_close_tl by blast
  then show ?case by simp
next
  case (plain c s)
  have "c = CHR ''*'' \<and> next_is CHR ''/'' (strip_line s) \<Longrightarrow> next_is CHR ''/'' s"
    using hd_strip_line [of s] by (auto simp: next_is_iff)
  then show ?case using plain(3,4) unfolding plain(2) by (auto split: if_splits)
qed simp

lemma has_block_strip_line: "has_block (strip_line s) \<Longrightarrow> has_block s"
proof (induction s rule: strip_line_induct)
  case (comment c s)
  then have "has_block (dropWhile (\<lambda>d. d \<noteq> CHR 0x0A) (tl s))" by simp
  then have "has_block s" using has_block_dropWhile has_block_tl by blast
  then show ?case by simp
next
  case (plain c s)
  have "next_is CHR ''*'' s \<and> after_close (tl s) \<noteq> None"
    if nx: "next_is CHR ''*'' (strip_line s)" and cl: "after_close (tl (strip_line s)) \<noteq> None"
  proof -
    obtain t where t: "s = CHR ''*'' # t" using hd_strip_line [of s] nx by (auto simp: next_is_iff)
    then show ?thesis using cl after_close_strip_line [of t] by simp
  qed
  then show ?case using plain(3,4) unfolding plain(2) by auto
qed simp

lemma no_dashes_strip_line: "\<not> has_dashes (strip_line s)"
proof (induction s rule: strip_line_induct)
  case (plain c s)
  then show ?case using hd_strip_line [of s "CHR ''-''"] by (auto simp: next_is_iff)
qed simp_all

lemma strip_line_id: "\<not> has_dashes s \<Longrightarrow> strip_line s = s"
  by (induction s) auto

text \<open>A part of a text without comments has none.\<close>

lemma after_close_append: "after_close s \<noteq> None \<Longrightarrow> after_close (s @ t) \<noteq> None"
  by (induction s) (auto simp: next_is_iff split: if_splits)

lemma has_block_append: "has_block s \<Longrightarrow> has_block (s @ t)"
proof (induction s)
  case (Cons c s)
  then show ?case using after_close_append [of "tl s" t] by (cases s) (auto simp: next_is_iff)
qed simp

lemma has_block_prepend: "has_block s \<Longrightarrow> has_block (t @ s)"
  by (induction t) auto

lemma has_dashes_append: "has_dashes s \<Longrightarrow> has_dashes (s @ t)"
  by (induction s) (auto simp: next_is_iff)

lemma has_dashes_prepend: "has_dashes s \<Longrightarrow> has_dashes (t @ s)"
  by (induction t) auto

lemma rev_dropWhile_prefix: "\<exists>t. s = rev (dropWhile P (rev s)) @ t"
proof -
  have "rev s = takeWhile P (rev s) @ dropWhile P (rev s)" by simp
  then have "s = rev (dropWhile P (rev s)) @ rev (takeWhile P (rev s))" by (metis rev_append rev_rev_ident)
  then show ?thesis by blast
qed

lemma py_strip_part: "\<exists>a b. s = a @ py_strip s @ b"
proof -
  obtain b where "dropWhile is_space s = py_strip s @ b"
    using rev_dropWhile_prefix [of "dropWhile is_space s" is_space] by (auto simp: py_strip_def py_rstrip_def py_lstrip_def)
  then have "s = takeWhile is_space s @ py_strip s @ b" using takeWhile_dropWhile_id [of is_space s] by metis
  then show ?thesis by blast
qed

lemma cleaned_part: "\<exists>a b. s = a @ py_strip (rstrip_semicolons (py_strip s)) @ b"
proof -
  obtain a b where 1: "s = a @ py_strip s @ b" using py_strip_part by blast
  obtain c where 2: "py_strip s = rstrip_semicolons (py_strip s) @ c"
    using rev_dropWhile_prefix by (auto simp: rstrip_semicolons_def)
  obtain d e where 3: "rstrip_semicolons (py_strip s) = d @ py_strip (rstrip_semicolons (py_strip s)) @ e"
    using py_strip_part by blast
  have "s = (a @ d) @ py_strip (rstrip_semicolons (py_strip s)) @ (e @ c @ b)" using 1 2 3 by (metis append.assoc)
  then show ?thesis by blast
qed

section \<open>Keywords\<close>

text \<open>The words of a text: its maximal runs of word characters.\<close>

function words :: "string \<Rightarrow> string list" where
  "words [] = []"
| "words (c # s) = (if is_word c then takeWhile is_word (c # s) # words (dropWhile is_word s) else words s)"
  by pat_completeness auto
termination
  by (relation "measure length") (auto intro: le_less_trans [OF length_dropWhile_le])

lemma keyword_chars: "k \<in> set FORBIDDEN_KEYWORDS \<Longrightarrow> k \<noteq> [] \<and> list_all is_word k"
proof -
  have "list_all (\<lambda>k. k \<noteq> [] \<and> list_all is_word k) FORBIDDEN_KEYWORDS" by code_simp
  then show "k \<in> set FORBIDDEN_KEYWORDS \<Longrightarrow> k \<noteq> [] \<and> list_all is_word k" by (auto simp: list_all_iff)
qed

lemma is_word_lower: "is_word (lower_char c) = is_word c"
proof (cases "65 \<le> (of_char c :: nat) \<and> (of_char c :: nat) \<le> 90")
  case True
  then have "of_char (lower_char c) = (of_char c + 32 :: nat)" by (simp add: lower_char_def)
  then show ?thesis using True by (simp add: is_word_def Let_def)
next
  case False
  then have "lower_char c = c" by (auto simp: lower_char_def Let_def)
  then show ?thesis by simp
qed

lemma take_is_takeWhile:
  "list_all P k \<Longrightarrow> take (length k) s = k \<Longrightarrow> (case drop (length k) s of [] \<Rightarrow> True | d # _ \<Rightarrow> \<not> P d) \<Longrightarrow> takeWhile P s = k"
proof (induction k arbitrary: s)
  case Nil
  then show ?case by (cases s) auto
next
  case (Cons a k)
  then show ?case by (cases s) auto
qed

lemma takeWhile_lower: "takeWhile is_word (py_lower s) = py_lower (takeWhile is_word s)"
  by (simp add: py_lower_def takeWhile_map comp_def is_word_lower)

lemma keyword_here_iff: "keyword_here s \<longleftrightarrow> py_lower (takeWhile is_word s) \<in> set FORBIDDEN_KEYWORDS"
proof
  assume "keyword_here s"
  then obtain k where k: "k \<in> set FORBIDDEN_KEYWORDS" "take (length k) (py_lower s) = k"
      "case drop (length k) s of [] \<Rightarrow> True | d # _ \<Rightarrow> \<not> is_word d"
    by (auto simp: keyword_here_def list_ex_iff)
  have "case drop (length k) (py_lower s) of [] \<Rightarrow> True | d # _ \<Rightarrow> \<not> is_word d"
    using k(3) by (auto simp: py_lower_def drop_map is_word_lower split: list.splits)
  then have "takeWhile is_word (py_lower s) = k" using k keyword_chars by (intro take_is_takeWhile) auto
  then show "py_lower (takeWhile is_word s) \<in> set FORBIDDEN_KEYWORDS" using k(1) by (simp add: takeWhile_lower)
next
  let ?k = "takeWhile is_word s"
  assume a: "py_lower ?k \<in> set FORBIDDEN_KEYWORDS"
  have len: "length (py_lower ?k) = length ?k" by (simp add: py_lower_def)
  have "take (length ?k) s = ?k" by (metis takeWhile_eq_take)
  then have "take (length ?k) (py_lower s) = py_lower ?k" by (simp add: py_lower_def take_map)
  moreover have "drop (length ?k) s = dropWhile is_word s" by (metis dropWhile_eq_drop)
  then have "case drop (length ?k) s of [] \<Rightarrow> True | d # _ \<Rightarrow> \<not> is_word d"
    by (cases "dropWhile is_word s") (simp_all add: dropWhile_eq_Cons_conv)
  ultimately show "keyword_here s" using a len by (auto simp: keyword_here_def list_ex_iff intro!: bexI [of _ "py_lower ?k"])
qed

lemma keyword_here_word: "keyword_here (c # s) \<Longrightarrow> is_word c"
  using keyword_chars [of "[]"] by (auto simp: keyword_here_iff py_lower_def split: if_splits)

lemma has_keyword_skip: "has_keyword True s = has_keyword False (dropWhile is_word s)"
  by (induction s) (auto dest: keyword_here_word)

lemma has_keyword_words: "has_keyword False s \<longleftrightarrow> (\<exists>w \<in> set (words s). py_lower w \<in> set FORBIDDEN_KEYWORDS)"
proof (induction s rule: words.induct)
  case (2 c s)
  show ?case
  proof (cases "is_word c")
    case True
    have "has_keyword False (c # s) \<longleftrightarrow> keyword_here (c # s) \<or> has_keyword False (dropWhile is_word s)"
      using True by (simp add: has_keyword_skip)
    then show ?thesis using True "2.IH"(1) keyword_here_iff [of "c # s"] by simp
  next
    case False
    then show ?thesis using "2.IH"(2) keyword_here_word [of c s] by auto
  qed
qed simp

section \<open>What the guard lets through\<close>

text \<open>What the SQL guard lets through. An accepted statement comes back as a text that has no
  comment and no semicolon, starts with the word SELECT or WITH, and none of whose words is
  a keyword that writes, administers or waits; checking the result again, as the tool does
  after the gateway, accepts it unchanged.\<close>

theorem readonly_sql_accepts:
  assumes "validate_readonly_sql sql = Inr r"
  shows "\<not> has_block r \<and> \<not> has_dashes r \<and> CHR '';'' \<notin> set r
    \<and> py_lower (takeWhile is_identifier r) \<in> {''select'', ''with''}
    \<and> (\<forall>w \<in> set (words r). py_lower w \<notin> set FORBIDDEN_KEYWORDS)
    \<and> validate_readonly_sql r = Inr r"
proof -
  define cleaned where "cleaned = strip_line (strip_block sql)"
  have r: "r = py_strip (rstrip_semicolons (py_strip cleaned))" and ne: "r \<noteq> []" and semi: "CHR '';'' \<notin> set r"
    and first: "py_lower (takeWhile is_identifier r) \<in> {''select'', ''with''}" and kw: "\<not> has_keyword False r"
    using assms by (simp_all add: validate_readonly_sql_def cleaned_def Let_def split: if_splits)
  obtain a b where ab: "cleaned = a @ r @ b" using cleaned_part [of cleaned] r by blast
  have block: "\<not> has_block r"
    using no_block_strip_block [of sql] has_block_strip_line [of "strip_block sql"] has_block_append [of r b] has_block_prepend [of "r @ b" a]
    by (auto simp: cleaned_def [symmetric] ab)
  have dashes: "\<not> has_dashes r"
    using no_dashes_strip_line [of "strip_block sql"] has_dashes_append [of r b] has_dashes_prepend [of "r @ b" a]
    by (auto simp: cleaned_def [symmetric] ab)
  have strip: "py_strip r = r" using r by simp
  have "rstrip_semicolons r = r"
  proof -
    have "dropWhile (\<lambda>c. c = CHR '';'') (rev r) = rev r" using semi ne
      by (cases "rev r") (auto simp: dropWhile_eq_self_iff)
    then show ?thesis by (simp add: rstrip_semicolons_def)
  qed
  then have "validate_readonly_sql r = Inr r"
    using ne semi first kw strip block dashes by (simp add: validate_readonly_sql_def Let_def strip_block_id strip_line_id)
  then show ?thesis using block dashes semi first kw has_keyword_words by blast
qed

theorem readonly_sql_accepts_witness:
  "validate_readonly_sql ''  SELECT /* all */ name FROM t -- drop'' = Inr ''SELECT   name FROM t''
   \<and> \<not> has_dashes ''SELECT   name FROM t''"
proof -
  have "validate_readonly_sql ''  SELECT /* all */ name FROM t -- drop'' = Inr ''SELECT   name FROM t''" by code_simp
  then show ?thesis using readonly_sql_accepts by blast
qed

text \<open>A literal that holds comment marks is cut: this query is accepted and another one is run.\<close>

lemma comment_in_literal_is_cut:
  "validate_readonly_sql ''SELECT id FROM t WHERE a = '/*' OR '*/' = b'' = Inr ''SELECT id FROM t WHERE a = ' ' = b''"
  by code_simp

end
