(* ===== verification/Approvals.thy ===== *)
theory Approvals
  imports Tool_Policy Run_Commands "HOL-Library.List_Lexorder" "HOL-Library.Char_ord"
begin

text \<open>
  Human approval of dangerous tool calls: the rows and their matching
  (\<open>agents/policies/approval_policy.py\<close>, \<open>models/tool_approval.py\<close>), the in-process registry of
  paused calls (\<open>agents/approval_coordinator.py\<close>), and the decisions of the user
  (\<open>api/agent_runs.py\<close>, \<open>agents/workflow/controls.py\<close>). The digest of a call's arguments and the
  text of an identifier are parameters.
\<close>

section \<open>Matching by exact arguments\<close>

type_synonym args = "(string \<times> json) list"

text \<open>\<open>_canonical_json\<close>: the value with the keys of every object in order.\<close>

fun canon :: "json \<Rightarrow> json" where
  "canon (JList xs) = JList (map canon xs)"
| "canon (JDict d) = JDict (sort_key fst (map (\<lambda>kv. (fst kv, canon (snd kv))) d))"
| "canon v = v"

definition arguments_hash :: "(string \<Rightarrow> json \<Rightarrow> 'h) \<Rightarrow> string \<Rightarrow> args \<Rightarrow> 'h" where
  "arguments_hash digest tool args = digest tool (canon (JDict args))"

definition APPROVAL_TTL :: timestamp where
  "APPROVAL_TTL = seconds (15 * 60)"

definition expiry_from_now :: "timestamp \<Rightarrow> timestamp" where
  "expiry_from_now now = now + APPROVAL_TTL"

definition is_expired :: "timestamp \<Rightarrow> timestamp option \<Rightarrow> bool" where
  "is_expired now expires = (case expires of None \<Rightarrow> False | Some t \<Rightarrow> now \<ge> t)"

datatype approval_status = APending | AApproved | ARejected

record 'h tool_approval =
  ap_id :: uuid
  ap_run :: uuid
  ap_conversation :: uuid
  ap_user :: "uuid option"
  ap_tool :: string
  ap_args :: args
  ap_hash :: 'h
  ap_risk :: risk_level
  ap_status :: approval_status
  ap_approved_by :: "uuid option"
  ap_decided_at :: "timestamp option"
  ap_expires :: "timestamp option"
  ap_reason :: "string option"

definition find_valid_approval ::
  "(string \<Rightarrow> json \<Rightarrow> 'h) \<Rightarrow> timestamp \<Rightarrow> uuid option \<Rightarrow> string \<Rightarrow> args \<Rightarrow> 'h tool_approval list \<Rightarrow> 'h tool_approval option" where
  "find_valid_approval digest now run tool args rows =
     List.find (\<lambda>ap. \<not> is_expired now (ap_expires ap))
       (filter (\<lambda>ap. Some (ap_run ap) = run \<and> ap_tool ap = tool \<and> ap_hash ap = arguments_hash digest tool args
          \<and> ap_status ap = AApproved) rows)"

definition create_pending_approval ::
  "(string \<Rightarrow> json \<Rightarrow> 'h) \<Rightarrow> uuid \<Rightarrow> timestamp \<Rightarrow> uuid \<Rightarrow> uuid \<Rightarrow> user option \<Rightarrow> tool \<Rightarrow> args
    \<Rightarrow> 'h tool_approval list \<Rightarrow> 'h tool_approval list" where
  "create_pending_approval digest new_id now run conv u tool args rows =
     rows @ [\<lparr>ap_id = new_id, ap_run = run, ap_conversation = conv, ap_user = map_option us_id u, ap_tool = tl_name tool,
       ap_args = args, ap_hash = arguments_hash digest (tl_name tool) args, ap_risk = risk_level_for tool,
       ap_status = APending, ap_approved_by = None, ap_decided_at = None,
       ap_expires = Some (expiry_from_now now), ap_reason = None\<rparr>]"

section \<open>The registry of paused calls\<close>

datatype wait_decision = WPending | WApproved | WRejected | WCancelled | WTimedOut

record waiting_run =
  wr_run :: uuid
  wr_approval :: uuid
  wr_tool :: string
  wr_set :: bool
  wr_decision :: wait_decision
  wr_reason :: string

type_synonym coordinator = "(uuid, waiting_run) dict"

definition register_wait :: "uuid \<Rightarrow> uuid \<Rightarrow> string \<Rightarrow> coordinator \<Rightarrow> coordinator" where
  "register_wait run ap tool co =
     dict_set ap \<lparr>wr_run = run, wr_approval = ap, wr_tool = tool, wr_set = False, wr_decision = WPending, wr_reason = []\<rparr> co"

definition is_waiting :: "uuid \<Rightarrow> coordinator \<Rightarrow> bool" where
  "is_waiting ap co = (case dict_get co ap of None \<Rightarrow> False | Some w \<Rightarrow> wr_decision w = WPending)"

definition signal_wait :: "(waiting_run \<Rightarrow> waiting_run) \<Rightarrow> uuid \<Rightarrow> coordinator \<Rightarrow> bool \<times> coordinator" where
  "signal_wait f ap co =
     (case dict_get co ap of
        None \<Rightarrow> (False, co)
      | Some w \<Rightarrow> if wr_decision w \<noteq> WPending then (False, co) else (True, dict_set ap (f w) co))"

definition approve_wait :: "uuid \<Rightarrow> coordinator \<Rightarrow> bool \<times> coordinator" where
  "approve_wait = signal_wait (\<lambda>w. w\<lparr>wr_decision := WApproved, wr_set := True\<rparr>)"

definition reject_wait :: "uuid \<Rightarrow> string \<Rightarrow> coordinator \<Rightarrow> bool \<times> coordinator" where
  "reject_wait ap reason = signal_wait
     (\<lambda>w. w\<lparr>wr_decision := WRejected, wr_reason := (if reason = [] then ''rejected by user'' else reason), wr_set := True\<rparr>) ap"

definition cancel_hits :: "uuid \<Rightarrow> waiting_run \<Rightarrow> bool" where
  "cancel_hits run w \<longleftrightarrow> wr_run w = run \<and> wr_decision w = WPending"

definition cancel_waits :: "uuid \<Rightarrow> coordinator \<Rightarrow> nat \<times> coordinator" where
  "cancel_waits run co =
     (length (filter (\<lambda>(k, w). cancel_hits run w) co),
      map (\<lambda>(k, w). (k, if cancel_hits run w then w\<lparr>wr_decision := WCancelled, wr_set := True\<rparr> else w)) co)"

definition release_wait :: "uuid \<Rightarrow> coordinator \<Rightarrow> coordinator" where
  "release_wait ap co = dict_pop ap co"

text \<open>\<open>wait\<close> returns once the event is set; None while it would still block.\<close>

definition wait_result :: "uuid \<Rightarrow> coordinator \<Rightarrow> waiting_run option" where
  "wait_result ap co =
     (case dict_get co ap of
        None \<Rightarrow> None
      | Some w \<Rightarrow> if wr_set w then Some (if wr_decision w = WPending then w\<lparr>wr_decision := WTimedOut\<rparr> else w) else None)"

section \<open>The user's decisions\<close>

datatype run_status = RunPending | RunRunning | RunWaiting | RunPaused | RunCompleted | RunFailed | RunCancelled

record run_row =
  rn_id :: uuid
  rn_user :: "uuid option"
  rn_status :: run_status
  rn_finished :: "timestamp option"

record 'h control_db =
  cd_runs :: "run_row list"
  cd_approvals :: "'h tool_approval list"
  cd_commands :: "json run_command list"

datatype control_error = RunNotFound | ApprovalNotFound

datatype action_result = ActionDone | AlreadyDecided approval_status | AlreadyFinished run_status

definition load_owned :: "user \<Rightarrow> uuid \<Rightarrow> 'h control_db \<Rightarrow> control_error + run_row" where
  "load_owned u run db =
     (case List.find (\<lambda>r. rn_id r = run) (cd_runs db) of
        None \<Rightarrow> Inl RunNotFound
      | Some r \<Rightarrow> if rn_user r \<noteq> Some (us_id u) \<and> us_role u \<noteq> ''admin'' then Inl RunNotFound else Inr r)"

definition find_approval :: "uuid \<Rightarrow> uuid \<Rightarrow> 'h control_db \<Rightarrow> control_error + 'h tool_approval" where
  "find_approval run ap db =
     (case List.find (\<lambda>a. ap_id a = ap) (cd_approvals db) of
        None \<Rightarrow> Inl ApprovalNotFound
      | Some a \<Rightarrow> if ap_run a \<noteq> run then Inl ApprovalNotFound else Inr a)"

definition record_command ::
  "uuid \<Rightarrow> timestamp \<Rightarrow> uuid \<Rightarrow> string \<Rightarrow> (string, json) dict \<Rightarrow> 'h control_db \<Rightarrow> 'h control_db" where
  "record_command new_id now run ty payload db =
     db\<lparr>cd_commands := snd (append_command new_id now run ty (Some payload) (cd_commands db))\<rparr>"

definition record_approve where
  "record_approve uuid_str new_id now run ap u =
     record_command new_id now run ''approve'' [(''approval_id'', JStr (uuid_str ap)), (''user_id'', JStr (uuid_str u))]"

definition record_reject where
  "record_reject uuid_str new_id now run ap reason u =
     record_command new_id now run ''reject''
       [(''approval_id'', JStr (uuid_str ap)), (''reason'', JStr reason), (''user_id'', JStr (uuid_str u))]"

definition record_cancel where
  "record_cancel new_id now run = record_command new_id now run ''cancel'' []"

text \<open>Each handler: the answer, the tables after its commit, and the registry after its signal.\<close>

definition approve_run ::
  "(uuid \<Rightarrow> string) \<Rightarrow> uuid \<Rightarrow> timestamp \<Rightarrow> user \<Rightarrow> uuid \<Rightarrow> uuid \<Rightarrow> 'h control_db \<times> coordinator
    \<Rightarrow> (control_error + action_result) \<times> 'h control_db \<times> coordinator" where
  "approve_run uuid_str new_id now u run ap st =
     (case st of (db, co) \<Rightarrow>
       (case rbind (load_owned u run db) (\<lambda>r. find_approval (rn_id r) ap db) of
          Inl e \<Rightarrow> (Inl e, db, co)
        | Inr a \<Rightarrow>
            if ap_status a \<noteq> APending then (Inr (AlreadyDecided (ap_status a)), db, co)
            else (Inr ActionDone,
              record_approve uuid_str new_id now run ap (us_id u)
                (db\<lparr>cd_approvals := map_at ap_id ap
                   (\<lambda>b. b\<lparr>ap_status := AApproved, ap_approved_by := Some (us_id u), ap_decided_at := Some now\<rparr>) (cd_approvals db)\<rparr>),
              snd (approve_wait ap co))))"

definition reject_run ::
  "(uuid \<Rightarrow> string) \<Rightarrow> uuid \<Rightarrow> timestamp \<Rightarrow> user \<Rightarrow> uuid \<Rightarrow> uuid \<Rightarrow> string \<Rightarrow> 'h control_db \<times> coordinator
    \<Rightarrow> (control_error + action_result) \<times> 'h control_db \<times> coordinator" where
  "reject_run uuid_str new_id now u run ap reason0 st =
     (case st of (db, co) \<Rightarrow>
       (case rbind (load_owned u run db) (\<lambda>r. find_approval (rn_id r) ap db) of
          Inl e \<Rightarrow> (Inl e, db, co)
        | Inr a \<Rightarrow>
            if ap_status a \<noteq> APending then (Inr (AlreadyDecided (ap_status a)), db, co)
            else (let reason = (if reason0 = [] then ''rejected by user'' else reason0) in
              (Inr ActionDone,
               record_reject uuid_str new_id now run ap reason (us_id u)
                 (db\<lparr>cd_approvals := map_at ap_id ap
                    (\<lambda>b. b\<lparr>ap_status := ARejected, ap_reason := Some reason, ap_decided_at := Some now\<rparr>) (cd_approvals db)\<rparr>),
               snd (reject_wait ap reason co)))))"

definition cancel_run ::
  "uuid \<Rightarrow> timestamp \<Rightarrow> user \<Rightarrow> uuid \<Rightarrow> 'h control_db \<times> coordinator
    \<Rightarrow> (control_error + action_result) \<times> 'h control_db \<times> coordinator" where
  "cancel_run new_id now u run st =
     (case st of (db, co) \<Rightarrow>
       (case load_owned u run db of
          Inl e \<Rightarrow> (Inl e, db, co)
        | Inr r \<Rightarrow>
            if rn_status r \<in> {RunCompleted, RunFailed, RunCancelled} then (Inr (AlreadyFinished (rn_status r)), db, co)
            else (Inr ActionDone,
              record_cancel new_id now run
                (db\<lparr>cd_runs := map_at rn_id run (\<lambda>b. b\<lparr>rn_status := RunCancelled, rn_finished := Some now\<rparr>) (cd_runs db)\<rparr>),
              snd (cancel_waits run co))))"

section \<open>Decisions of a paused call\<close>

text \<open>The first decision stands: once decided, no later signal changes a paused call.\<close>

lemma decision_stands:
  assumes "dict_get co ap = Some w" "wr_decision w \<noteq> WPending"
  shows "approve_wait ap co = (False, co)" "reject_wait ap reason co = (False, co)"
    "dict_get (snd (cancel_waits run co)) ap = Some w"
proof -
  show "approve_wait ap co = (False, co)" "reject_wait ap reason co = (False, co)"
    using assms by (simp_all add: approve_wait_def reject_wait_def signal_wait_def)
  have "dict_get (map (\<lambda>(k, w). (k, if cancel_hits run w then w\<lparr>wr_decision := WCancelled, wr_set := True\<rparr> else w)) co) ap
      = map_option (\<lambda>w. if cancel_hits run w then w\<lparr>wr_decision := WCancelled, wr_set := True\<rparr> else w) (dict_get co ap)"
    by (induction co) auto
  then show "dict_get (snd (cancel_waits run co)) ap = Some w"
    using assms by (simp add: cancel_waits_def cancel_hits_def)
qed

text \<open>A decision that comes before the call is registered is lost: the call then waits although the
  row is approved.\<close>

lemma early_decision_is_lost:
  assumes "dict_get co ap = None"
  shows "approve_wait ap co = (False, co)"
    and "wait_result ap (register_wait run ap tool (snd (approve_wait ap co))) = None"
  using assms by (simp_all add: approve_wait_def signal_wait_def wait_result_def register_wait_def dict_simps)

end
