(* ===== verification/Exec_Policy.thy ===== *)
theory Exec_Policy
  imports Json
begin

text \<open>
  The command policy (\<open>agents/exec_policy.py\<close>): an ordered list of concrete command prefixes, each
  with a decision, kept in a JSON file. The file is missing, does not parse, or holds a JSON
  value; the text of JSON and the temporary file of the atomic replacement are not modelled.
\<close>

section \<open>Rules and decisions\<close>

datatype decision = Allow | Ask | Forbidden

record prefix_rule =
  pr_pattern :: "string list"
  pr_decision :: decision

record exec_policy =
  ep_rules :: "prefix_rule list"
  ep_default :: decision

fun first_match :: "prefix_rule list \<Rightarrow> decision \<Rightarrow> string list \<Rightarrow> decision" where
  "first_match [] d argv = d"
| "first_match (r # rs) d argv =
     (if length (pr_pattern r) > length argv then first_match rs d argv
      else if take (length (pr_pattern r)) argv = pr_pattern r then pr_decision r
      else first_match rs d argv)"

definition decide :: "exec_policy \<Rightarrow> string list \<Rightarrow> decision" where
  "decide p argv = first_match (ep_rules p) (ep_default p) argv"

section \<open>Patterns\<close>

datatype policy_error = EmptyPattern | TokenNotString | TokenWildcard string string | MalformedFile

definition FORBIDDEN_SUBSTRINGS :: "string list" where
  "FORBIDDEN_SUBSTRINGS = [''*'', ''?'', ''://'']"

fun validate_tokens :: "json list \<Rightarrow> policy_error + unit" where
  "validate_tokens [] = Inr ()"
| "validate_tokens (JStr tok # toks) =
     (case List.find (\<lambda>bad. py_contains bad tok) FORBIDDEN_SUBSTRINGS of
        Some bad \<Rightarrow> Inl (TokenWildcard tok bad)
      | None \<Rightarrow> validate_tokens toks)"
| "validate_tokens (_ # toks) = Inl TokenNotString"

definition validate_pattern :: "json list \<Rightarrow> policy_error + unit" where
  "validate_pattern pat = (if pat = [] then Inl EmptyPattern else validate_tokens pat)"

section \<open>The rule store\<close>

text \<open>What \<open>RuleStore\<close> loads: nothing is checked yet, so a decision and the tokens are JSON values.\<close>

record raw_rule =
  rr_pattern :: "json list"
  rr_decision :: json

record raw_policy =
  rp_rules :: "raw_rule list"
  rp_default :: json

datatype policy_file = Missing | Malformed | Holds json

fun rule_of :: "json \<Rightarrow> raw_rule option" where
  "rule_of (JDict d) =
     (case dict_get d ''pattern'' of
        None \<Rightarrow> None
      | Some p \<Rightarrow>
          (case py_list p of
             None \<Rightarrow> None
           | Some toks \<Rightarrow> map_option (\<lambda>dec. \<lparr>rr_pattern = toks, rr_decision = dec\<rparr>) (dict_get d ''decision'')))"
| "rule_of _ = None"

fun rules_of :: "json list \<Rightarrow> raw_rule list option" where
  "rules_of [] = Some []"
| "rules_of (j # js) =
     (case rule_of j of None \<Rightarrow> None | Some r \<Rightarrow> map_option (Cons r) (rules_of js))"

definition DEFAULT_DECISION :: json where
  "DEFAULT_DECISION = JStr ''prompt''"

fun store_load :: "policy_file \<Rightarrow> policy_error + raw_policy" where
  "store_load Missing = Inr \<lparr>rp_rules = [], rp_default = DEFAULT_DECISION\<rparr>"
| "store_load Malformed = Inl MalformedFile"
| "store_load (Holds (JDict d)) =
     (case Option.bind (py_list (dict_get_or d ''rules'' (JList []))) rules_of of
        None \<Rightarrow> Inl MalformedFile
      | Some rs \<Rightarrow> Inr \<lparr>rp_rules = rs, rp_default = dict_get_or d ''default'' DEFAULT_DECISION\<rparr>)"
| "store_load (Holds _) = Inl MalformedFile"

definition rule_json :: "raw_rule \<Rightarrow> json" where
  "rule_json r = JDict [(''pattern'', JList (rr_pattern r)), (''decision'', rr_decision r)]"

definition store_save :: "raw_policy \<Rightarrow> policy_file" where
  "store_save p = Holds (JDict [(''default'', rp_default p), (''rules'', JList (map rule_json (rp_rules p)))])"

definition add_allow_prefix :: "json list \<Rightarrow> policy_file \<Rightarrow> (policy_error + raw_policy) \<times> policy_file" where
  "add_allow_prefix pat file =
     (case validate_pattern pat of
        Inl e \<Rightarrow> (Inl e, file)
      | Inr _ \<Rightarrow>
          (case store_load file of
             Inl e \<Rightarrow> (Inl e, file)
           | Inr p \<Rightarrow>
               if \<exists>r \<in> set (rp_rules p). rr_pattern r = pat \<and> rr_decision r = JStr ''allow'' then (Inr p, file)
               else (let file' = store_save (p\<lparr>rp_rules := rp_rules p @ [\<lparr>rr_pattern = pat, rr_decision = JStr ''allow''\<rparr>]\<rparr>)
                     in (store_load file', file'))))"

section \<open>The policy in force\<close>

definition decision_of_text :: "string \<Rightarrow> decision" where
  "decision_of_text t = (if t = ''allow'' then Allow else if t = ''forbidden'' then Forbidden else Ask)"

definition normalize_decision :: "(json \<Rightarrow> string) \<Rightarrow> json \<Rightarrow> decision" where
  "normalize_decision repr_of v =
     decision_of_text (py_lower (py_strip (if truthy v then py_str repr_of v else [])))"

definition strict_policy :: exec_policy where
  "strict_policy = \<lparr>ep_rules = [], ep_default = Ask\<rparr>"

definition active_rule :: "(json \<Rightarrow> string) \<Rightarrow> raw_rule \<Rightarrow> prefix_rule option" where
  "active_rule repr_of r =
     (let toks = map (py_str repr_of) (rr_pattern r) in
      case validate_pattern (map JStr toks) of
        Inl _ \<Rightarrow> None
      | Inr _ \<Rightarrow> Some \<lparr>pr_pattern = toks, pr_decision = normalize_decision repr_of (rr_decision r)\<rparr>)"

definition load_active_exec_policy :: "(json \<Rightarrow> string) \<Rightarrow> string \<Rightarrow> (string \<Rightarrow> policy_file) \<Rightarrow> exec_policy" where
  "load_active_exec_policy repr_of setting fs =
     (let path = py_strip setting in
      if path = [] then strict_policy
      else (case store_load (fs path) of
              Inl _ \<Rightarrow> strict_policy
            | Inr raw \<Rightarrow> \<lparr>ep_rules = List.map_filter (active_rule repr_of) (rp_rules raw),
                           ep_default = normalize_decision repr_of (rp_default raw)\<rparr>))"

text \<open>The argument vector of a tool call.\<close>

definition argv_from_arguments :: "json \<Rightarrow> string list option" where
  "argv_from_arguments args =
     (case args of
        JDict d \<Rightarrow>
          (case dict_get d ''command'' of
             Some (JList raw) \<Rightarrow>
               if raw \<noteq> [] \<and> list_all (\<lambda>v. case v of JStr s \<Rightarrow> s \<noteq> [] | _ \<Rightarrow> False) raw
               then Some (List.map_filter (\<lambda>v. case v of JStr s \<Rightarrow> Some s | _ \<Rightarrow> None) raw) else None
           | _ \<Rightarrow> None)
      | _ \<Rightarrow> None)"

section \<open>Matching\<close>

definition matches :: "prefix_rule \<Rightarrow> string list \<Rightarrow> bool" where
  "matches r argv \<longleftrightarrow> (\<exists>rest. argv = pr_pattern r @ rest)"

lemma matches_code: "matches r argv \<longleftrightarrow> length (pr_pattern r) \<le> length argv \<and> take (length (pr_pattern r)) argv = pr_pattern r"
proof
  assume "length (pr_pattern r) \<le> length argv \<and> take (length (pr_pattern r)) argv = pr_pattern r"
  then have "argv = pr_pattern r @ drop (length (pr_pattern r)) argv" by (metis append_take_drop_id)
  then show "matches r argv" unfolding matches_def by blast
qed (auto simp: matches_def)

lemma first_match_step: "first_match (r # rs) d argv = (if matches r argv then pr_decision r else first_match rs d argv)"
  by (auto simp: matches_code)

lemmas first_match_simps = first_match.simps(1) first_match_step

lemma first_match_append:
  "first_match (rs @ rs') d argv
     = (if \<exists>r \<in> set rs. matches r argv then first_match rs d argv else first_match rs' d argv)"
  by (induction rs) (auto simp: first_match_simps simp del: first_match.simps(2))

lemma first_match_default: "\<not> (\<exists>r \<in> set rs. matches r argv) \<Longrightarrow> first_match rs d argv = d"
  by (induction rs) (auto simp: first_match_simps simp del: first_match.simps(2))

lemma first_match_witness:
  assumes "first_match rs d argv = x" "x \<noteq> d"
  obtains pre r post where "rs = pre @ r # post" "matches r argv" "pr_decision r = x" "\<not> (\<exists>r' \<in> set pre. matches r' argv)"
proof -
  have ex: "\<exists>r \<in> set rs. matches r argv" using assms first_match_default by metis
  then obtain pre r post where s: "rs = pre @ r # post" "matches r argv" "\<forall>r' \<in> set pre. \<not> matches r' argv"
    using split_list_first_prop [OF ex] by blast
  then have "first_match rs d argv = pr_decision r"
    using first_match_append [of pre "r # post" d argv] by (simp add: first_match_simps del: first_match.simps(2))
  then show ?thesis using that s assms by auto
qed

section \<open>Saving and loading\<close>

lemma rules_of_map: "rules_of (map rule_json rs) = Some rs"
  by (induction rs) (auto simp: rule_json_def)

lemma load_save: "store_load (store_save p) = Inr p"
  by (cases p) (simp add: store_save_def dict_get_or_def rules_of_map)

lemma map_filter_append: "List.map_filter f (xs @ ys) = List.map_filter f xs @ List.map_filter f ys"
  by (simp add: List.map_filter_def)

lemma py_str_JStr [simp]: "map (py_str repr_of) (map JStr toks) = toks"
  by (induction toks) auto

lemma active_allow:
  assumes "validate_pattern (map JStr toks) = Inr u"
  shows "active_rule repr_of \<lparr>rr_pattern = map JStr toks, rr_decision = JStr ''allow''\<rparr> = Some \<lparr>pr_pattern = toks, pr_decision = Allow\<rparr>"
proof -
  have "normalize_decision repr_of (JStr ''allow'') = Allow" by (simp add: normalize_decision_def) code_simp
  then show ?thesis using assms by (simp add: active_rule_def comp_def)
qed

lemma store_load_policy:
  assumes "py_strip path \<noteq> []" "store_load (fs (py_strip path)) = Inr raw"
  shows "load_active_exec_policy repr_of path fs
    = \<lparr>ep_rules = List.map_filter (active_rule repr_of) (rp_rules raw), ep_default = normalize_decision repr_of (rp_default raw)\<rparr>"
  using assms by (simp add: load_active_exec_policy_def Let_def)

text \<open>Remembering a command adds exactly that command. After a successful \<open>add_allow_prefix\<close> the
  policy in force decides as before on every command that some rule already matched (so a
  prohibition stays), allows the other commands that start with the remembered tokens, and
  decides every other command by the default as before; remembering it again changes
  nothing, and reading the file back gives the policy returned.\<close>

theorem remember_adds_one_command:
  assumes add: "add_allow_prefix (map JStr toks) (fs (py_strip path)) = (Inr raw', file')"
    and path: "py_strip path \<noteq> []"
    and old_def: "old = load_active_exec_policy repr_of path fs"
    and new_def: "new = load_active_exec_policy repr_of path (fs(py_strip path := file'))"
  shows "decide new argv =
      (if \<exists>r \<in> set (ep_rules old). matches r argv then decide old argv
       else if \<exists>rest. argv = toks @ rest then Allow else ep_default old)
    \<and> add_allow_prefix (map JStr toks) file' = (Inr raw', file')
    \<and> store_load file' = Inr raw'"
proof -
  let ?new = "\<lparr>rr_pattern = map JStr toks, rr_decision = JStr ''allow''\<rparr>"
  obtain u where val: "validate_pattern (map JStr toks) = Inr u"
    using add by (auto simp: add_allow_prefix_def split: sum.splits)
  obtain raw where load: "store_load (fs (py_strip path)) = Inr raw"
    using add val by (auto simp: add_allow_prefix_def split: sum.splits)
  have old: "old = \<lparr>ep_rules = List.map_filter (active_rule repr_of) (rp_rules raw), ep_default = normalize_decision repr_of (rp_default raw)\<rparr>"
    unfolding old_def using store_load_policy [of path fs, OF path load] .
  have act: "active_rule repr_of ?new = Some \<lparr>pr_pattern = toks, pr_decision = Allow\<rparr>" by (rule active_allow [OF val])
  note now = store_load_policy [of path "fs(py_strip path := file')", OF path]
  show ?thesis
  proof (cases "\<exists>r \<in> set (rp_rules raw). rr_pattern r = map JStr toks \<and> rr_decision r = JStr ''allow''")
    case True
    then have same: "raw' = raw" "file' = fs (py_strip path)" using add val load by (simp_all add: add_allow_prefix_def)
    have "?new \<in> set (rp_rules raw)" using True by (metis raw_rule.surjective unit_eq)
    then have mem: "\<lparr>pr_pattern = toks, pr_decision = Allow\<rparr> \<in> set (ep_rules old)"
      using act by (force simp: old set_map_filter_iff)
    have "new = old" using now [of raw] same load by (simp add: new_def old)
    moreover have "\<exists>r \<in> set (ep_rules old). matches r argv" if "argv = toks @ rest" for rest
      using mem that by (auto simp: matches_def intro!: bexI [of _ "\<lparr>pr_pattern = toks, pr_decision = Allow\<rparr>"])
    ultimately show ?thesis
      using add same load by (auto simp: decide_def first_match_default)
  next
    case False
    let ?raw = "raw\<lparr>rp_rules := rp_rules raw @ [?new]\<rparr>"
    have f: "file' = store_save ?raw" "raw' = ?raw"
      using add val load False load_save [of ?raw] by (auto simp: add_allow_prefix_def Let_def)
    have load': "store_load file' = Inr ?raw" using f load_save by simp
    have new: "new = \<lparr>ep_rules = ep_rules old @ [\<lparr>pr_pattern = toks, pr_decision = Allow\<rparr>], ep_default = ep_default old\<rparr>"
      using now [of ?raw] load' act by (simp add: new_def old map_filter_append)
    have again: "add_allow_prefix (map JStr toks) file' = (Inr raw', file')"
      using val load' f(2) by (simp add: add_allow_prefix_def)
    show ?thesis
      using again load' f(2) by (simp add: new decide_def first_match_append first_match_simps matches_def del: first_match.simps(2))
  qed
qed

theorem remember_adds_one_command_witness:
  "\<exists>raw file. add_allow_prefix [JStr ''git'', JStr ''status'']
       (Holds (JDict [(''rules'', JList [JDict [(''pattern'', JList [JStr ''rm'']), (''decision'', JStr ''forbidden'')]])])) = (Inr raw, file)
     \<and> decide (load_active_exec_policy (\<lambda>_. []) ''p'' (\<lambda>_. file)) [''git'', ''status'', ''-s''] = Allow
     \<and> store_load file = Inr raw"
proof -
  let ?old = "Holds (JDict [(''rules'', JList [JDict [(''pattern'', JList [JStr ''rm'']), (''decision'', JStr ''forbidden'')]])])"
  let ?toks = "[''git'', ''status'']" and ?repr = "\<lambda>_ :: json. [] :: string"
  let ?raw = "\<lparr>rp_rules = [\<lparr>rr_pattern = [JStr ''rm''], rr_decision = JStr ''forbidden''\<rparr>,
      \<lparr>rr_pattern = map JStr ?toks, rr_decision = JStr ''allow''\<rparr>], rp_default = JStr ''prompt''\<rparr>"
  have strip: "py_strip ''p'' = ''p''" by code_simp
  have add: "add_allow_prefix (map JStr ?toks) ((\<lambda>_. ?old) (py_strip ''p'')) = (Inr ?raw, store_save ?raw)" by code_simp
  have unmatched: "\<not> (\<exists>r \<in> set (ep_rules (load_active_exec_policy ?repr ''p'' (\<lambda>_. ?old))). matches r [''git'', ''status'', ''-s''])"
    unfolding matches_code by code_simp
  have same: "load_active_exec_policy ?repr ''p'' (\<lambda>_. store_save ?raw)
      = load_active_exec_policy ?repr ''p'' ((\<lambda>_. ?old)(py_strip ''p'' := store_save ?raw))"
    by (simp add: load_active_exec_policy_def strip)
  have "py_strip ''p'' \<noteq> []" by (simp add: strip)
  from remember_adds_one_command [OF add this refl refl, of ?repr "[''git'', ''status'', ''-s'']"]
  have "decide (load_active_exec_policy ?repr ''p'' ((\<lambda>_. ?old)(py_strip ''p'' := store_save ?raw))) [''git'', ''status'', ''-s''] = Allow"
      "store_load (store_save ?raw) = Inr ?raw"
    using unmatched by simp_all
  then have "decide (load_active_exec_policy ?repr ''p'' (\<lambda>_. store_save ?raw)) [''git'', ''status'', ''-s''] = Allow"
      "store_load (store_save ?raw) = Inr ?raw"
    unfolding same by blast+
  then show ?thesis using add by (intro exI [of _ ?raw] exI [of _ "store_save ?raw"]) simp
qed

end
