(* ===== verification/Tool_Gateway.thy ===== *)
theory Tool_Gateway
  imports Approvals Exec_Policy
begin

text \<open>
  The tool gateway (\<open>agents/gateway/tool_gateway.py\<close>) with the fold of hook answers
  (\<open>agents/hooks/engine.py\<close>) and the rejection breaker of the judge (\<open>agents/guardian.py\<close>): every
  tool call of an agent passes its checks in order and leaves an audit row. What comes from
  outside is an input of the call: the clock, the settings, the answer of each hook, the
  verdict of the judge and the outcome of the tool itself. The text shown to the model and
  the storing of long output as a file are not modelled.
\<close>

section \<open>Hooks\<close>

datatype hook_permission = HookAllow | HookDeny

record hook_result =
  hk_continue :: bool
  hk_stop_reason :: string
  hk_suppress :: bool
  hk_message :: string
  hk_permission :: "hook_permission option"
  hk_updated :: "args option"
  hk_context :: "string option"

definition hook_denies :: "hook_result \<Rightarrow> bool" where
  "hook_denies r \<longleftrightarrow> hk_permission r = Some HookDeny \<or> \<not> hk_continue r"

record hook_fold =
  hf_denied :: bool
  hf_reason :: string
  hf_allow :: bool
  hf_updated :: "args option"
  hf_contexts :: "string list"
  hf_messages :: "string list"
  hf_suppress :: bool

definition fold_hook :: "hook_fold \<Rightarrow> hook_result \<Rightarrow> hook_fold" where
  "fold_hook f r =
     \<lparr>hf_denied = (hf_denied f \<or> hook_denies r),
      hf_reason = (if hook_denies r \<and> hk_stop_reason r \<noteq> [] \<and> hf_reason f = [] then hk_stop_reason r else hf_reason f),
      hf_allow = (hf_allow f \<or> (\<not> hook_denies r \<and> hk_permission r = Some HookAllow)),
      hf_updated = (case hk_updated r of None \<Rightarrow> hf_updated f | Some a \<Rightarrow> Some a),
      hf_contexts = hf_contexts f @ (case hk_context r of None \<Rightarrow> [] | Some c \<Rightarrow> if c = [] then [] else [c]),
      hf_messages = hf_messages f @ (if hk_message r = [] then [] else [hk_message r]),
      hf_suppress = (hf_suppress f \<or> hk_suppress r)\<rparr>"

text \<open>\<open>run_pre_tool_use\<close> on the answers of the handlers that match the tool.\<close>

definition run_pre_tool_use :: "hook_result list \<Rightarrow> hook_result" where
  "run_pre_tool_use answers =
     (let f = foldl fold_hook \<lparr>hf_denied = False, hf_reason = [], hf_allow = False, hf_updated = None,
                hf_contexts = [], hf_messages = [], hf_suppress = False\<rparr> answers in
      if hf_denied f
      then \<lparr>hk_continue = False, hk_stop_reason = (if hf_reason f = [] then ''denied by hook'' else hf_reason f),
            hk_suppress = hf_suppress f, hk_message = [], hk_permission = Some HookDeny, hk_updated = None, hk_context = None\<rparr>
      else \<lparr>hk_continue = True, hk_stop_reason = [], hk_suppress = hf_suppress f,
            hk_message = py_join [CHR 0x0A, CHR 0x0A] (hf_messages f),
            hk_permission = (if hf_allow f then Some HookAllow else None), hk_updated = hf_updated f,
            hk_context = (if hf_contexts f = [] then None else Some (py_join [CHR 0x0A, CHR 0x0A] (hf_contexts f)))\<rparr>)"

section \<open>The rejection breaker of the judge\<close>

record rejection_breaker =
  rb_consecutive_limit :: nat
  rb_window_limit :: nat
  rb_window_size :: nat
  rb_consecutive :: nat
  rb_recent :: "bool list"

definition breaker_record :: "bool \<Rightarrow> rejection_breaker \<Rightarrow> rejection_breaker" where
  "breaker_record allowed b =
     (let recent = rb_recent b @ [\<not> allowed] in
      b\<lparr>rb_recent := drop (length recent - rb_window_size b) recent,
        rb_consecutive := (if \<not> allowed then rb_consecutive b + 1 else 0)\<rparr>)"

definition should_abort :: "rejection_breaker \<Rightarrow> bool" where
  "should_abort b \<longleftrightarrow> rb_consecutive b \<ge> rb_consecutive_limit b
     \<or> length (filter (\<lambda>d. d) (rb_recent b)) \<ge> rb_window_limit b"

section \<open>State of the gateway\<close>

datatype execution_status = StQuota | StError | StBlocked | StNeedsApproval | StTimeout | StSuccess

datatype gw_error =
    QuotaReason string
  | UnknownTool
  | DeniedByHook string
  | NotPermitted
  | UserRequired
  | ForbiddenByPolicy "string list"
  | UnsafeSql sql_error
  | GuardianAborted
  | NoRunContext
  | ApprovalRequired
  | TimedOut
  | ToolFailed string
  | ToolRaised string

datatype row_result = NoResult | NeedsApprovalRow uuid | Content json

record tool_call_row =
  tc_conversation :: uuid
  tc_tool :: string
  tc_args :: args
  tc_result :: row_result
  tc_ok :: bool
  tc_error :: "gw_error option"

datatype step_type = ToolStep | ApprovalStep
datatype step_status = StepDone | StepError | StepWaiting

record agent_step =
  as_run :: uuid
  as_sequence :: nat
  as_type :: step_type
  as_agent :: string
  as_agent_id :: string
  as_task :: string
  as_tool :: string
  as_status :: step_status

text \<open>An observation of the model: the calls of \<open>tool.run\<close>, with whether the judge let them through.\<close>

record tool_run =
  tr_now :: timestamp
  tr_run :: "uuid option"
  tr_name :: string
  tr_tool :: tool
  tr_args :: args
  tr_judged :: bool

record 'h gateway_db =
  gd_approvals :: "'h tool_approval list"
  gd_calls :: "tool_call_row list"
  gd_steps :: "agent_step list"
  gd_ran :: "tool_run list"

record gateway =
  gw_conversation :: uuid
  gw_run :: "uuid option"
  gw_user :: "user option"
  gw_registry :: "(string, tool) dict"
  gw_guardian :: bool
  gw_hooks :: bool
  gw_quotas :: bool

record gateway_local =
  gl_step_seq :: nat
  gl_agent :: string
  gl_task :: string
  gl_policy :: "exec_policy option"
  gl_breaker :: "rejection_breaker option"

record tool_request =
  rq_name :: string
  rq_args :: args
  rq_strict :: "bool option"
  rq_agent :: "string option"
  rq_task :: "string option"

datatype tool_outcome = Returned json | RanOut | ToolErr string | Raised string

text \<open>What the call meets: \<open>mo_hooks\<close> is None when running the hooks raised, \<open>mo_verdict\<close> when the judge did.\<close>

record moment =
  mo_now :: timestamp
  mo_new_id :: uuid
  mo_quota :: "string option"
  mo_hooks :: "hook_result list option"
  mo_disabled :: "string set"
  mo_settings :: tool_settings
  mo_policy :: exec_policy
  mo_verdict :: "bool option"
  mo_outcome :: tool_outcome

record tool_execution =
  te_ok :: bool
  te_tool :: string
  te_args :: args
  te_status :: execution_status
  te_error :: "gw_error option"
  te_approval :: "uuid option"
  te_result :: "json option"

type_synonym 'h gw_state = "gateway_local \<times> 'h gateway_db"

section \<open>The call\<close>

definition finalize ::
  "gateway \<Rightarrow> string \<Rightarrow> args \<Rightarrow> execution_status \<Rightarrow> gw_error option \<Rightarrow> uuid option \<Rightarrow> json option \<Rightarrow> step_type
    \<Rightarrow> step_status option \<Rightarrow> 'h gw_state \<Rightarrow> tool_execution \<times> 'h gw_state" where
  "finalize g name args status err ap result stype sstatus st =
     (case st of (l, db) \<Rightarrow>
       (let ok = (status = StSuccess);
            row = \<lparr>tc_conversation = gw_conversation g, tc_tool = name, tc_args = args,
                   tc_result = (if ok then (case result of Some v \<Rightarrow> Content v | None \<Rightarrow> NoResult)
                                else (case ap of Some i \<Rightarrow> NeedsApprovalRow i | None \<Rightarrow> NoResult)),
                   tc_ok = ok, tc_error = err\<rparr>;
            db1 = db\<lparr>gd_calls := gd_calls db @ [row]\<rparr>;
            (l2, db2) = (case gw_run g of
               None \<Rightarrow> (l, db1)
             | Some run \<Rightarrow>
                 (l\<lparr>gl_step_seq := gl_step_seq l + 1\<rparr>,
                  db1\<lparr>gd_steps := gd_steps db1 @
                    [\<lparr>as_run = run, as_sequence = gl_step_seq l + 1, as_type = stype,
                      as_agent = (if gl_agent l = [] then ''native'' else gl_agent l), as_agent_id = gl_agent l,
                      as_task = gl_task l, as_tool = name,
                      as_status = (case sstatus of Some s \<Rightarrow> s | None \<Rightarrow> if ok then StepDone else StepError)\<rparr>]\<rparr>))
        in (\<lparr>te_ok = ok, te_tool = name, te_args = args, te_status = status, te_error = err, te_approval = ap,
             te_result = (if ok then result else None)\<rparr>, l2, db2)))"

definition refuse where
  "refuse g name args status err st = finalize g name args status (Some err) None None ToolStep None st"

text \<open>The hooks: the arguments to go on with, or the message of a refusal.\<close>

definition hook_step :: "gateway \<Rightarrow> moment \<Rightarrow> args \<Rightarrow> string + args" where
  "hook_step g m args =
     (if \<not> gw_hooks g then Inr args
      else (case mo_hooks m of
              None \<Rightarrow> Inr args
            | Some answers \<Rightarrow>
                (let folded = run_pre_tool_use answers in
                 if hook_denies folded then Inl (if hk_message folded = [] then ''denied'' else hk_message folded)
                 else (case hk_updated folded of None \<Rightarrow> Inr args | Some a \<Rightarrow> Inr a))))"

definition policy_for_run :: "moment \<Rightarrow> gateway_local \<Rightarrow> exec_policy \<times> gateway_local" where
  "policy_for_run m l =
     (case gl_policy l of
        Some p \<Rightarrow> (p, l)
      | None \<Rightarrow> (mo_policy m, l\<lparr>gl_policy := Some (mo_policy m)\<rparr>))"

text \<open>The command policy: None, or the argument vector it forbids.\<close>

definition policy_step :: "moment \<Rightarrow> args \<Rightarrow> gateway_local \<Rightarrow> string list option \<times> gateway_local" where
  "policy_step m args l =
     (case argv_from_arguments (JDict args) of
        None \<Rightarrow> (None, l)
      | Some argv \<Rightarrow>
          (case policy_for_run m l of
             (p, l') \<Rightarrow> (if decide p argv = Forbidden then Some argv else None, l')))"

text \<open>The judge: whether the turn is aborted, and whether it let the call through.\<close>

definition guardian_step :: "gateway \<Rightarrow> moment \<Rightarrow> tool \<Rightarrow> gateway_local \<Rightarrow> (bool \<times> bool) \<times> gateway_local" where
  "guardian_step g m t l =
     (if gw_guardian g \<and> should_require_approval t
      then (case mo_verdict m of
              None \<Rightarrow> ((False, False), l)
            | Some allowed \<Rightarrow>
                (case gl_breaker l of
                   None \<Rightarrow> ((False, allowed), l)
                 | Some b \<Rightarrow>
                     (let b' = breaker_record allowed b in ((should_abort b', allowed), l\<lparr>gl_breaker := Some b'\<rparr>))))
      else ((False, False), l))"

definition run_tool :: "gateway \<Rightarrow> moment \<Rightarrow> string \<Rightarrow> tool \<Rightarrow> args \<Rightarrow> bool \<Rightarrow> 'h gw_state \<Rightarrow> tool_execution \<times> 'h gw_state" where
  "run_tool g m name t args judged st =
     (case st of (l, db) \<Rightarrow>
       (let st' = (l, db\<lparr>gd_ran := gd_ran db @ [\<lparr>tr_now = mo_now m, tr_run = gw_run g, tr_name = name, tr_tool = t, tr_args = args, tr_judged = judged\<rparr>]\<rparr>)
        in (case mo_outcome m of
              RanOut \<Rightarrow> refuse g name args StTimeout TimedOut st'
            | ToolErr e \<Rightarrow> refuse g name args StError (ToolFailed e) st'
            | Raised e \<Rightarrow> refuse g name args StError (ToolRaised e) st'
            | Returned v \<Rightarrow> finalize g name args StSuccess None None (Some v) ToolStep None st')))"

text \<open>From the judge on: the approval gate and the execution.\<close>

definition judge_and_run ::
  "(string \<Rightarrow> json \<Rightarrow> 'h) \<Rightarrow> gateway \<Rightarrow> moment \<Rightarrow> string \<Rightarrow> tool \<Rightarrow> args \<Rightarrow> 'h gw_state \<Rightarrow> tool_execution \<times> 'h gw_state" where
  "judge_and_run digest g m name t args st =
     (case st of (l1, db) \<Rightarrow>
     (case guardian_step g m t l1 of
        ((aborted, judged), l2) \<Rightarrow>
          if aborted then refuse g name args StBlocked GuardianAborted (l2, db)
          else if should_require_approval t \<and> \<not> judged
            \<and> find_valid_approval digest (mo_now m) (gw_run g) name args (gd_approvals db) = None
          then (case gw_run g of
                  None \<Rightarrow> refuse g name args StBlocked NoRunContext (l2, db)
                | Some run \<Rightarrow>
                    finalize g name args StNeedsApproval (Some ApprovalRequired) (Some (mo_new_id m)) None
                      ApprovalStep (Some StepWaiting)
                      (l2, db\<lparr>gd_approvals := create_pending_approval digest (mo_new_id m) (mo_now m) run
                             (gw_conversation g) (gw_user g) t args (gd_approvals db)\<rparr>))
          else run_tool g m name t args judged (l2, db)))"

definition sql_check :: "(json \<Rightarrow> string) \<Rightarrow> string \<Rightarrow> args \<Rightarrow> sql_error + string" where
  "sql_check repr_of name args =
     (if name = ''db_query'' then validate_readonly_sql (py_str repr_of (dict_get_or args ''sql'' (JStr []))) else Inr [])"

definition execute_inner ::
  "(string \<Rightarrow> json \<Rightarrow> 'h) \<Rightarrow> (json \<Rightarrow> string) \<Rightarrow> gateway \<Rightarrow> moment \<Rightarrow> tool_request \<Rightarrow> 'h gw_state \<Rightarrow> tool_execution \<times> 'h gw_state" where
  "execute_inner digest repr_of g m rq st =
     (case st of (l, db) \<Rightarrow>
      let name = rq_name rq in
      (case dict_get (gw_registry g) name of
         None \<Rightarrow> refuse g name (rq_args rq) StError UnknownTool st
       | Some t \<Rightarrow>
       (case hook_step g m (rq_args rq) of
          Inl msg \<Rightarrow> refuse g name (rq_args rq) StBlocked (DeniedByHook msg) st
        | Inr args \<Rightarrow>
          if \<not> is_tool_allowed (mo_disabled m) (mo_settings m) name (gw_user g) (rq_strict rq)
          then refuse g name args StBlocked NotPermitted st
          else if tl_requires_user t \<and> gw_user g = None then refuse g name args StBlocked UserRequired st
          else
          (case policy_step m args l of
             (Some argv, l1) \<Rightarrow> refuse g name args StBlocked (ForbiddenByPolicy (take 3 argv)) (l1, db)
           | (None, l1) \<Rightarrow>
             (case sql_check repr_of name args of
                Inl e \<Rightarrow> refuse g name args StBlocked (UnsafeSql e) (l1, db)
              | Inr _ \<Rightarrow> judge_and_run digest g m name t args (l1, db))))))"

definition execute ::
  "(string \<Rightarrow> json \<Rightarrow> 'h) \<Rightarrow> (json \<Rightarrow> string) \<Rightarrow> gateway \<Rightarrow> moment \<Rightarrow> tool_request \<Rightarrow> 'h gw_state \<Rightarrow> tool_execution \<times> 'h gw_state" where
  "execute digest repr_of g m rq st =
     (case st of (l, db) \<Rightarrow>
       (let l1 = l\<lparr>gl_agent := (case rq_agent rq of None \<Rightarrow> gl_agent l | Some a \<Rightarrow> a),
                   gl_task := (case rq_task rq of None \<Rightarrow> gl_task l | Some a \<Rightarrow> a)\<rparr>
        in (case (if gw_quotas g \<and> gw_user g \<noteq> None then mo_quota m else None) of
              Some reason \<Rightarrow> refuse g (rq_name rq) (rq_args rq) StQuota (QuotaReason reason) (l1, db)
            | None \<Rightarrow> execute_inner digest repr_of g m rq (l1, db))))"

section \<open>Hooks and the breaker\<close>

text \<open>One denial among the hooks denies the call; without one the last rewriting of the arguments wins.\<close>

lemma fold_hooks:
  "hf_denied (foldl fold_hook f rs) \<longleftrightarrow> hf_denied f \<or> (\<exists>r \<in> set rs. hook_denies r)"
  "hf_updated (foldl fold_hook f rs) = (case filter (\<lambda>r. hk_updated r \<noteq> None) (rev rs) of [] \<Rightarrow> hf_updated f | r # _ \<Rightarrow> hk_updated r)"
proof -
  show "hf_denied (foldl fold_hook f rs) \<longleftrightarrow> hf_denied f \<or> (\<exists>r \<in> set rs. hook_denies r)"
    by (induction rs arbitrary: f) (auto simp: fold_hook_def)
  show "hf_updated (foldl fold_hook f rs) = (case filter (\<lambda>r. hk_updated r \<noteq> None) (rev rs) of [] \<Rightarrow> hf_updated f | r # _ \<Rightarrow> hk_updated r)"
    by (induction rs rule: rev_induct) (auto simp: fold_hook_def split: option.splits)
qed

lemma hooks_deny_iff: "hook_denies (run_pre_tool_use answers) \<longleftrightarrow> (\<exists>r \<in> set answers. hook_denies r)"
  by (auto simp: run_pre_tool_use_def Let_def fold_hooks hook_denies_def)

text \<open>The reason a hook gives is lost: a denied call always reports the same word.\<close>

lemma denial_reason_lost: "hook_step g m args = Inl msg \<Longrightarrow> msg = ''denied''"
  by (auto simp: hook_step_def run_pre_tool_use_def hook_denies_def Let_def split: if_splits option.splits)

end
