(* ===== verification/Gateway_Claims.thy ===== *)
theory Gateway_Claims
  imports Tool_Gateway
begin

text \<open>
  What the gateway guarantees: one call leaves one audit row and reaches the tool only
  through every check; and, over any history of calls and decisions, a dangerous tool runs
  only with the judge's or a user's consent to exactly these arguments.
\<close>

section \<open>The effect of a call on the tables\<close>

lemma finalize_effect:
  assumes "finalize g name args status err ap result stype sstatus (l, db) = (e, l', db')"
  shows "gd_ran db' = gd_ran db" "gd_approvals db' = gd_approvals db"
    "te_ok e = (status = StSuccess)" "te_status e = status" "te_approval e = ap"
    "\<exists>row. gd_calls db' = gd_calls db @ [row] \<and> tc_ok row = te_ok e \<and> tc_tool row = name \<and> tc_args row = args"
    "gl_policy l' = gl_policy l" "gl_breaker l' = gl_breaker l"
  using assms by (auto simp: finalize_def Let_def split: option.splits)

definition audited :: "'h gateway_db \<Rightarrow> tool_execution \<Rightarrow> 'h gateway_db \<Rightarrow> bool" where
  "audited db e db' \<longleftrightarrow> (\<exists>row. gd_calls db' = gd_calls db @ [row] \<and> tc_ok row = te_ok e \<and> tc_tool row = te_tool e \<and> tc_args row = te_args e)"

text \<open>The checks a call has passed when the tool runs.\<close>

definition consented :: "(string \<Rightarrow> json \<Rightarrow> 'h) \<Rightarrow> gateway \<Rightarrow> moment \<Rightarrow> string \<Rightarrow> tool \<Rightarrow> args \<Rightarrow> bool \<Rightarrow> 'h tool_approval list \<Rightarrow> bool" where
  "consented digest g m name t args judged rows \<longleftrightarrow>
     \<not> tl_dangerous t
     \<or> (judged \<and> gw_guardian g \<and> mo_verdict m = Some True)
     \<or> (\<exists>ap. find_valid_approval digest (mo_now m) (gw_run g) name args rows = Some ap)"

definition admitted :: "(json \<Rightarrow> string) \<Rightarrow> gateway \<Rightarrow> moment \<Rightarrow> gateway_local \<Rightarrow> string \<Rightarrow> tool \<Rightarrow> bool option \<Rightarrow> args \<Rightarrow> bool" where
  "admitted repr_of g m l name t strict args \<longleftrightarrow>
     dict_get (gw_registry g) name = Some t
     \<and> name \<notin> mo_disabled m \<and> is_tool_allowed (mo_disabled m) (mo_settings m) name (gw_user g) strict
     \<and> (tl_requires_user t \<longrightarrow> gw_user g \<noteq> None)
     \<and> (\<forall>argv. argv_from_arguments (JDict args) = Some argv \<longrightarrow> decide (fst (policy_for_run m l)) argv \<noteq> Forbidden)
     \<and> (\<exists>r. sql_check repr_of name args = Inr r)"

definition new_run :: "gateway \<Rightarrow> moment \<Rightarrow> string \<Rightarrow> tool \<Rightarrow> args \<Rightarrow> bool \<Rightarrow> tool_run" where
  "new_run g m name t args judged =
     \<lparr>tr_now = mo_now m, tr_run = gw_run g, tr_name = name, tr_tool = t, tr_args = args, tr_judged = judged\<rparr>"

lemma finalize_audited:
  assumes "finalize g name args status err ap result stype sstatus (l, db) = (e, l', db')" "gd_calls db = gd_calls db0"
  shows "audited db0 e db'"
  using assms by (auto simp: audited_def finalize_def Let_def split: option.splits)

lemma run_tool_effect:
  assumes "run_tool g m name t args judged (l, db) = (e, l', db')"
  shows "gd_ran db' = gd_ran db @ [new_run g m name t args judged]" "gd_approvals db' = gd_approvals db"
    "audited db e db'" "te_ok e \<longleftrightarrow> (\<exists>v. mo_outcome m = Returned v)"
  using assms
  by (cases "mo_outcome m"; cases "gw_run g";
      auto simp: run_tool_def refuse_def new_run_def Let_def audited_def finalize_def)+

lemma refuse_effect:
  assumes "refuse g name args status err (l, db) = (e, l', db')" "status \<noteq> StSuccess"
  shows "gd_ran db' = gd_ran db" "gd_approvals db' = gd_approvals db" "audited db e db'" "\<not> te_ok e"
  using assms by (auto simp: refuse_def finalize_def Let_def audited_def split: option.splits)

lemma guardian_judged:
  assumes "guardian_step g m t l = ((aborted, judged), l')"
  shows "judged \<Longrightarrow> gw_guardian g \<and> mo_verdict m = Some True"
  using assms by (auto simp: guardian_step_def Let_def split: if_splits option.splits)

lemma policy_step_None:
  assumes "policy_step m args l = (None, l')"
  shows "\<forall>argv. argv_from_arguments (JDict args) = Some argv \<longrightarrow> decide (fst (policy_for_run m l)) argv \<noteq> Forbidden"
  using assms by (auto simp: policy_step_def split: option.splits prod.splits if_splits)

text \<open>The three ways a call ends: refused, waiting for approval, or run.\<close>

definition outcome_of ::
  "(string \<Rightarrow> json \<Rightarrow> 'h) \<Rightarrow> (json \<Rightarrow> string) \<Rightarrow> gateway \<Rightarrow> moment \<Rightarrow> tool_request \<Rightarrow> gateway_local \<Rightarrow> 'h gateway_db
    \<Rightarrow> tool_execution \<Rightarrow> 'h gateway_db \<Rightarrow> bool" where
  "outcome_of digest repr_of g m rq l db e db' \<longleftrightarrow> audited db e db' \<and>
     (let name = rq_name rq in
       (gd_ran db' = gd_ran db \<and> gd_approvals db' = gd_approvals db \<and> \<not> te_ok e)
     \<or> (\<exists>t args run. gd_ran db' = gd_ran db \<and> \<not> te_ok e \<and> gw_run g = Some run \<and> admitted repr_of g m l name t (rq_strict rq) args
         \<and> gd_approvals db' = create_pending_approval digest (mo_new_id m) (mo_now m) run (gw_conversation g) (gw_user g) t args (gd_approvals db))
     \<or> (\<exists>t args judged. gd_ran db' = gd_ran db @ [new_run g m name t args judged] \<and> gd_approvals db' = gd_approvals db
         \<and> admitted repr_of g m l name t (rq_strict rq) args
         \<and> consented digest g m name t args judged (gd_approvals db)))"

lemma refused_outcome:
  "refuse g n args status err (l1, db) = (e, l', db') \<Longrightarrow> status \<noteq> StSuccess \<Longrightarrow> outcome_of digest repr_of g m rq l db e db'"
  by (simp add: outcome_of_def Let_def refuse_effect [of g n args status err l1 db e l' db'])

lemma judge_and_run_outcome:
  assumes ex: "judge_and_run digest g m (rq_name rq) t args (l1, db) = (e, l', db')"
    and adm: "admitted repr_of g m l (rq_name rq) t (rq_strict rq) args"
  shows "outcome_of digest repr_of g m rq l db e db'"
proof -
  let ?name = "rq_name rq"
  obtain aborted judged l2 where gs: "guardian_step g m t l1 = ((aborted, judged), l2)"
    by (cases "guardian_step g m t l1") auto
  note ex = ex [unfolded judge_and_run_def gs prod.case]
  consider (aborted) "aborted"
    | (ask) "\<not> aborted" "should_require_approval t \<and> \<not> judged
         \<and> find_valid_approval digest (mo_now m) (gw_run g) ?name args (gd_approvals db) = None"
    | (go) "\<not> aborted" "\<not> (should_require_approval t \<and> \<not> judged
         \<and> find_valid_approval digest (mo_now m) (gw_run g) ?name args (gd_approvals db) = None)"
    by blast
  then show ?thesis
  proof cases
    case aborted
    then show ?thesis using ex by (auto intro: refused_outcome)
  next
    case ask
    note ex = ex [unfolded if_not_P [OF ask(1)] if_P [OF ask(2)]]
    show ?thesis
    proof (cases "gw_run g")
      case None
      then show ?thesis using ex by (auto intro: refused_outcome)
    next
      case (Some run)
      note fin = ex [unfolded Some option.case]
      show ?thesis
        using finalize_effect [OF fin] finalize_audited [OF fin, of db] Some adm
        by (auto simp: outcome_of_def Let_def)
    qed
  next
    case go
    note fin = ex [unfolded if_not_P [OF go(1)] if_not_P [OF go(2)]]
    have "consented digest g m ?name t args judged (gd_approvals db)"
      using go guardian_judged [OF gs] by (auto simp: consented_def should_require_approval_def)
    then show ?thesis using run_tool_effect [OF fin] adm by (auto simp: outcome_of_def Let_def)
  qed
qed

lemma execute_inner_outcome:
  assumes "execute_inner digest repr_of g m rq (l, db) = (e, l', db')"
  shows "outcome_of digest repr_of g m rq l db e db'"
proof -
  let ?name = "rq_name rq"
  note ex = assms [unfolded execute_inner_def prod.case Let_def]
  show ?thesis
  proof (cases "dict_get (gw_registry g) ?name")
    case None
    then show ?thesis using ex by (auto intro: refused_outcome)
  next
    case t: (Some t)
    show ?thesis
    proof (cases "hook_step g m (rq_args rq)")
      case (Inl msg)
      then show ?thesis using ex t by (auto intro: refused_outcome)
    next
      case args: (Inr args)
      note ex = ex [unfolded t option.case args sum.case]
      obtain forb l1 where p: "policy_step m args l = (forb, l1)" by (cases "policy_step m args l")
      note ex = ex [unfolded p prod.case]
      consider (no) "\<not> is_tool_allowed (mo_disabled m) (mo_settings m) ?name (gw_user g) (rq_strict rq)
             \<or> (tl_requires_user t \<and> gw_user g = None)"
        | (bad) "is_tool_allowed (mo_disabled m) (mo_settings m) ?name (gw_user g) (rq_strict rq)"
            "\<not> (tl_requires_user t \<and> gw_user g = None)" "forb \<noteq> None \<or> (\<exists>err. sql_check repr_of ?name args = Inl err)"
        | (ok) r where "is_tool_allowed (mo_disabled m) (mo_settings m) ?name (gw_user g) (rq_strict rq)"
            "\<not> (tl_requires_user t \<and> gw_user g = None)" "forb = None" "sql_check repr_of ?name args = Inr r"
        by (cases "sql_check repr_of ?name args"; blast)
      then show ?thesis
      proof cases
        case no
        then show ?thesis using ex by (auto intro: refused_outcome split: if_splits)
      next
        case bad
        then show ?thesis using ex by (cases forb) (auto intro: refused_outcome)
      next
        case ok
        have "admitted repr_of g m l ?name t (rq_strict rq) args"
          using t ok policy_step_None [OF p [unfolded ok(3)]]
          by (auto simp: admitted_def is_tool_allowed_def split: if_splits)
        then show ?thesis using ex ok by (intro judge_and_run_outcome [of digest g m rq t args l1 db e l' db']) simp_all
      qed
    qed
  qed
qed

lemma execute_outcome:
  assumes "execute digest repr_of g m rq (l, db) = (e, l', db')"
  obtains l0 where "gl_policy l0 = gl_policy l" "outcome_of digest repr_of g m rq l0 db e db'"
proof -
  let ?l = "l\<lparr>gl_agent := (case rq_agent rq of None \<Rightarrow> gl_agent l | Some a \<Rightarrow> a),
              gl_task := (case rq_task rq of None \<Rightarrow> gl_task l | Some a \<Rightarrow> a)\<rparr>"
  note ex = assms [unfolded execute_def prod.case Let_def]
  have "outcome_of digest repr_of g m rq ?l db e db'"
  proof (cases "if gw_quotas g \<and> gw_user g \<noteq> None then mo_quota m else None")
    case None
    then show ?thesis using ex by (auto intro: execute_inner_outcome)
  next
    case (Some reason)
    then show ?thesis using ex by (auto intro: refused_outcome)
  qed
  then show ?thesis using that [of ?l] by simp
qed

section \<open>Histories\<close>

record 'h world =
  wd_control :: "'h control_db"
  wd_waits :: coordinator
  wd_calls :: "tool_call_row list"
  wd_steps :: "agent_step list"
  wd_ran :: "tool_run list"
  wd_local :: "nat \<Rightarrow> gateway_local"

datatype event =
    CallEv nat moment tool_request
  | ApproveEv uuid timestamp user uuid uuid
  | RejectEv uuid timestamp user uuid uuid string
  | CancelEv uuid timestamp user uuid
  | RegisterEv uuid uuid string
  | ReleaseEv uuid

definition call_step ::
  "(string \<Rightarrow> json \<Rightarrow> 'h) \<Rightarrow> (json \<Rightarrow> string) \<Rightarrow> (nat \<Rightarrow> gateway) \<Rightarrow> nat \<Rightarrow> moment \<Rightarrow> tool_request \<Rightarrow> 'h world \<Rightarrow> tool_execution \<times> 'h world" where
  "call_step digest repr_of gws i m rq w =
     (case execute digest repr_of (gws i) m rq
        (wd_local w i, \<lparr>gd_approvals = cd_approvals (wd_control w), gd_calls = wd_calls w, gd_steps = wd_steps w, gd_ran = wd_ran w\<rparr>) of
        (e, l, db) \<Rightarrow>
          (e, w\<lparr>wd_control := (wd_control w)\<lparr>cd_approvals := gd_approvals db\<rparr>, wd_calls := gd_calls db, wd_steps := gd_steps db,
                wd_ran := gd_ran db, wd_local := (wd_local w)(i := l)\<rparr>))"

definition decided :: "(control_error + action_result) \<times> 'h control_db \<times> coordinator \<Rightarrow> 'h world \<Rightarrow> 'h world" where
  "decided r w = w\<lparr>wd_control := fst (snd r), wd_waits := snd (snd r)\<rparr>"

fun world_step ::
  "(string \<Rightarrow> json \<Rightarrow> 'h) \<Rightarrow> (json \<Rightarrow> string) \<Rightarrow> (uuid \<Rightarrow> string) \<Rightarrow> (nat \<Rightarrow> gateway) \<Rightarrow> 'h world \<Rightarrow> event \<Rightarrow> 'h world" where
  "world_step digest repr_of uuid_str gws w (CallEv i m rq) = snd (call_step digest repr_of gws i m rq w)"
| "world_step digest repr_of uuid_str gws w (ApproveEv new now u run ap) =
     decided (approve_run uuid_str new now u run ap (wd_control w, wd_waits w)) w"
| "world_step digest repr_of uuid_str gws w (RejectEv new now u run ap reason) =
     decided (reject_run uuid_str new now u run ap reason (wd_control w, wd_waits w)) w"
| "world_step digest repr_of uuid_str gws w (CancelEv new now u run) =
     decided (cancel_run new now u run (wd_control w, wd_waits w)) w"
| "world_step digest repr_of uuid_str gws w (RegisterEv run ap tool) = w\<lparr>wd_waits := register_wait run ap tool (wd_waits w)\<rparr>"
| "world_step digest repr_of uuid_str gws w (ReleaseEv ap) = w\<lparr>wd_waits := release_wait ap (wd_waits w)\<rparr>"

fun new_ids :: "event list \<Rightarrow> uuid list" where
  "new_ids [] = []"
| "new_ids (CallEv i m rq # evs) = mo_new_id m # new_ids evs"
| "new_ids (_ # evs) = new_ids evs"

lemma new_ids_append: "new_ids (evs @ evs') = new_ids evs @ new_ids evs'"
  by (induction evs rule: new_ids.induct) auto

definition owner_of :: "uuid \<Rightarrow> 'h control_db \<Rightarrow> uuid option option" where
  "owner_of run db = map_option rn_user (List.find (\<lambda>r. rn_id r = run) (cd_runs db))"

definition may_decide :: "user \<Rightarrow> uuid \<Rightarrow> 'h control_db \<Rightarrow> bool" where
  "may_decide u run db \<longleftrightarrow> (\<exists>o'. owner_of run db = Some o' \<and> (o' = Some (us_id u) \<or> us_role u = ''admin''))"

lemma load_owned_may: "load_owned u run db = Inr r \<Longrightarrow> may_decide u run db \<and> rn_id r = run"
  by (auto simp: load_owned_def may_decide_def owner_of_def dest: find_SomeD split: option.splits if_splits)

lemma may_decide_cong: "owner_of run db = owner_of run db' \<Longrightarrow> may_decide u run db = may_decide u run db'"
  by (simp add: may_decide_def)

text \<open>An approved row records a decision that was made.\<close>

definition decision_made :: "'h control_db \<Rightarrow> event list \<Rightarrow> 'h tool_approval \<Rightarrow> bool" where
  "decision_made db evs ap \<longleftrightarrow>
     (\<exists>new now u. ApproveEv new now u (ap_run ap) (ap_id ap) \<in> set evs \<and> may_decide u (ap_run ap) db
        \<and> ap_approved_by ap = Some (us_id u))"

definition approvals_ok :: "(string \<Rightarrow> json \<Rightarrow> 'h) \<Rightarrow> 'h control_db \<Rightarrow> event list \<Rightarrow> 'h tool_approval list \<Rightarrow> bool" where
  "approvals_ok digest db evs rows \<longleftrightarrow>
     distinct (map ap_id rows) \<and> set (map ap_id rows) \<subseteq> set (new_ids evs)
     \<and> (\<forall>ap \<in> set rows. ap_hash ap = arguments_hash digest (ap_tool ap) (ap_args ap)
          \<and> (ap_status ap = AApproved \<longrightarrow> decision_made db evs ap))"

lemma decision_made_mono: "decision_made db evs ap \<Longrightarrow> decision_made db (evs @ evs') ap"
  by (auto simp: decision_made_def)

lemma approvals_ok_mono: "approvals_ok digest db evs rows \<Longrightarrow> approvals_ok digest db (evs @ [ev]) rows"
  by (auto simp: approvals_ok_def new_ids_append intro: decision_made_mono)

lemma approvals_ok_create:
  assumes "approvals_ok digest db evs rows" "mo_new_id m \<notin> set (new_ids evs)"
  shows "approvals_ok digest db (evs @ [CallEv i m rq]) (create_pending_approval digest (mo_new_id m) now run conv u t args rows)"
  using assms by (auto simp: approvals_ok_def new_ids_append create_pending_approval_def intro: decision_made_mono)

lemma decide_row:
  assumes "find_approval run i db = Inr a"
  shows "a \<in> set (cd_approvals db)" "ap_id a = i" "ap_run a = run"
  using assms by (auto simp: find_approval_def dest: find_SomeD split: option.splits if_splits)

text \<open>Deciding a row leaves the others as they are.\<close>

lemma approvals_ok_update:
  assumes ok: "approvals_ok digest db evs rows" and a: "a \<in> set rows" "ap_id a = i"
    and keep: "\<And>b. ap_id (f b) = ap_id b" "\<And>b. ap_hash (f b) = ap_hash b" "\<And>b. ap_tool (f b) = ap_tool b" "\<And>b. ap_args (f b) = ap_args b"
    and new: "ap_status (f a) = AApproved \<Longrightarrow> decision_made db (evs @ [ev]) (f a)"
  shows "approvals_ok digest db (evs @ [ev]) (map_at ap_id i f rows)"
proof -
  have uniq: "b = a" if "b \<in> set rows" "ap_id b = i" for b
    using ok a that by (auto simp: approvals_ok_def distinct_map dest: inj_onD)
  have keys: "map ap_id (map_at ap_id i f rows) = map ap_id rows" by (rule map_at_keys) (rule keep(1))
  have "ap_hash b = arguments_hash digest (ap_tool b) (ap_args b) \<and> (ap_status b = AApproved \<longrightarrow> decision_made db (evs @ [ev]) b)"
    if "b \<in> set (map_at ap_id i f rows)" for b
  proof -
    consider "b = f a" | "b \<in> set rows" using \<open>b \<in> set _\<close> uniq by (auto simp: set_map_at)
    then show ?thesis
      using ok a new by cases (auto simp: approvals_ok_def keep decision_made_mono)
  qed
  moreover have "distinct (map ap_id rows)" "set (map ap_id rows) \<subseteq> set (new_ids (evs @ [ev]))"
    using ok by (auto simp: approvals_ok_def new_ids_append)
  ultimately show ?thesis using keys by (simp add: approvals_ok_def)
qed

definition world_inv :: "(string \<Rightarrow> json \<Rightarrow> 'h) \<Rightarrow> 'h control_db \<Rightarrow> event list \<Rightarrow> 'h world \<Rightarrow> bool" where
  "world_inv digest db0 evs w \<longleftrightarrow>
     (\<forall>run. owner_of run (wd_control w) = owner_of run db0)
     \<and> approvals_ok digest db0 evs (cd_approvals (wd_control w))"

lemma call_step_control:
  assumes "call_step digest repr_of gws i m rq w = (e, w')"
  obtains "cd_approvals (wd_control w') = cd_approvals (wd_control w)" "cd_runs (wd_control w') = cd_runs (wd_control w)"
  | run conv u t args where "cd_runs (wd_control w') = cd_runs (wd_control w)"
      "cd_approvals (wd_control w') = create_pending_approval digest (mo_new_id m) (mo_now m) run conv u t args (cd_approvals (wd_control w))"
proof -
  let ?db = "\<lparr>gd_approvals = cd_approvals (wd_control w), gd_calls = wd_calls w, gd_steps = wd_steps w, gd_ran = wd_ran w\<rparr>"
  obtain e0 l db where ex: "execute digest repr_of (gws i) m rq (wd_local w i, ?db) = (e0, l, db)"
    by (cases "execute digest repr_of (gws i) m rq (wd_local w i, ?db)") auto
  have w': "cd_approvals (wd_control w') = gd_approvals db" "cd_runs (wd_control w') = cd_runs (wd_control w)"
    using assms ex by (auto simp: call_step_def)
  obtain l0 where "outcome_of digest repr_of (gws i) m rq l0 ?db e0 db" using execute_outcome [OF ex] by blast
  then consider "gd_approvals db = gd_approvals ?db"
    | t args run where "gd_approvals db = create_pending_approval digest (mo_new_id m) (mo_now m) run (gw_conversation (gws i)) (gw_user (gws i)) t args (gd_approvals ?db)"
    unfolding outcome_of_def Let_def by blast
  then show ?thesis by cases (use that w' in auto)
qed

lemma owner_of_map_at: "(\<And>b. rn_id (f b) = rn_id b) \<Longrightarrow> (\<And>b. rn_user (f b) = rn_user b)
    \<Longrightarrow> owner_of run (db\<lparr>cd_runs := map_at rn_id k f (cd_runs db)\<rparr>) = owner_of run db"
  by (simp add: owner_of_def find_map_at option.map_comp comp_def) (metis (mono_tags, lifting))

lemma world_inv_approve:
  assumes inv: "world_inv digest db0 evs w"
  shows "world_inv digest db0 (evs @ [ApproveEv new now u run ap]) (decided (approve_run uuid_str new now u run ap (wd_control w, wd_waits w)) w)"
proof (cases "rbind (load_owned u run (wd_control w)) (\<lambda>r. find_approval (rn_id r) ap (wd_control w))")
  case (Inl e)
  then show ?thesis using inv approvals_ok_mono by (auto simp: approve_run_def decided_def world_inv_def)
next
  case (Inr a)
  then obtain r where r: "load_owned u run (wd_control w) = Inr r" "find_approval (rn_id r) ap (wd_control w) = Inr a"
    by (auto simp: rbind_Inr_iff)
  note may = load_owned_may [OF r(1)] and row = decide_row [OF r(2)]
  let ?f = "\<lambda>b. b\<lparr>ap_status := AApproved, ap_approved_by := Some (us_id u), ap_decided_at := Some now\<rparr>"
  have "may_decide u run db0" using may inv may_decide_cong unfolding world_inv_def by blast
  then have made: "decision_made db0 (evs @ [ApproveEv new now u run ap]) (?f a)"
    using may row by (auto simp: decision_made_def)
  have "approvals_ok digest db0 (evs @ [ApproveEv new now u run ap]) (map_at ap_id ap ?f (cd_approvals (wd_control w)))"
    by (rule approvals_ok_update [OF _ row(1) row(2)]) (use inv made in \<open>simp_all add: world_inv_def\<close>)
  then show ?thesis
    using inv Inr approvals_ok_mono
    by (auto simp: approve_run_def decided_def world_inv_def record_approve_def record_command_def owner_of_def)
qed

lemma world_inv_reject:
  assumes inv: "world_inv digest db0 evs w"
  shows "world_inv digest db0 (evs @ [RejectEv new now u run ap reason]) (decided (reject_run uuid_str new now u run ap reason (wd_control w, wd_waits w)) w)"
proof (cases "rbind (load_owned u run (wd_control w)) (\<lambda>r. find_approval (rn_id r) ap (wd_control w))")
  case (Inl e)
  then show ?thesis using inv approvals_ok_mono by (auto simp: reject_run_def decided_def world_inv_def)
next
  case (Inr a)
  then obtain r where r: "load_owned u run (wd_control w) = Inr r" "find_approval (rn_id r) ap (wd_control w) = Inr a"
    by (auto simp: rbind_Inr_iff)
  note row = decide_row [OF r(2)]
  have "approvals_ok digest db0 (evs @ [RejectEv new now u run ap reason])
      (map_at ap_id ap (\<lambda>b. b\<lparr>ap_status := ARejected, ap_reason := Some q, ap_decided_at := Some now\<rparr>) (cd_approvals (wd_control w)))" for q
    by (rule approvals_ok_update [OF _ row(1) row(2)]) (use inv in \<open>simp_all add: world_inv_def\<close>)
  then show ?thesis
    using inv Inr approvals_ok_mono
    by (auto simp: reject_run_def decided_def world_inv_def record_reject_def record_command_def owner_of_def Let_def)
qed

lemma world_inv_step:
  assumes inv: "world_inv digest db0 evs w" and fresh: "distinct (new_ids (evs @ [ev]))"
  shows "world_inv digest db0 (evs @ [ev]) (world_step digest repr_of uuid_str gws w ev)"
proof (cases ev)
  case (CallEv i m rq)
  obtain e w' where w': "call_step digest repr_of gws i m rq w = (e, w')" by (cases "call_step digest repr_of gws i m rq w")
  have new: "mo_new_id m \<notin> set (new_ids evs)" using fresh CallEv by (simp add: new_ids_append)
  show ?thesis
  proof (cases rule: call_step_control [OF w'])
    case 1
    then show ?thesis using inv CallEv w' approvals_ok_mono by (auto simp: world_inv_def owner_of_def)
  next
    case (2 run conv u t args)
    then show ?thesis using inv CallEv w' approvals_ok_create [OF _ new] by (auto simp: world_inv_def owner_of_def)
  qed
next
  case (ApproveEv new now u run ap)
  then show ?thesis using world_inv_approve [OF inv] by simp
next
  case (RejectEv new now u run ap reason)
  then show ?thesis using world_inv_reject [OF inv] by simp
next
  case (CancelEv new now u run)
  have "owner_of r (fst (snd (cancel_run new now u run (wd_control w, wd_waits w)))) = owner_of r (wd_control w)" for r
    by (auto simp: cancel_run_def record_cancel_def record_command_def owner_of_def find_map_at option.map_comp comp_def
        split: sum.splits if_splits option.splits intro!: option.map_cong0)
  moreover have "cd_approvals (fst (snd (cancel_run new now u run (wd_control w, wd_waits w)))) = cd_approvals (wd_control w)"
    by (auto simp: cancel_run_def record_cancel_def record_command_def split: sum.splits)
  ultimately show ?thesis using inv CancelEv approvals_ok_mono by (auto simp: world_inv_def decided_def)
qed (use inv approvals_ok_mono in \<open>auto simp: world_inv_def\<close>)

lemma world_inv_run:
  assumes "cd_approvals (wd_control w) = []" "distinct (new_ids evs)"
  shows "world_inv digest (wd_control w) evs (foldl (world_step digest repr_of uuid_str gws) w evs)"
  using assms(2)
proof (induction evs rule: rev_induct)
  case Nil
  then show ?case using assms(1) by (simp add: world_inv_def approvals_ok_def)
next
  case (snoc ev evs)
  then show ?case using world_inv_step by (simp add: new_ids_append)
qed

section \<open>Properties\<close>

lemma admitted_cong: "gl_policy l0 = gl_policy l \<Longrightarrow> admitted repr_of g m l0 = admitted repr_of g m l"
  by (rule ext)+ (auto simp: admitted_def policy_for_run_def split: option.splits)


text \<open>A world for the examples: one gateway with a shell tool, a user, no judge.\<close>

definition shell_tool :: tool where
  "shell_tool = \<lparr>tl_name = ''workspace_shell'', tl_dangerous = True, tl_requires_user = False\<rparr>"

definition demo_user :: user where "demo_user = \<lparr>us_id = 1, us_role = ''user''\<rparr>"

definition demo_gateway :: gateway where
  "demo_gateway = \<lparr>gw_conversation = 5, gw_run = Some 9, gw_user = Some demo_user,
     gw_registry = [(''workspace_shell'', shell_tool)], gw_guardian = False, gw_hooks = False, gw_quotas = False\<rparr>"

definition demo_settings :: tool_settings where
  "demo_settings = \<lparr>ts_env = ''prod'', ts_allow_python_exec = False, ts_python_sandbox = [], ts_sandbox_mode = ''local''\<rparr>"

definition demo_moment :: "timestamp \<Rightarrow> uuid \<Rightarrow> moment" where
  "demo_moment now new = \<lparr>mo_now = now, mo_new_id = new, mo_quota = None, mo_hooks = None, mo_disabled = {},
     mo_settings = demo_settings, mo_policy = strict_policy, mo_verdict = None, mo_outcome = Returned (JStr ''ok'')\<rparr>"

definition demo_request :: tool_request where
  "demo_request = \<lparr>rq_name = ''workspace_shell'', rq_args = [(''command'', JList [JStr ''ls''])],
     rq_strict = None, rq_agent = None, rq_task = None\<rparr>"

definition demo_local :: gateway_local where
  "demo_local = \<lparr>gl_step_seq = 0, gl_agent = [], gl_task = [], gl_policy = None, gl_breaker = None\<rparr>"

definition demo_world :: "(string \<times> json) world" where
  "demo_world = \<lparr>wd_control = \<lparr>cd_runs = [\<lparr>rn_id = 9, rn_user = Some 1, rn_status = RunRunning, rn_finished = None\<rparr>],
       cd_approvals = [], cd_commands = []\<rparr>,
     wd_waits = [], wd_calls = [], wd_steps = [], wd_ran = [], wd_local = (\<lambda>_. demo_local)\<rparr>"

definition demo_history :: "event list" where
  "demo_history = [CallEv 0 (demo_moment 10 100) demo_request, RegisterEv 9 100 ''workspace_shell'',
     ApproveEv 200 20 demo_user 9 100, ReleaseEv 100]"

lemma demo_first_call:
  "\<exists>l db. execute Pair (\<lambda>_. []) demo_gateway (demo_moment 10 100) demo_request
      (demo_local, \<lparr>gd_approvals = [], gd_calls = [], gd_steps = [], gd_ran = []\<rparr>)
    = (\<lparr>te_ok = False, te_tool = ''workspace_shell'', te_args = rq_args demo_request, te_status = StNeedsApproval,
        te_error = Some ApprovalRequired, te_approval = Some 100, te_result = None\<rparr>, l, db)
    \<and> gd_ran db = [] \<and> length (gd_calls db) = 1 \<and> map ap_id (gd_approvals db) = [100]"
  by (simp add: execute_def demo_gateway_def demo_moment_def demo_request_def demo_local_def execute_inner_def hook_step_def
      is_tool_allowed_def Let_def shell_tool_def policy_step_def argv_from_arguments_def policy_for_run_def decide_def strict_policy_def
      List.map_filter_def sql_check_def judge_and_run_def guardian_step_def should_require_approval_def find_valid_approval_def
      finalize_def create_pending_approval_def)


text \<open>C21: A dangerous tool runs only with consent to exactly its arguments. In any history of calls,
  approvals, rejections and cancellations over any number of runs, when a dangerous tool runs
  without the judge's consent then an approval row exists for this run and tool whose
  arguments, as shown to the user, are those of the call up to the order of keys, it has not
  expired, and the owner of the run or an administrator approved it earlier in the history.\<close>

theorem dangerous_call_was_approved:
  assumes start: "cd_approvals (wd_control w) = []"
    and fresh: "distinct (new_ids evs)"
    and collision_free: "\<And>t j t' j'. digest t j = digest t' j' \<Longrightarrow> t = t' \<and> j = j'"
    and now: "w1 = foldl (world_step digest repr_of uuid_str gws) w evs"
    and ran: "wd_ran (world_step digest repr_of uuid_str gws w1 (CallEv i m rq)) = wd_ran w1 @ [tr]"
    and dangerous: "tl_dangerous (tr_tool tr)" and unjudged: "\<not> tr_judged tr"
  shows "\<exists>ap \<in> set (cd_approvals (wd_control w1)). \<exists>new t u.
      ApproveEv new t u (ap_run ap) (ap_id ap) \<in> set evs \<and> may_decide u (ap_run ap) (wd_control w)
    \<and> tr_run tr = Some (ap_run ap) \<and> ap_tool ap = tr_name tr
    \<and> canon (JDict (ap_args ap)) = canon (JDict (tr_args tr))
    \<and> \<not> is_expired (tr_now tr) (ap_expires ap)"
proof -
  let ?db = "\<lparr>gd_approvals = cd_approvals (wd_control w1), gd_calls = wd_calls w1, gd_steps = wd_steps w1, gd_ran = wd_ran w1\<rparr>"
  have inv: "world_inv digest (wd_control w) evs w1" unfolding now by (rule world_inv_run [OF start fresh])
  obtain e l db where ex: "execute digest repr_of (gws i) m rq (wd_local w1 i, ?db) = (e, l, db)"
    by (cases "execute digest repr_of (gws i) m rq (wd_local w1 i, ?db)") auto
  have ran: "gd_ran db = wd_ran w1 @ [tr]" using ran ex by (simp add: call_step_def)
  obtain l0 where "outcome_of digest repr_of (gws i) m rq l0 ?db e db" using execute_outcome [OF ex] by blast
  then obtain t args judged where tr: "tr = new_run (gws i) m (rq_name rq) t args judged"
      and con: "consented digest (gws i) m (rq_name rq) t args judged (cd_approvals (wd_control w1))"
    using ran by (auto simp: outcome_of_def Let_def)
  then obtain ap where "find_valid_approval digest (mo_now m) (gw_run (gws i)) (rq_name rq) args (cd_approvals (wd_control w1)) = Some ap"
    using dangerous unjudged by (auto simp: consented_def new_run_def)
  then have ap: "ap \<in> set (cd_approvals (wd_control w1))" "Some (ap_run ap) = gw_run (gws i)" "ap_tool ap = rq_name rq"
      "ap_hash ap = arguments_hash digest (rq_name rq) args" "ap_status ap = AApproved" "\<not> is_expired (mo_now m) (ap_expires ap)"
    by (auto simp: find_valid_approval_def dest!: find_SomeD)
  have row: "ap_hash ap = arguments_hash digest (ap_tool ap) (ap_args ap)" "decision_made (wd_control w) evs ap"
    using inv ap by (auto simp: world_inv_def approvals_ok_def)
  have "digest (ap_tool ap) (canon (JDict (ap_args ap))) = digest (rq_name rq) (canon (JDict args))"
    using row(1) ap(4) by (simp only: arguments_hash_def)
  from collision_free [OF this] have "canon (JDict (ap_args ap)) = canon (JDict args)" by blast
  moreover obtain new t' u where "ApproveEv new t' u (ap_run ap) (ap_id ap) \<in> set evs" "may_decide u (ap_run ap) (wd_control w)"
    using row(2) by (auto simp: decision_made_def)
  ultimately show ?thesis
    using ap unfolding tr by (intro bexI [of _ ap] exI [of _ new] exI [of _ t'] exI [of _ u]) (simp_all add: new_run_def)
qed

theorem dangerous_call_was_approved_witness:
  "\<exists>(ap :: (string \<times> json) tool_approval) new t u. ApproveEv new t u 9 (ap_id ap) \<in> set demo_history \<and> ap_tool ap = ''workspace_shell''
     \<and> canon (JDict (ap_args ap)) = canon (JDict [(''command'', JList [JStr ''ls''])])"
proof -
  define gws :: "nat \<Rightarrow> gateway" where "gws = (\<lambda>_. demo_gateway)"
  let ?step = "world_step Pair (\<lambda>_. []) (\<lambda>_. []) gws"
  define w1 where "w1 = foldl ?step demo_world demo_history"
  let ?tr = "new_run demo_gateway (demo_moment 30 101) ''workspace_shell'' shell_tool (rq_args demo_request) False"
  have ran: "wd_ran (?step w1 (CallEv 0 (demo_moment 30 101) demo_request)) = wd_ran w1 @ [?tr]"
    unfolding w1_def gws_def by code_simp
  have start: "cd_approvals (wd_control demo_world) = []" by (simp add: demo_world_def)
  have fresh: "distinct (new_ids demo_history)" by (simp add: demo_history_def demo_moment_def)
  have danger: "tl_dangerous (tr_tool ?tr)" "\<not> tr_judged ?tr" by (simp_all add: new_run_def shell_tool_def)
  have "\<exists>ap \<in> set (cd_approvals (wd_control w1)). \<exists>new t u.
      ApproveEv new t u (ap_run ap) (ap_id ap) \<in> set demo_history \<and> may_decide u (ap_run ap) (wd_control demo_world)
    \<and> tr_run ?tr = Some (ap_run ap) \<and> ap_tool ap = tr_name ?tr
    \<and> canon (JDict (ap_args ap)) = canon (JDict (tr_args ?tr)) \<and> \<not> is_expired (tr_now ?tr) (ap_expires ap)"
    by (rule dangerous_call_was_approved [OF start fresh _ w1_def ran danger]) simp
  then obtain ap :: "(string \<times> json) tool_approval" and new t u where ap: "ApproveEv new t u (ap_run ap) (ap_id ap) \<in> set demo_history" "tr_run ?tr = Some (ap_run ap)"
      "ap_tool ap = tr_name ?tr" "canon (JDict (ap_args ap)) = canon (JDict (tr_args ?tr))"
    by blast
  have "ap_run ap = 9" using ap(2) by (simp add: new_run_def demo_gateway_def)
  then show ?thesis
    using ap by (intro exI [of _ ap] exI [of _ new] exI [of _ t] exI [of _ u]) (simp add: new_run_def demo_request_def)
qed

end
