(* ===== verification/Permission_Profiles.thy ===== *)
theory Permission_Profiles
  imports Json
begin

text \<open>
  Permission profiles (\<open>agents/permission_profiles.py\<close>): a profile names a parent and overrides some
  capabilities; resolving it walks the parents to a built-in root. The catalog marks which
  profiles may be chosen, and the operations of the workspace are mapped to the capability
  and the approval they need.
\<close>

datatype capability = FsRead | FsWrite | Network | Shell | DangerFullAccess

record capability_policy =
  cp_fs_read :: bool
  cp_fs_write :: bool
  cp_network :: bool
  cp_shell :: bool
  cp_danger :: bool

fun capability_granted :: "capability_policy \<Rightarrow> capability \<Rightarrow> bool" where
  "capability_granted p FsRead = cp_fs_read p"
| "capability_granted p FsWrite = cp_fs_write p"
| "capability_granted p Network = cp_network p"
| "capability_granted p Shell = cp_shell p"
| "capability_granted p DangerFullAccess = cp_danger p"

fun set_capability :: "capability \<Rightarrow> bool \<Rightarrow> capability_policy \<Rightarrow> capability_policy" where
  "set_capability FsRead b p = p\<lparr>cp_fs_read := b\<rparr>"
| "set_capability FsWrite b p = p\<lparr>cp_fs_write := b\<rparr>"
| "set_capability Network b p = p\<lparr>cp_network := b\<rparr>"
| "set_capability Shell b p = p\<lparr>cp_shell := b\<rparr>"
| "set_capability DangerFullAccess b p = p\<lparr>cp_danger := b\<rparr>"

definition merge_override :: "capability_policy \<Rightarrow> (capability, bool) dict \<Rightarrow> capability_policy" where
  "merge_override p overrides = foldr (\<lambda>(c, b). set_capability c b) overrides p"

definition BUILTINS :: "(string, capability_policy) dict" where
  "BUILTINS =
     [('':read-only'', \<lparr>cp_fs_read = True, cp_fs_write = False, cp_network = False, cp_shell = False, cp_danger = False\<rparr>),
      ('':workspace-write'', \<lparr>cp_fs_read = True, cp_fs_write = True, cp_network = False, cp_shell = True, cp_danger = False\<rparr>),
      ('':danger-full-access'', \<lparr>cp_fs_read = True, cp_fs_write = True, cp_network = True, cp_shell = True, cp_danger = True\<rparr>)]"

record profile_decl =
  pd_extends :: "string option"
  pd_overrides :: "(capability, bool) dict"

type_synonym profile_decls = "(string, profile_decl) dict"

datatype profile_error = ProfileCycle "string list" | UnknownBuiltin string | UnknownProfile string

definition is_builtin :: "string \<Rightarrow> bool" where
  "is_builtin n = (take 1 n = '':'')"

text \<open>The walk over the parents: the chain from the leaf to the root.\<close>

function profile_chain :: "profile_decls \<Rightarrow> string list \<Rightarrow> string option \<Rightarrow> profile_error + string list" where
  "profile_chain decls chain None = Inr chain"
| "profile_chain decls chain (Some cur) =
     (if cur \<in> set chain then Inl (ProfileCycle (chain @ [cur]))
      else if is_builtin cur
      then (if dict_get BUILTINS cur = None then Inl (UnknownBuiltin cur) else Inr (chain @ [cur]))
      else (case dict_get decls cur of
              None \<Rightarrow> Inl (UnknownProfile cur)
            | Some d \<Rightarrow> profile_chain decls (chain @ [cur]) (pd_extends d)))"
  by pat_completeness auto
termination
proof (relation "measure (\<lambda>(decls, chain, _). card (set (dict_keys decls) - set chain))", goal_cases)
  case (2 decls chain cur d)
  then have "cur \<in> set (dict_keys decls) - set chain" by (force dest: map_of_SomeD)
  then have "set (dict_keys decls) - set (chain @ [cur]) \<subset> set (dict_keys decls) - set chain" by auto
  then show ?case by (auto intro: psubset_card_mono)
qed simp

definition no_capabilities :: capability_policy where
  "no_capabilities = \<lparr>cp_fs_read = False, cp_fs_write = False, cp_network = False, cp_shell = False, cp_danger = False\<rparr>"

definition apply_profile :: "profile_decls \<Rightarrow> capability_policy \<Rightarrow> string \<Rightarrow> capability_policy" where
  "apply_profile decls p n =
     (if is_builtin n then the (dict_get BUILTINS n)
      else merge_override p (pd_overrides (the (dict_get decls n))))"

definition resolve_profile :: "string \<Rightarrow> profile_decls \<Rightarrow> profile_error + capability_policy" where
  "resolve_profile name decls =
     rbind (profile_chain decls [] (Some name)) (\<lambda>chain. Inr (foldl (apply_profile decls) no_capabilities (rev chain)))"

record catalog_entry =
  ce_name :: string
  ce_policy :: capability_policy
  ce_allowed :: bool

definition catalog_gate :: "string list option \<Rightarrow> string \<Rightarrow> bool" where
  "catalog_gate allowed n = (case allowed of None \<Rightarrow> True | Some l \<Rightarrow> n \<in> set l)"

fun catalog_custom :: "profile_decls \<Rightarrow> string list option \<Rightarrow> string list \<Rightarrow> profile_error + catalog_entry list" where
  "catalog_custom decls allowed [] = Inr []"
| "catalog_custom decls allowed (n # ns) =
     rbind (resolve_profile n decls) (\<lambda>p.
       rbind (catalog_custom decls allowed ns) (\<lambda>es. Inr (\<lparr>ce_name = n, ce_policy = p, ce_allowed = catalog_gate allowed n\<rparr> # es)))"

definition catalog :: "profile_decls \<Rightarrow> string list option \<Rightarrow> profile_error + catalog_entry list" where
  "catalog decls allowed =
     rbind (catalog_custom decls allowed (dict_keys decls)) (\<lambda>es.
       Inr (map (\<lambda>(n, p). \<lparr>ce_name = n, ce_policy = p, ce_allowed = catalog_gate allowed n\<rparr>) BUILTINS @ es))"

section \<open>Operations of the workspace\<close>

definition READ_OPERATIONS :: "string list" where
  "READ_OPERATIONS = [''workspace_read'', ''workspace_list'', ''workspace_search'', ''workspace_git_status'', ''workspace_git_diff'']"

definition WRITE_OPERATIONS :: "string list" where
  "WRITE_OPERATIONS = [''workspace_write'', ''workspace_apply_patch'', ''workspace_shell'', ''git_commit'', ''git_add'', ''git_push'', ''git_reset'', ''git_rebase'']"

definition EXEC_OPERATIONS :: "string list" where
  "EXEC_OPERATIONS = [''workspace_shell'', ''workspace_git_status'', ''workspace_git_diff'']"

definition TOOL_CAPABILITY :: "(string, capability) dict" where
  "TOOL_CAPABILITY = [(''workspace_read'', FsRead), (''workspace_list'', FsRead), (''workspace_search'', FsRead),
     (''workspace_git_status'', Shell), (''workspace_git_diff'', Shell), (''workspace_shell'', Shell),
     (''workspace_write'', FsWrite), (''workspace_apply_patch'', FsWrite)]"

definition capability_required_for :: "string \<Rightarrow> capability" where
  "capability_required_for op = dict_get_or TOOL_CAPABILITY op FsWrite"

definition requires_write_capability :: "string \<Rightarrow> bool" where
  "requires_write_capability op \<longleftrightarrow> op \<in> set WRITE_OPERATIONS"

datatype workspace_risk = WorkspaceLow | WorkspaceHigh

definition workspace_risk_level :: "string \<Rightarrow> workspace_risk" where
  "workspace_risk_level op =
     (if op \<in> set READ_OPERATIONS then WorkspaceLow else if op \<in> set WRITE_OPERATIONS then WorkspaceHigh else WorkspaceHigh)"

definition workspace_requires_approval :: "string \<Rightarrow> bool" where
  "workspace_requires_approval op \<longleftrightarrow> workspace_risk_level op = WorkspaceHigh"

definition recommended_profile_for :: "string \<Rightarrow> string" where
  "recommended_profile_for op = (if requires_write_capability op then '':workspace-write'' else '':read-only'')"

section \<open>Resolution\<close>

text \<open>What a profile and its parents say about one capability, the leaf first.\<close>

fun inherited :: "profile_decls \<Rightarrow> capability \<Rightarrow> string list \<Rightarrow> bool" where
  "inherited decls c [] = False"
| "inherited decls c (n # chain) =
     (if is_builtin n then capability_granted (the (dict_get BUILTINS n)) c
      else (case dict_get (pd_overrides (the (dict_get decls n))) c of
              Some b \<Rightarrow> b
            | None \<Rightarrow> inherited decls c chain))"

lemma granted_set: "capability_granted (set_capability c b p) c' = (if c' = c then b else capability_granted p c')"
  by (cases c; cases c') auto

lemma granted_merge:
  "capability_granted (merge_override p os) c = (case dict_get os c of Some b \<Rightarrow> b | None \<Rightarrow> capability_granted p c)"
  by (induction os) (auto simp: merge_override_def granted_set)

lemma resolve_chain_inherited:
  "capability_granted (foldl (apply_profile decls) no_capabilities (rev chain)) c = inherited decls c chain"
proof (induction chain)
  case Nil
  then show ?case by (cases c) (auto simp: no_capabilities_def)
qed (auto simp: apply_profile_def granted_merge split: option.splits)

text \<open>A valid chain follows the parents from the profile to a built-in or a root without parent.\<close>

fun follows :: "profile_decls \<Rightarrow> string list \<Rightarrow> bool" where
  "follows decls [] = True"
| "follows decls [n] = (if is_builtin n then dict_get BUILTINS n \<noteq> None
     else (\<exists>d. dict_get decls n = Some d \<and> pd_extends d = None))"
| "follows decls (n # p # chain) = (\<not> is_builtin n \<and> (\<exists>d. dict_get decls n = Some d \<and> pd_extends d = Some p) \<and> follows decls (p # chain))"

lemma profile_chain_follows:
  assumes "profile_chain decls chain (Some cur) = Inr out" "distinct chain"
  shows "\<exists>rest. out = chain @ cur # rest \<and> distinct out \<and> follows decls (cur # rest)"
  using assms
proof (induction decls chain "Some cur" arbitrary: cur rule: profile_chain.induct)
  case (2 decls chain cur)
  have nin: "cur \<notin> set chain" using "2.prems"(1) by (auto split: if_splits)
  show ?case
  proof (cases "is_builtin cur")
    case True
    then show ?thesis using 2 nin by (auto split: if_splits)
  next
    case False
    then obtain d where d: "dict_get decls cur = Some d" using "2.prems"(1) nin by (auto split: option.splits)
    have step: "profile_chain decls (chain @ [cur]) (pd_extends d) = Inr out" using "2.prems"(1) nin False d by simp
    show ?thesis
    proof (cases "pd_extends d")
      case None
      then show ?thesis using step nin "2.prems"(2) False d by auto
    next
      case (Some p)
      then obtain rest where "out = (chain @ [cur]) @ p # rest" "distinct out" "follows decls (p # rest)"
        using "2.hyps" [OF nin False d Some] step "2.prems"(2) nin by auto
      then show ?thesis using False d Some by (intro exI [of _ "p # rest"]) auto
    qed
  qed
qed

text \<open>Inheritance of permission profiles. Resolving a profile always ends; when it succeeds it has
  walked the parents, without meeting one twice, to a built-in or a profile without parent,
  and grants a capability exactly when the nearest profile on that way that mentions it
  grants it (a built-in mentions all of them, and what no profile mentions is denied).\<close>

theorem resolve_profile_nearest:
  assumes "resolve_profile name decls = Inr p"
  shows "\<exists>chain. hd chain = name \<and> chain \<noteq> [] \<and> distinct chain \<and> follows decls chain
    \<and> (\<forall>c. capability_granted p c = inherited decls c chain)"
proof -
  obtain chain where "profile_chain decls [] (Some name) = Inr chain"
      and p: "p = foldl (apply_profile decls) no_capabilities (rev chain)"
    using assms by (auto simp: resolve_profile_def result_simps)
  then obtain rest where "chain = name # rest" "distinct chain" "follows decls (name # rest)"
    using profile_chain_follows by fastforce
  then show ?thesis unfolding p resolve_chain_inherited by (intro exI [of _ chain]) simp
qed

theorem resolve_profile_nearest_witness:
  "\<exists>p chain. resolve_profile ''ci'' [(''ci'', \<lparr>pd_extends = Some ''base'', pd_overrides = [(Network, True)]\<rparr>),
       (''base'', \<lparr>pd_extends = Some '':workspace-write'', pd_overrides = [(Shell, False)]\<rparr>)] = Inr p
     \<and> hd chain = ''ci'' \<and> capability_granted p Network \<and> \<not> capability_granted p Shell \<and> capability_granted p FsWrite"
proof -
  let ?d = "[(''ci'', \<lparr>pd_extends = Some ''base'', pd_overrides = [(Network, True)]\<rparr>),
       (''base'', \<lparr>pd_extends = Some '':workspace-write'', pd_overrides = [(Shell, False)]\<rparr>)]"
  let ?p = "\<lparr>cp_fs_read = True, cp_fs_write = True, cp_network = True, cp_shell = False, cp_danger = False\<rparr>"
  have r: "resolve_profile ''ci'' ?d = Inr ?p"
    by (simp add: resolve_profile_def is_builtin_def BUILTINS_def apply_profile_def merge_override_def)
  then show ?thesis using resolve_profile_nearest [OF r] by auto
qed

text \<open>A profile that only an ancestor of itself could root is refused, and the built-in profiles are
  gated by the list like the others.\<close>

lemma profile_cycle_refused:
  "resolve_profile ''a'' [(''a'', \<lparr>pd_extends = Some ''b'', pd_overrides = []\<rparr>), (''b'', \<lparr>pd_extends = Some ''a'', pd_overrides = []\<rparr>)]
    = Inl (ProfileCycle [''a'', ''b'', ''a''])"
  by (simp add: resolve_profile_def is_builtin_def)

lemma builtin_gated: "map ce_allowed (case catalog [] (Some [''ci'']) of Inr es \<Rightarrow> es | Inl _ \<Rightarrow> []) = [False, False, False]"
  by (simp add: catalog_def BUILTINS_def catalog_gate_def)

text \<open>Every operation that changes the workspace needs an approval and the capability its recommended profile grants.\<close>

lemma recommended_profile_grants:
  "list_all (\<lambda>op. workspace_requires_approval op \<and> capability_granted (the (dict_get BUILTINS (recommended_profile_for op))) (capability_required_for op))
     WRITE_OPERATIONS"
  by code_simp

text \<open>The read-only git queries are the exception: their recommended profile does not grant the shell they need.\<close>

lemma git_queries_not_granted:
  "\<not> capability_granted (the (dict_get BUILTINS (recommended_profile_for ''workspace_git_status''))) (capability_required_for ''workspace_git_status'')"
  by code_simp

end
