(* ===== verification/Ingest_Queue.thy ===== *)
theory Ingest_Queue
  imports Prelude
begin

text \<open>
  The durable queue of document ingestion (\<open>services/ingestion_queue.py\<close>) with the progress
  writes of the pipeline (\<open>services/document_service.py\<close>). A document's row is its job: the
  status is the state machine and the \<open>ingest_*\<close> columns schedule it. Every step is one
  conditional UPDATE, so a history of steps is an interleaving of any number of workers and
  requests. Parsing, splitting, embedding and the vector store are an input of the pipeline.
\<close>

section \<open>Rows\<close>

datatype document_status = DPending | DParsing | DChunking | DEmbedding | DIndexed | DFailed

record document =
  dc_id :: uuid
  dc_created :: timestamp
  dc_status :: document_status
  dc_error :: "string option"
  dc_chunks :: nat
  dc_attempts :: nat
  dc_next_retry :: "timestamp option"
  dc_lease :: "timestamp option"
  dc_claimed_by :: "string option"
  dc_version :: nat

definition CLAIMABLE_STATUSES :: "document_status list" where
  "CLAIMABLE_STATUSES = [DPending, DParsing, DChunking, DEmbedding]"

definition CLAIM_SCAN :: nat where "CLAIM_SCAN = 10"

definition BACKOFF_CAP_SECONDS :: int where "BACKOFF_CAP_SECONDS = 1800"

record ingest_settings =
  is_lease_ttl :: int
  is_renew :: int
  is_max_attempts :: int
  is_backoff :: int

record ingest_knobs =
  kn_ttl :: int
  kn_renew :: int
  kn_max_attempts :: nat
  kn_backoff :: int

definition ingest_knobs_of :: "ingest_settings \<Rightarrow> ingest_knobs" where
  "ingest_knobs_of s = \<lparr>kn_ttl = max 1 (is_lease_ttl s), kn_renew = max 1 (is_renew s),
     kn_max_attempts = nat (max 1 (is_max_attempts s)), kn_backoff = max 1 (is_backoff s)\<rparr>"

definition backoff_seconds :: "nat \<Rightarrow> int \<Rightarrow> int" where
  "backoff_seconds attempts base =
     (if attempts < 1 then base else min (base * 2 ^ (attempts - 1)) BACKOFF_CAP_SECONDS)"

section \<open>Queueing and claiming\<close>

definition lease_free :: "timestamp \<Rightarrow> document \<Rightarrow> bool" where
  "lease_free now d \<longleftrightarrow> (case dc_lease d of None \<Rightarrow> True | Some t \<Rightarrow> t \<le> now)"

definition claimable :: "timestamp \<Rightarrow> document \<Rightarrow> bool" where
  "claimable now d \<longleftrightarrow> dc_status d \<in> set CLAIMABLE_STATUSES \<and> lease_free now d
     \<and> (case dc_next_retry d of None \<Rightarrow> True | Some t \<Rightarrow> t \<le> now)"

text \<open>A conditional UPDATE of one row: whether it matched, and the table after it.\<close>

definition update_doc :: "(document \<Rightarrow> bool) \<Rightarrow> (document \<Rightarrow> document) \<Rightarrow> uuid \<Rightarrow> document list \<Rightarrow> bool \<times> document list" where
  "update_doc cond f i db =
     (list_ex (\<lambda>d. dc_id d = i \<and> cond d) db, map (\<lambda>d. if dc_id d = i \<and> cond d then f d else d) db)"

definition find_doc :: "uuid \<Rightarrow> document list \<Rightarrow> document option" where
  "find_doc i db = List.find (\<lambda>d. dc_id d = i) db"

definition new_document :: "uuid \<Rightarrow> timestamp \<Rightarrow> document" where
  "new_document i now = \<lparr>dc_id = i, dc_created = now, dc_status = DPending, dc_error = None, dc_chunks = 0,
     dc_attempts = 0, dc_next_retry = None, dc_lease = None, dc_claimed_by = None, dc_version = 0\<rparr>"

definition enqueue :: "timestamp \<Rightarrow> uuid \<Rightarrow> bool \<Rightarrow> document list \<Rightarrow> bool \<times> document list" where
  "enqueue now i reset_attempts db =
     update_doc (lease_free now)
       (\<lambda>d. d\<lparr>dc_status := DPending, dc_error := None, dc_next_retry := None, dc_lease := None, dc_claimed_by := None,
              dc_attempts := (if reset_attempts then 0 else dc_attempts d)\<rparr>) i db"

definition claim_candidates :: "timestamp \<Rightarrow> document list \<Rightarrow> uuid list" where
  "claim_candidates now db = map dc_id (take CLAIM_SCAN (sort_key dc_created (filter (claimable now) db)))"

definition claim_values :: "timestamp \<Rightarrow> string \<Rightarrow> document \<Rightarrow> document" where
  "claim_values expires worker d =
     d\<lparr>dc_status := DParsing, dc_lease := Some expires, dc_claimed_by := Some worker,
       dc_attempts := dc_attempts d + 1, dc_version := dc_version d + 1\<rparr>"

text \<open>The claim of one candidate: the new version when the UPDATE matched.\<close>

definition claim_update :: "timestamp \<Rightarrow> timestamp \<Rightarrow> string \<Rightarrow> uuid \<Rightarrow> document list \<Rightarrow> nat option \<times> document list" where
  "claim_update now expires worker i db =
     (case update_doc (claimable now) (claim_values expires worker) i db of
        (hit, db') \<Rightarrow> (if hit then map_option dc_version (find_doc i db') else None, db'))"

fun claim_loop :: "timestamp \<Rightarrow> timestamp \<Rightarrow> string \<Rightarrow> uuid list \<Rightarrow> document list \<Rightarrow> (uuid \<times> nat) option \<times> document list" where
  "claim_loop now expires worker [] db = (None, db)"
| "claim_loop now expires worker (i # is) db =
     (case claim_update now expires worker i db of
        (Some v, db') \<Rightarrow> (Some (i, v), db')
      | (None, db') \<Rightarrow> claim_loop now expires worker is db')"

text \<open>A claim that nobody interrupts.\<close>

definition claim_job :: "ingest_knobs \<Rightarrow> timestamp \<Rightarrow> string \<Rightarrow> document list \<Rightarrow> (uuid \<times> nat) option \<times> document list" where
  "claim_job k now worker db = claim_loop now (now + seconds (kn_ttl k)) worker (claim_candidates now db) db"

definition holds_live :: "timestamp \<Rightarrow> string \<Rightarrow> nat option \<Rightarrow> document \<Rightarrow> bool" where
  "holds_live now worker version d \<longleftrightarrow>
     dc_claimed_by d = Some worker \<and> (case dc_lease d of None \<Rightarrow> False | Some t \<Rightarrow> t > now)
     \<and> (case version of None \<Rightarrow> True | Some v \<Rightarrow> dc_version d = v)"

definition renew_lease :: "ingest_knobs \<Rightarrow> timestamp \<Rightarrow> string \<Rightarrow> uuid \<Rightarrow> nat option \<Rightarrow> document list \<Rightarrow> bool \<times> document list" where
  "renew_lease k now worker i version db =
     update_doc (holds_live now worker version) (\<lambda>d. d\<lparr>dc_lease := Some (now + seconds (kn_ttl k))\<rparr>) i db"

section \<open>Closing a claim\<close>

record ingest_outcome =
  oc_ok :: bool
  oc_error :: "string option"
  oc_retryable :: bool

datatype verdict = VDone | VRetry | VFailed | VLost | VGone

definition outcome_error :: "ingest_outcome \<Rightarrow> string" where
  "outcome_error oc = (case oc_error oc of None \<Rightarrow> ''ingestion failed'' | Some e \<Rightarrow> if e = [] then ''ingestion failed'' else take 500 e)"

definition will_retry :: "ingest_knobs \<Rightarrow> nat \<Rightarrow> ingest_outcome \<Rightarrow> bool" where
  "will_retry k attempts oc \<longleftrightarrow> oc_retryable oc \<and> attempts < kn_max_attempts k"

definition finish_values :: "ingest_knobs \<Rightarrow> timestamp \<Rightarrow> nat \<Rightarrow> ingest_outcome \<Rightarrow> document \<Rightarrow> document" where
  "finish_values k now attempts oc d =
     (let d1 = d\<lparr>dc_lease := None, dc_claimed_by := None\<rparr> in
      if oc_ok oc then d1\<lparr>dc_next_retry := None\<rparr>
      else if will_retry k attempts oc
      then d1\<lparr>dc_status := DPending, dc_error := Some (outcome_error oc),
              dc_next_retry := Some (now + seconds (backoff_seconds attempts (kn_backoff k)))\<rparr>
      else d1\<lparr>dc_status := DFailed, dc_error := Some (outcome_error oc), dc_next_retry := None\<rparr>)"

definition holds_claim :: "string \<Rightarrow> nat option \<Rightarrow> document \<Rightarrow> bool" where
  "holds_claim worker version d \<longleftrightarrow>
     (case version of Some v \<Rightarrow> dc_version d = v | None \<Rightarrow> dc_claimed_by d = Some worker)"

text \<open>The write of \<open>finish\<close>, with the number of attempts that was read before it.\<close>

definition finish_write ::
  "ingest_knobs \<Rightarrow> timestamp \<Rightarrow> string \<Rightarrow> uuid \<Rightarrow> nat option \<Rightarrow> nat \<Rightarrow> ingest_outcome \<Rightarrow> document list \<Rightarrow> verdict \<times> document list" where
  "finish_write k now worker i version attempts oc db =
     (case update_doc (holds_claim worker version) (finish_values k now attempts oc) i db of
        (hit, db') \<Rightarrow>
          (if \<not> hit then VLost
           else if oc_ok oc then VDone
           else if will_retry k attempts oc then VRetry else VFailed, db'))"

definition finish ::
  "ingest_knobs \<Rightarrow> timestamp \<Rightarrow> string \<Rightarrow> uuid \<Rightarrow> nat option \<Rightarrow> ingest_outcome \<Rightarrow> document list \<Rightarrow> verdict \<times> document list" where
  "finish k now worker i version oc db =
     (case find_doc i db of
        None \<Rightarrow> (VGone, db)
      | Some d \<Rightarrow>
          if \<not> holds_claim worker version d then (VLost, db)
          else finish_write k now worker i version (dc_attempts d) oc db)"

section \<open>The pipeline\<close>

text \<open>A progress write; False is the exception \<open>_ClaimLost\<close>.\<close>

definition write_progress :: "(document \<Rightarrow> document) \<Rightarrow> uuid \<Rightarrow> nat option \<Rightarrow> document list \<Rightarrow> bool \<times> document list" where
  "write_progress f i version db =
     (case version of
        None \<Rightarrow> (True, snd (update_doc (\<lambda>_. True) f i db))
      | Some v \<Rightarrow> update_doc (\<lambda>d. dc_version d = v) f i db)"

text \<open>What the work on the file does: it raises while parsing, splitting or embedding (with whether the
  error is one of the file), or stores a number of chunks.\<close>

datatype pipeline_work = ParseError string bool | SplitError string bool | EmbedError string bool | Stored nat

definition progress_status :: "document_status \<Rightarrow> document \<Rightarrow> document" where
  "progress_status s d = (if s = DParsing then d\<lparr>dc_status := s, dc_error := None\<rparr> else d\<lparr>dc_status := s\<rparr>)"

definition failed_with :: "string \<Rightarrow> document \<Rightarrow> document" where
  "failed_with msg d = d\<lparr>dc_status := DFailed, dc_error := Some msg\<rparr>"

definition lost_outcome :: ingest_outcome where
  "lost_outcome = \<lparr>oc_ok = False, oc_error = Some ''claim lost'', oc_retryable = False\<rparr>"

definition pipeline_failed :: "uuid \<Rightarrow> nat option \<Rightarrow> string \<Rightarrow> bool \<Rightarrow> document list \<Rightarrow> ingest_outcome \<times> document list" where
  "pipeline_failed i version msg of_file db =
     (case write_progress (failed_with (take 500 msg)) i version db of
        (ok, db') \<Rightarrow> (\<lparr>oc_ok = False, oc_error = Some (take 500 msg), oc_retryable = ok \<and> \<not> of_file\<rparr>, db'))"

fun work_steps :: "pipeline_work \<Rightarrow> document_status list" where
  "work_steps (ParseError _ _) = [DParsing]"
| "work_steps (SplitError _ _) = [DParsing, DChunking]"
| "work_steps (EmbedError _ _) = [DParsing, DChunking, DEmbedding]"
| "work_steps (Stored _) = [DParsing, DChunking, DEmbedding]"

fun progress_loop :: "uuid \<Rightarrow> nat option \<Rightarrow> document_status list \<Rightarrow> document list \<Rightarrow> bool \<times> document list" where
  "progress_loop i version [] db = (True, db)"
| "progress_loop i version (s # ss) db =
     (case write_progress (progress_status s) i version db of
        (False, db') \<Rightarrow> (False, db')
      | (True, db') \<Rightarrow> progress_loop i version ss db')"

fun work_result :: "uuid \<Rightarrow> nat option \<Rightarrow> pipeline_work \<Rightarrow> document list \<Rightarrow> ingest_outcome \<times> document list" where
  "work_result i version (Stored n) db =
     (case write_progress (\<lambda>d. d\<lparr>dc_status := DIndexed, dc_chunks := n, dc_error := None\<rparr>) i version db of
        (True, db') \<Rightarrow> (\<lparr>oc_ok = True, oc_error = None, oc_retryable = True\<rparr>, db')
      | (False, db') \<Rightarrow> (lost_outcome, db'))"
| "work_result i version (ParseError msg of_file) db = pipeline_failed i version msg of_file db"
| "work_result i version (SplitError msg of_file) db = pipeline_failed i version msg of_file db"
| "work_result i version (EmbedError msg of_file) db = pipeline_failed i version msg of_file db"

definition index_document :: "uuid \<Rightarrow> nat option \<Rightarrow> bool \<Rightarrow> pipeline_work \<Rightarrow> document list \<Rightarrow> ingest_outcome \<times> document list" where
  "index_document i version kb_exists work db =
     (case find_doc i db of
        None \<Rightarrow> (\<lparr>oc_ok = False, oc_error = Some ''Document not found'', oc_retryable = False\<rparr>, db)
      | Some _ \<Rightarrow>
          if \<not> kb_exists
          then (case write_progress (failed_with ''Knowledge base not found'') i version db of
                  (True, db') \<Rightarrow> (\<lparr>oc_ok = False, oc_error = Some ''Knowledge base not found'', oc_retryable = False\<rparr>, db')
                | (False, db') \<Rightarrow> (lost_outcome, db'))
          else (case progress_loop i version (work_steps work) db of
                  (False, db') \<Rightarrow> (lost_outcome, db')
                | (True, db') \<Rightarrow> work_result i version work db'))"

text \<open>One turn of a worker that nobody interrupts.\<close>

definition run_once ::
  "ingest_knobs \<Rightarrow> timestamp \<Rightarrow> timestamp \<Rightarrow> string \<Rightarrow> bool \<Rightarrow> pipeline_work \<Rightarrow> document list \<Rightarrow> (uuid \<times> verdict) option \<times> document list" where
  "run_once k now done_at worker kb_exists work db =
     (case claim_job k now worker db of
        (None, db') \<Rightarrow> (None, db')
      | (Some (i, v), db') \<Rightarrow>
          (case index_document i (Some v) kb_exists work db' of
             (oc, db'') \<Rightarrow> (case finish k done_at worker i (Some v) oc db'' of (r, db3) \<Rightarrow> (Some (i, r), db3))))"

definition delete_document :: "uuid \<Rightarrow> document list \<Rightarrow> bool \<times> document list" where
  "delete_document i db = (find_doc i db \<noteq> None, filter (\<lambda>d. dc_id d \<noteq> i) db)"

end
