(* ===== verification/Ingest_Claims.thy ===== *)
theory Ingest_Claims
  imports Ingest_Queue
begin

text \<open>
  What the ingestion queue guarantees over histories: every claim of a document gets the next
  version, only the holder of the latest version writes, a live lease keeps others out, and
  retries are bounded and delayed.
\<close>

section \<open>Histories\<close>

text \<open>Every step is one database statement; \<open>WriteFinish\<close> carries the attempts read before it.\<close>

datatype ingest_op =
    Upload uuid timestamp
  | Requeue timestamp uuid bool
  | TryClaim timestamp timestamp string uuid
  | Renew ingest_knobs timestamp string uuid nat
  | Progress uuid nat document_status
  | WriteFinish ingest_knobs timestamp string uuid nat nat ingest_outcome
  | Delete uuid

text \<open>What a step did: a claim with its version, or a write accepted under a version.\<close>

datatype ingest_event = Claimed uuid nat | Wrote uuid nat

fun ingest_step :: "ingest_op \<Rightarrow> document list \<Rightarrow> ingest_event list \<times> document list" where
  "ingest_step (Upload i now) db = ([], db @ [new_document i now])"
| "ingest_step (Requeue now i reset_attempts) db = ([], snd (enqueue now i reset_attempts db))"
| "ingest_step (TryClaim now expires w i) db =
     (case claim_update now expires w i db of
        (None, db') \<Rightarrow> ([], db')
      | (Some v, db') \<Rightarrow> ([Claimed i v], db'))"
| "ingest_step (Renew k now w i v) db =
     (case renew_lease k now w i (Some v) db of (hit, db') \<Rightarrow> (if hit then [Wrote i v] else [], db'))"
| "ingest_step (Progress i v s) db =
     (case write_progress (progress_status s) i (Some v) db of (hit, db') \<Rightarrow> (if hit then [Wrote i v] else [], db'))"
| "ingest_step (WriteFinish k now w i v attempts oc) db =
     (case finish_write k now w i (Some v) attempts oc db of (r, db') \<Rightarrow> (if r \<noteq> VLost then [Wrote i v] else [], db'))"
| "ingest_step (Delete i) db = ([], snd (delete_document i db))"

fun ingest_run :: "ingest_op list \<Rightarrow> document list \<Rightarrow> ingest_event list \<times> document list" where
  "ingest_run [] db = ([], db)"
| "ingest_run (op # ops) db =
     (case ingest_step op db of (es, db') \<Rightarrow> (case ingest_run ops db' of (es', db'') \<Rightarrow> (es @ es', db'')))"

fun uploads :: "ingest_op list \<Rightarrow> uuid list" where
  "uploads [] = []"
| "uploads (Upload i now # ops) = i # uploads ops"
| "uploads (_ # ops) = uploads ops"

fun claimed_versions :: "uuid \<Rightarrow> ingest_event list \<Rightarrow> nat list" where
  "claimed_versions i [] = []"
| "claimed_versions i (Claimed j v # es) = (if j = i then v # claimed_versions i es else claimed_versions i es)"
| "claimed_versions i (Wrote j v # es) = claimed_versions i es"

lemma claimed_versions_append [simp]: "claimed_versions i (es @ es') = claimed_versions i es @ claimed_versions i es'"
  by (induction i es rule: claimed_versions.induct) auto

lemma ingest_run_append:
  "ingest_run (ops @ ops') db =
     (case ingest_run ops db of (es, db') \<Rightarrow> (case ingest_run ops' db' of (es', db'') \<Rightarrow> (es @ es', db'')))"
  by (induction ops arbitrary: db) (auto split: prod.splits)

lemma uploads_append: "uploads (ops @ ops') = uploads ops @ uploads ops'"
  by (induction ops rule: uploads.induct) auto

section \<open>Versions\<close>

text \<open>The rows have distinct ids, and a row's version counts the claims of its document.\<close>

definition versions_ok :: "uuid list \<Rightarrow> ingest_event list \<Rightarrow> document list \<Rightarrow> bool" where
  "versions_ok ids es db \<longleftrightarrow>
     distinct (map dc_id db) \<and> set (map dc_id db) \<subseteq> set ids
     \<and> (\<forall>d \<in> set db. claimed_versions (dc_id d) es = [1..<Suc (dc_version d)])
     \<and> (\<forall>i. i \<notin> set ids \<longrightarrow> claimed_versions i es = [])"

lemma update_doc_ids: "(\<And>d. dc_id (f d) = dc_id d) \<Longrightarrow> map dc_id (snd (update_doc cond f i db)) = map dc_id db"
  by (auto simp: update_doc_def)

lemma update_doc_set:
  "d' \<in> set (snd (update_doc cond f i db)) \<Longrightarrow>
     (\<exists>d \<in> set db. d' = (if dc_id d = i \<and> cond d then f d else d))"
  by (auto simp: update_doc_def)

lemma update_keeps_versions:
  assumes "versions_ok ids es db" "\<And>d. dc_id (f d) = dc_id d" "\<And>d. dc_version (f d) = dc_version d"
  shows "versions_ok ids (es @ (if b then [Wrote j v] else [])) (snd (update_doc cond f i db))"
proof -
  have "claimed_versions (dc_id d) (es @ (if b then [Wrote j v] else [])) = [1..<Suc (dc_version d)]"
    if d: "d \<in> set (snd (update_doc cond f i db))" for d
  proof -
    obtain d0 where "d0 \<in> set db" "dc_id d = dc_id d0" "dc_version d = dc_version d0"
      using update_doc_set [OF d] assms(2,3) by (auto split: if_splits)
    then show ?thesis using assms(1) by (simp add: versions_ok_def del: upt_Suc)
  qed
  then show ?thesis
    using assms(1) update_doc_ids [of f cond i db, OF assms(2)] by (simp add: versions_ok_def del: upt_Suc)
qed

lemma find_doc_unique: "distinct (map dc_id db) \<Longrightarrow> d \<in> set db \<Longrightarrow> find_doc (dc_id d) db = Some d"
  by (induction db) (auto simp: find_doc_def)

lemma claim_values_sel [simp]:
  "dc_id (claim_values expires w d) = dc_id d" "dc_version (claim_values expires w d) = Suc (dc_version d)"
  "dc_attempts (claim_values expires w d) = Suc (dc_attempts d)" "dc_lease (claim_values expires w d) = Some expires"
  "dc_status (claim_values expires w d) = DParsing" "dc_claimed_by (claim_values expires w d) = Some w"
  by (simp_all add: claim_values_def)

lemma same_id_same_doc: "distinct (map dc_id db) \<Longrightarrow> x \<in> set db \<Longrightarrow> y \<in> set db \<Longrightarrow> dc_id x = dc_id y \<Longrightarrow> x = y"
  by (auto simp: distinct_map dest: inj_onD)

lemma update_doc_one:
  assumes "distinct (map dc_id db)" "d \<in> set db" "cond d"
  shows "update_doc cond f (dc_id d) db = (True, map (\<lambda>x. if x = d then f d else x) db)"
proof -
  have "x = d" if "x \<in> set db" "dc_id x = dc_id d" for x using same_id_same_doc [OF assms(1) that(1) assms(2) that(2)] .
  then have "map (\<lambda>x. if dc_id x = dc_id d \<and> cond x then f x else x) db = map (\<lambda>x. if x = d then f d else x) db"
    using assms(3) by (intro map_cong refl) auto
  then show ?thesis using assms(2,3) by (auto simp: update_doc_def list_ex_iff)
qed

lemma update_doc_none:
  "\<not> list_ex (\<lambda>d. dc_id d = i \<and> cond d) db \<Longrightarrow> update_doc cond f i db = (False, db)"
  by (auto simp: update_doc_def list_ex_iff intro!: map_idI)

lemma claim_update_cases:
  assumes dist: "distinct (map dc_id db)"
  obtains (hit) d where "d \<in> set db" "dc_id d = i" "claimable now d"
      "claim_update now expires w i db = (Some (Suc (dc_version d)), map (\<lambda>x. if x = d then claim_values expires w d else x) db)"
    | (miss) "\<not> (\<exists>d \<in> set db. dc_id d = i \<and> claimable now d)" "claim_update now expires w i db = (None, db)"
proof (cases "list_ex (\<lambda>d. dc_id d = i \<and> claimable now d) db")
  case True
  then obtain d where d: "d \<in> set db" "dc_id d = i" "claimable now d" by (auto simp: list_ex_iff)
  let ?db = "map (\<lambda>x. if x = d then claim_values expires w d else x) db"
  have ids: "map dc_id ?db = map dc_id db" by auto
  have new: "claim_values expires w d \<in> set ?db" using d(1) by force
  have "find_doc (dc_id (claim_values expires w d)) ?db = Some (claim_values expires w d)"
    by (rule find_doc_unique [OF _ new]) (unfold ids, rule dist)
  then have "claim_update now expires w i db = (Some (Suc (dc_version d)), ?db)"
    using update_doc_one [OF dist d(1), of "claimable now"] d(2,3) by (simp add: claim_update_def)
  then show ?thesis using that(1) d by blast
next
  case False
  then have "claim_update now expires w i db = (None, db)"
    using update_doc_none [OF False] by (simp add: claim_update_def)
  then show ?thesis using that(2) False by (auto simp: list_ex_iff)
qed

lemma claim_keeps_versions:
  assumes ok: "versions_ok ids es db" and c: "claim_update now expires w i db = (Some v, db')"
  shows "versions_ok ids (es @ [Claimed i v]) db'"
proof -
  have dist: "distinct (map dc_id db)" using ok by (simp add: versions_ok_def)
  obtain d where d: "d \<in> set db" "dc_id d = i" "v = Suc (dc_version d)"
      "db' = map (\<lambda>x. if x = d then claim_values expires w d else x) db"
    using claim_update_cases [OF dist, of i now expires w] c by auto
  have ids: "map dc_id db' = map dc_id db" unfolding d(4) by auto
  have "claimed_versions (dc_id x) (es @ [Claimed i v]) = [1..<Suc (dc_version x)]" if x: "x \<in> set db'" for x
  proof -
    obtain y where y: "y \<in> set db" "x = (if y = d then claim_values expires w d else y)"
      using x d(4) by auto
    have "y = d" if "dc_id y = i" using same_id_same_doc [OF dist y(1) d(1)] that d(2) by simp
    moreover have "claimed_versions (dc_id y) es = [1..<Suc (dc_version y)]" using ok y(1) by (simp add: versions_ok_def del: upt_Suc)
    ultimately show ?thesis using y(2) d(2,3) by (cases "y = d") auto
  qed
  moreover have "i \<in> set ids" using ok d(1,2) by (auto simp: versions_ok_def)
  ultimately show ?thesis using ok ids unfolding versions_ok_def by (auto simp del: upt_Suc)
qed

lemma progress_status_sel [simp]:
  "dc_id (progress_status s d) = dc_id d" "dc_version (progress_status s d) = dc_version d"
  by (simp_all add: progress_status_def)

lemma finish_values_sel [simp]:
  "dc_id (finish_values k now n oc d) = dc_id d" "dc_version (finish_values k now n oc d) = dc_version d"
  "dc_lease (finish_values k now n oc d) = None"
  by (simp_all add: finish_values_def Let_def)

lemma ingest_step_versions:
  assumes ok: "versions_ok ids es db" and st: "ingest_step op db = (es', db')"
    and fresh: "\<And>i now. op = Upload i now \<Longrightarrow> i \<notin> set ids"
  shows "versions_ok (ids @ uploads [op]) (es @ es') db'"
proof (cases op)
  case (Upload i now)
  then have "i \<notin> set ids" using fresh by blast
  moreover from this have "claimed_versions i es = []" "i \<notin> dc_id ` set db" using ok by (auto simp: versions_ok_def)
  moreover have "es' = []" "db' = db @ [new_document i now]" using st Upload by auto
  ultimately show ?thesis
    using ok Upload unfolding versions_ok_def by (auto simp: new_document_def simp del: upt_Suc)
next
  case (Requeue now i r)
  then show ?thesis
    using st update_keeps_versions [OF ok, where b = False and cond = "lease_free now"] by (auto simp: enqueue_def)
next
  case (TryClaim now expires w i)
  show ?thesis
  proof (cases "claim_update now expires w i db")
    case (Pair r db1)
    show ?thesis
    proof (cases r)
      case None
      have "distinct (map dc_id db)" using ok by (simp add: versions_ok_def)
      then have "db1 = db" using claim_update_cases [of db i now expires w] Pair None by auto
      then show ?thesis using st TryClaim Pair None ok by simp
    next
      case (Some v)
      then show ?thesis using st TryClaim Pair claim_keeps_versions [OF ok, of now expires w i v db1] by simp
    qed
  qed
next
  case (Renew k now w i v)
  then show ?thesis
    using st update_keeps_versions [OF ok, where f = "\<lambda>d. d\<lparr>dc_lease := Some (now + seconds (kn_ttl k))\<rparr>" and cond = "holds_live now w (Some v)" and i = i and b = "es' \<noteq> []" and j = i and v = v]
    by (auto simp: renew_lease_def split: prod.splits if_splits)
next
  case (Progress i v s)
  then show ?thesis
    using st update_keeps_versions [OF ok, where f = "progress_status s" and cond = "\<lambda>d. dc_version d = v" and i = i
        and b = "es' \<noteq> []" and j = i and v = v]
    by (auto simp: write_progress_def split: prod.splits if_splits)
next
  case (WriteFinish k now w i v attempts oc)
  then show ?thesis
    using st update_keeps_versions [OF ok, where f = "finish_values k now attempts oc" and cond = "holds_claim w (Some v)" and i = i and b = "es' \<noteq> []" and j = i and v = v]
    by (auto simp: finish_write_def split: prod.splits if_splits)
next
  case (Delete i)
  then show ?thesis using st ok by (auto simp: delete_document_def versions_ok_def distinct_map_filter simp del: upt_Suc)
qed


text \<open>A write is accepted only under the version of the latest claim so far.\<close>

definition writes_current :: "ingest_event list \<Rightarrow> bool" where
  "writes_current es \<longleftrightarrow>
     (\<forall>es1 i v es2. es = es1 @ Wrote i v # es2 \<longrightarrow> length (claimed_versions i es1) = v)"

lemma writes_current_snoc:
  assumes "writes_current es" "\<And>i v. e = Wrote i v \<Longrightarrow> length (claimed_versions i es) = v"
  shows "writes_current (es @ [e])"
  unfolding writes_current_def
proof (intro allI impI)
  fix es1 i v es2 assume eq: "es @ [e] = es1 @ Wrote i v # es2"
  show "length (claimed_versions i es1) = v"
  proof (cases es2 rule: rev_cases)
    case Nil
    then show ?thesis using eq assms(2) by simp
  next
    case (snoc ys y)
    then have "es = es1 @ Wrote i v # ys" using eq by simp
    then show ?thesis using assms(1) by (auto simp: writes_current_def)
  qed
qed

lemma hit_has_version:
  assumes ok: "versions_ok ids es db" and hit: "fst (update_doc cond f i db)"
    and v: "\<And>d. cond d \<Longrightarrow> dc_version d = v"
  shows "length (claimed_versions i es) = v"
proof -
  obtain d where "d \<in> set db" "dc_id d = i" "cond d" using hit by (auto simp: update_doc_def list_ex_iff)
  then have "claimed_versions i es = [1..<Suc v]" using ok v by (auto simp: versions_ok_def simp del: upt_Suc)
  then show ?thesis by (simp del: upt_Suc)
qed

lemma holds_live_version: "holds_live now w (Some v) d \<Longrightarrow> dc_version d = v"
  by (simp add: holds_live_def)

lemma holds_claim_version: "holds_claim w (Some v) d \<Longrightarrow> dc_version d = v"
  by (simp add: holds_claim_def)

lemma ingest_step_current:
  assumes ok: "versions_ok ids es db" and cur: "writes_current es" and st: "ingest_step op db = (es', db')"
  shows "writes_current (es @ es')"
proof -
  have shape: "es' = [] \<or> (\<exists>i v. es' = [Claimed i v]) \<or> (\<exists>i v. es' = [Wrote i v] \<and> length (claimed_versions i es) = v)"
  proof (cases op)
    case (Renew k now w i v)
    then show ?thesis
      using st hit_has_version [OF ok, of "holds_live now w (Some v)" "\<lambda>d. d\<lparr>dc_lease := Some (now + seconds (kn_ttl k))\<rparr>" i v,
          OF _ holds_live_version]
      by (auto simp: renew_lease_def split: prod.splits if_splits)
  next
    case (Progress i v s)
    then show ?thesis
      using st hit_has_version [OF ok, of "\<lambda>d. dc_version d = v" "progress_status s" i v]
      by (auto simp: write_progress_def split: prod.splits if_splits)
  next
    case (WriteFinish k now w i v attempts oc)
    then show ?thesis
      using st hit_has_version [OF ok, of "holds_claim w (Some v)" "finish_values k now attempts oc" i v,
          OF _ holds_claim_version]
      by (auto simp: finish_write_def split: prod.splits if_splits)
  qed (use st in \<open>auto split: prod.splits option.splits\<close>)
  then show ?thesis using cur writes_current_snoc [OF cur] by auto
qed

lemma ingest_run_fenced:
  assumes "distinct (uploads ops)" "ingest_run ops [] = (es, db)"
  shows "versions_ok (uploads ops) es db \<and> writes_current es
    \<and> (\<forall>i. claimed_versions i es = [1..<Suc (length (claimed_versions i es))])"
  using assms
proof (induction ops arbitrary: es db rule: rev_induct)
  case Nil
  then show ?case by (simp add: versions_ok_def writes_current_def)
next
  case (snoc op ops)
  obtain es0 db0 where run: "ingest_run ops [] = (es0, db0)" by fastforce
  obtain es' db' where st: "ingest_step op db0 = (es', db')" by fastforce
  have eq: "es = es0 @ es'" "db = db'" using snoc.prems(2) run st by (auto simp: ingest_run_append)
  have IH: "versions_ok (uploads ops) es0 db0" "writes_current es0"
    "\<And>i. claimed_versions i es0 = [1..<Suc (length (claimed_versions i es0))]"
    using snoc.IH [OF _ run] snoc.prems(1) by (auto simp: uploads_append simp del: upt_Suc)
  have fresh: "i \<notin> set (uploads ops)" if "op = Upload i now" for i now
    using snoc.prems(1) that by (auto simp: uploads_append)
  have "claimed_versions i (es0 @ es') = [1..<Suc (length (claimed_versions i (es0 @ es')))]" for i
  proof -
    have "claimed_versions i es' = [] \<or> claimed_versions i es' = [Suc (length (claimed_versions i es0))]"
    proof (cases op)
      case (TryClaim now expires w j)
      have dist: "distinct (map dc_id db0)" using IH(1) by (simp add: versions_ok_def)
      have len: "length (claimed_versions j es0) = dc_version d" if "d \<in> set db0" "dc_id d = j" for d
        using IH(1) that by (auto simp: versions_ok_def simp del: upt_Suc)
      show ?thesis
      proof (cases rule: claim_update_cases [OF dist, of j now expires w])
        case (1 d)
        then show ?thesis using st TryClaim len [of d] by auto
      next
        case 2
        then show ?thesis using st TryClaim by auto
      qed
    qed (use st in \<open>auto split: prod.splits if_splits\<close>)
    then show ?thesis using IH(3) [of i] by auto
  qed
  then show ?case
    using ingest_step_versions [OF IH(1) st fresh] ingest_step_current [OF IH(1,2) st] eq
    by (simp add: uploads_append del: upt_Suc)
qed




section \<open>Verdicts\<close>

lemma find_doc_some: "find_doc i db = Some d \<Longrightarrow> d \<in> set db \<and> dc_id d = i"
  by (auto simp: find_doc_def find_Some_iff)

lemma find_update_doc:
  assumes "distinct (map dc_id db)" "find_doc i db = Some d" "cond d" "\<And>d. dc_id (f d) = dc_id d"
  shows "update_doc cond f i db = (True, map (\<lambda>x. if x = d then f d else x) db)"
    and "find_doc i (snd (update_doc cond f i db)) = Some (f d)"
proof -
  have d: "d \<in> set db" "dc_id d = i" using find_doc_some [OF assms(2)] by simp_all
  show u: "update_doc cond f i db = (True, map (\<lambda>x. if x = d then f d else x) db)"
    using update_doc_one [where cond = cond and f = f, OF assms(1) d(1) assms(3)] d(2) by simp
  have "f d \<in> set (snd (update_doc cond f i db))" using u d(1) by force
  moreover have "distinct (map dc_id (snd (update_doc cond f i db)))" using assms(1) update_doc_ids [of f, OF assms(4)] by simp
  ultimately show "find_doc i (snd (update_doc cond f i db)) = Some (f d)"
    using find_doc_unique [of "snd (update_doc cond f i db)" "f d"] d(2) assms(4) by simp
qed

lemma backoff_bounds:
  assumes "1 \<le> base"
  shows "0 < backoff_seconds n base \<and> backoff_seconds n base \<le> max base 1800"
proof -
  have "0 < base * 2 ^ (n - 1)" using assms by simp
  moreover have "min (base * 2 ^ (n - 1)) 1800 \<le> max base 1800"
    by (rule order_trans [OF min.cobounded2 max.cobounded2])
  ultimately show ?thesis using assms by (simp add: backoff_seconds_def BACKOFF_CAP_SECONDS_def)
qed

text \<open>What \<open>finish\<close> does with a claim: a document that is gone or has a newer claim is left
  untouched, success ends the claim, a retryable failure with attempts left requeues the document
  so that nobody claims it before its backoff, at most half an hour, has passed, and every
  other failure is permanent.
\<close>

theorem finish_verdicts:
  assumes "distinct (map dc_id db)" "1 \<le> kn_backoff k" "finish k now worker i (Some v) oc db = (r, db')"
  shows "case find_doc i db of
      None \<Rightarrow> r = VGone \<and> db' = db
    | Some d \<Rightarrow>
        if dc_version d \<noteq> v then r = VLost \<and> db' = db
        else \<exists>d' w. find_doc i db' = Some d' \<and> dc_lease d' = None \<and> dc_version d' = v
          \<and> (if oc_ok oc then r = VDone \<and> dc_status d' = dc_status d
             else if oc_retryable oc \<and> dc_attempts d < kn_max_attempts k
             then r = VRetry \<and> 0 < w \<and> w \<le> max (kn_backoff k) 1800 \<and> (\<forall>t. claimable t d' = (now + seconds w \<le> t))
             else r = VFailed \<and> (\<forall>t. claimable t d' = False))"
proof (cases "find_doc i db")
  case None
  then show ?thesis using assms(3) by (simp add: finish_def)
next
  case (Some d)
  show ?thesis
  proof (cases "dc_version d = v")
    case False
    then show ?thesis using Some assms(3) by (simp add: finish_def holds_claim_def)
  next
    case True
    let ?d' = "finish_values k now (dc_attempts d) oc d" and ?w = "backoff_seconds (dc_attempts d) (kn_backoff k)"
    have held: "holds_claim worker (Some v) d" using True by (simp add: holds_claim_def)
    note upd = find_update_doc [where cond = "holds_claim worker (Some v)" and f = "finish_values k now (dc_attempts d) oc",
        OF assms(1) Some held finish_values_sel(1)]
    have r: "r = (if oc_ok oc then VDone else if will_retry k (dc_attempts d) oc then VRetry else VFailed)"
      and db': "db' = snd (update_doc (holds_claim worker (Some v)) (finish_values k now (dc_attempts d) oc) i db)"
      using assms(3) Some held upd(1) by (auto simp: finish_def finish_write_def split: if_splits)
    have w: "0 < ?w \<and> ?w \<le> max (kn_backoff k) 1800"
      using backoff_bounds [OF assms(2)] by simp
    have "oc_ok oc \<Longrightarrow> dc_status ?d' = dc_status d"
      "\<not> oc_ok oc \<Longrightarrow> will_retry k (dc_attempts d) oc \<Longrightarrow> claimable t ?d' = (now + seconds ?w \<le> t)"
      "\<not> oc_ok oc \<Longrightarrow> \<not> will_retry k (dc_attempts d) oc \<Longrightarrow> claimable t ?d' = False" for t
      by (simp_all add: finish_values_def claimable_def lease_free_def CLAIMABLE_STATUSES_def)
    then have "find_doc i db' = Some ?d' \<and> dc_lease ?d' = None \<and> dc_version ?d' = v
          \<and> (if oc_ok oc then r = VDone \<and> dc_status ?d' = dc_status d
             else if oc_retryable oc \<and> dc_attempts d < kn_max_attempts k
             then r = VRetry \<and> 0 < ?w \<and> ?w \<le> max (kn_backoff k) 1800 \<and> (\<forall>t. claimable t ?d' = (now + seconds ?w \<le> t))
             else r = VFailed \<and> (\<forall>t. claimable t ?d' = False))"
      using upd(2) db' True r w by (simp add: will_retry_def)
    then show ?thesis using Some True by auto
  qed
qed

theorem finish_verdicts_witness:
  "\<exists>d' w. find_doc 7 (snd (finish \<lparr>kn_ttl = 300, kn_renew = 60, kn_max_attempts = 4, kn_backoff = 30\<rparr> 0 ''a'' 7 (Some 1)
        \<lparr>oc_ok = False, oc_error = None, oc_retryable = True\<rparr> (snd (claim_update 0 300 ''a'' 7 [new_document 7 0])))) = Some d'
     \<and> 0 < w \<and> w \<le> 1800 \<and> (\<forall>t. claimable t d' = (seconds w \<le> t))"
proof -
  let ?k = "\<lparr>kn_ttl = 300, kn_renew = 60, kn_max_attempts = 4, kn_backoff = 30\<rparr>"
  let ?oc = "\<lparr>oc_ok = False, oc_error = None, oc_retryable = True\<rparr>"
  let ?db = "snd (claim_update 0 300 ''a'' 7 [new_document 7 0])"
  have db: "distinct (map dc_id ?db)" "\<exists>d. find_doc 7 ?db = Some d \<and> dc_version d = 1 \<and> dc_attempts d = 1"
    by (simp_all add: claim_update_def update_doc_def claimable_def lease_free_def CLAIMABLE_STATUSES_def
        new_document_def claim_values_def find_doc_def)
  obtain d where d: "find_doc 7 ?db = Some d" "dc_version d = 1" "dc_attempts d = 1" using db(2) by blast
  let ?r = "fst (finish ?k 0 ''a'' 7 (Some 1) ?oc ?db)" and ?db' = "snd (finish ?k 0 ''a'' 7 (Some 1) ?oc ?db)"
  have "\<exists>d' w. find_doc 7 ?db' = Some d' \<and> dc_lease d' = None \<and> dc_version d' = 1
      \<and> ?r = VRetry \<and> 0 < w \<and> w \<le> max 30 1800 \<and> (\<forall>t. claimable t d' = (0 + seconds w \<le> t))"
    using finish_verdicts [of ?db ?k 0 "''a''" 7 1 ?oc ?r ?db'] db(1) d by (simp del: max.cobounded1)
  then show ?thesis by simp blast
qed

section \<open>Claims that nobody closes\<close>

text \<open>A worker that dies in every claim: each next claim comes when the lease has run out.\<close>

definition crashing_claims :: "int \<Rightarrow> string \<Rightarrow> uuid \<Rightarrow> nat \<Rightarrow> ingest_op list" where
  "crashing_claims ttl w i n = map (\<lambda>j. TryClaim (int j * ttl) (int (Suc j) * ttl) w i) [0..<n]"

lemma crashing_claims_run:
  assumes "0 < ttl"
  shows "\<exists>es d. ingest_run (Upload i 0 # crashing_claims ttl w i n) [] = (es, [d]) \<and> dc_id d = i
    \<and> claimed_versions i es = [1..<Suc n] \<and> dc_attempts d = n \<and> dc_version d = n \<and> claimable (int n * ttl) d"
proof (induction n)
  case 0
  show ?case
    by (simp add: crashing_claims_def new_document_def claimable_def lease_free_def CLAIMABLE_STATUSES_def)
next
  case (Suc n)
  then obtain es d where IH: "ingest_run (Upload i 0 # crashing_claims ttl w i n) [] = (es, [d])" "dc_id d = i"
      "claimed_versions i es = [1..<Suc n]" "dc_attempts d = n" "dc_version d = n" "claimable (int n * ttl) d" by blast
  let ?d = "claim_values (int (Suc n) * ttl) w d"
  have ops: "Upload i 0 # crashing_claims ttl w i (Suc n)
      = (Upload i 0 # crashing_claims ttl w i n) @ [TryClaim (int n * ttl) (int (Suc n) * ttl) w i]"
    by (simp add: crashing_claims_def)
  have cl: "claim_update (int n * ttl) (int (Suc n) * ttl) w i [d] = (Some (Suc n), [?d])"
    using IH(2,5,6) by (simp add: claim_update_def update_doc_def find_doc_def)
  have "dc_next_retry d = None \<or> (\<exists>t. dc_next_retry d = Some t \<and> t \<le> int n * ttl)"
    using IH(6) by (auto simp: claimable_def split: option.splits)
  then have due: "claimable (int (Suc n) * ttl) ?d"
    using assms by (auto simp: claimable_def lease_free_def CLAIMABLE_STATUSES_def claim_values_def algebra_simps)
  have "ingest_run (Upload i 0 # crashing_claims ttl w i (Suc n)) [] = (es @ [Claimed i (Suc n)], [?d])"
    unfolding ops ingest_run_append [of "Upload i 0 # crashing_claims ttl w i n"] IH(1) using cl by simp
  then show ?case using IH(2,3,4,5) due by auto
qed

text \<open>The attempt count does not bound the claims: a document whose worker dies in every claim,
  without a verdict, is claimed again whenever its lease runs out, any number of times, whatever
  the maximum number of attempts.
\<close>

theorem crashed_document_claimed_forever:
  assumes "0 < ttl"
  shows "length (claimed_versions i (fst (ingest_run (Upload i 0 # crashing_claims ttl w i n) []))) = n"
  using crashing_claims_run [OF assms, of i w n] by auto

theorem crashed_document_claimed_forever_witness:
  "length (claimed_versions 7 (fst (ingest_run (Upload 7 0 # crashing_claims 300 ''a'' 7 50) []))) = 50"
  using crashed_document_claimed_forever [of 300 7 "''a''" 50] by simp

section \<open>Claiming\<close>

lemma claim_loop_misses:
  assumes "distinct (map dc_id db)" "\<forall>i \<in> set is. \<not> (\<exists>d \<in> set db. dc_id d = i \<and> claimable now d)"
  shows "claim_loop now expires w is db = (None, db)"
  using assms(2)
proof (induction "is")
  case (Cons i "is")
  then have "claim_update now expires w i db = (None, db)"
    using claim_update_cases [OF assms(1), of i now expires w] by auto
  then show ?case using Cons by simp
qed simp

text \<open>A worker that asks for a job gets none exactly when no document is claimable, and otherwise
  the oldest claimable one, which then carries its name, its lease and one more attempt and is
  claimable by nobody until the lease runs out.
\<close>

theorem claim_job_takes_oldest:
  assumes "distinct (map dc_id db)" "claim_job k now w db = (r, db')"
  shows "case r of
      None \<Rightarrow> db' = db \<and> filter (claimable now) db = []
    | Some (i, v) \<Rightarrow> \<exists>d. find_doc i db = Some d \<and> claimable now d
        \<and> (\<forall>x \<in> set (filter (claimable now) db). dc_created d \<le> dc_created x)
        \<and> find_doc i db' = Some (claim_values (now + seconds (kn_ttl k)) w d) \<and> v = Suc (dc_version d)
        \<and> (\<forall>t < now + seconds (kn_ttl k). \<not> claimable t (claim_values (now + seconds (kn_ttl k)) w d))"
proof -
  let ?xs = "sort_key dc_created (filter (claimable now) db)" and ?e = "now + seconds (kn_ttl k)"
  have same: "set ?xs = set (filter (claimable now) db)" by simp
  show ?thesis
  proof (cases ?xs)
    case Nil
    then have none: "filter (claimable now) db = []" using same by (metis set_empty)
    then have "claim_candidates now db = []" by (simp add: claim_candidates_def)
    then show ?thesis using assms(2) none by (auto simp: claim_job_def)
  next
    case (Cons d ds)
    then have "d \<in> set (filter (claimable now) db)" using same by (metis list.set_intros(1))
    then have d: "d \<in> set db" "claimable now d" by simp_all
    have least: "\<forall>x \<in> set (filter (claimable now) db). dc_created d \<le> dc_created x"
    proof -
      have "sorted (map dc_created (d # ds))" using Cons sorted_sort_key [of dc_created "filter (claimable now) db"] by simp
      then show ?thesis using Cons same by (metis list.set_intros(1) list.simps(9) order_refl set_ConsD sorted_simps(2) image_eqI list.set_map)
    qed
    have head: "claim_candidates now db = dc_id d # map dc_id (take 9 ds)"
      using Cons by (simp add: claim_candidates_def CLAIM_SCAN_def)
    have hit: "claim_update now ?e w (dc_id d) db
        = (Some (Suc (dc_version d)), map (\<lambda>x. if x = d then claim_values ?e w d else x) db)"
    proof (cases rule: claim_update_cases [OF assms(1), of "dc_id d" now ?e w])
      case (1 d0)
      then have "d0 = d" using same_id_same_doc [OF assms(1)] d(1) by blast
      then show ?thesis using 1 by simp
    qed (use d in blast)
    have r: "r = Some (dc_id d, Suc (dc_version d))" "db' = map (\<lambda>x. if x = d then claim_values ?e w d else x) db"
      using assms(2) head hit by (simp_all add: claim_job_def)
    have "find_doc (dc_id d) db' = Some (claim_values ?e w d)"
    proof -
      have "map dc_id db' = map dc_id db" unfolding r(2) by auto
      moreover have "claim_values ?e w d \<in> set db'" using d(1) unfolding r(2) by force
      ultimately show ?thesis using find_doc_unique [of db' "claim_values ?e w d"] assms(1) by simp
    qed
    moreover have "\<forall>t < ?e. \<not> claimable t (claim_values ?e w d)" by (auto simp: claimable_def lease_free_def)
    ultimately show ?thesis using r(1) find_doc_unique [OF assms(1) d(1)] d(2) least by auto
  qed
qed

theorem claim_job_takes_oldest_witness:
  "fst (claim_job \<lparr>kn_ttl = 300, kn_renew = 60, kn_max_attempts = 4, kn_backoff = 30\<rparr> 9 ''a''
      [new_document 7 5, new_document 8 2]) = Some (8, 1)"
proof -
  let ?k = "\<lparr>kn_ttl = 300, kn_renew = 60, kn_max_attempts = 4, kn_backoff = 30\<rparr>"
  let ?db = "[new_document 7 5, new_document 8 2]"
  obtain r db' where c: "claim_job ?k 9 ''a'' ?db = (r, db')" by fastforce
  have cl: "claimable 9 (new_document 7 5)" "claimable 9 (new_document 8 2)"
    by (simp_all add: new_document_def claimable_def lease_free_def CLAIMABLE_STATUSES_def)
  have d: "distinct (map dc_id ?db)" by (simp add: new_document_def)
  note one = claim_job_takes_oldest [OF d c]
  show ?thesis
  proof (cases r)
    case None
    then show ?thesis using one cl by simp
  next
    case (Some iv)
    then obtain i v where iv: "r = Some (i, v)" by (cases iv) auto
    then obtain x where x: "find_doc i ?db = Some x" "dc_created x \<le> 2" "v = Suc (dc_version x)"
      using one cl by (auto simp: new_document_def)
    then have "i = 8 \<and> v = 1" by (auto simp: find_doc_def new_document_def split: if_splits)
    then show ?thesis using c iv by simp
  qed
qed


text \<open>
  Queueing a document again does not end the latest claim: when its lease has run out, the worker
  of that claim still writes, and its last progress write takes the document out of the queue.
\<close>

lemma requeued_document_overwritten:
  "let ops = [Upload 7 0, TryClaim 1 10 ''a'' 7, Requeue 20 7 True, Progress 7 1 DIndexed];
       db = snd (ingest_run ops [])
   in fst (enqueue 20 7 True (snd (ingest_run (take 2 ops) []))) \<and> filter (claimable 1000) db = []"
  by code_simp

text \<open>
  The pipeline commits a failure before the verdict decides to retry: a worker that dies in
  between leaves a document that nobody claims although attempts are left.
\<close>

lemma failure_before_verdict_is_final:
  "let db = snd (claim_update 1 10 ''a'' 7 [new_document 7 0]);
       r = index_document 7 (Some 1) True (EmbedError ''timeout'' False) db
   in oc_retryable (fst r) \<and> filter (claimable 1000) (snd r) = []"
  by code_simp

end
