(* ===== verification/Usage.thy ===== *)
theory Usage
  imports Json Floats
begin

text \<open>
  Metering of a model answer over its rounds (\<open>aggregate_usage\<close> and \<open>normalize_usage\<close> of
  \<open>agents/continuation.py\<close>). A round reports a JSON object or nothing; NaN and infinities are
  outside the model of numbers.
\<close>

section \<open>Counters of a round\<close>

fun safe_number :: "json \<Rightarrow> json option" where
  "safe_number (JInt n) =
     (let number = float_of_int n in if number < 0 then None else Some (JInt \<lfloor>number\<rfloor>))"
| "safe_number (JFloat x) =
     (if x < 0 then None else if x \<in> \<int> then Some (JInt \<lfloor>x\<rfloor>) else Some (JFloat x))"
| "safe_number _ = None"

text \<open>Python's sum of two numbers.\<close>

fun num_add :: "json \<Rightarrow> json \<Rightarrow> json" where
  "num_add (JInt a) (JInt b) = JInt (a + b)"
| "num_add (JInt a) (JFloat y) = JFloat (fadd (float_of_int a) y)"
| "num_add (JFloat x) (JInt b) = JFloat (fadd x (float_of_int b))"
| "num_add (JFloat x) (JFloat y) = JFloat (fadd x y)"
| "num_add a b = a"

definition top_counters :: "(string, json) dict \<Rightarrow> (string, json) dict" where
  "top_counters raw =
     foldl (\<lambda>cur (k, v). case safe_number v of None \<Rightarrow> cur | Some n \<Rightarrow> dict_set k n cur) [] raw"

text \<open>A counter of a nested detail object, unless the round has it at the top.\<close>

definition detail_counter :: "string \<Rightarrow> string \<Rightarrow> (string, json) dict \<Rightarrow> (string, json) dict \<Rightarrow> (string, json) dict" where
  "detail_counter details key raw cur =
     (if dict_get cur key \<noteq> None then cur
      else case dict_get raw details of
        Some (JDict d) \<Rightarrow>
          (case safe_number (dict_get_or d key JNull) of None \<Rightarrow> cur | Some n \<Rightarrow> dict_set key n cur)
      | _ \<Rightarrow> cur)"

definition total_counter :: "(string, json) dict \<Rightarrow> (string, json) dict" where
  "total_counter cur =
     (if dict_get cur ''total_tokens'' = None
         \<and> (dict_get cur ''prompt_tokens'' \<noteq> None \<or> dict_get cur ''completion_tokens'' \<noteq> None)
      then dict_set ''total_tokens''
             (num_add (dict_get_or cur ''prompt_tokens'' (JInt 0)) (dict_get_or cur ''completion_tokens'' (JInt 0))) cur
      else cur)"

definition round_counters :: "(string, json) dict \<Rightarrow> (string, json) dict" where
  "round_counters raw =
     total_counter (detail_counter ''completion_tokens_details'' ''reasoning_tokens'' raw
       (detail_counter ''prompt_tokens_details'' ''cached_tokens'' raw (top_counters raw)))"

section \<open>Sums over rounds\<close>

definition add_round :: "(string, json) dict \<Rightarrow> (string, json) dict \<Rightarrow> (string, json) dict" where
  "add_round agg cur = foldl (\<lambda>a (k, v). dict_set k (num_add (dict_get_or a k (JInt 0)) v) a) agg cur"

definition add_raw :: "(string, json) dict \<Rightarrow> json option \<Rightarrow> (string, json) dict" where
  "add_raw a r = (case r of Some (JDict raw) \<Rightarrow> add_round a (round_counters raw) | _ \<Rightarrow> a)"

definition aggregate_usage :: "json option list \<Rightarrow> (string, json) dict option" where
  "aggregate_usage rounds =
     (let agg = foldl add_raw [] rounds
      in if agg = [] then None else Some agg)"

definition normalize_usage :: "json option \<Rightarrow> (string, json) dict option" where
  "normalize_usage raw = aggregate_usage [raw]"

section \<open>What is summed\<close>

definition is_counter :: "json \<Rightarrow> bool" where
  "is_counter v \<longleftrightarrow> (case v of JInt n \<Rightarrow> 0 \<le> n | JFloat x \<Rightarrow> 0 \<le> x | _ \<Rightarrow> False)"

lemma safe_number_counter: "safe_number v = Some n \<Longrightarrow> is_counter n"
  by (cases v) (auto simp: is_counter_def Let_def split: if_splits)

lemma top_counters_distinct: "distinct (dict_keys (top_counters raw))"
  unfolding top_counters_def
  by (rule foldl_inv [where P = "\<lambda>a. distinct (dict_keys a)"]) (auto split: option.splits intro: distinct_update)

lemma detail_counter_distinct: "distinct (dict_keys cur) \<Longrightarrow> distinct (dict_keys (detail_counter d k raw cur))"
  by (simp add: detail_counter_def distinct_update split: option.split json.split)

lemma total_counter_distinct: "distinct (dict_keys cur) \<Longrightarrow> distinct (dict_keys (total_counter cur))"
  by (simp add: total_counter_def distinct_update)

lemma round_counters_distinct: "distinct (dict_keys (round_counters raw))"
  by (simp add: round_counters_def top_counters_distinct detail_counter_distinct total_counter_distinct)

lemma add_round_get:
  "distinct (dict_keys cur) \<Longrightarrow>
     dict_get (add_round agg cur) k
       = (case dict_get cur k of None \<Rightarrow> dict_get agg k | Some v \<Rightarrow> Some (num_add (dict_get_or agg k (JInt 0)) v))"
proof (induction cur arbitrary: agg)
  case (Cons kv cur)
  obtain k0 v0 where kv: "kv = (k0, v0)" by (cases kv)
  have "dict_get cur k0 = None" using Cons.prems kv by (auto simp: map_of_eq_None_iff)
  moreover have "add_round agg (kv # cur) = add_round (dict_set k0 (num_add (dict_get_or agg k0 (JInt 0)) v0) agg) cur"
    by (simp add: add_round_def kv)
  ultimately show ?case
    using Cons kv by (auto simp: dict_simps split: option.splits)
qed (simp add: add_round_def)

text \<open>What a list of rounds reports under a key.\<close>

definition reported :: "string \<Rightarrow> json option list \<Rightarrow> json list" where
  "reported k rounds =
     List.map_filter (\<lambda>r. case r of Some (JDict raw) \<Rightarrow> dict_get (round_counters raw) k | _ \<Rightarrow> None) rounds"

lemma reported_snoc: "reported k (rs @ [r]) = reported k rs @ reported k [r]"
  by (simp add: reported_def List.map_filter_def)

lemma aggregate_get:
  "dict_get (foldl add_raw [] rounds) k
     = (if reported k rounds = [] then None else Some (foldl num_add (JInt 0) (reported k rounds)))"
proof (induction rounds rule: rev_induct)
  case (snoc r rs)
  have one: "reported k [r] = (case r of Some (JDict raw) \<Rightarrow> (case dict_get (round_counters raw) k of None \<Rightarrow> [] | Some v \<Rightarrow> [v]) | _ \<Rightarrow> [])"
    by (simp add: reported_def List.map_filter_def split: option.splits json.splits)
  show ?case
    using snoc by (auto simp: add_raw_def reported_snoc one add_round_get [OF round_counters_distinct] dict_get_or_def
        split: option.splits json.splits)
qed (simp add: reported_def List.map_filter_def)

lemma num_add_ints: "foldl num_add (JInt a) (map JInt ns) = JInt (a + sum_list ns)"
  by (induction ns arbitrary: a) simp_all

text \<open>The usage of an answer is, under every key, the sum of what its rounds report, and it is absent
  exactly when no round reports anything; a round's total is what it states or else the sum of its
  prompt and completion tokens.
\<close>

theorem aggregate_usage_sums:
  "(case aggregate_usage rounds of
      None \<Rightarrow> \<forall>k. reported k rounds = []
    | Some agg \<Rightarrow> agg \<noteq> [] \<and> (\<forall>k. dict_get agg k
        = (if reported k rounds = [] then None else Some (foldl num_add (JInt 0) (reported k rounds)))))
   \<and> dict_get (total_counter cur) ''total_tokens''
      = (case dict_get cur ''total_tokens'' of
           Some n \<Rightarrow> Some n
         | None \<Rightarrow>
             if dict_get cur ''prompt_tokens'' = None \<and> dict_get cur ''completion_tokens'' = None then None
             else Some (num_add (dict_get_or cur ''prompt_tokens'' (JInt 0)) (dict_get_or cur ''completion_tokens'' (JInt 0))))"
proof -
  let ?agg = "foldl add_raw [] rounds"
  have none: "\<forall>k. reported k rounds = []" if "?agg = []"
    using aggregate_get [of rounds] that by (metis map_of.simps(1) option.distinct(1))
  have "(case aggregate_usage rounds of
      None \<Rightarrow> \<forall>k. reported k rounds = []
    | Some agg \<Rightarrow> agg \<noteq> [] \<and> (\<forall>k. dict_get agg k
        = (if reported k rounds = [] then None else Some (foldl num_add (JInt 0) (reported k rounds)))))"
    using none aggregate_get [of rounds] by (cases "?agg = []") (simp_all add: aggregate_usage_def)
  moreover have "dict_get (total_counter cur) ''total_tokens''
      = (case dict_get cur ''total_tokens'' of
           Some n \<Rightarrow> Some n
         | None \<Rightarrow>
             if dict_get cur ''prompt_tokens'' = None \<and> dict_get cur ''completion_tokens'' = None then None
             else Some (num_add (dict_get_or cur ''prompt_tokens'' (JInt 0)) (dict_get_or cur ''completion_tokens'' (JInt 0))))"
    by (cases "dict_get cur ''total_tokens''") (simp_all add: total_counter_def dict_simps)
  ultimately show ?thesis by blast
qed

end
