(* ===== verification/Continuation.thy ===== *)
theory Continuation
  imports Texts
begin

text \<open>
  Automatic continuation of a model answer that was cut off (\<open>agents/continuation.py\<close>): the
  bounds of the policy, the removal of the text that a continuation repeats, and the buffer
  that does it on a stream. The overlap is found by the Knuth-Morris-Pratt scan of the source.
  None is the result of a loop that does not return.
\<close>

section \<open>Policy\<close>

definition DEFAULT_COMPARISON_WINDOW :: int where "DEFAULT_COMPARISON_WINDOW = 4096"
definition MAX_CONTINUATION_ROUNDS :: int where "MAX_CONTINUATION_ROUNDS = 8"

record continuation_policy =
  cp_max_rounds :: int
  cp_window :: int

definition make_policy :: "int \<Rightarrow> int \<Rightarrow> string + continuation_policy" where
  "make_policy max_rounds window =
     rbind (guard (0 \<le> max_rounds \<and> max_rounds \<le> MAX_CONTINUATION_ROUNDS) ''max_rounds'')
       (\<lambda>_. rbind (guard (64 \<le> window \<and> window \<le> 65536) ''comparison_window'')
         (\<lambda>_. Inr \<lparr>cp_max_rounds = max_rounds, cp_window = window\<rparr>))"

definition should_continue :: "continuation_policy \<Rightarrow> string option \<Rightarrow> int \<Rightarrow> bool \<Rightarrow> bool \<Rightarrow> bool" where
  "should_continue p finish_reason round_number pending cancelled \<longleftrightarrow>
     finish_reason = Some ''length'' \<and> round_number < cp_max_rounds p \<and> \<not> pending \<and> \<not> cancelled"

section \<open>The longest overlap\<close>

text \<open>The inner loop: fall back along the table until the character fits.\<close>

partial_function (option) fall_back :: "'a list \<Rightarrow> nat list \<Rightarrow> 'a \<Rightarrow> nat \<Rightarrow> nat option" where
  "fall_back p f c m = (if m \<noteq> 0 \<and> c \<noteq> p ! m then fall_back p f c (f ! (m - 1)) else Some m)"

definition advance :: "'a list \<Rightarrow> nat list \<Rightarrow> 'a \<Rightarrow> nat \<Rightarrow> nat option" where
  "advance p f c m = map_option (\<lambda>m'. if c = p ! m' then m' + 1 else m') (fall_back p f c m)"

fun build_failure :: "'a list \<Rightarrow> nat list \<Rightarrow> nat list \<Rightarrow> nat \<Rightarrow> nat list option" where
  "build_failure p [] f m = Some f"
| "build_failure p (i # is) f m =
     (case advance p f (p ! i) m of
        None \<Rightarrow> None
      | Some m' \<Rightarrow> build_failure p is (f[i := m']) m')"

text \<open>A full match before the end falls back at once, as it cannot be the final suffix.\<close>

fun scan_text :: "'a list \<Rightarrow> nat list \<Rightarrow> 'a list \<Rightarrow> nat \<Rightarrow> nat option" where
  "scan_text p f [] m = Some m"
| "scan_text p f (c # cs) m =
     (case advance p f c m of
        None \<Rightarrow> None
      | Some m' \<Rightarrow> scan_text p f cs (if m' = length p \<and> cs \<noteq> [] then f ! (m' - 1) else m'))"

definition suffix_prefix_length :: "'a list \<Rightarrow> 'a list \<Rightarrow> nat option" where
  "suffix_prefix_length existing p =
     (if existing = [] \<or> p = [] then Some 0
      else case build_failure p [1..<length p] (replicate (length p) 0) 0 of
        None \<Rightarrow> None
      | Some f \<Rightarrow> scan_text p f existing 0)"

section \<open>Removing the repeated text\<close>

text \<open>Runs of white space become one blank; with each character where it ends in the text.\<close>

function normalise_from :: "nat \<Rightarrow> string \<Rightarrow> (char \<times> nat) list" where
  "normalise_from i [] = []"
| "normalise_from i (c # cs) =
     (if is_space c
      then let e = i + 1 + length (takeWhile is_space cs)
           in (CHR '' '', e) # normalise_from e (dropWhile is_space cs)
      else (c, i + 1) # normalise_from (i + 1) cs)"
  by pat_completeness auto
termination
  by (relation "measure (\<lambda>(i, s). length s)") (auto simp: le_imp_less_Suc length_dropWhile_le)

definition normalise_whitespace :: "string \<Rightarrow> string \<times> nat list" where
  "normalise_whitespace s = (let ps = normalise_from 0 s in (map fst ps, map snd ps))"

definition last_chars :: "nat \<Rightarrow> 'a list \<Rightarrow> 'a list" where
  "last_chars n s = drop (length s - n) s"

definition overlap_cut :: "string \<Rightarrow> string \<Rightarrow> nat option" where
  "overlap_cut existing_suffix continuation_prefix =
     (case suffix_prefix_length existing_suffix continuation_prefix of
        None \<Rightarrow> None
      | Some exact \<Rightarrow>
          let (ne, _) = normalise_whitespace existing_suffix;
              (nc, ends) = normalise_whitespace continuation_prefix in
          (case suffix_prefix_length ne nc of
             None \<Rightarrow> None
           | Some n \<Rightarrow>
               Some (if n \<noteq> 0 \<and> 2 \<le> length (py_strip (take n nc)) then max exact (ends ! (n - 1)) else exact)))"

definition continuation_novel_text :: "int \<Rightarrow> string \<Rightarrow> string \<Rightarrow> string option" where
  "continuation_novel_text window existing continuation =
     (if continuation = [] then Some []
      else if existing = [] then Some continuation
      else if suffix continuation existing then Some []
      else let w = nat (max 1 window) in
        map_option (\<lambda>cut. drop cut continuation) (overlap_cut (last_chars w existing) (take w continuation)))"

definition merge_continuation :: "int \<Rightarrow> string \<Rightarrow> string \<Rightarrow> string option" where
  "merge_continuation window existing continuation =
     map_option (\<lambda>novel. existing @ novel) (continuation_novel_text window existing continuation)"

section \<open>The buffer of a stream\<close>

record continuation_buffer =
  cb_existing :: string
  cb_window :: int
  cb_prefix :: string
  cb_resolved :: bool

definition new_buffer :: "int \<Rightarrow> string \<Rightarrow> continuation_buffer" where
  "new_buffer window existing =
     \<lparr>cb_existing = existing, cb_window = max 1 window, cb_prefix = [], cb_resolved = False\<rparr>"

definition feed :: "continuation_buffer \<Rightarrow> string \<Rightarrow> (string \<times> continuation_buffer) option" where
  "feed b chunk =
     (if chunk = [] then Some ([], b)
      else if cb_resolved b then Some (chunk, b)
      else let needed = nat (cb_window b) - length (cb_prefix b);
               b' = b\<lparr>cb_prefix := cb_prefix b @ take needed chunk\<rparr> in
        if int (length (cb_prefix b')) < cb_window b then Some ([], b')
        else map_option (\<lambda>novel. (novel @ drop needed chunk, b'\<lparr>cb_resolved := True\<rparr>))
               (continuation_novel_text (cb_window b) (cb_existing b) (cb_prefix b')))"

definition flush :: "continuation_buffer \<Rightarrow> (string \<times> continuation_buffer) option" where
  "flush b =
     (if cb_resolved b then Some ([], b)
      else map_option (\<lambda>novel. (novel, b\<lparr>cb_resolved := True\<rparr>))
             (continuation_novel_text (cb_window b) (cb_existing b) (cb_prefix b)))"

text \<open>What the user sees of a stream of chunks.\<close>

fun stream_out :: "continuation_buffer \<Rightarrow> string list \<Rightarrow> string option" where
  "stream_out b [] = map_option fst (flush b)"
| "stream_out b (c # cs) =
     (case feed b c of
        None \<Rightarrow> None
      | Some (out, b') \<Rightarrow> map_option (\<lambda>rest. out @ rest) (stream_out b' cs))"

section \<open>Borders\<close>

text \<open>The first \<open>k\<close> characters of \<open>p\<close> end the text \<open>s\<close>.\<close>

definition ends_with :: "'a list \<Rightarrow> 'a list \<Rightarrow> nat \<Rightarrow> bool" where
  "ends_with p s k \<longleftrightarrow> k \<le> length p \<and> suffix (take k p) s"

definition greatest_overlap :: "'a list \<Rightarrow> 'a list \<Rightarrow> nat \<Rightarrow> bool" where
  "greatest_overlap p s m \<longleftrightarrow> ends_with p s m \<and> (\<forall>k. ends_with p s k \<longrightarrow> k \<le> m)"

definition border :: "'a list \<Rightarrow> nat \<Rightarrow> nat \<Rightarrow> bool" where
  "border p m k \<longleftrightarrow> k < m \<and> suffix (take k p) (take m p) \<and> (\<forall>k' < m. suffix (take k' p) (take m p) \<longrightarrow> k' \<le> k)"

lemma ends_with_0 [simp]: "ends_with p s 0"
  by (simp add: ends_with_def)

lemma ends_with_snoc: "ends_with p (s @ [c]) (Suc k) \<longleftrightarrow> ends_with p s k \<and> k < length p \<and> p ! k = c"
  by (auto simp: ends_with_def take_Suc_conv_app_nth)

lemma ends_with_length: "ends_with p s k \<Longrightarrow> k \<le> length s"
  by (auto simp: ends_with_def dest: suffix_length_le)

lemma suffix_of_shorter: "suffix xs zs \<Longrightarrow> suffix ys zs \<Longrightarrow> length xs \<le> length ys \<Longrightarrow> suffix xs ys"
  by (metis suffix_same_cases suffix_length_le suffix_order.eq_iff le_antisym length_append suffix_def add_cancel_left_left length_0_conv append_Nil)

lemma ends_with_shorter:
  assumes "ends_with p s m" "k \<le> m"
  shows "ends_with p s k \<longleftrightarrow> suffix (take k p) (take m p)"
  using assms suffix_of_shorter [of "take k p" s "take m p"] suffix_order.trans [of "take k p" "take m p" s]
  by (auto simp: ends_with_def)

lemma fall_back_correct:
  assumes "ends_with p s m" "m < length p" "\<forall>j < m. border p (Suc j) (f ! j)"
    and "\<forall>k. ends_with p s k \<and> k < length p \<and> p ! k = c \<longrightarrow> k \<le> m"
  shows "\<exists>m'. fall_back p f c m = Some m' \<and> ends_with p s m' \<and> m' \<le> m \<and> (m' = 0 \<or> p ! m' = c)
    \<and> (\<forall>k. ends_with p s k \<and> k < length p \<and> p ! k = c \<longrightarrow> k \<le> m')"
  using assms
proof (induction m rule: less_induct)
  case (less m)
  show ?case
  proof (cases "m \<noteq> 0 \<and> c \<noteq> p ! m")
    case False
    then have "fall_back p f c m = Some m" by (subst fall_back.simps) auto
    then show ?thesis using less.prems False by auto
  next
    case True
    let ?n = "f ! (m - 1)"
    have b: "border p m ?n" using less.prems(3) True by (metis Suc_pred' diff_less gr0I zero_less_one)
    then have n: "?n < m" "ends_with p s ?n"
      using ends_with_shorter [OF less.prems(1)] by (auto simp: border_def)
    have "k \<le> ?n" if k: "ends_with p s k" "k < length p" "p ! k = c" for k
    proof -
      have "k \<le> m" using less.prems(4) k by blast
      then have "k < m" using k(3) True by (metis le_neq_implies_less)
      then have "suffix (take k p) (take m p)" using ends_with_shorter [OF less.prems(1)] k(1) by simp
      then show ?thesis using b \<open>k < m\<close> by (simp add: border_def)
    qed
    then have best: "\<forall>k. ends_with p s k \<and> k < length p \<and> p ! k = c \<longrightarrow> k \<le> ?n" by blast
    have "?n < length p" "\<forall>j < ?n. border p (Suc j) (f ! j)" using less.prems(2,3) n(1) by auto
    from less.IH [OF n(1) n(2) this best]
    obtain m' where "fall_back p f c ?n = Some m'" "ends_with p s m'" "m' \<le> ?n" "m' = 0 \<or> p ! m' = c"
        "\<forall>k. ends_with p s k \<and> k < length p \<and> p ! k = c \<longrightarrow> k \<le> m'" by blast
    moreover have "fall_back p f c m = fall_back p f c ?n" using True by (subst fall_back.simps) simp
    ultimately show ?thesis using n(1) by (intro exI [of _ m']) auto
  qed
qed

lemma advance_correct:
  assumes "ends_with p s m" "m < length p" "\<forall>j < m. border p (Suc j) (f ! j)"
    and "\<forall>k. ends_with p s k \<and> k < length p \<longrightarrow> k \<le> m"
  shows "\<exists>m'. advance p f c m = Some m' \<and> greatest_overlap p (s @ [c]) m'"
proof -
  obtain n where n: "fall_back p f c m = Some n" "ends_with p s n" "n \<le> m" "n = 0 \<or> p ! n = c"
      "\<forall>k. ends_with p s k \<and> k < length p \<and> p ! k = c \<longrightarrow> k \<le> n"
    using fall_back_correct [OF assms(1-3), of c] assms(4) by blast
  let ?m' = "if c = p ! n then n + 1 else n"
  have "ends_with p (s @ [c]) ?m'"
    using n assms(2) ends_with_snoc [of p s c n] by auto
  moreover have "k \<le> ?m'" if k: "ends_with p (s @ [c]) k" for k
  proof (cases k)
    case (Suc j)
    then have j: "ends_with p s j" "j < length p" "p ! j = c" using k ends_with_snoc [of p s c j] by auto
    then have "j \<le> n" using n(5) by blast
    moreover have "c = p ! n"
      using n(4) j \<open>j \<le> n\<close> by auto
    ultimately show ?thesis using Suc by simp
  qed simp
  ultimately show ?thesis using n(1) by (auto simp: advance_def greatest_overlap_def)
qed


lemma greatest_overlap_unique: "greatest_overlap p s m \<Longrightarrow> greatest_overlap p s n \<Longrightarrow> m = n"
  by (meson greatest_overlap_def le_antisym)

lemma border_of_tail:
  assumes "i < length p" "greatest_overlap p (drop 1 (take (Suc i) p)) m"
  shows "border p (Suc i) m"
proof -
  let ?t = "take (Suc i) p"
  have split: "?t = hd ?t # drop 1 ?t" using assms(1) by (cases p) auto
  have eq: "suffix (take k p) ?t \<longleftrightarrow> suffix (take k p) (drop 1 ?t)" if "k < Suc i" for k
  proof -
    have "length (take k p) < length ?t" using that assms(1) by simp
    then show ?thesis using split by (metis suffix_Cons suffix_length_le not_less order_refl)
  qed
  have "ends_with p (drop 1 ?t) m" using assms(2) by (simp add: greatest_overlap_def)
  then have m: "m < Suc i" "suffix (take m p) (drop 1 ?t)"
    using ends_with_length [of p "drop 1 ?t" m] assms(1) by (auto simp: ends_with_def)
  moreover have "k \<le> m" if "k < Suc i" "suffix (take k p) ?t" for k
    using assms that eq [OF that(1)] by (auto simp: greatest_overlap_def ends_with_def)
  ultimately show ?thesis using eq by (auto simp: border_def)
qed

lemma build_failure_correct:
  assumes "1 \<le> i" "i \<le> length p" "length f = length p"
    and "\<forall>j < i. border p (Suc j) (f ! j)" "greatest_overlap p (drop 1 (take i p)) m"
  shows "\<exists>f'. build_failure p [i..<length p] f m = Some f' \<and> length f' = length p
    \<and> (\<forall>j < length p. border p (Suc j) (f' ! j))"
  using assms
proof (induction "length p - i" arbitrary: i f m)
  case 0
  then show ?case by simp
next
  case (Suc n)
  then have i: "i < length p" by simp
  let ?s = "drop 1 (take i p)"
  have len: "length ?s < i" using Suc.prems(1) by simp
  have m: "ends_with p ?s m" "m \<le> length ?s"
    using Suc.prems(5) ends_with_length [of p "drop 1 (take i p)" m] by (auto simp: greatest_overlap_def)
  have best: "\<forall>k. ends_with p ?s k \<and> k < length p \<longrightarrow> k \<le> m" using Suc.prems(5) by (simp add: greatest_overlap_def)
  have "\<forall>j < m. border p (Suc j) (f ! j)" using Suc.prems(4) m(2) len by simp
  then obtain m' where m': "advance p f (p ! i) m = Some m'" "greatest_overlap p (?s @ [p ! i]) m'"
    using advance_correct [OF m(1) _ _ best, of f "p ! i"] m(2) len i by auto
  have s': "?s @ [p ! i] = drop 1 (take (Suc i) p)"
    using i Suc.prems(1) by (simp add: take_Suc_conv_app_nth)
  have g: "greatest_overlap p (drop 1 (take (Suc i) p)) m'" using m'(2) s' by simp
  have tab: "\<forall>j < Suc i. border p (Suc j) (f[i := m'] ! j)"
    using Suc.prems(3,4) i border_of_tail [OF i g] by (auto simp: nth_list_update less_Suc_eq)
  have "\<exists>f'. build_failure p [Suc i..<length p] (f[i := m']) m' = Some f' \<and> length f' = length p
      \<and> (\<forall>j < length p. border p (Suc j) (f' ! j))"
    using Suc.hyps(1) [of "Suc i" "f[i := m']" m'] Suc.hyps(2) i Suc.prems(3) tab g by simp
  then show ?case using m'(1) i by (simp add: upt_conv_Cons)
qed

lemma failure_table:
  assumes "p \<noteq> []"
  shows "\<exists>f. build_failure p [1..<length p] (replicate (length p) 0) 0 = Some f \<and> (\<forall>j < length p. border p (Suc j) (f ! j))"
proof -
  have "border p (Suc 0) (replicate (length p) 0 ! 0)" using assms by (cases p) (auto simp: border_def)
  moreover have "greatest_overlap p (drop 1 (take 1 p)) 0"
    using assms ends_with_length [of p "[]"] by (cases p) (auto simp: greatest_overlap_def)
  moreover have "1 \<le> length p" using assms by (cases p) auto
  ultimately show ?thesis
    using build_failure_correct [of 1 p "replicate (length p) 0" 0] by auto
qed

lemma scan_text_correct:
  assumes tab: "\<forall>j < length p. border p (Suc j) (f ! j)" and ne: "r \<noteq> []"
    and m: "ends_with p s m" "m < length p" "\<forall>k. ends_with p s k \<and> k < length p \<longrightarrow> k \<le> m"
  shows "\<exists>n. scan_text p f r m = Some n \<and> greatest_overlap p (s @ r) n"
  using ne m
proof (induction r arbitrary: s m)
  case (Cons c cs)
  have "\<forall>j < m. border p (Suc j) (f ! j)" using tab Cons.prems(3) by simp
  then obtain m' where m': "advance p f c m = Some m'" "greatest_overlap p (s @ [c]) m'"
    using advance_correct [OF Cons.prems(2,3) _ Cons.prems(4)] by blast
  show ?case
  proof (cases "cs = []")
    case True
    then show ?thesis using m' by simp
  next
    case False
    let ?n = "if m' = length p \<and> cs \<noteq> [] then f ! (m' - 1) else m'"
    have e: "ends_with p (s @ [c]) m'" "\<And>k. ends_with p (s @ [c]) k \<Longrightarrow> k \<le> m'"
      using m'(2) by (auto simp: greatest_overlap_def)
    have n: "ends_with p (s @ [c]) ?n \<and> ?n < length p \<and> (\<forall>k. ends_with p (s @ [c]) k \<and> k < length p \<longrightarrow> k \<le> ?n)"
    proof (cases "m' = length p")
      case True
      have "border p m' (f ! (m' - 1))" using tab True Cons.prems(3) by (metis Suc_pred' diff_less gr0I not_less0 zero_less_one)
      then show ?thesis
        using False True ends_with_shorter [OF e(1)] by (auto simp: border_def)
    next
      case False
      then show ?thesis using e by (auto simp: ends_with_def)
    qed
    then have "\<exists>n. scan_text p f cs ?n = Some n \<and> greatest_overlap p ((s @ [c]) @ cs) n"
      using Cons.IH [OF False, of "s @ [c]" ?n] by blast
    then show ?thesis using m'(1) by simp
  qed
qed simp

lemma overlap_found: "\<exists>n. suffix_prefix_length s p = Some n \<and> greatest_overlap p s n"
proof (cases "s = [] \<or> p = []")
  case True
  then have "greatest_overlap p s 0"
    using ends_with_length [of p s] by (auto simp: greatest_overlap_def ends_with_def)
  then show ?thesis using True by (simp add: suffix_prefix_length_def)
next
  case False
  obtain f where f: "build_failure p [1..<length p] (replicate (length p) 0) 0 = Some f"
      "\<forall>j < length p. border p (Suc j) (f ! j)" using failure_table False by blast
  have "\<forall>k. ends_with p [] k \<and> k < length p \<longrightarrow> k \<le> 0" using ends_with_length [of p "[]"] by auto
  then obtain n where "scan_text p f s 0 = Some n" "greatest_overlap p ([] @ s) n"
    using scan_text_correct [OF f(2), of s "[]" 0] False by auto
  then show ?thesis using False f(1) by (simp add: suffix_prefix_length_def)
qed

text \<open>C24: The linear-time overlap scan returns, and what it returns is the length of the longest
  beginning of the continuation with which the existing text ends.
\<close>

theorem suffix_prefix_length_correct:
  "suffix_prefix_length existing p = Some (Max {k. k \<le> length p \<and> suffix (take k p) existing})"
proof -
  obtain n where n: "suffix_prefix_length existing p = Some n" "greatest_overlap p existing n"
    using overlap_found by blast
  have "finite {k. k \<le> length p \<and> suffix (take k p) existing}"
    by (rule finite_subset [of _ "{..length p}"]) auto
  then have "Max {k. k \<le> length p \<and> suffix (take k p) existing} = n"
    using n(2) by (intro Max_eqI) (auto simp: greatest_overlap_def ends_with_def)
  then show ?thesis using n(1) by simp
qed

section \<open>White space\<close>

lemma normalise_ends: "(c, e) \<in> set (normalise_from i s) \<Longrightarrow> i < e \<and> e \<le> i + length s"
proof (induction i s arbitrary: c e rule: normalise_from.induct)
  case (2 i d cs)
  have "length (takeWhile is_space cs) + length (dropWhile is_space cs) = length cs"
    by (metis length_append takeWhile_dropWhile_id)
  then show ?case using 2 by (fastforce simp: Let_def split: if_splits)
qed simp

lemma span_append:
  "\<forall>x \<in> set w. P x \<Longrightarrow> r = [] \<or> \<not> P (hd r) \<Longrightarrow> takeWhile P (w @ r) = w \<and> dropWhile P (w @ r) = r"
  by (cases r) (auto simp: takeWhile_append dropWhile_append)

text \<open>Cutting the text where a character of the normalised text ends cuts the normalised text there.\<close>

lemma normalise_take:
  "j < length (normalise_from i s) \<Longrightarrow>
     map fst (normalise_from k (take (snd (normalise_from i s ! j) - i) s)) = map fst (take (Suc j) (normalise_from i s))"
proof (induction i s arbitrary: j k rule: normalise_from.induct)
  case (2 i c cs)
  show ?case
  proof (cases "is_space c")
    case False
    then have tl: "normalise_from i (c # cs) = (c, i + 1) # normalise_from (i + 1) cs" by simp
    show ?thesis
    proof (cases j)
      case 0
      then show ?thesis using False by (simp add: tl)
    next
      case (Suc j')
      then have j': "j' < length (normalise_from (i + 1) cs)" using 2(3) tl by simp
      let ?e = "snd (normalise_from (i + 1) cs ! j')"
      have "i + 1 < ?e" using normalise_ends [of "fst (normalise_from (i + 1) cs ! j')" ?e "i + 1" cs] nth_mem [OF j'] by simp
      then have "?e - i = Suc (?e - (i + 1))" by simp
      then show ?thesis using Suc False tl 2(2) [OF False j', of "k + 1"] by simp
    qed
  next
    case True
    let ?w = "takeWhile is_space cs" and ?r = "dropWhile is_space cs"
    let ?i = "i + 1 + length ?w"
    have tl: "normalise_from i (c # cs) = (CHR '' '', ?i) # normalise_from ?i ?r" using True by (simp add: Let_def)
    have cs: "cs = ?w @ ?r" by simp
    have sp: "\<forall>x \<in> set ?w. is_space x" by (meson set_takeWhileD)
    show ?thesis
    proof (cases j)
      case 0
      have "take (?i - i) (c # cs) = c # ?w" using cs by (metis append_eq_conv_conj diff_add_inverse plus_1_eq_Suc add.assoc take_Suc_Cons)
      moreover have "normalise_from k (c # ?w) = [(CHR '' '', k + 1 + length ?w)]"
        using True sp by (simp add: Let_def dropWhile_eq_Nil_conv [THEN iffD2, OF sp])
      ultimately show ?thesis using 0 tl by simp
    next
      case (Suc j')
      then have j': "j' < length (normalise_from ?i ?r)" using 2(3) tl by simp
      let ?e = "snd (normalise_from ?i ?r ! j')"
      have e: "?i < ?e" using normalise_ends [of "fst (normalise_from ?i ?r ! j')" ?e ?i ?r] nth_mem [OF j'] by simp
      let ?r' = "take (?e - ?i) ?r"
      have "?e - i = Suc (length ?w + (?e - ?i))" using e by simp
      then have "take (?e - i) (c # cs) = c # take (length ?w + (?e - ?i)) cs" by (simp only: take_Suc_Cons)
      also have "take (length ?w + (?e - ?i)) cs = take (length ?w + (?e - ?i)) (?w @ ?r)" using cs by (rule arg_cong)
      also have "\<dots> = ?w @ ?r'" by (simp only: take_append take_all le_add1 diff_add_inverse)
      finally have cut: "take (?e - i) (c # cs) = c # ?w @ ?r'" .
      have "?r \<noteq> []"
      proof
        assume "?r = []"
        then have "normalise_from ?i ?r = []" by (simp only: normalise_from.simps)
        then show False using j' by simp
      qed
      then have "\<not> is_space (hd ?r)" by (rule hd_dropWhile)
      moreover have "hd ?r' = hd ?r" using e by (intro hd_take) simp
      ultimately have "\<not> is_space (hd ?r')" by simp
      then have split: "takeWhile is_space (?w @ ?r') = ?w" "dropWhile is_space (?w @ ?r') = ?r'"
        using span_append [OF sp, of ?r'] \<open>\<not> is_space (hd ?r')\<close> by simp_all
      have "normalise_from k (c # ?w @ ?r') = (CHR '' '', k + 1 + length ?w) # normalise_from (k + 1 + length ?w) ?r'"
        using True split by (simp add: Let_def)
      moreover have "map fst (normalise_from (k + 1 + length ?w) ?r') = map fst (take (Suc j') (normalise_from ?i ?r))"
        by (rule 2(1) [OF True refl j'])
      ultimately have "map fst (normalise_from k (take (?e - i) (c # cs))) = CHR '' '' # map fst (take (Suc j') (normalise_from ?i ?r))"
        using cut by simp
      then show ?thesis using Suc tl by simp
    qed
  qed
qed simp

definition squeeze :: "string \<Rightarrow> string" where
  "squeeze s = fst (normalise_whitespace s)"

lemma squeeze_cut:
  assumes "normalise_whitespace s = (nc, ends)" "0 < n" "n \<le> length nc"
  shows "squeeze (take (ends ! (n - 1)) s) = take n nc" "ends ! (n - 1) \<le> length s"
proof -
  let ?ps = "normalise_from 0 s"
  have eq: "nc = map fst ?ps" "ends = map snd ?ps" using assms(1) by (auto simp: normalise_whitespace_def Let_def)
  then have j: "n - 1 < length ?ps" using assms(2,3) by simp
  have "map fst (normalise_from 0 (take (snd (?ps ! (n - 1)) - 0) s)) = map fst (take (Suc (n - 1)) ?ps)"
    by (rule normalise_take [OF j])
  then show "squeeze (take (ends ! (n - 1)) s) = take n nc"
    using eq j assms(2) by (simp add: squeeze_def normalise_whitespace_def Let_def take_map)
  show "ends ! (n - 1) \<le> length s"
    using normalise_ends [of "fst (?ps ! (n - 1))" "snd (?ps ! (n - 1))" 0 s] nth_mem [OF j] eq j by simp
qed


section \<open>What is removed\<close>

lemma suffix_last_chars: "length x \<le> n \<Longrightarrow> suffix x (last_chars n s) \<longleftrightarrow> suffix x s"
proof -
  assume len: "length x \<le> n"
  have sub: "suffix (last_chars n s) s" by (simp add: last_chars_def suffix_drop)
  show ?thesis
  proof
    assume x: "suffix x s"
    have "length x \<le> length (last_chars n s)" using len suffix_length_le [OF x] by (simp add: last_chars_def)
    then show "suffix x (last_chars n s)" by (rule suffix_of_shorter [OF x sub])
  qed (use sub suffix_order.trans in blast)
qed

lemma overlap_cut_spec:
  assumes "length cp \<le> w"
  shows "\<exists>cut. overlap_cut (last_chars w existing) cp = Some cut \<and> cut \<le> length cp
    \<and> (suffix (take cut cp) existing \<or> suffix (squeeze (take cut cp)) (squeeze (last_chars w existing)))
    \<and> (\<forall>k \<le> length cp. suffix (take k cp) existing \<longrightarrow> k \<le> cut)"
proof -
  let ?es = "last_chars w existing"
  obtain exact where exact: "suffix_prefix_length ?es cp = Some exact" "greatest_overlap cp ?es exact"
    using overlap_found by blast
  have ex: "exact \<le> length cp" "suffix (take exact cp) existing" "\<forall>k \<le> length cp. suffix (take k cp) existing \<longrightarrow> k \<le> exact"
    using exact(2) assms suffix_last_chars [of _ w existing] by (auto simp: greatest_overlap_def ends_with_def)
  obtain ne x where ne: "normalise_whitespace ?es = (ne, x)" by fastforce
  obtain nc ends where nc: "normalise_whitespace cp = (nc, ends)" by fastforce
  obtain n where n: "suffix_prefix_length ne nc = Some n" "greatest_overlap nc ne n" using overlap_found by blast
  show ?thesis
  proof (cases "n \<noteq> 0 \<and> 2 \<le> length (py_strip (take n nc))")
    case False
    then have "overlap_cut ?es cp = Some exact" using exact(1) ne nc n(1) by (auto simp: overlap_cut_def)
    then show ?thesis using ex by (intro exI [of _ exact]) simp
  next
    case True
    let ?e = "ends ! (n - 1)"
    have cut: "overlap_cut ?es cp = Some (max exact ?e)" using exact(1) ne nc n(1) True by (simp add: overlap_cut_def)
    have "n \<le> length nc" "suffix (take n nc) ne" using n(2) by (auto simp: greatest_overlap_def ends_with_def)
    then have "suffix (squeeze (take ?e cp)) (squeeze ?es)" "?e \<le> length cp"
      using squeeze_cut [OF nc, of n] True ne by (auto simp: squeeze_def)
    then show ?thesis using cut ex by (intro exI [of _ "max exact ?e"]) (auto simp: max_def)
  qed
qed

text \<open>Merging a continuation returns; it drops a beginning of the continuation which, exactly or up to
  white space, ends the existing text, keeps the rest, and leaves no repetition that fits into the
  comparison window.
\<close>

theorem novel_text_correct:
  shows "\<exists>cut. continuation_novel_text window existing continuation = Some (drop cut continuation)
    \<and> merge_continuation window existing continuation = Some (existing @ drop cut continuation)
    \<and> (suffix (take cut continuation) existing
        \<or> suffix (squeeze (take cut continuation)) (squeeze (last_chars (nat (max 1 window)) existing)))
    \<and> (\<forall>k. int k \<le> max 1 window \<and> k \<le> length continuation \<and> suffix (take k continuation) existing \<longrightarrow> k \<le> cut)"
proof -
  let ?w = "nat (max 1 window)" and ?cp = "take (nat (max 1 window)) continuation"
  have in_window: "k \<le> ?w" if "int k \<le> max 1 window" for k using that by linarith
  consider "continuation = []" | "continuation \<noteq> []" "existing = []" | "continuation \<noteq> []" "existing \<noteq> []" "suffix continuation existing"
    | "continuation \<noteq> []" "existing \<noteq> []" "\<not> suffix continuation existing" by blast
  then show ?thesis
  proof cases
    case 4
    obtain cut where c: "overlap_cut (last_chars ?w existing) ?cp = Some cut" "cut \<le> length ?cp"
        "suffix (take cut ?cp) existing \<or> suffix (squeeze (take cut ?cp)) (squeeze (last_chars ?w existing))"
        "\<forall>k \<le> length ?cp. suffix (take k ?cp) existing \<longrightarrow> k \<le> cut"
      using overlap_cut_spec [of ?cp ?w existing] by auto
    have "cut \<le> ?w" using c(2) by simp
    then have "take cut ?cp = take cut continuation" by (simp add: min_absorb1)
    moreover have "take k ?cp = take k continuation" if "k \<le> ?w" for k using that by (simp add: min_absorb1)
    ultimately show ?thesis
      using 4 c in_window
      by (intro exI [of _ cut]) (auto simp: continuation_novel_text_def merge_continuation_def Let_def)
  qed (auto simp: continuation_novel_text_def merge_continuation_def intro: exI [of _ 0] exI [of _ "length continuation"])
qed

section \<open>Streaming\<close>

lemma novel_total: "\<exists>x. continuation_novel_text window existing c = Some x"
  using novel_text_correct by blast

text \<open>How the buffer looks after \<open>done_text\<close> has been fed.\<close>

lemma stream_out_resolved: "cb_resolved b \<Longrightarrow> stream_out b cs = Some (concat cs)"
  by (induction cs) (auto simp: feed_def flush_def)

lemma stream_out_open:
  assumes "\<not> cb_resolved b" "1 \<le> cb_window b" "int (length (cb_prefix b)) < cb_window b"
  shows "stream_out b cs = map_option (\<lambda>novel. novel @ drop (nat (cb_window b)) (cb_prefix b @ concat cs))
    (continuation_novel_text (cb_window b) (cb_existing b) (take (nat (cb_window b)) (cb_prefix b @ concat cs)))"
  using assms
proof (induction cs arbitrary: b)
  case Nil
  then show ?case by (auto simp: flush_def option.map_comp comp_def)
next
  case (Cons c cs)
  let ?w = "nat (cb_window b)"
  let ?needed = "?w - length (cb_prefix b)"
  let ?p = "cb_prefix b @ take ?needed c"
  show ?case
  proof (cases "c = []")
    case True
    then show ?thesis using Cons.IH [OF Cons.prems] by (simp add: feed_def option.map_comp comp_def option.map_ident)
  next
    case False
    show ?thesis
    proof (cases "int (length ?p) < cb_window b")
      case True
      then have "take ?needed c = c" by auto
      then show ?thesis
        using Cons.IH [of "b\<lparr>cb_prefix := ?p\<rparr>"] Cons.prems True False
        by (simp add: feed_def Let_def option.map_comp comp_def option.map_ident)
    next
      case full: False
      have "length (cb_prefix b) + min (length c) ?needed = ?w" using full Cons.prems(3) by auto
      then have split: "take ?w (cb_prefix b @ concat (c # cs)) = ?p"
        "drop ?w (cb_prefix b @ concat (c # cs)) = drop ?needed c @ concat cs" by auto
      show ?thesis
        using Cons.prems False full split
        by (auto simp: feed_def Let_def stream_out_resolved option.map_comp comp_def split: option.splits)
    qed
  qed
qed

text \<open>C25: Fed a continuation in any chunks, the buffer sends to the user what merging the whole text at
  once would add, unless the whole continuation repeats the end of the existing text and is longer
  than the comparison window.
\<close>

theorem buffer_streams_novel_text:
  assumes "\<not> (suffix (concat chunks) existing \<and> max 1 window < int (length (concat chunks)))"
  shows "stream_out (new_buffer window existing) chunks = continuation_novel_text window existing (concat chunks)"
proof -
  let ?c = "concat chunks" and ?w = "nat (max 1 window)"
  have out: "stream_out (new_buffer window existing) chunks
      = map_option (\<lambda>novel. novel @ drop ?w ?c) (continuation_novel_text (max 1 window) existing (take ?w ?c))"
    using stream_out_open [of "new_buffer window existing" chunks] by (simp add: new_buffer_def)
  show ?thesis
  proof (cases "length ?c \<le> ?w")
    case True
    then show ?thesis using out by (simp add: option.map_ident continuation_novel_text_def)
  next
    case False
    then have ns: "\<not> suffix ?c existing" using assms by auto
    have "0 < length ?c" using False by linarith
    then have "?c \<noteq> []" by (simp only: length_greater_0_conv not_False_eq_True)
    moreover have "0 < ?w" by simp
    ultimately have c: "?c \<noteq> []" "take ?w ?c \<noteq> []" by (metis take_eq_Nil2 less_irrefl)+
    show ?thesis
    proof (cases "existing = []")
      case True
      then show ?thesis using out c by (simp add: continuation_novel_text_def del: concat_eq_Nil_conv)
    next
      case ne: False
      have len: "length (take ?w ?c) = ?w" using False by simp
      obtain cut where cut: "overlap_cut (last_chars ?w existing) (take ?w ?c) = Some cut" "cut \<le> ?w"
          "\<forall>k \<le> ?w. suffix (take k (take ?w ?c)) existing \<longrightarrow> k \<le> cut"
        using overlap_cut_spec [of "take ?w ?c" ?w existing] len by auto
      have whole: "continuation_novel_text window existing ?c = Some (drop cut ?c)"
        using c ne ns cut(1) by (simp add: continuation_novel_text_def del: concat_eq_Nil_conv)
      have "drop cut ?c = drop cut (take ?w ?c) @ drop ?w ?c"
        using cut(2) len by (metis append_take_drop_id drop_append diff_is_0_eq drop_0)
      moreover have "cut = ?w" if "suffix (take ?w ?c) existing" using cut(2,3) that by (simp add: le_antisym)
      ultimately show ?thesis
        using out whole c ne cut(1) by (auto simp: continuation_novel_text_def simp del: concat_eq_Nil_conv)
    qed
  qed
qed

theorem buffer_streams_novel_text_witness:
  "stream_out (new_buffer 64 ''the quick brown'') [''bro'', ''wn''] = Some []"
proof -
  have suf: "suffix ''brown'' ''the quick brown''" by (simp add: suffix_def)
  have "continuation_novel_text 64 ''the quick brown'' (concat [''bro'', ''wn'']) = Some []"
    using suf by (simp add: continuation_novel_text_def)
  then show ?thesis
    using buffer_streams_novel_text [of "[''bro'', ''wn'']" "''the quick brown''" 64] by simp
qed

text \<open>The excluded case: a long exact repetition is dropped by the merge and streamed by the buffer.\<close>

lemma long_repeat_is_streamed:
  assumes "suffix c existing" "max 1 window < int (length c)"
  shows "continuation_novel_text window existing c = Some []"
    and "\<exists>out. stream_out (new_buffer window existing) [c] = Some (out @ drop (nat (max 1 window)) c)"
  using assms stream_out_open [of "new_buffer window existing" "[c]"]
    novel_total [of "max 1 window" existing "take (nat (max 1 window)) c"]
  by (auto simp: continuation_novel_text_def new_buffer_def)

end
