(* ===== verification/Utext.thy ===== *)
theory Utext
  imports Prelude "HOL-Library.Sublist"
begin

text \<open>
  Texts of any script: a \<open>str\<close> as the list of its code points. White space is the whole class of
  \<open>str.isspace\<close>; digits are the ASCII ones and case is that of ASCII letters, so texts with other
  decimal digits or other cased letters are outside the model.
\<close>

type_synonym utext = "nat list"

definition u :: "string \<Rightarrow> utext" where
  "u s = map of_char s"

section \<open>Characters\<close>

definition u_space :: "nat \<Rightarrow> bool" where
  "u_space c \<longleftrightarrow> (9 \<le> c \<and> c \<le> 13) \<or> (28 \<le> c \<and> c \<le> 32) \<or> c = 133 \<or> c = 160 \<or> c = 5760
     \<or> (8192 \<le> c \<and> c \<le> 8202) \<or> c = 8232 \<or> c = 8233 \<or> c = 8239 \<or> c = 8287 \<or> c = 12288"

definition u_digit :: "nat \<Rightarrow> bool" where
  "u_digit c \<longleftrightarrow> 48 \<le> c \<and> c \<le> 57"

definition u_letter :: "nat \<Rightarrow> bool" where
  "u_letter c \<longleftrightarrow> (65 \<le> c \<and> c \<le> 90) \<or> (97 \<le> c \<and> c \<le> 122)"

text \<open>A blank of \<open>[ \t]\<close>, and the end of a line.\<close>

definition u_blank :: "nat \<Rightarrow> bool" where
  "u_blank c \<longleftrightarrow> c = 32 \<or> c = 9"

definition NL :: nat where "NL = 10"

definition u_lower :: "utext \<Rightarrow> utext" where
  "u_lower s = map (\<lambda>c. if 65 \<le> c \<and> c \<le> 90 then c + 32 else c) s"

section \<open>Stripping\<close>

definition u_lstrip :: "utext \<Rightarrow> utext" where
  "u_lstrip s = dropWhile u_space s"

definition u_rstrip :: "utext \<Rightarrow> utext" where
  "u_rstrip s = rev (dropWhile u_space (rev s))"

definition u_strip :: "utext \<Rightarrow> utext" where
  "u_strip s = u_rstrip (u_lstrip s)"

lemma u_rstrip_split: "\<exists>w. s = u_rstrip s @ w \<and> (\<forall>c \<in> set w. u_space c)"
proof -
  have "rev s = takeWhile u_space (rev s) @ dropWhile u_space (rev s)" by simp
  then have "s = u_rstrip s @ rev (takeWhile u_space (rev s))"
    unfolding u_rstrip_def by (metis rev_append rev_rev_ident)
  moreover have "\<forall>c \<in> set (rev (takeWhile u_space (rev s))). u_space c" by (auto dest: set_takeWhileD)
  ultimately show ?thesis by blast
qed

lemma u_rstrip_take: "u_rstrip s = take (length (u_rstrip s)) s"
  using u_rstrip_split [of s] by (metis append_eq_conv_conj)

lemma u_rstrip_length: "length (u_rstrip s) \<le> length s"
  using u_rstrip_split [of s] by (metis le_add1 length_append)

lemma u_rstrip_last: "u_rstrip s \<noteq> [] \<Longrightarrow> \<not> u_space (last (u_rstrip s))"
  by (simp add: u_rstrip_def last_rev hd_dropWhile)

lemma u_lstrip_drop: "u_lstrip s = drop (length s - length (u_lstrip s)) s"
proof -
  have "length s = length (takeWhile u_space s) + length (u_lstrip s)"
    unfolding u_lstrip_def by (metis length_append takeWhile_dropWhile_id)
  then have "length s - length (u_lstrip s) = length (takeWhile u_space s)" by simp
  then show ?thesis by (simp add: u_lstrip_def dropWhile_eq_drop)
qed

lemma u_lstrip_hd: "u_lstrip s \<noteq> [] \<Longrightarrow> \<not> u_space (hd (u_lstrip s))"
  by (simp add: u_lstrip_def hd_dropWhile)

lemma u_lstrip_length: "length (u_lstrip s) \<le> length s"
  by (simp add: u_lstrip_def length_dropWhile_le)

section \<open>Searching\<close>

fun u_contains :: "utext \<Rightarrow> utext \<Rightarrow> bool" where
  "u_contains needle [] = (needle = [])"
| "u_contains needle (c # s) = (prefix needle (c # s) \<or> u_contains needle s)"

lemma u_contains_iff: "u_contains needle s \<longleftrightarrow> sublist needle s"
  by (induction s) (auto simp: sublist_Cons_right)

text \<open>\<open>s.split(sep)\<close> for a one-character separator.\<close>

fun split_char :: "nat \<Rightarrow> utext \<Rightarrow> utext list" where
  "split_char sep [] = [[]]"
| "split_char sep (c # s) =
     (if c = sep then [] # split_char sep s
      else case split_char sep s of [] \<Rightarrow> [[c]] | l # ls \<Rightarrow> (c # l) # ls)"

lemma split_char_nonempty [simp]: "split_char sep s \<noteq> []"
  by (induction s) (auto split: list.split)

text \<open>Joining the parts with the separator gives the text back.\<close>

lemma py_join_split_char: "py_join [sep] (split_char sep s) = s"
proof (induction s)
  case (Cons c s)
  obtain l ls where l: "split_char sep s = l # ls" by (cases "split_char sep s") auto
  show ?case using Cons l by (cases ls) auto
qed simp

text \<open>Maximal runs of \<open>p\<close> that a character of \<open>q\<close> follows are dropped: \<open>re.sub\<close> of \<open>p+(q)\<close> by its group.\<close>

function drop_runs :: "(nat \<Rightarrow> bool) \<Rightarrow> (nat \<Rightarrow> bool) \<Rightarrow> utext \<Rightarrow> utext" where
  "drop_runs p q [] = []"
| "drop_runs p q (c # s) =
     (if \<not> p c then c # drop_runs p q s
      else let r = dropWhile p s in
        (case r of
           [] \<Rightarrow> c # s
         | d # r' \<Rightarrow> if q d then d # drop_runs p q r' else c # takeWhile p s @ d # drop_runs p q r'))"
  by pat_completeness auto
termination
proof (relation "measure (\<lambda>(p, q, s). length s)", goal_cases)
  case (3 p q c s r d r')
  then have "length (d # r') \<le> length s" using length_dropWhile_le [of p s] by (metis)
  then show ?case by simp
next
  case (4 p q c s r d r')
  then have "length (d # r') \<le> length s" using length_dropWhile_le [of p s] by (metis)
  then show ?case by simp
qed simp_all

end
