(* ===== verification/Answer_Claims.thy ===== *)
theory Answer_Claims
  imports Utext
begin

text \<open>
  Splitting an answer into claims with their coordinates (\<open>rag/claims.py\<close>) and the markers
  \<open>[source N]\<close> (\<open>rag/citations.py\<close>). Every regular expression of the source is a function on the text
  at a position. Numbers in texts are of ASCII digits.
\<close>

section \<open>Lines\<close>

definition starts_with :: "utext \<Rightarrow> utext \<Rightarrow> bool" where
  "starts_with p s \<longleftrightarrow> prefix p s"

definition skip_blanks :: "utext \<Rightarrow> utext" where
  "skip_blanks s = dropWhile u_blank s"

definition is_fence :: "utext \<Rightarrow> bool" where
  "is_fence line \<longleftrightarrow> starts_with [96, 96, 96] (skip_blanks line) \<or> starts_with [126, 126, 126] (skip_blanks line)"

definition is_table_row :: "utext \<Rightarrow> bool" where
  "is_table_row line \<longleftrightarrow>
     (let l = rev (skip_blanks (rev (skip_blanks line))) in 2 \<le> length l \<and> hd l = 124 \<and> last l = 124)"

text \<open>The length of a list marker, a bullet or a number with a dot or a bracket, at the start.\<close>

definition marker_length :: "utext \<Rightarrow> nat option" where
  "marker_length s =
     (case s of
        [] \<Rightarrow> None
      | c # _ \<Rightarrow>
          if c \<in> {45, 42, 43} then Some 1
          else let n = length (takeWhile u_digit s) in
            if n \<noteq> 0 \<and> (case drop n s of [] \<Rightarrow> False | d # _ \<Rightarrow> d = 46 \<or> d = 41) then Some (n + 1) else None)"

definition is_list_item :: "utext \<Rightarrow> bool" where
  "is_list_item line \<longleftrightarrow>
     (let s = skip_blanks line in
      case marker_length s of
        None \<Rightarrow> False
      | Some n \<Rightarrow>
          let r = drop n s in
          takeWhile u_blank r \<noteq> [] \<and> (case skip_blanks r of [] \<Rightarrow> False | d # _ \<Rightarrow> \<not> u_space d))"

text \<open>The end of a Markdown prefix of a line: heading, list item or quotation.\<close>

definition md_prefix_end :: "utext \<Rightarrow> nat option" where
  "md_prefix_end line =
     (let s = skip_blanks line; lead = length line - length s;
          blanks = (\<lambda>n. length (takeWhile u_blank (drop n s)));
          hashes = length (takeWhile (\<lambda>c. c = 35) s) in
      if 1 \<le> hashes \<and> hashes \<le> 6 \<and> blanks hashes \<noteq> 0 then Some (lead + hashes + blanks hashes)
      else case marker_length s of
          Some n \<Rightarrow> if blanks n \<noteq> 0 then Some (lead + n + blanks n) else None
        | None \<Rightarrow> if starts_with [62] s then Some (lead + 1 + blanks 1) else None)"

section \<open>Sentences\<close>

definition CJK_ENDERS :: "nat list" where "CJK_ENDERS = [0x3002, 0xFF01, 0xFF1F, 33, 63]"

definition CLOSERS :: "nat list" where
  "CLOSERS = [0x300D, 0x300F, 0x3011, 0x201D, 0x2019, 34, 39, 41, 0xFF09, 0x3015, 0x300B]"

text \<open>A sentence ends behind the character at \<open>i\<close>.\<close>

definition sentence_ends_at :: "utext \<Rightarrow> nat \<Rightarrow> bool" where
  "sentence_ends_at body i \<longleftrightarrow>
     body ! i \<in> set CJK_ENDERS
     \<or> (body ! i = 46
        \<and> \<not> (0 < i \<and> u_digit (body ! (i - 1))) \<and> \<not> (i + 1 < length body \<and> u_digit (body ! (i + 1)))
        \<and> (i + 1 \<ge> length body \<or> u_space (body ! (i + 1))))"

definition absorb_closers :: "utext \<Rightarrow> nat \<Rightarrow> nat" where
  "absorb_closers body e = e + length (takeWhile (\<lambda>c. c \<in> set CLOSERS \<or> c \<in> set CJK_ENDERS) (drop e body))"

function sentence_loop :: "utext \<Rightarrow> nat \<Rightarrow> nat \<Rightarrow> (nat \<times> nat) list" where
  "sentence_loop body start i =
     (if i < length body
      then if sentence_ends_at body i
           then let e = absorb_closers body (i + 1) in (start, e) # sentence_loop body e e
           else sentence_loop body start (i + 1)
      else if start < length body then [(start, length body)] else [])"
  by pat_completeness auto
termination
  by (relation "measure (\<lambda>(body, start, i). length body - i)") (auto simp: absorb_closers_def)

declare sentence_loop.simps [simp del]

definition sentence_spans :: "utext \<Rightarrow> (nat \<times> nat) list" where
  "sentence_spans body = sentence_loop body 0 0"

section \<open>Claims of an answer\<close>

text \<open>A span of a line without the white space at its ends.\<close>

definition trim_span :: "utext \<Rightarrow> nat \<times> nat \<Rightarrow> (nat \<times> nat) option" where
  "trim_span body = (\<lambda>(s, e).
     let piece = take (e - s) (drop s body);
         ls = length piece - length (u_lstrip piece); rs = length (u_rstrip piece) in
     if rs \<le> ls then None else Some (s + ls, s + rs))"

text \<open>The claims of one line outside code, with coordinates in the line.\<close>

definition line_spans :: "utext \<Rightarrow> (nat \<times> nat) list" where
  "line_spans line =
     (let start0 = (case md_prefix_end line of None \<Rightarrow> 0 | Some n \<Rightarrow> n);
          body0 = drop start0 line;
          lead = length body0 - length (u_lstrip body0);
          start = start0 + lead;
          body = drop lead body0 in
      if body = [] then []
      else if is_table_row line \<or> is_list_item line then [(start, start + length body)]
      else map (\<lambda>(s, e). (start + s, start + e)) (List.map_filter (trim_span body) (sentence_spans body)))"

fun claim_spans_of_lines :: "nat \<Rightarrow> bool \<Rightarrow> utext list \<Rightarrow> (nat \<times> nat) list" where
  "claim_spans_of_lines offset in_fence [] = []"
| "claim_spans_of_lines offset in_fence (raw # lines) =
     (let line = u_rstrip raw; next = offset + length raw + 1 in
      if is_fence line then claim_spans_of_lines next (\<not> in_fence) lines
      else if in_fence \<or> u_strip line = [] then claim_spans_of_lines next in_fence lines
      else map (\<lambda>(s, e). (offset + s, offset + e)) (line_spans line) @ claim_spans_of_lines next in_fence lines)"

definition split_claim_spans :: "utext \<Rightarrow> (nat \<times> nat) list" where
  "split_claim_spans text0 =
     (if u_strip text0 = [] then [] else claim_spans_of_lines 0 False (split_char NL text0))"

definition span_text :: "utext \<Rightarrow> nat \<times> nat \<Rightarrow> utext" where
  "span_text s = (\<lambda>(a, b). take (b - a) (drop a s))"

definition split_claims :: "utext \<Rightarrow> utext list" where
  "split_claims s = map (span_text s) (split_claim_spans s)"

section \<open>Markers\<close>

text \<open>The word of a marker, \<open>source\<close> in any case (with the long s) or its Chinese equivalent.\<close>

definition eq_ignore_case :: "nat \<Rightarrow> nat \<Rightarrow> bool" where
  "eq_ignore_case k c \<longleftrightarrow> c = k \<or> c + 32 = k \<or> (k = 115 \<and> c = 0x17F)"

definition marker_word :: "utext \<Rightarrow> nat option" where
  "marker_word s =
     (if 6 \<le> length s \<and> list_all2 eq_ignore_case (u ''source'') (take 6 s) then Some 6
      else if prefix [0x6765, 0x6E90] s then Some 2 else None)"

definition number_of :: "utext \<Rightarrow> nat" where
  "number_of ds = foldl (\<lambda>n d. 10 * n + (d - 48)) 0 ds"

text \<open>A marker at the start of the text: its number and its length.\<close>

definition marker_at :: "utext \<Rightarrow> (nat \<times> nat) option" where
  "marker_at s =
     (case s of
        [] \<Rightarrow> None
      | c # s1 \<Rightarrow>
          if c \<noteq> 91 then None
          else let s2 = dropWhile u_space s1 in
            case marker_word s2 of
              None \<Rightarrow> None
            | Some n \<Rightarrow>
                let s3 = dropWhile (\<lambda>c. u_space c \<or> c = 58 \<or> c = 0xFF1A) (drop n s2);
                    ds = takeWhile u_digit s3;
                    s4 = dropWhile u_space (dropWhile u_digit s3) in
                if ds \<noteq> [] \<and> s4 \<noteq> [] \<and> hd s4 = 93 then Some (number_of ds, length s - length (tl s4)) else None)"

function find_markers :: "utext \<Rightarrow> nat list" where
  "find_markers [] = []"
| "find_markers (c # s) =
     (case marker_at (c # s) of
        Some (n, len) \<Rightarrow> n # find_markers (drop (len - 1) s)
      | None \<Rightarrow> find_markers s)"
  by pat_completeness auto
termination by (relation "measure length") auto

text \<open>The numbers of a claim's markers, each once, in order.\<close>

definition claim_source_indexes :: "utext \<Rightarrow> nat list" where
  "claim_source_indexes s = foldl (\<lambda>seen n. if n \<in> set seen then seen else seen @ [n]) [] (find_markers s)"

text \<open>Markers without a citation are cut out; with whether there was one.\<close>

function strip_markers :: "nat \<Rightarrow> utext \<Rightarrow> utext \<times> bool" where
  "strip_markers count [] = ([], False)"
| "strip_markers count (c # s) =
     (case marker_at (c # s) of
        Some (n, len) \<Rightarrow>
          (case strip_markers count (drop (len - 1) s) of (out, changed) \<Rightarrow>
             if 1 \<le> n \<and> n \<le> count then (take len (c # s) @ out, changed) else (out, True))
      | None \<Rightarrow> (case strip_markers count s of (out, changed) \<Rightarrow> (c # out, changed)))"
  by pat_completeness auto
termination by (relation "measure (\<lambda>(n, s). length s)") auto

text \<open>\<open>re.sub\<close> of two or more blanks by one space.\<close>

function collapse_blanks :: "utext \<Rightarrow> utext" where
  "collapse_blanks [] = []"
| "collapse_blanks (c # s) =
     (if u_blank c \<and> takeWhile u_blank s \<noteq> [] then 32 # collapse_blanks (dropWhile u_blank s)
      else c # collapse_blanks s)"
  by pat_completeness auto
termination
  by (relation "measure length") (auto simp: le_imp_less_Suc length_dropWhile_le)

definition PUNCTUATION :: "nat list" where
  "PUNCTUATION = [0xFF0C, 0x3002, 0x3001, 0xFF1B, 59, 0xFF1A, 58, 0xFF01, 0xFF1F, 33, 63, 44, 46]"

definition sanitize_unbacked_source_markers :: "utext \<Rightarrow> nat \<Rightarrow> utext \<times> bool" where
  "sanitize_unbacked_source_markers s count =
     (case strip_markers count s of (out, changed) \<Rightarrow>
        if changed then (u_strip (drop_runs u_space (\<lambda>c. c \<in> set PUNCTUATION) (collapse_blanks out)), True)
        else (out, False))"

section \<open>Claims with their evidence\<close>

record context_item =
  ci_context_id :: utext
  ci_chunk_id :: utext
  ci_sha :: "utext option"

record claim =
  cl_id :: nat
  cl_text :: utext
  cl_evidence :: "utext list"
  cl_span :: "nat \<times> nat"
  cl_dropped :: bool
  cl_reason :: "utext option"

type_synonym source_index = "(nat, context_item) dict"

definition claim_evidence :: "source_index \<Rightarrow> utext \<Rightarrow> utext list" where
  "claim_evidence idx sentence =
     foldl (\<lambda>ev n. case dict_get idx n of
              None \<Rightarrow> ev
            | Some item \<Rightarrow> if ci_context_id item \<in> set ev then ev else ev @ [ci_context_id item])
       [] (claim_source_indexes sentence)"

definition build_claims :: "utext \<Rightarrow> source_index \<Rightarrow> claim list" where
  "build_claims answer idx =
     map (\<lambda>(i, sp). \<lparr>cl_id = i, cl_text = span_text answer sp, cl_evidence = claim_evidence idx (span_text answer sp),
            cl_span = sp, cl_dropped = False, cl_reason = None\<rparr>)
       (zip [1..<Suc (length (split_claim_spans answer))] (split_claim_spans answer))"

definition cited_source_indexes :: "claim list \<Rightarrow> nat list" where
  "cited_source_indexes claims =
     sorted_list_of_set (\<Union>c \<in> set (filter (\<lambda>c. \<not> cl_dropped c) claims). set (claim_source_indexes (cl_text c)))"

text \<open>Cutting spans, given from the last to the first.\<close>

definition cut_span :: "utext \<Rightarrow> nat \<times> nat \<Rightarrow> utext" where
  "cut_span out = (\<lambda>(a, b). if a < b \<and> b \<le> length out then take a out @ drop b out else out)"

function squeeze_newlines :: "utext \<Rightarrow> utext" where
  "squeeze_newlines [] = []"
| "squeeze_newlines (c # s) =
     (if c = NL \<and> 2 \<le> length (takeWhile (\<lambda>x. x = NL) s)
      then NL # NL # squeeze_newlines (dropWhile (\<lambda>x. x = NL) s)
      else c # squeeze_newlines s)"
  by pat_completeness auto
termination
  by (relation "measure length") (auto simp: le_imp_less_Suc length_dropWhile_le)

definition tidy :: "utext \<Rightarrow> utext" where
  "tidy s = u_strip (squeeze_newlines (drop_runs u_blank (\<lambda>c. c = NL) s))"

definition remove_claim_spans :: "utext \<Rightarrow> claim list \<Rightarrow> utext" where
  "remove_claim_spans answer claims =
     tidy (foldl cut_span answer (rev (sort_key fst (map cl_span (filter cl_dropped claims)))))"


section \<open>Spans are ordered and disjoint\<close>

definition spans_between :: "nat \<Rightarrow> nat \<Rightarrow> (nat \<times> nat) list \<Rightarrow> bool" where
  "spans_between lo hi sps \<longleftrightarrow>
     (\<forall>(a, b) \<in> set sps. lo \<le> a \<and> a < b \<and> b \<le> hi) \<and> sorted_wrt (\<lambda>(a, b) (c, d). b \<le> c) sps"

lemma spans_between_Nil [simp]: "spans_between lo hi []"
  by (simp add: spans_between_def)

lemma spans_between_Cons:
  "spans_between lo hi ((a, b) # sps) \<longleftrightarrow> lo \<le> a \<and> a < b \<and> b \<le> hi \<and> spans_between b hi sps"
  by (auto simp: spans_between_def) (force+)?

lemma spans_between_mono: "spans_between lo hi sps \<Longrightarrow> lo' \<le> lo \<Longrightarrow> hi \<le> hi' \<Longrightarrow> spans_between lo' hi' sps"
  by (fastforce simp: spans_between_def)

lemma spans_between_append:
  "spans_between lo m xs \<Longrightarrow> spans_between m' hi ys \<Longrightarrow> m \<le> m' \<Longrightarrow> lo \<le> m' \<Longrightarrow> m \<le> hi \<Longrightarrow> spans_between lo hi (xs @ ys)"
  by (auto simp: spans_between_def sorted_wrt_append) (fastforce+)?

lemma spans_between_shift:
  "spans_between lo hi sps \<Longrightarrow> spans_between (k + lo) (k + hi) (map (\<lambda>(a, b). (k + a, k + b)) sps)"
  by (auto simp: spans_between_def sorted_wrt_map case_prod_unfold)

lemma spans_between_shrink:
  assumes "spans_between lo hi sps" "\<And>a b c d. f (a, b) = Some (c, d) \<Longrightarrow> a \<le> c \<and> c < d \<and> (a < b \<longrightarrow> d \<le> b)"
  shows "spans_between lo hi (List.map_filter f sps)"
  using assms(1)
proof (induction sps arbitrary: lo)
  case (Cons ab sps)
  obtain a b where ab: "ab = (a, b)" by fastforce
  then have b: "lo \<le> a" "a < b" "b \<le> hi" "spans_between b hi sps" using Cons.prems by (simp_all add: spans_between_Cons)
  show ?case
  proof (cases "f ab")
    case None
    then show ?thesis using Cons.IH [OF b(4)] spans_between_mono [of b hi _ lo hi] b by (simp add: List.map_filter_simps)
  next
    case (Some cd)
    obtain c d where cd: "cd = (c, d)" by fastforce
    then have "a \<le> c" "c < d" "d \<le> b" using assms(2) [of a b c d] Some ab b by auto
    then show ?thesis
      using Cons.IH [OF b(4)] Some cd b spans_between_mono [of b hi _ d hi]
      by (simp add: List.map_filter_simps spans_between_Cons)
  qed
qed (simp add: List.map_filter_simps)

lemma takeWhile_drop_le: "n \<le> length s \<Longrightarrow> n + length (takeWhile P (drop n s)) \<le> length s"
  using length_takeWhile_le [of P "drop n s"] by simp

lemma absorb_closers_bounds: "e \<le> length body \<Longrightarrow> e \<le> absorb_closers body e \<and> absorb_closers body e \<le> length body"
  using takeWhile_drop_le [of e body "\<lambda>c. c \<in> set CLOSERS \<or> c \<in> set CJK_ENDERS"] by (simp add: absorb_closers_def)

lemma sentence_loop_between:
  "start \<le> i \<Longrightarrow> i \<le> length body \<Longrightarrow> spans_between start (length body) (sentence_loop body start i)"
proof (induction body start i rule: sentence_loop.induct)
  case (1 body start i)
  show ?case
  proof (cases "i < length body")
    case i: True
    show ?thesis
    proof (cases "sentence_ends_at body i")
      case True
      let ?e = "absorb_closers body (i + 1)"
      have e: "i + 1 \<le> ?e" "?e \<le> length body" using absorb_closers_bounds [of "i + 1" body] i by auto
      have "sentence_loop body start i = (start, ?e) # sentence_loop body ?e ?e"
        using i True by (subst sentence_loop.simps) (simp add: Let_def)
      then show ?thesis using 1(1) [OF i True refl] e 1(3) by (simp add: spans_between_Cons)
    next
      case False
      have "sentence_loop body start i = sentence_loop body start (i + 1)"
        using i False by (subst sentence_loop.simps) simp
      then show ?thesis using 1(2) [OF i False] 1(3) i by simp
    qed
  next
    case False
    then show ?thesis by (subst sentence_loop.simps) (auto simp: spans_between_Cons)
  qed
qed

lemma trim_span_shrinks:
  assumes "trim_span body (a, b) = Some (c, d)"
  shows "a \<le> c \<and> c < d \<and> (a < b \<longrightarrow> d \<le> b)"
proof -
  let ?p = "take (b - a) (drop a body)"
  have "length (u_rstrip ?p) \<le> length ?p" by (rule u_rstrip_length)
  then have len: "length (u_rstrip ?p) \<le> b - a" by simp
  have "c = a + (length ?p - length (u_lstrip ?p))" "d = a + length (u_rstrip ?p)"
    "length ?p - length (u_lstrip ?p) < length (u_rstrip ?p)"
    using assms by (auto simp: trim_span_def Let_def simp del: length_take length_drop split: if_splits)
  then show ?thesis using len by linarith
qed

lemma drop_Cons_length: "drop k x = c # r \<Longrightarrow> k < length x"
  by (metis drop_all list.distinct(1) not_le)

lemma marker_length_le:
  assumes "marker_length s = Some n"
  shows "n \<le> length s"
proof -
  let ?k = "length (takeWhile u_digit s)"
  have "drop ?k s = c # r \<Longrightarrow> ?k + 1 \<le> length s" for c r using drop_Cons_length [of ?k s] by simp
  then have "(case drop ?k s of [] \<Rightarrow> False | d # _ \<Rightarrow> d = 46 \<or> d = 41) \<Longrightarrow> ?k + 1 \<le> length s"
    by (cases "drop ?k s") auto
  then show ?thesis using assms unfolding marker_length_def Let_def by (cases s) (auto simp del: takeWhile.simps split: if_splits)
qed

lemma md_prefix_end_length:
  assumes "md_prefix_end line = Some n"
  shows "n \<le> length line"
proof -
  let ?s = "skip_blanks line" and ?h = "length (takeWhile (\<lambda>c. c = 35) (skip_blanks line))"
  have lead: "length line - length ?s + length ?s = length line"
    by (simp add: skip_blanks_def length_dropWhile_le)
  have blanks: "k \<le> length ?s \<Longrightarrow> length line - length ?s + k + length (takeWhile u_blank (drop k ?s)) \<le> length line" for k
    using takeWhile_drop_le [of k ?s u_blank] lead by linarith
  have h: "?h \<le> length ?s" by (rule length_takeWhile_le)
  have q: "starts_with [62] ?s \<Longrightarrow> 1 \<le> length ?s" by (cases ?s) (auto simp: starts_with_def)
  show ?thesis
    using assms blanks [OF h] blanks [OF marker_length_le [of ?s]] blanks [of 1] q
    by (auto simp: md_prefix_end_def Let_def split: if_splits option.splits)
qed

lemma line_spans_between: "spans_between 0 (length line) (line_spans line)"
proof -
  let ?s0 = "case md_prefix_end line of None \<Rightarrow> 0 | Some n \<Rightarrow> n"
  let ?b0 = "drop ?s0 line"
  let ?lead = "length ?b0 - length (u_lstrip ?b0)"
  let ?body = "drop ?lead ?b0"
  have s0: "?s0 \<le> length line" by (auto split: option.split dest: md_prefix_end_length)
  then have len: "?s0 + ?lead + length ?body \<le> length line" by simp
  have sub: "spans_between 0 (length ?body) (List.map_filter (trim_span ?body) (sentence_spans ?body))"
    unfolding sentence_spans_def
    by (rule spans_between_shrink [OF sentence_loop_between]) (auto dest: trim_span_shrinks)
  show ?thesis
    using len spans_between_mono [OF spans_between_shift [OF sub, of "?s0 + ?lead"], of 0 "length line"]
    by (auto simp: line_spans_def Let_def spans_between_Cons)
qed

lemma claim_spans_of_lines_between:
  "spans_between offset (offset + length (py_join [NL] lines)) (claim_spans_of_lines offset in_fence lines)"
proof (induction lines arbitrary: offset in_fence)
  case (Cons raw lines)
  let ?line = "u_rstrip raw" and ?next = "offset + length raw + 1"
  let ?hi = "offset + length (py_join [NL] (raw # lines))"
  have tail: "spans_between ?next ?hi (claim_spans_of_lines ?next b lines)" for b
    using Cons.IH [of ?next b] by (cases lines) (auto simp: algebra_simps)
  have le: "offset + length raw \<le> ?hi" by (cases lines) auto
  have "spans_between offset (offset + length raw) (map (\<lambda>(s, e). (offset + s, offset + e)) (line_spans ?line))"
    using spans_between_mono [OF spans_between_shift [OF line_spans_between [of ?line], of offset], of offset "offset + length raw"]
      u_rstrip_length [of raw] by simp
  then have "spans_between offset ?hi (map (\<lambda>(s, e). (offset + s, offset + e)) (line_spans ?line) @ claim_spans_of_lines ?next in_fence lines)"
    using spans_between_append [OF _ tail] le by simp
  then show ?case
    using tail spans_between_mono [OF tail, of offset ?hi] by (auto simp: Let_def)
qed simp

lemma split_claim_spans_between: "spans_between 0 (length s) (split_claim_spans s)"
  using claim_spans_of_lines_between [of 0 "split_char NL s" False] by (simp add: split_claim_spans_def py_join_split_char)


section \<open>Cutting out claims\<close>

text \<open>What is left of a text when the characters inside the spans are gone.\<close>

definition outside :: "(nat \<times> nat) list \<Rightarrow> utext \<Rightarrow> utext" where
  "outside sps s = nths s {i. \<forall>(a, b) \<in> set sps. \<not> (a \<le> i \<and> i < b)}"

lemma nths_none: "(\<And>i. i < length xs \<Longrightarrow> i \<notin> A) \<Longrightarrow> nths xs A = []"
  by (induction xs arbitrary: A) (auto simp: nths_Cons)

lemma nths_three:
  assumes "xs = h @ m @ r" "nths h S = h" "nths m {j. j + length h \<in> S} = []"
    and "{j. j + length m + length h \<in> S} = T"
  shows "nths xs S = h @ nths r T"
  using assms by (simp add: nths_append add.assoc)

lemma cut_span_at: "a < b \<Longrightarrow> b \<le> length s \<Longrightarrow> cut_span (take b s @ r) (a, b) = take a s @ r"
  by (simp add: cut_span_def min_absorb1)

lemma cut_spans_from:
  "spans_between lo (length s) sps \<Longrightarrow> lo \<le> length s \<Longrightarrow>
     foldl cut_span s (rev sps) = take lo s @ nths (drop lo s) {i. \<forall>(a, b) \<in> set sps. \<not> (a \<le> lo + i \<and> lo + i < b)}"
proof (induction sps arbitrary: lo)
  case Nil
  have "nths (drop lo s) UNIV = drop lo s" by (rule nths_all) simp
  then show ?case by simp
next
  case (Cons ab sps)
  obtain a b where ab: "ab = (a, b)" by fastforce
  have b: "lo \<le> a" "a < b" "b \<le> length s" "spans_between b (length s) sps"
    using Cons.prems(1) ab by (simp_all add: spans_between_Cons)
  let ?S = "{i. \<forall>(a, b) \<in> set (ab # sps). \<not> (a \<le> lo + i \<and> lo + i < b)}"
  let ?head = "take (a - lo) (drop lo s)" and ?mid = "take (b - a) (drop a s)"
  have later: "b \<le> c" if "(c, d) \<in> set sps" for c d using b(4) that by (auto simp: spans_between_def)
  have split: "drop lo s = ?head @ ?mid @ drop b s"
    using b by (metis append_take_drop_id drop_drop le_add_diff_inverse2 add.commute less_imp_le)
  have lens: "length ?head = a - lo" "length ?mid = b - a" using b by auto
  have "nths ?head ?S = ?head" using later lens b ab by (intro nths_all) fastforce
  moreover have "nths ?mid {j. j + (a - lo) \<in> ?S} = []" using lens b ab by (intro nths_none) auto
  moreover have "{j. j + (b - a) + (a - lo) \<in> ?S} = {i. \<forall>(c, d) \<in> set sps. \<not> (c \<le> b + i \<and> b + i < d)}"
    using b ab by (auto simp: algebra_simps)
  ultimately have n: "nths (drop lo s) ?S = ?head @ nths (drop b s) {i. \<forall>(c, d) \<in> set sps. \<not> (c \<le> b + i \<and> b + i < d)}"
    by (intro nths_three [OF split]) (simp_all only: lens)
  have h: "take lo s @ ?head = take a s" using b(1) by (metis le_add_diff_inverse take_add)
  have f: "foldl cut_span s (rev (ab # sps))
      = take a s @ nths (drop b s) {i. \<forall>(c, d) \<in> set sps. \<not> (c \<le> b + i \<and> b + i < d)}"
    using Cons.IH [OF b(4,3)] cut_span_at [OF b(2,3)] ab by simp
  show ?case unfolding f n append_assoc [symmetric] h ..
qed

lemma cut_spans_outside: "spans_between 0 (length s) sps \<Longrightarrow> foldl cut_span s (rev sps) = outside sps s"
  using cut_spans_from [of 0 s sps] by (simp add: outside_def)

lemma spans_between_filter: "spans_between lo hi sps \<Longrightarrow> spans_between lo hi (filter P sps)"
  by (auto simp: spans_between_def sorted_wrt_filter)

lemma spans_between_sorted: "spans_between lo hi sps \<Longrightarrow> sorted (map fst sps)"
  by (auto simp: spans_between_def sorted_map intro!: sorted_wrt_mono_rel [of _ "\<lambda>(a, b) (c, d). b \<le> c"])


text \<open>The claims of an answer are non-empty stretches of it, in order and disjoint, and
  removing the rejected claims leaves exactly the other characters, tidied.\<close>

theorem removing_claims_keeps_the_rest:
  "spans_between 0 (length answer) (split_claim_spans answer)
   \<and> map cl_span (build_claims answer idx) = split_claim_spans answer
   \<and> remove_claim_spans answer (map (\<lambda>c. c\<lparr>cl_dropped := bad c\<rparr>) (build_claims answer idx))
       = tidy (outside (map cl_span (filter bad (build_claims answer idx))) answer)"
proof -
  let ?cs = "build_claims answer idx" and ?n = "length (split_claim_spans answer)"
  have spans: "map cl_span ?cs = split_claim_spans answer"
    by (simp add: build_claims_def case_prod_unfold comp_def del: upt_Suc)
  have "map cl_span (filter bad ?cs) = map cl_span (filter cl_dropped (map (\<lambda>c. c\<lparr>cl_dropped := bad c\<rparr>) ?cs))"
    by (simp add: filter_map comp_def)
  moreover have sub: "spans_between 0 (length answer) (map cl_span (filter bad ?cs))"
    using split_claim_spans_between [of answer] unfolding spans [symmetric] spans_between_def
    by (auto simp: sorted_wrt_map intro: sorted_wrt_filter)
  ultimately show ?thesis
    using spans split_claim_spans_between cut_spans_outside [OF sub]
      sort_key_id_if_sorted [OF spans_between_sorted [OF sub]]
    by (simp add: remove_claim_spans_def)
qed

end
