(* ===== verification/Risk_Pii.thy ===== *)
theory Risk_Pii
  imports Utext
begin

text \<open>
  The risk classifier of questions and the scan of answers for personal data (\<open>rag/risk.py\<close>). The
  terms are written as code points. The version string of the policy is left out.
\<close>

section \<open>Terms\<close>

definition RISK_CATEGORIES :: "string list" where
  "RISK_CATEGORIES =
     [''legal_compliance'', ''hr_compensation'', ''financial_transaction'', ''personal_sensitive_info'', ''access_control'', ''production_change'',
     ''security_incident'']"

definition HIGH_RISK_TERMS :: "(string, utext list \<times> utext list) dict" where
  "HIGH_RISK_TERMS =
    [(''legal_compliance'',
      ([
        [0x6CD5, 0x5F8B, 0x610F, 0x89C1], [0x6CD5, 0x5F8B, 0x98CE, 0x9669], [0x5408, 0x89C4, 0x5BA1, 0x67E5], [0x5408, 0x89C4, 0x98CE, 0x9669],
        [0x8FDD, 0x6CD5], [0x8FDD, 0x89C4], [0x6CD5, 0x52A1], [0x8BC9, 0x8BBC], [0x5408, 0x540C, 0x6761, 0x6B3E], [0x8FDD, 0x7EA6, 0x91D1],
        [0x77E5, 0x8BC6, 0x4EA7, 0x6743], [0x4FB5, 0x6743], [0x76D1, 0x7BA1, 0x8981, 0x6C42], [0x6CD5, 0x5F8B, 0x4F9D, 0x636E], [0x6761, 0x4F8B],
        [0x5224, 0x4F8B]],
       [
        [0x5408, 0x89C4], [0x6CD5, 0x89C4], [0x76D1, 0x7BA1], [0x653F, 0x7B56, 0x8981, 0x6C42], [0x6761, 0x6B3E], [0x514D, 0x8D23],
        [0x8D23, 0x4EFB, 0x5212, 0x5206]])),
     (''hr_compensation'',
      ([
        [0x85AA, 0x916C], [0x5DE5, 0x8D44], [0x85AA, 0x8D44], [0x7EE9, 0x6548, 0x5956, 0x91D1], [0x5E74, 0x7EC8, 0x5956], [0x8C03, 0x85AA],
        [0x664B, 0x5347], [0x8F9E, 0x9000], [0x89E3, 0x96C7], [0x52B3, 0x52A8, 0x4EF2, 0x88C1], [0x7ADE, 0x4E1A, 0x9650, 0x5236],
        [0x80A1, 0x6743, 0x6FC0, 0x52B1], [0x793E, 0x4FDD, 0x57FA, 0x6570], [0x4EBA, 0x5458, 0x7F16, 0x5236]],
       [
        [0x4EBA, 0x4E8B], [0x62DB, 0x8058, 0x6807, 0x51C6], [0x8003, 0x6838], [0x804C, 0x7EA7], [0x798F, 0x5229], [0x79BB, 0x804C],
        [0x52A0, 0x73ED, 0x8D39]])),
     (''financial_transaction'',
      ([
        [0x4ED8, 0x6B3E], [0x8F6C, 0x8D26], [0x62A5, 0x9500], [0x53D1, 0x7968], [0x5BF9, 0x8D26], [0x5E94, 0x6536], [0x5E94, 0x4ED8],
        [0x9884, 0x7B97, 0x5BA1, 0x6279], [0x8D44, 0x91D1], [0x7ED3, 0x7B97, 0x91D1, 0x989D], [0x7A0E, 0x7387], [0x5F00, 0x7968], [0x6253, 0x6B3E]],
       [
        [0x8D22, 0x52A1], [0x6210, 0x672C, 0x6838, 0x7B97], [0x8D39, 0x7528], [0x5229, 0x6DA6], [0x8D26, 0x671F], [0x6536, 0x6B3E]])),
     (''personal_sensitive_info'',
      ([
        [0x8EAB, 0x4EFD, 0x8BC1, 0x53F7], [0x8EAB, 0x4EFD, 0x8BC1], [0x94F6, 0x884C, 0x5361, 0x53F7], [0x8D26, 0x53F7, 0x5BC6, 0x7801],
        [0x793E, 0x4FDD, 0x53F7], [0x62A4, 0x7167, 0x53F7], [0x624B, 0x673A, 0x53F7], [0x4F4F, 0x5740], [0x75C5, 0x5386],
        [0x5065, 0x5EB7, 0x72B6, 0x51B5], [0x4F53, 0x68C0, 0x62A5, 0x544A], [0x751F, 0x7269, 0x7279, 0x5F81], [0x4EBA, 0x8138, 0x6570, 0x636E],
        [0x4E2A, 0x4EBA, 0x9690, 0x79C1]],
       [
        [0x4E2A, 0x4EBA, 0x4FE1, 0x606F], [0x9690, 0x79C1], [0x654F, 0x611F, 0x4FE1, 0x606F], [0x8054, 0x7CFB, 0x65B9, 0x5F0F], [0x5065, 0x5EB7]])),
     (''access_control'',
      ([
        [0x6743, 0x9650, 0x6388, 0x4E88], [0x6388, 0x6743], [0x64A4, 0x6743], [0x53D6, 0x6D88, 0x6743, 0x9650], [0x5F00, 0x901A, 0x6743, 0x9650],
        [0x7BA1, 0x7406, 0x5458, 0x6743, 0x9650], [0x89D2, 0x8272, 0x53D8, 0x66F4], [0x8BBF, 0x95EE, 0x63A7, 0x5236], [0x8D8A, 0x6743],
        [0x63D0, 0x6743], [0x8D26, 0x53F7, 0x6743, 0x9650]],
       [
        [0x6743, 0x9650], [0x8BBF, 0x95EE, 0x8303, 0x56F4], [0x53EF, 0x89C1, 0x8303, 0x56F4], [0x89D2, 0x8272]])),
     (''production_change'',
      ([
        [0x751F, 0x4EA7, 0x53D8, 0x66F4], [0x4E0A, 0x7EBF], [0x53D1, 0x5E03, 0x5230, 0x751F, 0x4EA7], [0x751F, 0x4EA7, 0x73AF, 0x5883],
        [0x56DE, 0x6EDA], [0x505C, 0x673A], [0x6269, 0x5BB9], [0x7F29, 0x5BB9], [0x6570, 0x636E, 0x5E93, 0x8FC1, 0x79FB],
        [0x53D8, 0x66F4, 0x7A97, 0x53E3], [0x7070, 0x5EA6, 0x53D1, 0x5E03]],
       [
        [0x90E8, 0x7F72], [0x914D, 0x7F6E, 0x53D8, 0x66F4], [0x53D1, 0x5E03], [0x8FD0, 0x7EF4, 0x64CD, 0x4F5C]])),
     (''security_incident'',
      ([
        [0x5B89, 0x5168, 0x4E8B, 0x4EF6], [0x5B89, 0x5168, 0x6F0F, 0x6D1E], [0x6570, 0x636E, 0x6CC4, 0x9732], [0x5165, 0x4FB5], [0x653B, 0x51FB],
        [0x52D2, 0x7D22], [0x6728, 0x9A6C], [0x5E94, 0x6025, 0x54CD, 0x5E94], [0x5B89, 0x5168, 0x544A, 0x8B66], [0x6E17, 0x900F, 0x6D4B, 0x8BD5],
        [0x51ED, 0x636E, 0x6CC4, 0x9732], [0x5E94, 0x6025, 0x6F14, 0x7EC3]],
       [
        [0x5B89, 0x5168], [0x6F0F, 0x6D1E], [0x544A, 0x8B66], [0x6392, 0x67E5, 0x98CE, 0x9669]]))]"

section \<open>Classification\<close>

record risk_assessment =
  ra_high :: bool
  ra_categories :: "string list"
  ra_matched :: "utext list"
  ra_certainty :: string
  ra_hits :: "(string, utext list) dict"

text \<open>Terms added by the configuration, \<open>category:term\<close> separated by commas; broken entries are skipped.\<close>

definition split_once :: "nat \<Rightarrow> utext \<Rightarrow> utext \<times> utext" where
  "split_once c s = (takeWhile (\<lambda>x. x \<noteq> c) s, tl (dropWhile (\<lambda>x. x \<noteq> c) s))"

definition extra_term_entry :: "utext \<Rightarrow> (string \<times> utext) option" where
  "extra_term_entry raw =
     (let chunk = u_strip raw in
      if chunk = [] \<or> 58 \<notin> set chunk then None
      else let (cat0, term0) = split_once 58 chunk; cat = u_strip cat0; term = u_strip term0 in
        if term = [] then None
        else map_option (\<lambda>c. (c, term)) (List.find (\<lambda>c. u c = cat) RISK_CATEGORIES))"

definition extra_terms_from_settings :: "utext \<Rightarrow> (string, utext list) dict" where
  "extra_terms_from_settings raw =
     foldl (\<lambda>d (c, t). dict_set c (dict_get_or d c [] @ [t]) d) [] (List.map_filter extra_term_entry (split_char 44 raw))"

definition term_matches :: "utext \<Rightarrow> utext list \<Rightarrow> utext list" where
  "term_matches text0 terms = filter (\<lambda>t. u_contains (u_lower t) text0) terms"

definition risk_step :: "utext \<Rightarrow> (string, utext list) dict \<Rightarrow> risk_assessment \<Rightarrow> string \<Rightarrow> risk_assessment" where
  "risk_step text0 extra r category =
     (case dict_get_or HIGH_RISK_TERMS category ([], []) of (strong, weak) \<Rightarrow>
        let hit_strong = term_matches text0 strong;
            hit_weak = term_matches text0 weak @ term_matches text0 (dict_get_or extra category []);
            found = hit_strong @ hit_weak in
        if found = [] then r
        else r\<lparr>ra_categories := ra_categories r @ [category], ra_matched := ra_matched r @ found,
               ra_hits := dict_set category found (ra_hits r),
               ra_certainty := (if hit_strong \<noteq> [] then ''strong''
                                else if ra_certainty r = ''none'' then ''weak'' else ra_certainty r)\<rparr>)"

definition no_risk :: risk_assessment where
  "no_risk = \<lparr>ra_high = False, ra_categories = [], ra_matched = [], ra_certainty = ''none'', ra_hits = []\<rparr>"

definition classify_risk :: "utext \<Rightarrow> (string, utext list) dict \<Rightarrow> risk_assessment" where
  "classify_risk question extra =
     (let text0 = u_lower question in
      if u_strip text0 = [] then no_risk
      else let r = foldl (risk_step text0 extra) no_risk RISK_CATEGORIES in
        r\<lparr>ra_high := (ra_categories r \<noteq> []), ra_matched := rev (remdups (rev (ra_matched r)))\<rparr>)"

section \<open>Personal data\<close>

text \<open>
  A pattern gives the length of its match at a position, given the character before it, for its
  look-behind. All patterns match as Python's \<open>re\<close> does, longest alternative of each repetition first.
\<close>

type_synonym pii_pattern = "nat option \<Rightarrow> utext \<Rightarrow> nat option"

definition no_digit_before :: "nat option \<Rightarrow> bool" where
  "no_digit_before prev \<longleftrightarrow> (case prev of None \<Rightarrow> True | Some c \<Rightarrow> \<not> u_digit c)"

definition no_digit_at :: "utext \<Rightarrow> nat \<Rightarrow> bool" where
  "no_digit_at s n \<longleftrightarrow> \<not> (n < length s \<and> u_digit (s ! n))"

definition dig :: "utext \<Rightarrow> nat \<Rightarrow> nat" where
  "dig s i = s ! i - 48"

definition cn_id_card :: pii_pattern where
  "cn_id_card prev s =
     (if no_digit_before prev \<and> 18 \<le> length s \<and> list_all u_digit (take 17 s) \<and> s ! 0 \<noteq> 48
         \<and> ((dig s 6 = 1 \<and> dig s 7 = 9) \<or> (dig s 6 = 2 \<and> dig s 7 = 0))
         \<and> ((dig s 10 = 0 \<and> 1 \<le> dig s 11) \<or> (dig s 10 = 1 \<and> dig s 11 \<le> 2))
         \<and> ((dig s 12 = 0 \<and> 1 \<le> dig s 13) \<or> (dig s 12 = 1 \<or> dig s 12 = 2) \<or> (dig s 12 = 3 \<and> dig s 13 \<le> 1))
         \<and> (u_digit (s ! 17) \<or> s ! 17 = 88 \<or> s ! 17 = 120) \<and> no_digit_at s 18
      then Some 18 else None)"

definition bank_card :: pii_pattern where
  "bank_card prev s =
     (let n = length (takeWhile u_digit s) in
      if no_digit_before prev \<and> 16 \<le> n \<and> n \<le> 19 then Some n else None)"

definition cn_mobile :: pii_pattern where
  "cn_mobile prev s =
     (if no_digit_before prev \<and> 11 \<le> length s \<and> list_all u_digit (take 11 s) \<and> dig s 0 = 1 \<and> 3 \<le> dig s 1 \<and> no_digit_at s 11
      then Some 11 else None)"

definition local_char :: "nat \<Rightarrow> bool" where
  "local_char c \<longleftrightarrow> u_letter c \<or> u_digit c \<or> c \<in> {46, 95, 37, 43, 45}"

definition domain_char :: "nat \<Rightarrow> bool" where
  "domain_char c \<longleftrightarrow> u_letter c \<or> u_digit c \<or> c = 46 \<or> c = 45"

text \<open>The dots of a domain behind which at least two letters stand.\<close>

definition domain_dots :: "utext \<Rightarrow> nat list" where
  "domain_dots d = filter (\<lambda>k. 1 \<le> k \<and> d ! k = 46 \<and> 2 \<le> length (takeWhile u_letter (drop (k + 1) d))) [0..<length d]"

definition email :: pii_pattern where
  "email prev s =
     (let l = length (takeWhile local_char s); r = drop l s in
      if l = 0 \<or> r = [] \<or> hd r \<noteq> 64 then None
      else let d = takeWhile domain_char (tl r) in
        if domain_dots d = [] then None
        else let k = last (domain_dots d) in Some (l + 1 + k + 1 + length (takeWhile u_letter (drop (k + 1) d))))"

definition PII_PATTERNS :: "(string \<times> pii_pattern) list" where
  "PII_PATTERNS = [(''cn_id_card'', cn_id_card), (''bank_card'', bank_card), (''cn_mobile'', cn_mobile), (''email'', email)]"

fun pii_search :: "pii_pattern \<Rightarrow> nat option \<Rightarrow> utext \<Rightarrow> bool" where
  "pii_search p prev [] = False"
| "pii_search p prev (c # s) = (p prev (c # s) \<noteq> None \<or> pii_search p (Some c) s)"

text \<open>Every match is overwritten with spaces.\<close>

function pii_mask :: "pii_pattern \<Rightarrow> nat option \<Rightarrow> utext \<Rightarrow> utext" where
  "pii_mask p prev [] = []"
| "pii_mask p prev (c # s) =
     (case p prev (c # s) of
        None \<Rightarrow> c # pii_mask p (Some c) s
      | Some n \<Rightarrow> replicate n 32 @ pii_mask p (Some ((c # s) ! (n - 1))) (drop (n - 1) s))"
  by pat_completeness auto
termination by (relation "measure (\<lambda>(p, prev, s). length s)") auto

definition scan_step :: "string list \<times> utext \<Rightarrow> string \<times> pii_pattern \<Rightarrow> string list \<times> utext" where
  "scan_step acc np =
     (case acc of (found, masked) \<Rightarrow> case np of (name, p) \<Rightarrow>
        if pii_search p None masked then (found @ [name], pii_mask p None masked) else (found, masked))"

definition scan_pii :: "utext \<Rightarrow> string list" where
  "scan_pii s = fst (foldl scan_step ([], s) PII_PATTERNS)"

section \<open>What they decide\<close>

text \<open>A text without a hit is one in which no pattern matches anywhere.\<close>

lemma scan_steps_grow: "fst (foldl scan_step acc ps) = [] \<Longrightarrow> fst acc = [] \<and> (\<forall>(n, p) \<in> set ps. \<not> pii_search p None (snd acc))"
proof (induction ps arbitrary: acc)
  case (Cons np ps)
  have "fst (scan_step acc np) = []" using Cons.IH [of "scan_step acc np"] Cons.prems by simp
  then have "scan_step acc np = acc \<and> fst acc = [] \<and> \<not> pii_search (snd np) None (snd acc)"
    by (auto simp: scan_step_def split: prod.splits if_splits)
  then show ?case using Cons.IH [of "scan_step acc np"] Cons.prems by auto
qed simp

lemma scan_steps_none: "\<forall>(n, p) \<in> set ps. \<not> pii_search p None s \<Longrightarrow> foldl scan_step ([], s) ps = ([], s)"
  by (induction ps) (auto simp: scan_step_def)

lemma scan_pii_none: "scan_pii s = [] \<longleftrightarrow> (\<forall>(n, p) \<in> set PII_PATTERNS. \<not> pii_search p None s)"
  using scan_steps_grow [of "([], s)" PII_PATTERNS] scan_steps_none [of PII_PATTERNS s] by (auto simp: scan_pii_def)

definition risk_terms :: "(string, utext list) dict \<Rightarrow> string \<Rightarrow> utext list" where
  "risk_terms extra category =
     (case dict_get_or HIGH_RISK_TERMS category ([], []) of (strong, weak) \<Rightarrow> strong @ weak @ dict_get_or extra category [])"

lemma risk_step_found:
  "ra_categories (risk_step s extra r c)
     = ra_categories r @ (if term_matches s (risk_terms extra c) = [] then [] else [c])"
  by (auto simp: risk_step_def risk_terms_def term_matches_def Let_def split: prod.splits)

lemma risk_fold_categories:
  "ra_categories (foldl (risk_step s extra) r cs)
     = ra_categories r @ filter (\<lambda>c. term_matches s (risk_terms extra c) \<noteq> []) cs"
  by (induction cs arbitrary: r) (simp_all add: risk_step_found)

text \<open>A question is of high risk exactly when it contains a term, strong, weak or configured, of one of
  the seven categories, and the categories reported are those; so a configuration can only add to what
  counts as high risk.\<close>

theorem high_risk_iff_term:
  assumes "u_strip (u_lower question) \<noteq> []"
  shows "ra_categories (classify_risk question extra)
      = filter (\<lambda>c. list_ex (\<lambda>t. sublist (u_lower t) (u_lower question)) (risk_terms extra c)) RISK_CATEGORIES
    \<and> ra_high (classify_risk question extra) = (ra_categories (classify_risk question extra) \<noteq> [])
    \<and> (ra_high (classify_risk question []) \<longrightarrow> ra_high (classify_risk question extra))"
proof -
  let ?t = "u_lower question"
  have found: "term_matches ?t ts \<noteq> [] \<longleftrightarrow> list_ex (\<lambda>t. sublist (u_lower t) ?t) ts" for ts
    by (auto simp: term_matches_def filter_empty_conv list_ex_iff u_contains_iff)
  have cats: "ra_categories (classify_risk question e)
      = filter (\<lambda>c. list_ex (\<lambda>t. sublist (u_lower t) ?t) (risk_terms e c)) RISK_CATEGORIES" for e
    using assms risk_fold_categories [of ?t e no_risk RISK_CATEGORIES]
    by (simp add: classify_risk_def Let_def found) (simp add: no_risk_def)
  have high: "ra_high (classify_risk question e) = (ra_categories (classify_risk question e) \<noteq> [])" for e
    using assms by (simp add: classify_risk_def Let_def)
  have sub: "set (risk_terms [] c) \<subseteq> set (risk_terms extra c)" for c
    by (auto simp: risk_terms_def dict_get_or_def split: prod.splits)
  have "list_ex P (risk_terms [] c) \<Longrightarrow> list_ex P (risk_terms extra c)" for c P
    using sub [of c] by (auto simp: list_ex_iff)
  then have "ra_high (classify_risk question []) \<longrightarrow> ra_high (classify_risk question extra)"
    by (auto simp: high cats filter_empty_conv)
  then show ?thesis using cats high by blast
qed

theorem high_risk_iff_term_witness:
  "ra_high (classify_risk ([0x85AA, 0x916C]) []) \<and> ra_high (classify_risk ([0x85AA, 0x916C]) [(''access_control'', [[0x5821, 0x5792]])])"
proof -
  let ?q = "[0x85AA, 0x916C]"
  let ?e = "[(''access_control'', [[0x5821, 0x5792]])]"
  have ne: "u_strip (u_lower ?q) \<noteq> []"
    by (simp add: u_strip_def u_lower_def u_lstrip_def u_rstrip_def u_space_def)
  have listed: "[0x85AA, 0x916C] \<in> set (risk_terms [] ''hr_compensation'')"
    by (simp add: risk_terms_def HIGH_RISK_TERMS_def dict_get_or_def)
  have "sublist (u_lower [0x85AA, 0x916C]) (u_lower ?q)" by (auto simp: u_lower_def sublist_def)
  then have "list_ex (\<lambda>t. sublist (u_lower t) (u_lower ?q)) (risk_terms [] ''hr_compensation'')"
    using listed by (auto simp: list_ex_iff)
  moreover have "''hr_compensation'' \<in> set RISK_CATEGORIES" by (simp add: RISK_CATEGORIES_def)
  ultimately have "ra_categories (classify_risk ?q []) \<noteq> []"
    using high_risk_iff_term [OF ne, of "[]"] by (auto simp: filter_empty_conv)
  then show ?thesis using high_risk_iff_term [OF ne, of ?e] high_risk_iff_term [OF ne, of "[]"] by blast
qed

end
