(* ===== verification/Answer_Gate.thy ===== *)
theory Answer_Gate
  imports Answer_Claims Risk_Pii
begin

text \<open>
  The checks an answer passes before the user may keep it (\<open>rag/postprocess.py\<close>) and the gate of a turn
  with its event stream (\<open>services/answer_gate.py\<close>). The rows of chunks, documents and knowledge bases
  are an argument; \<open>uuid.UUID\<close> and \<open>str\<close> of an id are parameters. Left out: the audit by a judge, which
  only replaces a check entry, the detail texts, and the retrieval.
\<close>

section \<open>Rechecking the evidence\<close>

record chunk_row =
  kr_id :: uuid
  kr_document :: uuid
  kr_sha :: "utext option"

record doc_row =
  dr_id :: uuid
  dr_status :: utext
  dr_kb :: uuid

record kb_row =
  br_id :: uuid
  br_user :: uuid

record evidence_db =
  ed_chunks :: "chunk_row list"
  ed_docs :: "doc_row list"
  ed_kbs :: "kb_row list"

record authz_verdict =
  av_context :: utext
  av_ok :: bool
  av_reason :: utext

text \<open>The join of a chunk with its document and, where it exists, the knowledge base.\<close>

definition evidence_row :: "evidence_db \<Rightarrow> uuid \<Rightarrow> (chunk_row \<times> doc_row \<times> kb_row option) option" where
  "evidence_row db i =
     (case List.find (\<lambda>c. kr_id c = i) (ed_chunks db) of
        None \<Rightarrow> None
      | Some c \<Rightarrow>
          (case List.find (\<lambda>d. dr_id d = kr_document c) (ed_docs db) of
             None \<Rightarrow> None
           | Some d \<Rightarrow> Some (c, d, List.find (\<lambda>k. br_id k = dr_kb d) (ed_kbs db))))"

definition truthy_text :: "utext option \<Rightarrow> bool" where
  "truthy_text t \<longleftrightarrow> t \<noteq> None \<and> t \<noteq> Some []"

definition verdict_of :: "uuid option \<Rightarrow> context_item \<Rightarrow> (chunk_row \<times> doc_row \<times> kb_row option) option \<Rightarrow> authz_verdict" where
  "verdict_of user item row =
     (case row of
        None \<Rightarrow> \<lparr>av_context = ci_context_id item, av_ok = False, av_reason = u ''evidence_missing''\<rparr>
      | Some (c, d, kb) \<Rightarrow>
          if truthy_text (ci_sha item) \<and> truthy_text (kr_sha c) \<and> kr_sha c \<noteq> ci_sha item
          then \<lparr>av_context = ci_context_id item, av_ok = False, av_reason = u ''revision_changed''\<rparr>
          else if dr_status d \<noteq> u ''indexed''
          then \<lparr>av_context = ci_context_id item, av_ok = False, av_reason = u ''document_'' @ dr_status d\<rparr>
          else if user \<noteq> None \<and> (kb = None \<or> map_option br_user kb \<noteq> user)
          then \<lparr>av_context = ci_context_id item, av_ok = False, av_reason = u ''unauthorized''\<rparr>
          else \<lparr>av_context = ci_context_id item, av_ok = True, av_reason = []\<rparr>)"

definition authorization_recheck ::
  "(utext \<Rightarrow> uuid option) \<Rightarrow> (uuid \<Rightarrow> utext) \<Rightarrow> evidence_db \<Rightarrow> context_item list \<Rightarrow> uuid option \<Rightarrow> authz_verdict list" where
  "authorization_recheck uuid_of uuid_str db items user =
     (let ids = filter (\<lambda>i. evidence_row db i \<noteq> None) (List.map_filter (uuid_of \<circ> ci_chunk_id) items) in
      map (\<lambda>item. verdict_of user item
             (case List.find (\<lambda>i. uuid_str i = ci_chunk_id item) ids of None \<Rightarrow> None | Some i \<Rightarrow> evidence_row db i))
        items)"

section \<open>The gate\<close>

datatype check_name = CkSchema | CkCitations | CkAuthorization | CkPii | CkLength | CkHighRisk
datatype check_status = Pass | Fail | Skip
datatype gate_action = ReturnAnswer | DropClaims | Refuse | RetryFormatOnce
datatype answer_status = Answered | InsufficientEvidence | Refused

type_synonym check = "check_name \<times> check_status"

record gate_outcome =
  go_answer :: utext
  go_status :: answer_status
  go_claims :: "claim list"
  go_action :: gate_action
  go_checks :: "check list"
  go_refusal :: "string option"
  go_stripped :: bool

definition has_bad_control :: "utext \<Rightarrow> bool" where
  "has_bad_control s = list_ex (\<lambda>c. c < 32 \<and> c \<noteq> 10 \<and> c \<noteq> 13 \<and> c \<noteq> 9) s"

definition drop_claim :: "utext \<Rightarrow> claim \<Rightarrow> claim" where
  "drop_claim reason c = c\<lparr>cl_dropped := True, cl_reason := Some reason\<rparr>"

text \<open>Claims with a marker the request never gave a source for.\<close>

definition fabricated :: "source_index \<Rightarrow> claim \<Rightarrow> bool" where
  "fabricated idx c = list_ex (\<lambda>n. n \<notin> set (dict_keys idx)) (claim_source_indexes (cl_text c))"

definition drop_fabricated :: "source_index \<Rightarrow> claim list \<Rightarrow> claim list" where
  "drop_fabricated idx = map (\<lambda>c. if fabricated idx c then drop_claim (u ''citation_not_in_request'') c else c)"

definition live_with_evidence :: "claim list \<Rightarrow> claim list" where
  "live_with_evidence = filter (\<lambda>c. \<not> cl_dropped c \<and> cl_evidence c \<noteq> [])"

definition evidence_ids :: "claim list \<Rightarrow> utext list" where
  "evidence_ids cs = concat (map cl_evidence cs)"

definition bad_contexts :: "authz_verdict list \<Rightarrow> (utext, utext) dict" where
  "bad_contexts vs = foldl (\<lambda>d v. dict_set (av_context v) (av_reason v) d) [] (filter (\<lambda>v. \<not> av_ok v) vs)"

definition drop_unauthorized :: "(utext, utext) dict \<Rightarrow> claim \<Rightarrow> claim" where
  "drop_unauthorized bad c =
     (let c1 = (if cl_dropped c \<or> cl_evidence c = [] then c
                else case List.find (\<lambda>i. i \<in> set (dict_keys bad)) (cl_evidence c) of
                       None \<Rightarrow> c
                     | Some i \<Rightarrow>
                         if dict_get bad i = Some [] then c else drop_claim (dict_get_or bad i []) c) in
      if cl_dropped c1 then c1
      else c1\<lparr>cl_evidence := filter (\<lambda>i. i \<notin> set (dict_keys bad)) (cl_evidence c1)\<rparr>)"

definition drop_pii :: "claim \<Rightarrow> claim" where
  "drop_pii c = (if \<not> cl_dropped c \<and> scan_pii (cl_text c) \<noteq> [] then drop_claim (u ''pii'') c else c)"

definition authorization_step ::
  "(utext \<Rightarrow> uuid option) \<Rightarrow> (uuid \<Rightarrow> utext) \<Rightarrow> evidence_db option \<Rightarrow> source_index \<Rightarrow> uuid option \<Rightarrow> claim list
     \<Rightarrow> claim list \<times> check_status" where
  "authorization_step uuid_of uuid_str db idx user claims =
     (case db of
        None \<Rightarrow> (claims, Skip)
      | Some d \<Rightarrow>
          if live_with_evidence claims = [] then (claims, Skip)
          else let wanted = filter (\<lambda>i. ci_context_id i \<in> set (evidence_ids (live_with_evidence claims))) (map snd idx);
                   bad = bad_contexts (authorization_recheck uuid_of uuid_str d wanted user) in
            (map (drop_unauthorized bad) claims, if bad = [] then Pass else Fail))"

definition failed_names :: "check list \<Rightarrow> check_name list" where
  "failed_names cs = map fst (filter (\<lambda>c. snd c = Fail) cs)"

text \<open>The names in the order of \<open>sorted\<close>.\<close>

definition hard_failures :: "bool \<Rightarrow> bool \<Rightarrow> check_name list" where
  "hard_failures too_long residue = [CkHighRisk] @ (if too_long then [CkLength] else []) @ (if residue then [CkPii] else [])"

fun check_text :: "check_name \<Rightarrow> string" where
  "check_text CkSchema = ''schema''"
| "check_text CkCitations = ''citation_ids_exist''"
| "check_text CkAuthorization = ''authorization_recheck''"
| "check_text CkPii = ''pii_policy''"
| "check_text CkLength = ''length''"
| "check_text CkHighRisk = ''high_risk_grounding''"

text \<open>The claims after all three checks that drop claims, with the result of the recheck.\<close>

definition checked_claims ::
  "(utext \<Rightarrow> uuid option) \<Rightarrow> (uuid \<Rightarrow> utext) \<Rightarrow> evidence_db option \<Rightarrow> utext \<Rightarrow> source_index \<Rightarrow> uuid option
     \<Rightarrow> claim list \<times> check_status" where
  "checked_claims uuid_of uuid_str db text0 idx user =
     (case authorization_step uuid_of uuid_str db idx user (drop_fabricated idx (build_claims text0 idx)) of
        (claims, authz) \<Rightarrow> (if scan_pii text0 \<noteq> [] then map drop_pii claims else claims, authz))"

definition rewritten_answer :: "utext \<Rightarrow> source_index \<Rightarrow> claim list \<Rightarrow> utext \<times> bool" where
  "rewritten_answer text0 idx claims =
     sanitize_unbacked_source_markers
       (if list_ex cl_dropped claims then remove_claim_spans text0 claims else text0) (length idx)"

definition too_long :: "nat \<Rightarrow> utext \<Rightarrow> bool" where
  "too_long max_chars text0 \<longleftrightarrow> 0 < max_chars \<and> max_chars < length text0"

definition gate_checks :: "utext \<Rightarrow> source_index \<Rightarrow> bool \<Rightarrow> nat \<Rightarrow> claim list \<Rightarrow> check_status \<Rightarrow> bool \<Rightarrow> check list" where
  "gate_checks text0 idx high_risk max_chars claims authz stripped =
     [(CkSchema, Pass),
      (CkCitations, if list_ex (fabricated idx) (build_claims text0 idx) then Fail else Pass),
      (CkAuthorization, authz),
      (CkPii, if scan_pii text0 \<noteq> [] then Fail else Pass),
      (CkLength, if too_long max_chars text0 then Fail else if 0 < max_chars then Pass else Skip),
      (CkHighRisk, if \<not> high_risk then Skip else if live_with_evidence claims \<noteq> [] then Pass else Fail)]
     @ (if stripped then [(CkCitations, Fail)] else [])"

definition gate_decision :: "check list \<Rightarrow> check_name list \<Rightarrow> bool \<Rightarrow> claim list \<Rightarrow> gate_action \<times> answer_status \<times> string option" where
  "gate_decision checks hard pii claims =
     (if list_ex (\<lambda>n. n \<in> set (failed_names checks)) hard
      then (Refuse, Refused, Some (check_text (hd hard)))
      else if pii \<or> list_ex cl_dropped claims
      then (if list_all cl_dropped claims
            then (Refuse, InsufficientEvidence, Some ''all_claims_dropped'')
            else (DropClaims, Answered, None))
      else (ReturnAnswer, Answered, None))"

definition gate_answer ::
  "(utext \<Rightarrow> uuid option) \<Rightarrow> (uuid \<Rightarrow> utext) \<Rightarrow> evidence_db option \<Rightarrow> utext \<Rightarrow> source_index
     \<Rightarrow> bool \<Rightarrow> bool \<Rightarrow> bool \<Rightarrow> uuid option \<Rightarrow> nat \<Rightarrow> gate_outcome" where
  "gate_answer uuid_of uuid_str db text0 idx high_risk kb_explicit insufficient user max_chars =
     (if insufficient \<and> (kb_explicit \<or> high_risk) \<and> u_strip text0 = []
      then \<lparr>go_answer = [], go_status = InsufficientEvidence, go_claims = [], go_action = Refuse,
             go_checks = [(CkSchema, Pass), (CkCitations, Skip), (CkAuthorization, Skip), (CkPii, Pass), (CkLength, Pass)],
             go_refusal = Some ''insufficient_evidence'', go_stripped = False\<rparr>
      else if u_strip text0 = [] \<or> has_bad_control text0 \<or> build_claims text0 idx = []
      then \<lparr>go_answer = text0, go_status = Answered, go_claims = build_claims text0 idx, go_action = RetryFormatOnce,
             go_checks = [(CkSchema, Fail)], go_refusal = Some ''schema_invalid'', go_stripped = False\<rparr>
      else
        let (claims, authz) = checked_claims uuid_of uuid_str db text0 idx user;
            (rewritten, stripped) = rewritten_answer text0 idx claims;
            pii = (scan_pii text0 \<noteq> []);
            checks = gate_checks text0 idx high_risk max_chars claims authz stripped;
            hard = hard_failures (too_long max_chars text0) (pii \<and> scan_pii rewritten \<noteq> []);
            (action, status, refusal) = gate_decision checks hard pii claims in
        \<lparr>go_answer = (if action \<noteq> Refuse then rewritten else []), go_status = status, go_claims = claims,
          go_action = action, go_checks = checks, go_refusal = refusal, go_stripped = stripped\<rparr>)"

section \<open>The gate of a turn\<close>

datatype refusal_text = RefusalInsufficient | RefusalHighRisk

record turn_gate =
  tg_high_risk :: bool
  tg_kb_explicit :: bool
  tg_buffered :: bool
  tg_insufficient :: bool
  tg_rag_attempted :: bool
  tg_source_index :: source_index

definition open_turn_gate :: "utext \<Rightarrow> bool \<Rightarrow> bool \<Rightarrow> (string, utext list) dict \<Rightarrow> bool \<Rightarrow> turn_gate" where
  "open_turn_gate question has_kbs kb_explicit extra buffer_setting =
     \<lparr>tg_high_risk = ra_high (classify_risk question extra), tg_kb_explicit = kb_explicit,
       tg_buffered = (buffer_setting \<and> ra_high (classify_risk question extra) \<and> has_kbs),
       tg_insufficient = True, tg_rag_attempted = False, tg_source_index = []\<rparr>"

definition retrieve_for_gate :: "source_index \<Rightarrow> bool \<Rightarrow> bool \<Rightarrow> turn_gate \<Rightarrow> turn_gate" where
  "retrieve_for_gate idx pack_insufficient no_items g =
     g\<lparr>tg_source_index := idx, tg_rag_attempted := True, tg_insufficient := (pack_insufficient \<or> no_items)\<rparr>"

definition pre_generation_refusal :: "turn_gate \<Rightarrow> refusal_text option" where
  "pre_generation_refusal g =
     (if \<not> tg_rag_attempted g \<or> \<not> tg_insufficient g then None
      else if tg_kb_explicit g then Some RefusalInsufficient
      else if tg_high_risk g then Some RefusalHighRisk
      else None)"

text \<open>The text shown: the answer, or the notice of a refusal.\<close>

datatype shown = ShownText utext | ShownRefusal refusal_text

record gate_result =
  gr_shown :: shown
  gr_status :: answer_status
  gr_refused :: bool
  gr_corrected :: "utext option"

definition dropped_claim_count :: "gate_outcome \<Rightarrow> nat" where
  "dropped_claim_count r = length (filter cl_dropped (go_claims r))"

definition gate_result_of :: "gate_outcome \<Rightarrow> gate_result" where
  "gate_result_of r =
     (case go_status r of
        InsufficientEvidence \<Rightarrow>
          \<lparr>gr_shown = ShownRefusal RefusalInsufficient, gr_status = InsufficientEvidence, gr_refused = True, gr_corrected = None\<rparr>
      | Refused \<Rightarrow>
          \<lparr>gr_shown = ShownRefusal RefusalHighRisk, gr_status = Refused, gr_refused = True, gr_corrected = None\<rparr>
      | Answered \<Rightarrow>
          \<lparr>gr_shown = ShownText (go_answer r), gr_status = Answered, gr_refused = False,
            gr_corrected = (if dropped_claim_count r \<noteq> 0 then Some (go_answer r) else None)\<rparr>)"

definition finalize_turn ::
  "(utext \<Rightarrow> uuid option) \<Rightarrow> (uuid \<Rightarrow> utext) \<Rightarrow> evidence_db option \<Rightarrow> uuid option \<Rightarrow> nat \<Rightarrow> turn_gate \<Rightarrow> utext \<Rightarrow> gate_result" where
  "finalize_turn uuid_of uuid_str db user max_chars g answer =
     gate_result_of (gate_answer uuid_of uuid_str db answer (tg_source_index g) (tg_high_risk g) (tg_kb_explicit g)
       (tg_insufficient g) user max_chars)"

section \<open>The event stream\<close>

datatype agent_event =
    Token utext
  | Replace shown
  | Validation gate_result
  | Done
  | Other nat

fun stream_gated :: "turn_gate option \<Rightarrow> (utext \<Rightarrow> gate_result option) \<Rightarrow> utext \<Rightarrow> agent_event list \<Rightarrow> agent_event list" where
  "stream_gated g fin collected [] = []"
| "stream_gated g fin collected (Token d # es) =
     (if (case g of None \<Rightarrow> False | Some x \<Rightarrow> tg_buffered x) then stream_gated g fin (collected @ d) es
      else Token d # stream_gated g fin (collected @ d) es)"
| "stream_gated g fin collected (Done # es) =
     (case (fin collected, g) of
        (Some r, Some x) \<Rightarrow> Validation r # (if tg_buffered x \<or> gr_refused r then [Replace (gr_shown r)] else []) @ [Done]
      | _ \<Rightarrow> [Done])"
| "stream_gated g fin collected (e # es) = e # stream_gated g fin collected es"

end
