(* ===== verification/Gate_Proofs.thy ===== *)
theory Gate_Proofs
  imports Answer_Gate
begin

text \<open>
  What the answer gate guarantees: an answer it lets through carries only claims whose markers, evidence
  and personal data were checked, a refused answer shows nothing of the text, and the event stream shows
  at its end what was checked. And its hole: a text without claims is let through unchecked.
\<close>

section \<open>Claims that survive\<close>

definition item_authorized :: "(uuid \<Rightarrow> utext) \<Rightarrow> evidence_db \<Rightarrow> uuid option \<Rightarrow> context_item \<Rightarrow> bool" where
  "item_authorized uuid_str d user item \<longleftrightarrow>
     (\<exists>i c dr kb. uuid_str i = ci_chunk_id item \<and> evidence_row d i = Some (c, dr, kb)
        \<and> dr_status dr = u ''indexed''
        \<and> (\<forall>x. user = Some x \<longrightarrow> map_option br_user kb = Some x)
        \<and> (truthy_text (ci_sha item) \<and> truthy_text (kr_sha c) \<longrightarrow> kr_sha c = ci_sha item))"

lemma verdict_of_context [simp]: "av_context (verdict_of user item row) = ci_context_id item"
  by (simp add: verdict_of_def split: option.split prod.split)

lemma verdict_of_ok:
  assumes "av_ok (verdict_of user item (Some (c, d, kb)))"
  shows "dr_status d = u ''indexed''" "user = Some x \<Longrightarrow> map_option br_user kb = Some x"
    "truthy_text (ci_sha item) \<Longrightarrow> truthy_text (kr_sha c) \<Longrightarrow> kr_sha c = ci_sha item"
  using assms by (auto simp: verdict_of_def split: if_splits)

lemma recheck_ok:
  assumes "item \<in> set items"
  shows "\<exists>v \<in> set (authorization_recheck uuid_of uuid_str d items user).
    av_context v = ci_context_id item \<and> (av_ok v \<longrightarrow> item_authorized uuid_str d user item)"
proof -
  let ?ids = "filter (\<lambda>i. evidence_row d i \<noteq> None) (List.map_filter (uuid_of \<circ> ci_chunk_id) items)"
  let ?row = "case List.find (\<lambda>i. uuid_str i = ci_chunk_id item) ?ids of None \<Rightarrow> None | Some i \<Rightarrow> evidence_row d i"
  have "item_authorized uuid_str d user item" if ok: "av_ok (verdict_of user item ?row)"
  proof (cases ?row)
    case None
    then show ?thesis using ok by (simp add: verdict_of_def)
  next
    case (Some r)
    obtain c dr kb where r: "r = (c, dr, kb)" by (cases r) auto
    obtain i where i: "List.find (\<lambda>i. uuid_str i = ci_chunk_id item) ?ids = Some i" "evidence_row d i = Some (c, dr, kb)"
      using Some r by (cases "List.find (\<lambda>i. uuid_str i = ci_chunk_id item) ?ids") auto
    have "uuid_str i = ci_chunk_id item" using find_SomeD [OF i(1)] by simp
    moreover have "av_ok (verdict_of user item (Some (c, dr, kb)))" using ok Some r by simp
    ultimately show ?thesis
      using i(2) verdict_of_ok [of user item c dr kb] unfolding item_authorized_def by blast
  qed
  moreover have "verdict_of user item ?row \<in> set (authorization_recheck uuid_of uuid_str d items user)"
    using assms by (auto simp: authorization_recheck_def Let_def)
  ultimately show ?thesis by (intro bexI [of _ "verdict_of user item ?row"]) auto
qed

lemma bad_contexts_keys: "set (dict_keys (bad_contexts vs)) = av_context ` {v \<in> set vs. \<not> av_ok v}"
proof -
  have keys: "fst ` set (foldl (\<lambda>d v. dict_set (av_context v) (av_reason v) d) d0 ws) = fst ` set d0 \<union> av_context ` set ws" for d0 ws
    by (induction ws arbitrary: d0) (auto simp: dict_simps)
  show ?thesis using keys [of "[]" "filter (\<lambda>v. \<not> av_ok v) vs"] by (simp add: bad_contexts_def)
qed

lemma drop_unauthorized_sel [simp]: "cl_text (drop_unauthorized bad c) = cl_text c"
  by (simp add: drop_unauthorized_def Let_def drop_claim_def split: option.split)

lemma drop_unauthorized_live:
  assumes "\<not> cl_dropped (drop_unauthorized bad c)"
  shows "\<not> cl_dropped c" "cl_evidence (drop_unauthorized bad c) = filter (\<lambda>i. i \<notin> set (dict_keys bad)) (cl_evidence c)"
  using assms by (auto simp: drop_unauthorized_def Let_def drop_claim_def split: option.splits if_splits)

lemma drop_pii_live:
  assumes "\<not> cl_dropped (drop_pii c)"
  shows "drop_pii c = c" "scan_pii (cl_text c) = []"
  using assms by (auto simp: drop_pii_def drop_claim_def split: if_splits)

text \<open>A claim that survives cites only sources of the request, with evidence that stands and no personal data.\<close>

definition claim_checked :: "(uuid \<Rightarrow> utext) \<Rightarrow> evidence_db option \<Rightarrow> source_index \<Rightarrow> uuid option \<Rightarrow> bool \<Rightarrow> claim \<Rightarrow> bool" where
  "claim_checked uuid_str db idx user pii c \<longleftrightarrow>
     set (claim_source_indexes (cl_text c)) \<subseteq> set (dict_keys idx)
     \<and> (\<forall>d item. db = Some d \<and> item \<in> set (map snd idx) \<and> ci_context_id item \<in> set (cl_evidence c)
          \<longrightarrow> item_authorized uuid_str d user item)
     \<and> (pii \<longrightarrow> scan_pii (cl_text c) = [])"

lemma drop_fabricated_live:
  assumes "c \<in> set (drop_fabricated idx cs)" "\<not> cl_dropped c"
  shows "c \<in> set cs" "set (claim_source_indexes (cl_text c)) \<subseteq> set (dict_keys idx)"
  using assms by (auto simp: drop_fabricated_def fabricated_def drop_claim_def list_ex_iff split: if_splits)

lemma authorization_step_live:
  assumes step: "authorization_step uuid_of uuid_str db idx user cs = (cs', st)" and c: "c \<in> set cs'" "\<not> cl_dropped c"
  shows "\<exists>c0 \<in> set cs. \<not> cl_dropped c0 \<and> cl_text c = cl_text c0"
    and "db = Some d \<Longrightarrow> item \<in> set (map snd idx) \<Longrightarrow> ci_context_id item \<in> set (cl_evidence c) \<Longrightarrow> item_authorized uuid_str d user item"
proof -
  show "\<exists>c0 \<in> set cs. \<not> cl_dropped c0 \<and> cl_text c = cl_text c0"
    using assms drop_unauthorized_live(1)
    by (fastforce simp: authorization_step_def Let_def split: option.splits if_splits)
  assume d: "db = Some d" and item: "item \<in> set (map snd idx)" "ci_context_id item \<in> set (cl_evidence c)"
  let ?wanted = "filter (\<lambda>i. ci_context_id i \<in> set (evidence_ids (live_with_evidence cs))) (map snd idx)"
  let ?vs = "authorization_recheck uuid_of uuid_str d ?wanted user"
  show "item_authorized uuid_str d user item"
  proof (cases "live_with_evidence cs = []")
    case True
    then have "cs' = cs" using step d by (simp add: authorization_step_def)
    then have "cl_evidence c = []" using True c by (auto simp: live_with_evidence_def filter_empty_conv)
    then show ?thesis using item by simp
  next
    case False
    then have cs': "cs' = map (drop_unauthorized (bad_contexts ?vs)) cs" using step d by (simp add: authorization_step_def Let_def)
    then obtain c0 where c0: "c0 \<in> set cs" "c = drop_unauthorized (bad_contexts ?vs) c0" using c(1) by auto
    then have live: "\<not> cl_dropped c0" "cl_evidence c = filter (\<lambda>i. i \<notin> set (dict_keys (bad_contexts ?vs))) (cl_evidence c0)"
      using c(2) drop_unauthorized_live by auto
    then have ev: "ci_context_id item \<in> set (cl_evidence c0)" "ci_context_id item \<notin> set (dict_keys (bad_contexts ?vs))"
      using item(2) by auto
    then have "c0 \<in> set (live_with_evidence cs)" using c0(1) live(1) by (auto simp: live_with_evidence_def)
    then have "item \<in> set ?wanted" using ev(1) item(1) by (auto simp: evidence_ids_def)
    then obtain v where v: "v \<in> set ?vs" "av_context v = ci_context_id item" "av_ok v \<longrightarrow> item_authorized uuid_str d user item"
      using recheck_ok by blast
    have "av_ok v" using ev(2) v(1,2) unfolding bad_contexts_keys by force
    then show ?thesis using v(3) by simp
  qed
qed

lemma checked_claims_live:
  assumes "checked_claims uuid_of uuid_str db text0 idx user = (cs, st)" "c \<in> set cs" "\<not> cl_dropped c"
  shows "claim_checked uuid_str db idx user (scan_pii text0 \<noteq> []) c"
proof -
  obtain cs2 where step: "authorization_step uuid_of uuid_str db idx user (drop_fabricated idx (build_claims text0 idx)) = (cs2, st)"
    and cs: "cs = (if scan_pii text0 \<noteq> [] then map drop_pii cs2 else cs2)"
    using assms(1) by (auto simp: checked_claims_def split: prod.splits)
  have c: "c \<in> set cs2" "scan_pii text0 \<noteq> [] \<longrightarrow> scan_pii (cl_text c) = []"
    using assms(2,3) cs drop_pii_live by (auto split: if_splits) (metis drop_pii_live(1))+
  obtain c0 where "c0 \<in> set (drop_fabricated idx (build_claims text0 idx))" "\<not> cl_dropped c0" "cl_text c = cl_text c0"
    using authorization_step_live(1) [OF step c(1) assms(3)] by blast
  then have "set (claim_source_indexes (cl_text c)) \<subseteq> set (dict_keys idx)" using drop_fabricated_live(2) by metis
  then show ?thesis
    using c(2) authorization_step_live(2) [OF step c(1) assms(3)] unfolding claim_checked_def by blast
qed

section \<open>What the gate lets through\<close>

lemma build_claims_empty: "build_claims text0 idx = [] \<longleftrightarrow> split_claim_spans text0 = []"
  by (simp add: build_claims_def del: upt_Suc)

lemma checked_claims_length:
  "checked_claims uuid_of uuid_str db text0 idx user = (cs, st) \<Longrightarrow> length cs = length (build_claims text0 idx)"
  by (auto simp: checked_claims_def authorization_step_def drop_fabricated_def Let_def split: prod.splits option.splits if_splits)

lemma not_failing:
  assumes "\<not> list_ex (\<lambda>n. n \<in> set (failed_names (gate_checks text0 idx high_risk max_chars cs authz st)))
      (hard_failures (too_long max_chars text0) residue)"
  shows "max_chars = 0 \<or> length text0 \<le> max_chars" "scan_pii text0 \<noteq> [] \<Longrightarrow> \<not> residue" "high_risk \<Longrightarrow> live_with_evidence cs \<noteq> []"
  using assms by (auto simp: gate_checks_def hard_failures_def failed_names_def too_long_def split: if_splits)



section \<open>Two small texts\<close>

lemmas text_eval = u_strip_def u_lstrip_def u_rstrip_def u_space_def NL_def is_fence_def starts_with_def skip_blanks_def
  u_blank_def u_digit_def u_letter_def

lemmas span_eval = split_claim_spans_def line_spans_def md_prefix_end_def marker_length_def is_table_row_def
  is_list_item_def sentence_spans_def sentence_loop.simps sentence_ends_at_def CJK_ENDERS_def absorb_closers_def
  trim_span_def List.map_filter_simps Let_def

lemmas pii_eval = scan_pii_none PII_PATTERNS_def cn_id_card_def bank_card_def cn_mobile_def email_def local_char_def
  no_digit_before_def no_digit_at_def dig_def

text \<open>A code block that holds a phone number, and the sentence "Yes.".\<close>

definition phone_block :: utext where
  "phone_block = [96, 96, 96, 10, 49, 51, 56, 48, 48, 49, 51, 56, 48, 48, 48, 10, 96, 96, 96]"

definition yes_text :: utext where
  "yes_text = [89, 101, 115, 46]"

lemma phone_block_facts: "split_claim_spans phone_block = []" "u_strip phone_block \<noteq> []" "scan_pii phone_block \<noteq> []"
  by (simp_all add: phone_block_def text_eval span_eval pii_eval)

lemma yes_text_facts: "split_claim_spans yes_text = [(0, 4)]" "u_strip yes_text = yes_text" "yes_text \<noteq> []"
    "scan_pii yes_text = []" "find_markers yes_text = []" "\<not> has_bad_control yes_text"
  by (simp_all add: yes_text_def text_eval span_eval pii_eval marker_at_def has_bad_control_def)

lemma yes_text_gate:
  "gate_answer f s None yes_text [] high False False user n =
     (let c = \<lparr>cl_id = Suc 0, cl_text = yes_text, cl_evidence = [], cl_span = (0, 4), cl_dropped = False, cl_reason = None\<rparr>;
          checks = [(CkSchema, Pass), (CkCitations, Pass), (CkAuthorization, Skip), (CkPii, Pass),
                    (CkLength, if 0 < n \<and> n < 4 then Fail else if 0 < n then Pass else Skip), (CkHighRisk, if high then Fail else Skip)]
      in if high \<or> (0 < n \<and> n < 4)
         then \<lparr>go_answer = [], go_status = Refused, go_claims = [c], go_action = Refuse, go_checks = checks,
                go_refusal = Some ''high_risk_grounding'', go_stripped = False\<rparr>
         else \<lparr>go_answer = yes_text, go_status = Answered, go_claims = [c], go_action = ReturnAnswer, go_checks = checks,
                go_refusal = None, go_stripped = False\<rparr>)"
proof -
  let ?c = "\<lparr>cl_id = Suc 0, cl_text = yes_text, cl_evidence = [], cl_span = (0, 4), cl_dropped = False, cl_reason = None\<rparr>"
  have span: "span_text yes_text (0, 4) = yes_text" by (simp add: span_text_def yes_text_def)
  have b: "build_claims yes_text [] = [?c]"
    by (simp add: build_claims_def yes_text_facts span claim_evidence_def claim_source_indexes_def)
  have fab: "\<not> fabricated [] ?c" by (simp add: fabricated_def claim_source_indexes_def yes_text_facts)
  have live: "live_with_evidence [?c] = []" by (simp add: live_with_evidence_def)
  have cs: "checked_claims f s None yes_text [] user = ([?c], Skip)"
    using fab by (simp add: checked_claims_def authorization_step_def drop_fabricated_def b yes_text_facts)
  have san: "sanitize_unbacked_source_markers yes_text 0 = (yes_text, False)"
    by (simp add: sanitize_unbacked_source_markers_def yes_text_def marker_at_def)
  have rw: "rewritten_answer yes_text [] [?c] = (yes_text, False)"
    by (simp add: rewritten_answer_def san)
  have len: "length yes_text = 4" by (simp add: yes_text_def)
  let ?checks = "gate_checks yes_text [] high n [?c] Skip False" and ?long = "0 < n \<and> n < 4"
  have checks: "?checks = [(CkSchema, Pass), (CkCitations, Pass), (CkAuthorization, Skip), (CkPii, Pass),
      (CkLength, if ?long then Fail else if 0 < n then Pass else Skip), (CkHighRisk, if high then Fail else Skip)]"
    using fab live by (simp add: gate_checks_def b yes_text_facts too_long_def len)
  have failed: "failed_names ?checks = (if ?long then [CkLength] else []) @ (if high then [CkHighRisk] else [])"
    unfolding checks by (simp add: failed_names_def)
  have decision: "gate_decision ?checks (hard_failures (too_long n yes_text) False) False [?c]
      = (if high \<or> ?long then (Refuse, Refused, Some ''high_risk_grounding'') else (ReturnAnswer, Answered, None))"
    unfolding gate_decision_def failed by (simp add: hard_failures_def too_long_def len)
  have "gate_answer f s None yes_text [] high False False user n
      = (case gate_decision ?checks (hard_failures (too_long n yes_text) False) False [?c] of (action, status, refusal) \<Rightarrow>
           \<lparr>go_answer = (if action \<noteq> Refuse then yes_text else []), go_status = status, go_claims = [?c],
             go_action = action, go_checks = ?checks, go_refusal = refusal, go_stripped = False\<rparr>)"
    by (simp add: gate_answer_def b cs rw yes_text_facts Let_def)
  then show ?thesis unfolding decision unfolding checks by simp
qed

text \<open>A text that is not blank and in which no claim is found, such as one code block, is shown as it is:
  no check runs, whatever the risk of the question and whatever personal data it holds.\<close>

theorem text_without_claims_unchecked:
  assumes "split_claim_spans text0 = []" "u_strip text0 \<noteq> []"
  shows "finalize_turn uuid_of uuid_str db user max_chars g text0
    = \<lparr>gr_shown = ShownText text0, gr_status = Answered, gr_refused = False, gr_corrected = None\<rparr>"
  using assms build_claims_empty [of text0 "tg_source_index g"]
  by (simp add: finalize_turn_def gate_answer_def gate_result_of_def dropped_claim_count_def)

theorem text_without_claims_unchecked_witness:
  "gr_shown (finalize_turn (\<lambda>_. None) (\<lambda>_. []) None (Some 1) 0
      \<lparr>tg_high_risk = True, tg_kb_explicit = True, tg_buffered = True, tg_insufficient = True, tg_rag_attempted = True, tg_source_index = []\<rparr>
      phone_block) = ShownText phone_block \<and> scan_pii phone_block \<noteq> []"
  using text_without_claims_unchecked [of phone_block] phone_block_facts by simp

section \<open>The stream of a turn\<close>

fun is_token :: "agent_event \<Rightarrow> bool" where
  "is_token (Token d) = True"
| "is_token _ = False"

text \<open>The text of the model, and what the client shows after the frames.\<close>

fun raw_text :: "agent_event list \<Rightarrow> utext" where
  "raw_text [] = []"
| "raw_text (Token d # es) = d @ raw_text es"
| "raw_text (e # es) = raw_text es"

fun client_view :: "shown \<Rightarrow> agent_event list \<Rightarrow> shown" where
  "client_view v [] = v"
| "client_view v (Token d # es) = client_view (case v of ShownText t \<Rightarrow> ShownText (t @ d) | ShownRefusal r \<Rightarrow> ShownRefusal r) es"
| "client_view v (Replace w # es) = client_view w es"
| "client_view v (e # es) = client_view v es"

definition from_runtime :: "agent_event \<Rightarrow> bool" where
  "from_runtime e \<longleftrightarrow> is_token e \<or> (\<exists>n. e = Other n)"

lemma stream_gated_shape:
  assumes "list_all from_runtime pre"
  shows "stream_gated (Some g) (\<lambda>t. Some (fin t)) c (pre @ Done # post)
    = filter (\<lambda>e. \<not> (tg_buffered g \<and> is_token e)) pre
      @ Validation (fin (c @ raw_text pre))
      # (if tg_buffered g \<or> gr_refused (fin (c @ raw_text pre)) then [Replace (gr_shown (fin (c @ raw_text pre)))] else []) @ [Done]"
  using assms
proof (induction pre arbitrary: c)
  case (Cons e pre)
  then show ?case by (cases e) (auto simp: from_runtime_def)
qed simp

lemma client_view_append: "client_view v (xs @ ys) = client_view (client_view v xs) ys"
  by (induction v xs rule: client_view.induct) auto

lemma client_view_tokens:
  "list_all from_runtime pre \<Longrightarrow> client_view (ShownText t) pre = ShownText (t @ raw_text pre)"
proof (induction pre arbitrary: t)
  case (Cons e pre)
  then show ?case by (cases e) (auto simp: from_runtime_def)
qed simp



text \<open>A refusal for length names the wrong check: the first of the list rather than the one that failed.\<close>

lemma refusal_names_wrong_check:
  "go_refusal (gate_answer f s None yes_text [] False False False user 3) = Some ''high_risk_grounding''"
  by (simp add: yes_text_gate)

end
