(* ===== verification/Auth_Tokens.thy ===== *)
theory Auth_Tokens
  imports Texts
begin

text \<open>
  Sessions: minting, checking, rotating and revoking tokens (\<open>services/auth_service.py\<close>,
  \<open>core/deps.py\<close>) and the handlers of \<open>api/auth.py\<close> and \<open>services/admin_service.py\<close> that use them.
  The codec of tokens (PyJWT), the password hash (passlib) and the commands of Redis are parameters with
  their documented laws as hypotheses. Times are seconds. Left out: audit rows, cookies' attributes,
  the credit account of a new user, the content deleted with an account, and the login by WeChat.
\<close>

section \<open>Tokens and the revocation store\<close>

record payload =
  p_sub :: "uuid option"
  p_type :: string
  p_jti :: "string option"
  p_ver :: "int option"
  p_exp :: "int option"

definition ACCESS_TOKEN_TYPE :: string where "ACCESS_TOKEN_TYPE = ''access''"
definition REFRESH_TOKEN_TYPE :: string where "REFRESH_TOKEN_TYPE = ''refresh''"
definition REFRESH_BLACKLIST_KEY :: string where "REFRESH_BLACKLIST_KEY = ''refresh:blacklist''"
definition ACCESS_BLACKLIST_KEY :: string where "ACCESS_BLACKLIST_KEY = ''access:blacklist''"

text \<open>The commands on sets, at a time; \<open>EXPIRE\<close> is given the seconds to live.\<close>

record 'r redis_sets =
  rs_sadd :: "int \<Rightarrow> string \<Rightarrow> string \<Rightarrow> 'r \<Rightarrow> 'r"
  rs_expire :: "int \<Rightarrow> string \<Rightarrow> int \<Rightarrow> 'r \<Rightarrow> 'r"
  rs_ismember :: "int \<Rightarrow> string \<Rightarrow> string \<Rightarrow> 'r \<Rightarrow> bool"

text \<open>
  Their documented behaviour, over a view of the store that gives each key its members and the time
  its key expires: the time to live belongs to the key, not to the member.
\<close>

definition live_at :: "int \<Rightarrow> string set \<times> int option \<Rightarrow> string set \<times> int option" where
  "live_at now v = (case snd v of None \<Rightarrow> v | Some d \<Rightarrow> if d \<le> now then ({}, None) else v)"

definition redis_sets_ok :: "'r redis_sets \<Rightarrow> ('r \<Rightarrow> string \<Rightarrow> string set \<times> int option) \<Rightarrow> bool" where
  "redis_sets_ok ops view \<longleftrightarrow>
     (\<forall>now k m r. rs_ismember ops now k m r = (m \<in> fst (live_at now (view r k))))
     \<and> (\<forall>now k m r. view (rs_sadd ops now k m r)
          = (view r)(k := (insert m (fst (live_at now (view r k))), snd (live_at now (view r k)))))
     \<and> (\<forall>now k ttl r. view (rs_expire ops now k ttl r)
          = (if fst (live_at now (view r k)) = {} then view r else (view r)(k := (fst (view r k), Some (now + ttl)))))"

text \<open>A connection is reachable, absent (no package, or the ping failed), or its commands raise.\<close>

datatype redis_link = Reachable | Absent | Raising

section \<open>State\<close>

record user_row =
  us_id :: uuid
  us_email :: string
  us_name :: string
  us_hash :: string
  us_role :: string
  us_active :: bool
  us_version :: int

record 'r auth_state =
  as_users :: "user_row list"
  as_redis :: 'r
  as_mem :: "string list"

text \<open>What the process is configured with, and what one request brings along.\<close>

record ('tok, 'r) auth_env =
  ae_encode :: "payload \<Rightarrow> 'tok"
  ae_decode :: "int \<Rightarrow> 'tok \<Rightarrow> payload option"
  ae_sets :: "'r redis_sets"
  ae_hash :: "string \<Rightarrow> string \<Rightarrow> string"
  ae_verify :: "string \<Rightarrow> string \<Rightarrow> bool"
  ae_access_minutes :: int
  ae_refresh_days :: int
  ae_min_length :: nat
  ae_complexity :: bool

record request =
  rq_now :: int
  rq_link :: redis_link
  rq_access_jti :: string
  rq_refresh_jti :: string
  rq_salt :: string

text \<open>\<open>jwt.decode\<close> gives back what was encoded until it expires.\<close>

definition codec_ok :: "('tok, 'r) auth_env \<Rightarrow> bool" where
  "codec_ok env \<longleftrightarrow>
     (\<forall>now p. ae_decode env now (ae_encode env p)
        = (case p_exp p of None \<Rightarrow> Some p | Some e \<Rightarrow> if e \<le> now then None else Some p))"

definition find_user :: "uuid \<Rightarrow> 'r auth_state \<Rightarrow> user_row option" where
  "find_user i st = List.find (\<lambda>x. us_id x = i) (as_users st)"

definition save_user :: "user_row \<Rightarrow> 'r auth_state \<Rightarrow> 'r auth_state" where
  "save_user x st = st\<lparr>as_users := map_at us_id (us_id x) (\<lambda>_. x) (as_users st)\<rparr>"

section \<open>Revocation\<close>

definition truthy :: "string option \<Rightarrow> bool" where
  "truthy s \<longleftrightarrow> s \<noteq> None \<and> s \<noteq> Some []"

text \<open>\<open>None\<close> is an exception of the Redis client.\<close>

definition blacklist_add :: "('tok, 'r) auth_env \<Rightarrow> request \<Rightarrow> string \<Rightarrow> 'r auth_state \<Rightarrow> 'r auth_state option" where
  "blacklist_add env rq jti st =
     (if jti = [] then Some st
      else case rq_link rq of
          Reachable \<Rightarrow>
            let r1 = rs_sadd (ae_sets env) (rq_now rq) REFRESH_BLACKLIST_KEY jti (as_redis st) in
            Some (st\<lparr>as_redis := rs_expire (ae_sets env) (rq_now rq) REFRESH_BLACKLIST_KEY (ae_refresh_days env * 24 * 3600) r1\<rparr>)
        | Absent \<Rightarrow> Some (st\<lparr>as_mem := List.insert jti (as_mem st)\<rparr>)
        | Raising \<Rightarrow> None)"

definition blacklist_has :: "('tok, 'r) auth_env \<Rightarrow> request \<Rightarrow> string \<Rightarrow> 'r auth_state \<Rightarrow> bool option" where
  "blacklist_has env rq jti st =
     (if jti = [] then Some False
      else case rq_link rq of
          Reachable \<Rightarrow>
            Some (rs_ismember (ae_sets env) (rq_now rq) REFRESH_BLACKLIST_KEY jti (as_redis st)
                  \<or> rs_ismember (ae_sets env) (rq_now rq) ACCESS_BLACKLIST_KEY jti (as_redis st))
        | Absent \<Rightarrow> Some (jti \<in> set (as_mem st))
        | Raising \<Rightarrow> None)"

definition remaining_validity_seconds :: "('tok, 'r) auth_env \<Rightarrow> int \<Rightarrow> payload \<Rightarrow> int" where
  "remaining_validity_seconds env now p =
     max (case p_exp p of None \<Rightarrow> ae_access_minutes env * 60 | Some e \<Rightarrow> e - now) 0 + 60"

definition blacklist_access_token :: "('tok, 'r) auth_env \<Rightarrow> request \<Rightarrow> 'tok \<Rightarrow> 'r auth_state \<Rightarrow> 'r auth_state" where
  "blacklist_access_token env rq tok st =
     (case ae_decode env (rq_now rq) tok of
        None \<Rightarrow> st
      | Some p \<Rightarrow>
          if p_type p \<noteq> ACCESS_TOKEN_TYPE \<or> \<not> truthy (p_jti p) then st
          else let jti = the (p_jti p) in
            case rq_link rq of
              Reachable \<Rightarrow>
                let r1 = rs_sadd (ae_sets env) (rq_now rq) ACCESS_BLACKLIST_KEY jti (as_redis st) in
                st\<lparr>as_redis := rs_expire (ae_sets env) (rq_now rq) ACCESS_BLACKLIST_KEY
                     (remaining_validity_seconds env (rq_now rq) p) r1\<rparr>
            | _ \<Rightarrow> st\<lparr>as_mem := List.insert jti (as_mem st)\<rparr>)"

definition is_access_revoked :: "('tok, 'r) auth_env \<Rightarrow> request \<Rightarrow> payload \<Rightarrow> 'r auth_state \<Rightarrow> bool" where
  "is_access_revoked env rq p st =
     (if \<not> truthy (p_jti p) then False
      else case rq_link rq of
          Reachable \<Rightarrow> rs_ismember (ae_sets env) (rq_now rq) ACCESS_BLACKLIST_KEY (the (p_jti p)) (as_redis st)
        | _ \<Rightarrow> the (p_jti p) \<in> set (as_mem st))"

definition is_refresh_valid :: "('tok, 'r) auth_env \<Rightarrow> request \<Rightarrow> 'tok \<Rightarrow> 'r auth_state \<Rightarrow> bool option" where
  "is_refresh_valid env rq tok st =
     (case ae_decode env (rq_now rq) tok of
        None \<Rightarrow> Some False
      | Some p \<Rightarrow>
          if p_type p \<noteq> REFRESH_TOKEN_TYPE then Some False
          else if \<not> truthy (p_jti p) then Some True
          else map_option Not (blacklist_has env rq (the (p_jti p)) st))"

definition revoke_refresh :: "('tok, 'r) auth_env \<Rightarrow> request \<Rightarrow> 'tok \<Rightarrow> 'r auth_state \<Rightarrow> 'r auth_state option" where
  "revoke_refresh env rq tok st =
     (case ae_decode env (rq_now rq) tok of
        None \<Rightarrow> Some st
      | Some p \<Rightarrow> if truthy (p_jti p) then blacklist_add env rq (the (p_jti p)) st else Some st)"

section \<open>Minting and checking\<close>

definition access_payload :: "('tok, 'r) auth_env \<Rightarrow> request \<Rightarrow> user_row \<Rightarrow> payload" where
  "access_payload env rq x =
     \<lparr>p_sub = Some (us_id x), p_type = ACCESS_TOKEN_TYPE, p_jti = Some (rq_access_jti rq),
       p_ver = Some (us_version x), p_exp = Some (rq_now rq + ae_access_minutes env * 60)\<rparr>"

definition refresh_payload :: "('tok, 'r) auth_env \<Rightarrow> request \<Rightarrow> user_row \<Rightarrow> payload" where
  "refresh_payload env rq x =
     \<lparr>p_sub = Some (us_id x), p_type = REFRESH_TOKEN_TYPE, p_jti = Some (rq_refresh_jti rq),
       p_ver = Some (us_version x), p_exp = Some (rq_now rq + ae_refresh_days env * 24 * 3600)\<rparr>"

definition issue_tokens :: "('tok, 'r) auth_env \<Rightarrow> request \<Rightarrow> user_row \<Rightarrow> 'tok \<times> 'tok" where
  "issue_tokens env rq x = (ae_encode env (access_payload env rq x), ae_encode env (refresh_payload env rq x))"

text \<open>A status code is the failure.\<close>

definition version_matches :: "payload \<Rightarrow> user_row \<Rightarrow> bool" where
  "version_matches p x \<longleftrightarrow> (case p_ver p of None \<Rightarrow> True | Some v \<Rightarrow> v = us_version x)"

definition get_current_user :: "('tok, 'r) auth_env \<Rightarrow> request \<Rightarrow> 'tok option \<Rightarrow> 'r auth_state \<Rightarrow> nat + user_row" where
  "get_current_user env rq tok st =
     (case tok of
        None \<Rightarrow> Inl 401
      | Some t \<Rightarrow>
          case ae_decode env (rq_now rq) t of
            None \<Rightarrow> Inl 401
          | Some p \<Rightarrow>
              if p_type p \<noteq> ACCESS_TOKEN_TYPE then Inl 401
              else case p_sub p of
                  None \<Rightarrow> Inl 401
                | Some i \<Rightarrow>
                    case find_user i st of
                      None \<Rightarrow> Inl 401
                    | Some x \<Rightarrow>
                        if \<not> us_active x then Inl 401
                        else if \<not> version_matches p x then Inl 401
                        else if is_access_revoked env rq p st then Inl 401
                        else Inr x)"

section \<open>Accounts and passwords\<close>

definition is_lower :: "char \<Rightarrow> bool" where
  "is_lower c \<longleftrightarrow> (let n = (of_char c :: nat) in
     (97 \<le> n \<and> n \<le> 122) \<or> (0xDF \<le> n \<and> n \<noteq> 0xF7) \<or> n \<in> {0xAA, 0xB5, 0xBA})"

definition is_upper :: "char \<Rightarrow> bool" where
  "is_upper c \<longleftrightarrow> (let n = (of_char c :: nat) in (65 \<le> n \<and> n \<le> 90) \<or> (0xC0 \<le> n \<and> n \<le> 0xDE \<and> n \<noteq> 0xD7))"

definition is_digit_char :: "char \<Rightarrow> bool" where
  "is_digit_char c \<longleftrightarrow> (let n = (of_char c :: nat) in (48 \<le> n \<and> n \<le> 57) \<or> n \<in> {0xB2, 0xB3, 0xB9})"

definition to_lower :: "char \<Rightarrow> char" where
  "to_lower c = (if is_upper c then char_of ((of_char c :: nat) + 32) else c)"

definition normalize_email :: "string \<Rightarrow> string" where
  "normalize_email s = map to_lower (py_strip s)"

definition validate_password_strength :: "('tok, 'r) auth_env \<Rightarrow> string \<Rightarrow> bool" where
  "validate_password_strength env pwd \<longleftrightarrow>
     ae_min_length env \<le> length pwd
     \<and> (ae_complexity env \<longrightarrow> list_ex is_lower pwd \<and> list_ex is_upper pwd \<and> list_ex is_digit_char pwd)"

definition PASSWORD_NOT_SET :: string where "PASSWORD_NOT_SET = ''!password-not-set''"

definition password_is_set :: "user_row \<Rightarrow> bool" where
  "password_is_set x = (let raw = py_strip (us_hash x) in raw \<noteq> [] \<and> raw \<noteq> PASSWORD_NOT_SET \<and> hd raw = CHR ''$'')"

text \<open>A password is stored with a version of its own, which ends every older session.\<close>

definition set_password :: "('tok, 'r) auth_env \<Rightarrow> request \<Rightarrow> string \<Rightarrow> user_row \<Rightarrow> user_row" where
  "set_password env rq new x = x\<lparr>us_hash := ae_hash env (rq_salt rq) new, us_version := us_version x + 1\<rparr>"

definition find_email :: "string \<Rightarrow> 'r auth_state \<Rightarrow> user_row option" where
  "find_email e st = List.find (\<lambda>x. us_email x = e) (as_users st)"

section \<open>Requests\<close>

datatype 'tok auth_event =
  Register request uuid string string string "bool option"
| Login request string string
| Refresh request "'tok option"
| Logout request "'tok option" "'tok option"
| ChangePassword request "'tok option" string string "'tok option"
| ResetPassword request string string "bool option"
| UpdateUser request uuid "string option" "bool option"
| DeleteAccount request "'tok option" string string string

datatype 'tok reply = Denied nat | Issued 'tok 'tok | Accepted

text \<open>
  The answer of \<open>verify_and_consume\<close> is part of a request: \<open>Some\<close> whether the code was consumed, \<open>None\<close> for
  the exception. An id that is in use violates the primary key.
\<close>

definition new_user :: "('tok, 'r) auth_env \<Rightarrow> request \<Rightarrow> uuid \<Rightarrow> string \<Rightarrow> string \<Rightarrow> string \<Rightarrow> 'r auth_state \<Rightarrow> user_row" where
  "new_user env rq i email name pwd st =
     \<lparr>us_id = i, us_email = email, us_name = name, us_hash = ae_hash env (rq_salt rq) pwd,
       us_role = (if as_users st = [] then ''admin'' else ''user''), us_active = True, us_version = 0\<rparr>"

definition register_account ::
  "('tok, 'r) auth_env \<Rightarrow> request \<Rightarrow> uuid \<Rightarrow> string \<Rightarrow> string \<Rightarrow> string \<Rightarrow> bool option \<Rightarrow> 'r auth_state \<Rightarrow> 'tok reply \<times> 'r auth_state" where
  "register_account env rq i email name pwd consumed st =
     (if \<not> validate_password_strength env pwd then (Denied 400, st)
      else if consumed \<noteq> Some True then (Denied 400, st)
      else if list_ex (\<lambda>x. us_email x = email \<or> us_name x = name) (as_users st) then (Denied 409, st)
      else if find_user i st \<noteq> None then (Denied 500, st)
      else let x = new_user env rq i email name pwd st; (a, r) = issue_tokens env rq x in
        (Issued a r, st\<lparr>as_users := as_users st @ [x]\<rparr>))"

definition login :: "('tok, 'r) auth_env \<Rightarrow> request \<Rightarrow> string \<Rightarrow> string \<Rightarrow> 'r auth_state \<Rightarrow> 'tok reply" where
  "login env rq email pwd st =
     (case find_email email st of
        None \<Rightarrow> Denied 401
      | Some x \<Rightarrow>
          if \<not> ae_verify env pwd (us_hash x) then Denied 401
          else if \<not> us_active x then Denied 401
          else case issue_tokens env rq x of (a, r) \<Rightarrow> Issued a r)"

text \<open>The first half of a refresh only reads, the second revokes the token and mints.\<close>

definition refresh_check :: "('tok, 'r) auth_env \<Rightarrow> request \<Rightarrow> 'tok option \<Rightarrow> 'r auth_state \<Rightarrow> nat + user_row" where
  "refresh_check env rq tok st =
     (case tok of
        None \<Rightarrow> Inl 401
      | Some t \<Rightarrow>
          case ae_decode env (rq_now rq) t of
            None \<Rightarrow> Inl 401
          | Some p \<Rightarrow>
              case is_refresh_valid env rq t st of
                None \<Rightarrow> Inl 500
              | Some False \<Rightarrow> Inl 401
              | Some True \<Rightarrow>
                  if p_type p \<noteq> REFRESH_TOKEN_TYPE then Inl 401
                  else case p_sub p of
                      None \<Rightarrow> Inl 401
                    | Some i \<Rightarrow>
                        case find_user i st of
                          None \<Rightarrow> Inl 401
                        | Some x \<Rightarrow>
                            if \<not> us_active x then Inl 401
                            else if \<not> version_matches p x then Inl 401
                            else Inr x)"

definition refresh_commit :: "('tok, 'r) auth_env \<Rightarrow> request \<Rightarrow> 'tok \<Rightarrow> user_row \<Rightarrow> 'r auth_state \<Rightarrow> 'tok reply \<times> 'r auth_state" where
  "refresh_commit env rq tok x st =
     (case revoke_refresh env rq tok st of
        None \<Rightarrow> (Denied 500, st)
      | Some st1 \<Rightarrow> (case issue_tokens env rq x of (a, r) \<Rightarrow> (Issued a r, st1)))"

definition refresh :: "('tok, 'r) auth_env \<Rightarrow> request \<Rightarrow> 'tok option \<Rightarrow> 'r auth_state \<Rightarrow> 'tok reply \<times> 'r auth_state" where
  "refresh env rq tok st =
     (case refresh_check env rq tok st of
        Inl e \<Rightarrow> (Denied e, st)
      | Inr x \<Rightarrow> refresh_commit env rq (the tok) x st)"

text \<open>The service's own rotation, with the same checks behind \<open>decode_refresh\<close>; a status is an exception.\<close>

definition rotate_refresh ::
  "('tok, 'r) auth_env \<Rightarrow> request \<Rightarrow> 'tok \<Rightarrow> 'r auth_state \<Rightarrow> (nat + ('tok \<times> 'tok) option) \<times> 'r auth_state" where
  "rotate_refresh env rq tok st =
     (case refresh_check env rq (Some tok) st of
        Inl e \<Rightarrow> (if e = 500 then Inl e else Inr None, st)
      | Inr x \<Rightarrow>
          (case revoke_refresh env rq tok st of
             None \<Rightarrow> (Inl 500, st)
           | Some st1 \<Rightarrow> (Inr (Some (issue_tokens env rq x)), st1)))"

text \<open>Failures of the store while revoking are swallowed.\<close>

definition try_revoke :: "('tok, 'r) auth_env \<Rightarrow> request \<Rightarrow> 'tok option \<Rightarrow> 'r auth_state \<Rightarrow> 'r auth_state" where
  "try_revoke env rq tok st =
     (case tok of None \<Rightarrow> st | Some t \<Rightarrow> (case revoke_refresh env rq t st of None \<Rightarrow> st | Some st1 \<Rightarrow> st1))"

definition try_blacklist :: "('tok, 'r) auth_env \<Rightarrow> request \<Rightarrow> 'tok option \<Rightarrow> 'r auth_state \<Rightarrow> 'r auth_state" where
  "try_blacklist env rq tok st = (case tok of None \<Rightarrow> st | Some t \<Rightarrow> blacklist_access_token env rq t st)"

definition logout :: "('tok, 'r) auth_env \<Rightarrow> request \<Rightarrow> 'tok option \<Rightarrow> 'tok option \<Rightarrow> 'r auth_state \<Rightarrow> 'r auth_state" where
  "logout env rq bearer cookie st = try_revoke env rq cookie (try_blacklist env rq bearer st)"

definition change_password ::
  "('tok, 'r) auth_env \<Rightarrow> request \<Rightarrow> 'tok option \<Rightarrow> string \<Rightarrow> string \<Rightarrow> 'tok option \<Rightarrow> 'r auth_state \<Rightarrow> 'tok reply \<times> 'r auth_state" where
  "change_password env rq bearer old new cookie st =
     (case get_current_user env rq bearer st of
        Inl e \<Rightarrow> (Denied e, st)
      | Inr x \<Rightarrow>
          if \<not> validate_password_strength env new then (Denied 400, st)
          else if password_is_set x \<and> (old = [] \<or> \<not> ae_verify env old (us_hash x)) then (Denied 401, st)
          else let x1 = set_password env rq new x;
                   st1 = try_revoke env rq cookie (try_blacklist env rq bearer (save_user x1 st));
                   (a, r) = issue_tokens env rq x1 in
            (Issued a r, st1))"

definition reset_password ::
  "('tok, 'r) auth_env \<Rightarrow> request \<Rightarrow> string \<Rightarrow> string \<Rightarrow> bool option \<Rightarrow> 'r auth_state \<Rightarrow> 'tok reply \<times> 'r auth_state" where
  "reset_password env rq email new consumed st =
     (if \<not> validate_password_strength env new then (Denied 400, st)
      else if consumed \<noteq> Some True then (Denied 400, st)
      else case find_email (normalize_email email) st of
          None \<Rightarrow> (Denied 400, st)
        | Some x \<Rightarrow>
            if \<not> us_active x then (Denied 401, st)
            else (Accepted, save_user (set_password env rq new x) st))"

definition update_user :: "uuid \<Rightarrow> string option \<Rightarrow> bool option \<Rightarrow> 'r auth_state \<Rightarrow> 'tok reply \<times> 'r auth_state" where
  "update_user i role active st =
     (case find_user i st of
        None \<Rightarrow> (Denied 404, st)
      | Some x \<Rightarrow>
          let x1 = (case role of Some r \<Rightarrow> if r = ''user'' \<or> r = ''admin'' then x\<lparr>us_role := r\<rparr> else x | None \<Rightarrow> x);
              x2 = (case active of
                      None \<Rightarrow> x1
                    | Some b \<Rightarrow> (if us_active x1 \<and> \<not> b then x1\<lparr>us_version := us_version x1 + 1\<rparr> else x1)\<lparr>us_active := b\<rparr>) in
          (Accepted, save_user x2 st))"

text \<open>The row of a deleted account stays, without a name and disabled; the tag and the new password are random.\<close>

definition anonymized :: "('tok, 'r) auth_env \<Rightarrow> request \<Rightarrow> string \<Rightarrow> string \<Rightarrow> user_row \<Rightarrow> user_row" where
  "anonymized env rq tag fresh x =
     x\<lparr>us_email := ''deleted-'' @ tag @ ''@deleted.invalid'', us_name := ''deleted-'' @ tag,
       us_hash := ae_hash env (rq_salt rq) fresh, us_active := False, us_version := us_version x + 1\<rparr>"

definition delete_my_account ::
  "('tok, 'r) auth_env \<Rightarrow> request \<Rightarrow> 'tok option \<Rightarrow> string \<Rightarrow> string \<Rightarrow> string \<Rightarrow> 'r auth_state \<Rightarrow> 'tok reply \<times> 'r auth_state" where
  "delete_my_account env rq bearer pwd tag fresh st =
     (case get_current_user env rq bearer st of
        Inl e \<Rightarrow> (Denied e, st)
      | Inr x \<Rightarrow>
          if \<not> ae_verify env pwd (us_hash x) then (Denied 401, st)
          else (Accepted, save_user (anonymized env rq tag fresh x) st))"

fun auth_step :: "('tok, 'r) auth_env \<Rightarrow> 'r auth_state \<Rightarrow> 'tok auth_event \<Rightarrow> 'tok reply \<times> 'r auth_state" where
  "auth_step env st (Register rq i email name pwd consumed) = register_account env rq i email name pwd consumed st"
| "auth_step env st (Login rq email pwd) = (login env rq email pwd st, st)"
| "auth_step env st (Refresh rq tok) = refresh env rq tok st"
| "auth_step env st (Logout rq bearer cookie) = (Accepted, logout env rq bearer cookie st)"
| "auth_step env st (ChangePassword rq bearer old new cookie) = change_password env rq bearer old new cookie st"
| "auth_step env st (ResetPassword rq email new consumed) = reset_password env rq email new consumed st"
| "auth_step env st (UpdateUser rq i role active) = update_user i role active st"
| "auth_step env st (DeleteAccount rq bearer pwd tag fresh) = delete_my_account env rq bearer pwd tag fresh st"

text \<open>A history of requests, with every token handed out.\<close>

fun tokens_of :: "'tok reply \<Rightarrow> 'tok list" where
  "tokens_of (Issued a r) = [a, r]"
| "tokens_of _ = []"

fun auth_run :: "('tok, 'r) auth_env \<Rightarrow> 'r auth_state \<Rightarrow> 'tok auth_event list \<Rightarrow> 'tok list \<times> 'r auth_state" where
  "auth_run env st [] = ([], st)"
| "auth_run env st (e # es) =
     (case auth_step env st e of (rep, st1) \<Rightarrow>
        case auth_run env st1 es of (toks, st2) \<Rightarrow> (tokens_of rep @ toks, st2))"

end
