(* ===== verification/Session_Proofs.thy ===== *)
theory Session_Proofs
  imports Auth_Tokens
begin

text \<open>
  What revocation guarantees over any history of requests: a change of password, a reset, a deactivation
  and a deletion end every older session; a refresh token is used once. And where it does not:
  the revocation of an access token can be lost, and two refreshes that overlap both succeed.
\<close>

section \<open>Versions only grow\<close>

definition users_distinct :: "'r auth_state \<Rightarrow> bool" where
  "users_distinct st \<longleftrightarrow> distinct (map us_id (as_users st))"

definition grows :: "'r auth_state \<Rightarrow> 'r auth_state \<Rightarrow> bool" where
  "grows st st1 \<longleftrightarrow> (\<forall>i x. find_user i st = Some x \<longrightarrow> (\<exists>y. find_user i st1 = Some y \<and> us_version x \<le> us_version y))"

lemma grows_same: "as_users st1 = as_users st \<Longrightarrow> grows st st1"
  by (simp add: grows_def find_user_def)

lemma grows_trans: "grows st st1 \<Longrightarrow> grows st1 st2 \<Longrightarrow> grows st st2"
  unfolding grows_def by (meson order_trans)

lemma find_user_id: "find_user i st = Some x \<Longrightarrow> us_id x = i"
  by (auto simp: find_user_def dest: find_SomeD)

lemma find_save:
  "find_user i (save_user y st) = (if i = us_id y then map_option (\<lambda>_. y) (find_user i st) else find_user i st)"
proof -
  have "List.find (\<lambda>x. us_id x = i) (map_at us_id (us_id y) (\<lambda>_. y) us)
      = (if i = us_id y then map_option (\<lambda>_. y) (List.find (\<lambda>x. us_id x = i) us) else List.find (\<lambda>x. us_id x = i) us)" for us
    by (induction us) (auto simp: map_at_def)
  then show ?thesis by (simp add: find_user_def save_user_def)
qed

lemma distinct_save: "users_distinct st \<Longrightarrow> users_distinct (save_user y st)"
proof -
  have "map us_id (map_at us_id (us_id y) (\<lambda>_. y) us) = map us_id us" for us by (induction us) (auto simp: map_at_def)
  then show "users_distinct st \<Longrightarrow> users_distinct (save_user y st)" by (simp add: users_distinct_def save_user_def)
qed

lemma grows_save:
  "find_user (us_id y) st = Some x \<Longrightarrow> us_version x \<le> us_version y \<Longrightarrow> grows st (save_user y st)"
  by (auto simp: grows_def find_save)

lemma find_email_user: "users_distinct st \<Longrightarrow> find_email e st = Some x \<Longrightarrow> find_user (us_id x) st = Some x"
proof -
  have "distinct (map us_id us) \<Longrightarrow> x \<in> set us \<Longrightarrow> List.find (\<lambda>y. us_id y = us_id x) us = Some x" for us
    by (induction us) force+
  then show "users_distinct st \<Longrightarrow> find_email e st = Some x \<Longrightarrow> find_user (us_id x) st = Some x"
    by (auto simp: users_distinct_def find_email_def find_user_def dest: find_SomeD)
qed

lemma current_user_found: "get_current_user env rq tok st = Inr x \<Longrightarrow> find_user (us_id x) st = Some x"
  by (auto simp: get_current_user_def find_user_id split: option.splits if_splits)

lemma checked_user_found: "refresh_check env rq tok st = Inr x \<Longrightarrow> find_user (us_id x) st = Some x"
  by (auto simp: refresh_check_def find_user_id split: option.splits if_splits bool.splits)

text \<open>Revoking touches no account.\<close>

lemma revoking_keeps_users:
  "as_users (blacklist_access_token env rq t st) = as_users st"
  "revoke_refresh env rq t st = Some st1 \<Longrightarrow> as_users st1 = as_users st"
  "as_users (try_revoke env rq tk st) = as_users st"
  "as_users (try_blacklist env rq tk st) = as_users st"
proof -
  show 1: "as_users (blacklist_access_token env rq t st) = as_users st" for t
    by (auto simp: blacklist_access_token_def Let_def split: option.splits redis_link.splits)
  show 2: "revoke_refresh env rq t st = Some st1 \<Longrightarrow> as_users st1 = as_users st" for t st1
    by (auto simp: revoke_refresh_def blacklist_add_def Let_def split: option.splits redis_link.splits if_splits)
  show "as_users (try_revoke env rq tk st) = as_users st"
    using 2 by (auto simp: try_revoke_def split: option.splits)
  show "as_users (try_blacklist env rq tk st) = as_users st" using 1 by (auto simp: try_blacklist_def split: option.splits)
qed

text \<open>A token that a step hands out names a user with the version of the state behind the step.\<close>

definition minted :: "('tok, 'r) auth_env \<Rightarrow> 'r auth_state \<Rightarrow> 'tok \<Rightarrow> bool" where
  "minted env st t \<longleftrightarrow> (\<exists>p x. t = ae_encode env p \<and> p_sub p = Some (us_id x) \<and> p_ver p = Some (us_version x)
      \<and> find_user (us_id x) st = Some x)"

definition step_ok :: "('tok, 'r) auth_env \<Rightarrow> 'r auth_state \<Rightarrow> 'tok reply \<times> 'r auth_state \<Rightarrow> bool" where
  "step_ok env st res \<longleftrightarrow>
     users_distinct (snd res) \<and> grows st (snd res) \<and> list_all (minted env (snd res)) (tokens_of (fst res))"

lemma issued_minted:
  "issue_tokens env rq x = (a, r) \<Longrightarrow> find_user (us_id x) st = Some x \<Longrightarrow> list_all (minted env st) (tokens_of (Issued a r))"
  by (auto simp: issue_tokens_def access_payload_def refresh_payload_def minted_def intro!: exI [of _ x])

lemma find_user_same: "as_users st1 = as_users st \<Longrightarrow> find_user i st1 = find_user i st"
  by (simp add: find_user_def)

lemma users_distinct_same: "as_users st1 = as_users st \<Longrightarrow> users_distinct st1 = users_distinct st"
  by (simp add: users_distinct_def)

lemma step_ok_same:
  "users_distinct st \<Longrightarrow> as_users st1 = as_users st \<Longrightarrow> tokens_of rep = [] \<Longrightarrow> step_ok env st (rep, st1)"
  by (simp add: step_ok_def grows_same users_distinct_same [of st1 st])

lemma step_ok_issue:
  "users_distinct st \<Longrightarrow> as_users st1 = as_users st \<Longrightarrow> find_user (us_id x) st = Some x \<Longrightarrow>
     issue_tokens env rq x = (a, r) \<Longrightarrow> step_ok env st (Issued a r, st1)"
  using issued_minted [of env rq x a r st1] find_user_same [of st1 st]
  by (simp add: step_ok_def grows_same users_distinct_same [of st1 st])

lemma step_ok_save:
  "users_distinct st \<Longrightarrow> find_user (us_id y) st = Some x \<Longrightarrow> us_version x \<le> us_version y \<Longrightarrow> tokens_of rep = [] \<Longrightarrow>
     step_ok env st (rep, save_user y st)"
  by (simp add: step_ok_def distinct_save grows_save)

lemma step_ok_denied: "users_distinct st \<Longrightarrow> step_ok env st (Denied c, st)"
  by (simp add: step_ok_same)

lemma register_ok: "users_distinct st \<Longrightarrow> step_ok env st (register_account env rq i email name pwd consumed st)"
proof -
  assume d: "users_distinct st"
  let ?x = "new_user env rq i email name pwd st"
  let ?st = "st\<lparr>as_users := as_users st @ [?x]\<rparr>"
  have i: "us_id ?x = i" by (simp add: new_user_def)
  have "step_ok env st (Issued a r, ?st)" if "issue_tokens env rq ?x = (a, r)" "find_user i st = None" for a r
  proof -
    have new: "i \<notin> us_id ` set (as_users st)" using that(2) by (auto simp: find_user_def find_None_iff)
    have "List.find P us \<noteq> None \<Longrightarrow> List.find P (us @ vs) = List.find P us" for P and us vs :: "user_row list"
      by (induction us) auto
    then have g: "grows st ?st" by (fastforce simp: grows_def find_user_def)
    have "List.find P us = None \<Longrightarrow> List.find P (us @ [v]) = (if P v then Some v else None)" for P us and v :: user_row
      by (induction us) (auto split: if_splits)
    then have f: "find_user (us_id ?x) ?st = Some ?x" using that(2) i by (simp add: find_user_def)
    show ?thesis using issued_minted [OF that(1) f] g new d i
      by (simp add: step_ok_def users_distinct_def)
  qed
  then show ?thesis
    using d by (cases "issue_tokens env rq ?x") (simp add: register_account_def Let_def step_ok_denied)
qed

lemma change_password_ok:
  assumes "users_distinct st"
  shows "step_ok env st (change_password env rq bearer old new cookie st)"
proof (cases "get_current_user env rq bearer st")
  case (Inr x)
  let ?x = "set_password env rq new x"
  let ?t = "try_revoke env rq cookie (try_blacklist env rq bearer (save_user ?x st))"
  obtain a r where ar: "issue_tokens env rq ?x = (a, r)" by fastforce
  have u: "as_users ?t = as_users (save_user ?x st)" by (simp add: revoking_keeps_users)
  have x: "find_user (us_id x) st = Some x" by (rule current_user_found [OF Inr])
  have f: "find_user (us_id ?x) ?t = Some ?x" using find_user_same [OF u] x by (simp add: find_save set_password_def)
  have "grows st (save_user ?x st)" using x by (intro grows_save [of _ _ x]) (simp_all add: set_password_def)
  then have "grows st ?t" using grows_trans grows_same [OF u] by blast
  then have "step_ok env st (Issued a r, ?t)"
    using issued_minted [OF ar f] distinct_save [OF assms] users_distinct_same [OF u] by (simp add: step_ok_def)
  then show ?thesis using assms ar Inr by (simp add: change_password_def Let_def step_ok_denied)
qed (simp add: change_password_def step_ok_denied assms)

lemma auth_step_ok:
  assumes "users_distinct st"
  shows "step_ok env st (auth_step env st e)"
proof (cases e)
  case (Register rq i email name pwd consumed)
  then show ?thesis using register_ok assms by simp
next
  case (Login rq email pwd)
  then show ?thesis
    using assms find_email_user
    by (auto simp: login_def split: option.splits prod.splits intro!: step_ok_denied step_ok_issue)
next
  case (Refresh rq tok)
  then show ?thesis
    using assms checked_user_found revoking_keeps_users(2)
    by (auto simp: refresh_def refresh_commit_def split: sum.splits option.splits prod.splits intro!: step_ok_denied step_ok_issue)
next
  case (Logout rq b c)
  then show ?thesis using assms by (simp add: logout_def revoking_keeps_users step_ok_same)
next
  case (ChangePassword rq bearer old new cookie)
  then show ?thesis using change_password_ok assms by simp
next
  case (ResetPassword rq email new consumed)
  have "step_ok env st (Accepted, save_user (set_password env rq new x) st)" if "find_user (us_id x) st = Some x" for x
    using assms that by (intro step_ok_save [of _ _ x]) (simp_all add: set_password_def)
  then show ?thesis
    using ResetPassword assms find_email_user
    by (auto simp: reset_password_def split: option.splits intro!: step_ok_denied)
next
  case (UpdateUser rq i role active)
  then show ?thesis
    using assms find_user_id
    by (auto simp: update_user_def Let_def split: option.splits intro!: step_ok_save step_ok_denied)
next
  case (DeleteAccount rq bearer pwd tag fresh)
  have "step_ok env st (Accepted, save_user (anonymized env rq tag fresh x) st)" if "find_user (us_id x) st = Some x" for x
    using assms that by (intro step_ok_save [of _ _ x]) (simp_all add: anonymized_def)
  then show ?thesis
    using DeleteAccount assms
    by (auto simp: delete_my_account_def split: sum.splits dest!: current_user_found intro!: step_ok_denied)
qed

lemma auth_run_ok:
  assumes "users_distinct st" "auth_run env st es = (toks, st1)"
  shows "users_distinct st1 \<and> grows st st1"
  using assms
proof (induction es arbitrary: st toks)
  case (Cons e es)
  obtain rep s where step: "auth_step env st e = (rep, s)" by fastforce
  obtain toks' where "auth_run env s es = (toks', st1)" using Cons.prems(2) step by (auto split: prod.splits)
  then show ?case using auth_step_ok [OF Cons.prems(1), of env e] Cons.IH grows_trans
    by (fastforce simp: step_ok_def step)
qed (simp add: grows_same)

text \<open>Every token handed out in a history names a version that its user has reached by the end.\<close>

lemma auth_run_tokens:
  assumes "users_distinct st" "auth_run env st es = (toks, st1)" "t \<in> set toks"
  shows "\<exists>p i v y. t = ae_encode env p \<and> p_sub p = Some i \<and> p_ver p = Some v \<and> find_user i st1 = Some y \<and> v \<le> us_version y"
  using assms
proof (induction es arbitrary: st toks)
  case (Cons e es)
  obtain rep s where step: "auth_step env st e = (rep, s)" by fastforce
  obtain toks' where rest: "auth_run env s es = (toks', st1)" "toks = tokens_of rep @ toks'"
    using Cons.prems(2) step by (auto split: prod.splits)
  have ok: "users_distinct s" "list_all (minted env s) (tokens_of rep)"
    using auth_step_ok [OF Cons.prems(1), of env e] by (simp_all add: step_ok_def step)
  show ?case
  proof (cases "t \<in> set toks'")
    case True
    then show ?thesis using Cons.IH [OF ok(1) rest(1)] by blast
  next
    case False
    then have "minted env s t" using ok(2) Cons.prems(3) rest(2) by (auto simp: list_all_iff)
    then show ?thesis using auth_run_ok [OF ok(1) rest(1)] unfolding minted_def grows_def by blast
  qed
qed simp

section \<open>Ending every session\<close>

text \<open>The requests that end all sessions of a user, where they are not denied.\<close>

fun ends_sessions :: "('tok, 'r) auth_env \<Rightarrow> uuid \<Rightarrow> 'r auth_state \<Rightarrow> 'tok auth_event \<Rightarrow> bool" where
  "ends_sessions env i st (ChangePassword rq bearer old new cookie)
     = (case get_current_user env rq bearer st of Inr x \<Rightarrow> us_id x = i | Inl _ \<Rightarrow> False)"
| "ends_sessions env i st (ResetPassword rq email new consumed)
     = (case find_email (normalize_email email) st of Some x \<Rightarrow> us_id x = i | None \<Rightarrow> False)"
| "ends_sessions env i st (UpdateUser rq j role active)
     = (j = i \<and> active = Some False \<and> (case find_user i st of Some x \<Rightarrow> us_active x | None \<Rightarrow> False))"
| "ends_sessions env i st (DeleteAccount rq bearer pwd tag fresh)
     = (case get_current_user env rq bearer st of Inr x \<Rightarrow> us_id x = i | Inl _ \<Rightarrow> False)"
| "ends_sessions env i st _ = False"

fun denied :: "'tok reply \<Rightarrow> bool" where
  "denied (Denied c) = True"
| "denied _ = False"

lemma ends_sessions_raises_version:
  assumes "users_distinct st" "auth_step env st e = (rep, st1)" "ends_sessions env i st e" "\<not> denied rep"
    and "find_user i st = Some x"
  shows "\<exists>y. find_user i st1 = Some y \<and> us_version x < us_version y"
proof (cases e)
  case (ChangePassword rq bearer old new cookie)
  then obtain z where z: "get_current_user env rq bearer st = Inr z" "us_id z = i" using assms(3) by (auto split: sum.splits)
  have zx: "z = x" using current_user_found [OF z(1)] z(2) assms(5) by simp
  have "as_users st1 = as_users (save_user (set_password env rq new z) st)"
    using assms(2,4) z by (auto simp: ChangePassword change_password_def Let_def revoking_keeps_users split: if_splits prod.splits)
  from find_user_same [OF this, of i] show ?thesis using assms(5) z(2) zx
    by (auto simp: find_save set_password_def)
next
  case (ResetPassword rq email new consumed)
  then obtain z where z: "find_email (normalize_email email) st = Some z" "us_id z = i" using assms(3) by (auto split: option.splits)
  then have "z = x" using find_email_user [OF assms(1) z(1)] assms(5) by simp
  then show ?thesis using assms(2,4,5) z
    by (auto simp: ResetPassword reset_password_def find_save set_password_def split: if_splits)
next
  case (UpdateUser rq j role active)
  then show ?thesis using assms(2,3,4,5) find_user_id [OF assms(5)]
    by (auto simp: update_user_def Let_def find_save split: option.splits if_splits)
next
  case (DeleteAccount rq bearer pwd tag fresh)
  then obtain z where z: "get_current_user env rq bearer st = Inr z" "us_id z = i" using assms(3) by (auto split: sum.splits)
  have "z = x" using current_user_found [OF z(1)] z(2) assms(5) by simp
  then show ?thesis using assms(2,4,5) z
    by (auto simp: DeleteAccount delete_my_account_def anonymized_def find_save split: if_splits)
qed (use assms(3) in simp_all)

lemma old_version_refused:
  assumes "codec_ok env" "t = ae_encode env p" "p_sub p = Some i" "p_ver p = Some v" "find_user i st = Some y" "v < us_version y"
  shows "get_current_user env rq (Some t) st = Inl 401" "refresh_check env rq (Some t) st \<in> {Inl 401, Inl 500}"
proof -
  have d: "ae_decode env n t = None \<or> ae_decode env n t = Some p" for n
    using assms(1) by (auto simp: codec_ok_def assms(2) split: option.splits)
  have v: "\<not> version_matches p y" using assms(4,6) by (simp add: version_matches_def)
  show "get_current_user env rq (Some t) st = Inl 401" using d [of "rq_now rq"] v assms(3,5)
    by (auto simp: get_current_user_def)
  show "refresh_check env rq (Some t) st \<in> {Inl 401, Inl 500}" using d [of "rq_now rq"] v assms(3,5)
    by (auto simp: refresh_check_def split: option.splits bool.splits)
qed

text \<open>C28: After a change or reset of the password, a deactivation or a deletion, no token handed out before to that
  user is accepted by any handler or exchanged for new ones, whatever happens later, even if the
  account is activated again and whether or not the revocation store can be reached.\<close>

theorem ended_sessions_stay_ended:
  assumes "codec_ok env" "users_distinct st0"
    and "auth_run env st0 es1 = (toks, st1)" "t \<in> set toks" "ae_decode env m t = Some p" "p_sub p = Some i"
    and "auth_step env st1 e = (rep, st2)" "ends_sessions env i st1 e" "\<not> denied rep"
    and "auth_run env st2 es2 = (toks2, st3)"
  shows "get_current_user env rq (Some t) st3 = Inl 401
    \<and> denied (fst (refresh env rq (Some t) st3)) \<and> snd (refresh env rq (Some t) st3) = st3"
proof -
  obtain q j v y where q: "t = ae_encode env q" "p_sub q = Some j" "p_ver q = Some v" "find_user j st1 = Some y" "v \<le> us_version y"
    using auth_run_tokens [OF assms(2,3,4)] by blast
  have "p = q" using assms(1,5) by (auto simp: codec_ok_def q(1) split: option.splits if_splits)
  then have j: "j = i" using assms(6) q(2) by simp
  have d1: "users_distinct st1" using auth_run_ok [OF assms(2,3)] by simp
  then have d2: "users_distinct st2" using auth_step_ok [of st1 env e] by (simp add: step_ok_def assms(7))
  obtain z where "find_user i st2 = Some z" "us_version y < us_version z"
    using ends_sessions_raises_version [OF d1 assms(7,8,9)] q(4) j by blast
  then obtain w where w: "find_user i st3 = Some w" "v < us_version w"
    using auth_run_ok [OF d2 assms(10)] q(5) unfolding grows_def by (meson le_less_trans less_le_trans)
  note old = old_version_refused [OF assms(1) q(1) _ q(3) w, of rq]
  show ?thesis using old q(2) j by (auto simp: refresh_def split: sum.splits)
qed

text \<open>Instances of the parameters: a token is its payload, a store is its view.\<close>

definition view_sets :: "(string \<Rightarrow> string set \<times> int option) redis_sets" where
  "view_sets =
     \<lparr>rs_sadd = (\<lambda>now k m r. r(k := (insert m (fst (live_at now (r k))), snd (live_at now (r k))))),
       rs_expire = (\<lambda>now k ttl r. if fst (live_at now (r k)) = {} then r else r(k := (fst (r k), Some (now + ttl)))),
       rs_ismember = (\<lambda>now k m r. m \<in> fst (live_at now (r k)))\<rparr>"

lemma view_sets_ok: "redis_sets_ok view_sets (\<lambda>r. r)"
  by (simp add: redis_sets_ok_def view_sets_def)

definition plain_env :: "(payload, string \<Rightarrow> string set \<times> int option) auth_env" where
  "plain_env =
     \<lparr>ae_encode = (\<lambda>p. p),
       ae_decode = (\<lambda>now p. case p_exp p of None \<Rightarrow> Some p | Some e \<Rightarrow> if e \<le> now then None else Some p),
       ae_sets = view_sets, ae_hash = (\<lambda>salt pwd. salt @ pwd), ae_verify = (\<lambda>pwd hash. suffix pwd hash),
       ae_access_minutes = 30, ae_refresh_days = 7, ae_min_length = 3, ae_complexity = False\<rparr>"

lemma plain_env_ok: "codec_ok plain_env" "redis_sets_ok (ae_sets plain_env) (\<lambda>r. r)"
  by (auto simp: codec_ok_def plain_env_def view_sets_ok split: option.splits)

definition alice :: user_row where
  "alice = \<lparr>us_id = 7, us_email = ''a@b'', us_name = ''alice'', us_hash = ''$old'', us_role = ''user'', us_active = True, us_version = 0\<rparr>"

definition one_user :: "(string \<Rightarrow> string set \<times> int option) auth_state" where
  "one_user = \<lparr>as_users = [alice], as_redis = (\<lambda>_. ({}, None)), as_mem = []\<rparr>"

definition request_at :: "int \<Rightarrow> string \<Rightarrow> string \<Rightarrow> request" where
  "request_at now a r = \<lparr>rq_now = now, rq_link = Reachable, rq_access_jti = a, rq_refresh_jti = r, rq_salt = ''$''\<rparr>"

definition alice_access :: payload where
  "alice_access = \<lparr>p_sub = Some 7, p_type = ''access'', p_jti = Some ''x'', p_ver = Some 0, p_exp = Some 1800\<rparr>"

definition alice_refresh :: payload where
  "alice_refresh = \<lparr>p_sub = Some 7, p_type = ''refresh'', p_jti = Some ''y'', p_ver = Some 0, p_exp = Some 604800\<rparr>"

lemmas session_eval = plain_env_def alice_def one_user_def request_at_def alice_access_def alice_refresh_def find_user_def
  find_email_def ACCESS_TOKEN_TYPE_def REFRESH_TOKEN_TYPE_def

lemma alice_logs_in:
  "auth_run plain_env one_user [Login (request_at 0 ''x'' ''y'') ''a@b'' ''old''] = ([alice_access, alice_refresh], one_user)"
  by (simp add: session_eval login_def issue_tokens_def access_payload_def refresh_payload_def suffix_def)

lemma normalize_ab: "normalize_email ''a@b'' = ''a@b''"
  by (simp add: normalize_email_def py_strip_def py_lstrip_def py_rstrip_def is_space_def to_lower_def is_upper_def)

theorem ended_sessions_stay_ended_witness:
  "denied (fst (refresh plain_env (request_at 60 ''p'' ''q'') (Some alice_refresh)
     (snd (auth_step plain_env one_user (ResetPassword (request_at 50 ''m'' ''n'') ''a@b'' ''newer'' (Some True))))))"
proof -
  let ?e = "ResetPassword (request_at 50 ''m'' ''n'') ''a@b'' ''newer'' (Some True)"
  obtain rep st2 where step: "auth_step plain_env one_user ?e = (rep, st2)" by fastforce
  have "validate_password_strength plain_env ''newer''" by (simp add: validate_password_strength_def plain_env_def)
  then have nd: "\<not> denied rep" using step
    by (auto simp: reset_password_def normalize_ab session_eval)
  have ends: "ends_sessions plain_env 7 one_user ?e" by (simp add: normalize_ab session_eval)
  have dec: "ae_decode plain_env 10 alice_refresh = Some alice_refresh" by (simp add: session_eval)
  have dist: "users_distinct one_user" by (simp add: users_distinct_def session_eval)
  have sub: "p_sub alice_refresh = Some 7" by (simp add: session_eval)
  show ?thesis
    using ended_sessions_stay_ended [OF plain_env_ok(1) dist alice_logs_in _ dec sub step ends nd auth_run.simps(1), of "request_at 60 ''p'' ''q''"]
      step by simp
qed

section \<open>A refresh token is used once\<close>

text \<open>The token's id is in the revoked set, whose key does not expire before the token.\<close>

definition revoked_until ::
  "('r \<Rightarrow> string \<Rightarrow> string set \<times> int option) \<Rightarrow> string \<Rightarrow> int \<Rightarrow> int \<Rightarrow> 'r auth_state \<Rightarrow> bool" where
  "revoked_until view jti e now st \<longleftrightarrow>
     (now < e \<longrightarrow> jti \<in> fst (view (as_redis st) REFRESH_BLACKLIST_KEY)
       \<and> (case snd (view (as_redis st) REFRESH_BLACKLIST_KEY) of None \<Rightarrow> True | Some d \<Rightarrow> e \<le> d))"

lemma revoked_later: "revoked_until view jti e now st \<Longrightarrow> now \<le> n \<Longrightarrow> revoked_until view jti e n st"
  by (auto simp: revoked_until_def)

lemma revoked_until_users:
  "revoked_until view jti e n (st\<lparr>as_users := us\<rparr>) = revoked_until view jti e n st"
  "revoked_until view jti e n (save_user x st) = revoked_until view jti e n st"
  by (simp_all add: revoked_until_def save_user_def)

lemma keys_differ: "ACCESS_BLACKLIST_KEY \<noteq> REFRESH_BLACKLIST_KEY"
  by (simp add: ACCESS_BLACKLIST_KEY_def REFRESH_BLACKLIST_KEY_def)

lemma view_sadd:
  "redis_sets_ok ops view \<Longrightarrow> view (rs_sadd ops now k m r)
     = (view r)(k := (insert m (fst (live_at now (view r k))), snd (live_at now (view r k))))"
  by (simp add: redis_sets_ok_def)

lemma view_expire:
  "redis_sets_ok ops view \<Longrightarrow> view (rs_expire ops now k ttl r)
     = (if fst (live_at now (view r k)) = {} then view r else (view r)(k := (fst (view r k), Some (now + ttl))))"
  by (simp add: redis_sets_ok_def)

lemma view_ismember: "redis_sets_ok ops view \<Longrightarrow> rs_ismember ops now k m r = (m \<in> fst (live_at now (view r k)))"
  by (simp add: redis_sets_ok_def)

lemma revoked_live:
  "revoked_until view jti e n st \<Longrightarrow> n < e \<Longrightarrow>
     live_at n (view (as_redis st) REFRESH_BLACKLIST_KEY) = view (as_redis st) REFRESH_BLACKLIST_KEY"
  by (auto simp: revoked_until_def live_at_def split: option.splits)

text \<open>Nothing that the handlers do to the store takes the token out of it.\<close>

lemma revoked_blacklist_access:
  assumes "redis_sets_ok (ae_sets env) view" "revoked_until view jti e (rq_now rq) st"
  shows "revoked_until view jti e (rq_now rq) (blacklist_access_token env rq t st)"
  using assms keys_differ
  by (auto simp: blacklist_access_token_def Let_def revoked_until_def view_sadd view_expire split: option.splits redis_link.splits)

lemma revoked_blacklist_add:
  assumes "redis_sets_ok (ae_sets env) view" "revoked_until view jti e (rq_now rq) st"
    and "e \<le> rq_now rq + ae_refresh_days env * 24 * 3600" "blacklist_add env rq j st = Some st1"
  shows "revoked_until view jti e (rq_now rq) st1"
  using assms revoked_live [OF assms(2)]
  by (auto simp: blacklist_add_def Let_def revoked_until_def view_sadd view_expire split: redis_link.splits if_splits)

lemma revoked_revoke_refresh:
  assumes "redis_sets_ok (ae_sets env) view" "revoked_until view jti e (rq_now rq) st"
    and "e \<le> rq_now rq + ae_refresh_days env * 24 * 3600" "revoke_refresh env rq t st = Some st1"
  shows "revoked_until view jti e (rq_now rq) st1"
  using assms revoked_blacklist_add [OF assms(1-3)]
  by (auto simp: revoke_refresh_def split: option.splits if_splits)

lemma revoked_try:
  assumes "redis_sets_ok (ae_sets env) view" "revoked_until view jti e (rq_now rq) st"
    and "e \<le> rq_now rq + ae_refresh_days env * 24 * 3600"
  shows "revoked_until view jti e (rq_now rq) (try_revoke env rq c st)"
    "revoked_until view jti e (rq_now rq) (try_blacklist env rq b st)"
  using assms revoked_revoke_refresh [OF assms] revoked_blacklist_access [OF assms(1,2)]
  by (auto simp: try_revoke_def try_blacklist_def split: option.splits)

fun event_request :: "'tok auth_event \<Rightarrow> request" where
  "event_request (Register rq _ _ _ _ _) = rq"
| "event_request (Login rq _ _) = rq"
| "event_request (Refresh rq _) = rq"
| "event_request (Logout rq _ _) = rq"
| "event_request (ChangePassword rq _ _ _ _) = rq"
| "event_request (ResetPassword rq _ _ _) = rq"
| "event_request (UpdateUser rq _ _ _) = rq"
| "event_request (DeleteAccount rq _ _ _ _) = rq"

lemma revoked_step:
  assumes "redis_sets_ok (ae_sets env) view" "revoked_until view jti e (rq_now (event_request ev)) st"
    and "e \<le> rq_now (event_request ev) + ae_refresh_days env * 24 * 3600"
  shows "revoked_until view jti e (rq_now (event_request ev)) (snd (auth_step env st ev))"
proof (cases ev)
  case (Register rq i email name pwd consumed)
  then show ?thesis using assms(2)
    by (auto simp: register_account_def Let_def revoked_until_users split: prod.splits)
next
  case (Refresh rq tok)
  then show ?thesis using assms revoked_revoke_refresh [OF assms(1)]
    by (auto simp: refresh_def refresh_commit_def split: sum.splits option.splits prod.splits)
next
  case (Logout rq b c)
  then show ?thesis using assms revoked_try [OF assms(1)] by (simp add: logout_def)
next
  case (ChangePassword rq bearer old new cookie)
  have "revoked_until view jti e (rq_now rq) (save_user x st)" for x
    using assms(2) ChangePassword by (simp add: revoked_until_users)
  then show ?thesis using ChangePassword assms revoked_try [OF assms(1)]
    by (auto simp: change_password_def Let_def split: sum.splits prod.splits)
next
  case (ResetPassword rq email new consumed)
  then show ?thesis using assms(2)
    by (auto simp: reset_password_def revoked_until_users split: option.splits)
next
  case (UpdateUser rq i role active)
  then show ?thesis using assms(2)
    by (auto simp: update_user_def Let_def revoked_until_users split: option.splits)
next
  case (DeleteAccount rq bearer pwd tag fresh)
  then show ?thesis using assms(2)
    by (auto simp: delete_my_account_def revoked_until_users split: sum.splits)
qed (use assms(2) in simp)

text \<open>Requests in the order of their times, all with the store within reach, with the random ids of \<open>uuid4\<close>.\<close>

fun orderly :: "int \<Rightarrow> 'tok auth_event list \<Rightarrow> bool" where
  "orderly now [] = True"
| "orderly now (e # es) =
     (now \<le> rq_now (event_request e) \<and> rq_link (event_request e) = Reachable \<and> rq_refresh_jti (event_request e) \<noteq> []
      \<and> orderly (rq_now (event_request e)) es)"

fun end_time :: "int \<Rightarrow> 'tok auth_event list \<Rightarrow> int" where
  "end_time now [] = now"
| "end_time now (e # es) = end_time (rq_now (event_request e)) es"

lemma orderly_append: "orderly now (es @ fs) \<longleftrightarrow> orderly now es \<and> orderly (end_time now es) fs"
  by (induction es arbitrary: now) auto

lemma end_time_append: "end_time now (es @ fs) = end_time (end_time now es) fs"
  by (induction es arbitrary: now) auto

lemma end_time_ge: "orderly now es \<Longrightarrow> now \<le> end_time now es"
  by (induction es arbitrary: now) (auto intro: order_trans)

lemma step_tokens:
  assumes "t \<in> set (tokens_of (fst (auth_step env st e)))"
  shows "\<exists>x. t = ae_encode env (access_payload env (event_request e) x) \<or> t = ae_encode env (refresh_payload env (event_request e) x)"
proof (cases e)
  case (Register rq i email name pwd consumed)
  then show ?thesis using assms
    by (auto simp: register_account_def issue_tokens_def Let_def split: if_splits)
next
  case (Login rq email pwd)
  then show ?thesis using assms by (auto simp: login_def issue_tokens_def split: option.splits if_splits)
next
  case (Refresh rq tok)
  then show ?thesis using assms
    by (auto simp: refresh_def refresh_commit_def issue_tokens_def split: option.splits sum.splits)
next
  case (ChangePassword rq bearer old new cookie)
  then show ?thesis using assms
    by (auto simp: change_password_def issue_tokens_def Let_def split: sum.splits if_splits)
next
  case (ResetPassword rq email new consumed)
  then show ?thesis using assms by (auto simp: reset_password_def split: option.splits if_splits)
next
  case (UpdateUser rq i role active)
  then show ?thesis using assms by (auto simp: update_user_def Let_def split: option.splits if_splits)
next
  case (DeleteAccount rq bearer pwd tag fresh)
  then show ?thesis using assms by (auto simp: delete_my_account_def split: sum.splits if_splits)
qed (use assms in simp)

text \<open>A token of a history is an access token, or a refresh token with an id that ends within the refresh days.\<close>

lemma run_tokens:
  assumes "orderly now es" "auth_run env st es = (toks, st1)" "t \<in> set toks"
  shows "\<exists>p. t = ae_encode env p \<and> (p_type p \<noteq> REFRESH_TOKEN_TYPE
      \<or> (\<exists>j e. p_jti p = Some j \<and> j \<noteq> [] \<and> p_exp p = Some e \<and> e \<le> end_time now es + ae_refresh_days env * 24 * 3600))"
  using assms
proof (induction es arbitrary: now st toks)
  case (Cons ev es)
  let ?rq = "event_request ev"
  obtain rep s where step: "auth_step env st ev = (rep, s)" by fastforce
  obtain toks' where rest: "auth_run env s es = (toks', st1)" "toks = tokens_of rep @ toks'"
    using Cons.prems(2) step by (auto split: prod.splits)
  show ?case
  proof (cases "t \<in> set toks'")
    case True
    then show ?thesis using Cons.IH [OF _ rest(1) True] Cons.prems(1) by simp
  next
    case False
    then have "t \<in> set (tokens_of (fst (auth_step env st ev)))" using Cons.prems(3) rest(2) step by simp
    then obtain x where "t = ae_encode env (access_payload env ?rq x) \<or> t = ae_encode env (refresh_payload env ?rq x)"
      using step_tokens [of t env st ev] by blast
    moreover have "rq_now ?rq \<le> end_time now (ev # es)" "rq_refresh_jti ?rq \<noteq> []"
      using end_time_ge Cons.prems(1) by auto
    ultimately show ?thesis
      by (auto simp: access_payload_def refresh_payload_def ACCESS_TOKEN_TYPE_def REFRESH_TOKEN_TYPE_def)
  qed
qed simp

lemma revoked_run:
  assumes "redis_sets_ok (ae_sets env) view" "orderly now es" "revoked_until view jti e now st"
    and "e \<le> now + ae_refresh_days env * 24 * 3600" "auth_run env st es = (toks, st1)"
  shows "revoked_until view jti e (end_time now es) st1"
  using assms(2-)
proof (induction es arbitrary: now st toks)
  case (Cons ev es)
  let ?n = "rq_now (event_request ev)"
  obtain rep s where step: "auth_step env st ev = (rep, s)" by fastforce
  obtain toks' where rest: "auth_run env s es = (toks', st1)" using Cons.prems(4) step by (auto split: prod.splits)
  have n: "now \<le> ?n" "orderly ?n es" using Cons.prems(1) by simp_all
  have "revoked_until view jti e ?n s"
    using revoked_step [OF assms(1) revoked_later [OF Cons.prems(2) n(1)]] n(1) Cons.prems(3) step by fastforce
  then show ?case using Cons.IH [OF n(2) _ _ rest] n(1) Cons.prems(3) by simp
qed simp

text \<open>The requests that use a refresh token up.\<close>

fun consumes :: "'tok \<Rightarrow> 'tok auth_event \<Rightarrow> 'tok reply \<Rightarrow> bool" where
  "consumes t (Refresh rq c) rep = (c = Some t \<and> \<not> denied rep)"
| "consumes t (Logout rq b c) rep = (c = Some t)"
| "consumes t _ rep = False"

lemma live_insert: "fst (live_at now (insert m (fst (live_at now v)), snd (live_at now v))) \<noteq> {}"
  by (auto simp: live_at_def split: option.splits)

lemma revoke_puts:
  assumes "redis_sets_ok (ae_sets env) view" "codec_ok env" "t = ae_encode env p" "p_jti p = Some j" "j \<noteq> []" "p_exp p = Some e"
    and "e \<le> rq_now rq + ae_refresh_days env * 24 * 3600" "rq_link rq = Reachable" "revoke_refresh env rq t st = Some st1"
  shows "revoked_until view j e (rq_now rq) st1"
proof (cases "rq_now rq < e")
  case True
  then have "ae_decode env (rq_now rq) t = Some p" using assms(2,3,6) by (simp add: codec_ok_def)
  then have "blacklist_add env rq j st = Some st1" using assms(4,5,9) by (simp add: revoke_refresh_def truthy_def)
  then show ?thesis using assms(1,5,7,8) live_insert [of "rq_now rq" j "view (as_redis st) REFRESH_BLACKLIST_KEY"]
    by (auto simp: blacklist_add_def Let_def revoked_until_def view_sadd view_expire)
qed (simp add: revoked_until_def)

lemma consumed_is_revoked:
  assumes "redis_sets_ok (ae_sets env) view" "codec_ok env" "t = ae_encode env p" "p_jti p = Some j" "j \<noteq> []" "p_exp p = Some e"
    and "e \<le> rq_now (event_request ev) + ae_refresh_days env * 24 * 3600" "rq_link (event_request ev) = Reachable"
    and "auth_step env st ev = (rep, st1)" "consumes t ev rep"
  shows "revoked_until view j e (rq_now (event_request ev)) st1"
proof (cases ev)
  case (Refresh rq c)
  then have c: "c = Some t" "\<not> denied rep" using assms(10) by simp_all
  then have "revoke_refresh env rq t st = Some st1" using assms(9) Refresh
    by (auto simp: refresh_def refresh_commit_def split: sum.splits option.splits prod.splits)
  then show ?thesis using revoke_puts [OF assms(1-6)] assms(7,8) Refresh by simp
next
  case (Logout rq b c)
  then have c: "c = Some t" using assms(10) by simp
  have "revoke_refresh env rq t (try_blacklist env rq b st) \<noteq> None"
    using assms(8) Logout by (auto simp: revoke_refresh_def blacklist_add_def Let_def split: option.splits)
  then obtain s where s: "revoke_refresh env rq t (try_blacklist env rq b st) = Some s" by blast
  then have "st1 = s" using assms(9) Logout c by (simp add: logout_def try_revoke_def)
  then show ?thesis using revoke_puts [OF assms(1-6) _ _ s] assms(7,8) Logout by simp
qed (use assms(10) in simp_all)

text \<open>C29: As long as the revocation store can be reached, a token that was handed out and then exchanged by a refresh,
  or shown at a logout, is refused by every later refresh, whatever else happens in between.\<close>

theorem refresh_token_single_use:
  assumes "codec_ok env" "redis_sets_ok (ae_sets env) view" "orderly now (es1 @ ev # es2)"
    and "auth_run env st0 es1 = (toks, st1)" "t \<in> set toks" "auth_step env st1 ev = (rep, st2)" "consumes t ev rep"
    and "auth_run env st2 es2 = (toks2, st3)" "rq_link rq = Reachable" "end_time now (es1 @ ev # es2) \<le> rq_now rq"
  shows "refresh env rq (Some t) st3 = (Denied 401, st3)"
proof -
  let ?n = "rq_now (event_request ev)"
  have o1: "orderly now es1" "end_time now es1 \<le> ?n" "rq_link (event_request ev) = Reachable" "orderly ?n es2"
    using assms(3) by (simp_all add: orderly_append)
  obtain p where p: "t = ae_encode env p" "p_type p \<noteq> REFRESH_TOKEN_TYPE
      \<or> (\<exists>j e. p_jti p = Some j \<and> j \<noteq> [] \<and> p_exp p = Some e \<and> e \<le> end_time now es1 + ae_refresh_days env * 24 * 3600)"
    using run_tokens [OF o1(1) assms(4,5)] by blast
  have d: "ae_decode env (rq_now rq) t = (case p_exp p of None \<Rightarrow> Some p | Some e \<Rightarrow> if e \<le> rq_now rq then None else Some p)"
    using assms(1) by (simp add: codec_ok_def p(1))
  show ?thesis
  proof (cases "p_type p = REFRESH_TOKEN_TYPE")
    case False
    then show ?thesis using d by (auto simp: refresh_def refresh_check_def is_refresh_valid_def split: option.splits)
  next
    case True
    then obtain j e where j: "p_jti p = Some j" "j \<noteq> []" "p_exp p = Some e" "e \<le> ?n + ae_refresh_days env * 24 * 3600"
      using p(2) o1(2) by force
    have "revoked_until view j e ?n st2"
      by (rule consumed_is_revoked [OF assms(2,1) p(1) j(1,2,3,4) o1(3) assms(6,7)])
    then have "revoked_until view j e (end_time ?n es2) st3" by (rule revoked_run [OF assms(2) o1(4) _ j(4) assms(8)])
    then have r: "revoked_until view j e (rq_now rq) st3" using assms(10) revoked_later by (simp add: end_time_append)
    show ?thesis
    proof (cases "rq_now rq < e")
      case in_time: True
      then have "j \<in> fst (live_at (rq_now rq) (view (as_redis st3) REFRESH_BLACKLIST_KEY))"
        using r revoked_live [OF r in_time] by (simp add: revoked_until_def)
      then have "is_refresh_valid env rq t st3 = Some False" using d in_time j(1-3) True assms(9)
        by (simp add: is_refresh_valid_def truthy_def blacklist_has_def view_ismember [OF assms(2)])
      then show ?thesis using d in_time j(3) by (simp add: refresh_def refresh_check_def)
    qed (use d j(3) in \<open>simp add: refresh_def refresh_check_def\<close>)
  qed
qed

theorem refresh_token_single_use_witness:
  "fst (refresh plain_env (request_at 20 ''p'' ''q'') (Some alice_refresh)
     (snd (auth_step plain_env one_user (Logout (request_at 10 ''m'' ''n'') None (Some alice_refresh))))) = Denied 401"
proof -
  let ?ev = "Logout (request_at 10 ''m'' ''n'') None (Some alice_refresh)"
  have o: "orderly 0 ([Login (request_at 0 ''x'' ''y'') ''a@b'' ''old''] @ ?ev # [])" by (simp add: request_at_def)
  have c: "consumes alice_refresh ?ev (fst (auth_step plain_env one_user ?ev))" by simp
  have "refresh plain_env (request_at 20 ''p'' ''q'') (Some alice_refresh) (snd (auth_step plain_env one_user ?ev))
      = (Denied 401, snd (auth_step plain_env one_user ?ev))"
    by (rule refresh_token_single_use [OF plain_env_ok o alice_logs_in _ prod.collapse [symmetric] c auth_run.simps(1)])
      (simp_all add: request_at_def)
  then show ?thesis by simp
qed

section \<open>Where revocation fails\<close>

text \<open>
  The time to live of a blacklist belongs to the whole set. The second access token of alice is logged out
  at 1710 and would run until 3500; logging out her first one, which has ten seconds left, makes the
  set expire at 1860, and at 1900 the second one is accepted again.
\<close>

definition second_access :: payload where
  "second_access = \<lparr>p_sub = Some 7, p_type = ''access'', p_jti = Some ''z'', p_ver = Some 0, p_exp = Some 3500\<rparr>"

lemma revocation_lost:
  "let st1 = logout plain_env (request_at 1710 ''p'' ''q'') (Some second_access) None one_user;
       st2 = logout plain_env (request_at 1790 ''p'' ''q'') (Some alice_access) None st1 in
    get_current_user plain_env (request_at 1900 ''p'' ''q'') (Some second_access) st1 = Inl 401
    \<and> get_current_user plain_env (request_at 1900 ''p'' ''q'') (Some second_access) st2 = Inr alice"
  by (simp add: logout_def try_revoke_def try_blacklist_def blacklist_access_token_def get_current_user_def session_eval
      second_access_def truthy_def remaining_validity_seconds_def view_sets_def live_at_def ACCESS_BLACKLIST_KEY_def
      is_access_revoked_def version_matches_def)

text \<open>Two refreshes with one token that both pass the check before either revokes it both get new tokens.\<close>

lemma token_redeemed_twice:
  assumes "refresh_check env rq1 (Some t) st = Inr x" "refresh_check env rq2 (Some t) st = Inr y"
    and "rq_link rq1 = Reachable" "rq_link rq2 = Reachable"
  shows "\<exists>a1 r1 a2 r2 st1 st2. refresh_commit env rq1 t x st = (Issued a1 r1, st1) \<and> refresh_commit env rq2 t y st1 = (Issued a2 r2, st2)"
proof -
  have ok: "revoke_refresh env rq t s \<noteq> None" if "rq_link rq = Reachable" for rq s
    using that by (auto simp: revoke_refresh_def blacklist_add_def Let_def split: option.splits)
  obtain s1 where s1: "revoke_refresh env rq1 t st = Some s1" using ok [OF assms(3)] by blast
  obtain s2 where s2: "revoke_refresh env rq2 t s1 = Some s2" using ok [OF assms(4)] by blast
  show ?thesis using s1 s2 by (simp add: refresh_commit_def issue_tokens_def)
qed

end
