(* ===== verification/Splitter.thy ===== *)
theory Splitter
  imports Utext
begin

text \<open>
  Splitting a document into chunks (\<open>rag/splitter.py\<close>). The tokenizer is a parameter: the count of a text
  and the text of its last tokens. The heuristics the source falls back to are instances.
\<close>

section \<open>Tokens\<close>

record tokenizer =
  tk_count :: "utext \<Rightarrow> nat"
  tk_tail :: "nat \<Rightarrow> utext \<Rightarrow> utext"

definition count_tokens :: "tokenizer \<Rightarrow> utext \<Rightarrow> nat" where
  "count_tokens tk s = (if s = [] then 0 else tk_count tk s)"

definition take_tail_tokens :: "tokenizer \<Rightarrow> utext \<Rightarrow> nat \<Rightarrow> utext" where
  "take_tail_tokens tk s n = (if n = 0 \<or> s = [] then [] else tk_tail tk n s)"

text \<open>Without a tokenizer four characters count as one token.\<close>

definition char_tokenizer :: tokenizer where
  "char_tokenizer =
     \<lparr>tk_count = (\<lambda>s. max 1 (length s div 4)),
       tk_tail = (\<lambda>n s. if 4 * n < length s then drop (length s - 4 * n) s else s)\<rparr>"

section \<open>The splitter\<close>

text \<open>From blank lines and headings over sentences to single characters.\<close>

definition SEPARATORS :: "utext list" where
  "SEPARATORS = [[10, 10, 10], [10, 35, 32], [10, 35, 35, 32], [10, 35, 35, 35, 32], [10, 10], [10], [46, 32], [0x3002], [32], []]"

record splitter =
  sp_size :: nat
  sp_overlap :: nat
  sp_tokenizer :: tokenizer

text \<open>No size, or zero, takes the setting; an overlap as large as a chunk is cut down.\<close>

definition new_splitter :: "nat option \<Rightarrow> nat option \<Rightarrow> nat \<Rightarrow> nat \<Rightarrow> tokenizer \<Rightarrow> splitter" where
  "new_splitter sz overlap size0 overlap0 tk =
     (let s = (case sz of None \<Rightarrow> size0 | Some n \<Rightarrow> if n = 0 then size0 else n);
          p = (case overlap of None \<Rightarrow> overlap0 | Some n \<Rightarrow> if n = 0 then overlap0 else n) in
      \<lparr>sp_size = s, sp_overlap = (if s \<le> p then s div 4 else p), sp_tokenizer = tk\<rparr>)"

text \<open>\<open>text.split(sep)\<close>\<close>

function split_on :: "utext \<Rightarrow> utext \<Rightarrow> utext list" where
  "split_on sep [] = [[]]"
| "split_on sep (c # s) =
     (if sep \<noteq> [] \<and> prefix sep (c # s) then [] # split_on sep (drop (length sep) (c # s))
      else case split_on sep s of [] \<Rightarrow> [[c]] | l # ls \<Rightarrow> (c # l) # ls)"
  by pat_completeness auto
termination
  by (relation "measure (\<lambda>(sep, s). length s)") auto

text \<open>The first separator that occurs, and the finer ones behind it.\<close>

fun choose_separator :: "utext \<Rightarrow> utext list \<Rightarrow> utext \<Rightarrow> utext \<times> utext list" where
  "choose_separator d [] s = (d, [])"
| "choose_separator d (c # cs) s =
     (if c = [] then ([], []) else if u_contains c s then (c, cs) else choose_separator d cs s)"

text \<open>The parts with the separator behind each, the last one included.\<close>

definition pieces_of :: "utext \<Rightarrow> utext \<Rightarrow> utext list" where
  "pieces_of sep s = (if sep = [] then map (\<lambda>c. [c]) s else map (\<lambda>p. p @ sep) (split_on sep s))"

lemma choose_shorter: "length (snd (choose_separator d cs s)) \<le> length cs - 1"
  by (induction cs) auto

text \<open>The parts are merged while they fit; a part that is too large is split at the finer separators.\<close>

definition flush_chunk :: "utext \<Rightarrow> utext list" where
  "flush_chunk buf = (if u_strip buf = [] then [] else [u_strip buf])"

function split_text :: "splitter \<Rightarrow> utext list \<Rightarrow> utext \<Rightarrow> utext list"
  and merge_pieces :: "splitter \<Rightarrow> utext list \<Rightarrow> utext \<Rightarrow> utext list \<Rightarrow> utext list" where
  "split_text sp seps s =
     merge_pieces sp (snd (choose_separator (last seps) seps s)) [] (pieces_of (fst (choose_separator (last seps) seps s)) s)"
| "merge_pieces sp finer buf [] = flush_chunk buf"
| "merge_pieces sp finer buf (p # ps) =
     (if count_tokens (sp_tokenizer sp) (buf @ p) \<le> sp_size sp then merge_pieces sp finer (buf @ p) ps
      else flush_chunk buf
        @ (if sp_size sp < count_tokens (sp_tokenizer sp) p \<and> finer \<noteq> []
           then split_text sp finer p @ merge_pieces sp finer [] ps
           else merge_pieces sp finer p ps))"
  by pat_completeness auto
termination
proof (relation "measures [\<lambda>x. case x of Inl (sp, seps, s) \<Rightarrow> length seps | Inr (sp, finer, buf, ps) \<Rightarrow> length finer,
      \<lambda>x. case x of Inl (sp, seps, s) \<Rightarrow> if seps = [] then 2 else 0 | Inr _ \<Rightarrow> 1,
      \<lambda>x. case x of Inl _ \<Rightarrow> 0 | Inr (sp, finer, buf, ps) \<Rightarrow> length ps]", goal_cases)
  case (2 sp seps s)
  then show ?case using choose_shorter [of "last seps" seps s] by (cases seps) auto
qed auto

declare split_text.simps [simp del] merge_pieces.simps(2) [simp del]

section \<open>Markdown sections\<close>

text \<open>
  The length of a heading at the start of a line: one to six hashes, white space, which may run over
  line ends, and the rest of the line it ends on. White space up to the end of the text gives
  characters back until one that is no line end stands for the rest.
\<close>

definition heading_length :: "utext \<Rightarrow> nat option" where
  "heading_length s =
     (let h = length (takeWhile (\<lambda>c. c = 35) s); w = takeWhile u_space (drop h s); r = drop (h + length w) s;
          ks = filter (\<lambda>k. w ! k \<noteq> NL) [1..<length w] in
      if h = 0 \<or> 6 < h \<or> w = [] then None
      else if r \<noteq> [] then Some (h + length w + length (takeWhile (\<lambda>c. c \<noteq> NL) r))
      else if ks = [] then None
      else let k = last ks in Some (h + k + length (takeWhile (\<lambda>c. c \<noteq> NL) (drop k w))))"

function heading_starts :: "nat \<Rightarrow> bool \<Rightarrow> utext \<Rightarrow> nat list" where
  "heading_starts i at_start [] = []"
| "heading_starts i at_start (c # s) =
     (case (if at_start then heading_length (c # s) else None) of
        Some n \<Rightarrow> i # heading_starts (i + max n 1) False (drop (max n 1) (c # s))
      | None \<Rightarrow> heading_starts (i + 1) (c = NL) s)"
  by pat_completeness auto
termination by (relation "measure (\<lambda>(i, b, s). length s)") auto

fun sections_from :: "utext \<Rightarrow> nat list \<Rightarrow> utext list" where
  "sections_from s [] = []"
| "sections_from s [i] = [u_strip (drop i s)]"
| "sections_from s (i # j # js) = u_strip (take (j - i) (drop i s)) # sections_from s (j # js)"

definition markdown_sections :: "utext \<Rightarrow> utext list" where
  "markdown_sections s =
     (let starts = heading_starts 0 True s in
      if length starts < 2 then []
      else filter (\<lambda>x. x \<noteq> [])
        ((if 0 < hd starts \<and> u_strip (take (hd starts) s) \<noteq> [] then [u_strip (take (hd starts) s)] else [])
         @ sections_from s starts))"

section \<open>Splitting\<close>

definition not_blank :: "utext \<Rightarrow> bool" where
  "not_blank c \<longleftrightarrow> u_strip c \<noteq> []"

definition split_oversized :: "splitter \<Rightarrow> utext \<Rightarrow> utext list" where
  "split_oversized sp s =
     (if count_tokens (sp_tokenizer sp) s \<le> sp_size sp then [s] else filter not_blank (split_text sp SEPARATORS s))"

text \<open>Each chunk but the first gets the end of the original chunk before it.\<close>

fun overlap_from :: "splitter \<Rightarrow> utext \<Rightarrow> utext list \<Rightarrow> utext list" where
  "overlap_from sp prev [] = []"
| "overlap_from sp prev (c # cs) = (take_tail_tokens (sp_tokenizer sp) prev (sp_overlap sp) @ c) # overlap_from sp c cs"

definition apply_overlap :: "splitter \<Rightarrow> utext list \<Rightarrow> utext list" where
  "apply_overlap sp cs = (case cs of [] \<Rightarrow> [] | c # rest \<Rightarrow> c # overlap_from sp c rest)"

definition with_overlap :: "splitter \<Rightarrow> utext list \<Rightarrow> utext list" where
  "with_overlap sp cs = (if sp_overlap sp \<noteq> 0 \<and> 1 < length cs then apply_overlap sp cs else cs)"

definition split_document :: "splitter \<Rightarrow> utext \<Rightarrow> utext list" where
  "split_document sp s =
     (if u_strip s = [] then []
      else if markdown_sections s \<noteq> []
      then filter not_blank (concat (map (\<lambda>sec. with_overlap sp (split_oversized sp sec)) (markdown_sections s)))
      else filter not_blank (with_overlap sp (split_text sp SEPARATORS s)))"

section \<open>No text is lost\<close>

text \<open>The characters that are no white space, and those that no separator holds either.\<close>

definition ink :: "utext \<Rightarrow> utext" where
  "ink s = filter (\<lambda>c. \<not> u_space c) s"

definition wording :: "utext \<Rightarrow> utext" where
  "wording s = filter (\<lambda>c. c \<notin> set [35, 46, 0x3002]) (ink s)"

text \<open>A predicate that holds of no white space.\<close>

definition solid :: "(nat \<Rightarrow> bool) \<Rightarrow> bool" where
  "solid P \<longleftrightarrow> (\<forall>c. u_space c \<longrightarrow> \<not> P c)"

lemma filter_spaces: "solid P \<Longrightarrow> \<forall>c \<in> set w. u_space c \<Longrightarrow> filter P w = []"
  by (auto simp: solid_def filter_empty_conv)

lemma filter_strip: "solid P \<Longrightarrow> filter P (u_strip s) = filter P s"
proof -
  assume P: "solid P"
  have l: "filter P (u_lstrip s) = filter P s" for s
    unfolding u_lstrip_def using filter_spaces [OF P, of "takeWhile u_space s"]
    by (metis append_Nil filter_append set_takeWhileD takeWhile_dropWhile_id)
  have r: "filter P (u_rstrip s) = filter P s" for s
    using u_rstrip_split [of s] filter_spaces [OF P] by (metis append_Nil2 filter_append)
  show ?thesis by (simp add: u_strip_def l r)
qed

lemma filter_flush: "solid P \<Longrightarrow> filter P (concat (flush_chunk b)) = filter P b"
  using filter_strip [of P b] by (auto simp: flush_chunk_def)

lemma filter_not_blank: "solid P \<Longrightarrow> filter P (concat (filter not_blank cs)) = filter P (concat cs)"
proof (induction cs)
  case (Cons c cs)
  have "\<not> not_blank c \<Longrightarrow> filter P c = []" using filter_strip [OF Cons.prems, of c] by (simp add: not_blank_def)
  then show ?case using Cons by auto
qed simp

lemma split_on_nonempty: "split_on sep s \<noteq> []"
  by (induction sep s rule: split_on.induct) (auto split: list.split)

lemma join_split_on: "concat (map (\<lambda>p. p @ sep) (split_on sep s)) = s @ sep"
proof (induction sep s rule: split_on.induct)
  case (2 sep c s)
  show ?case
  proof (cases "sep \<noteq> [] \<and> prefix sep (c # s)")
    case True
    then obtain r where r: "c # s = sep @ r" by (auto simp: prefix_def)
    then have "drop (length sep) (c # s) = r" by simp
    then have "split_on sep (c # s) = [] # split_on sep r" "concat (map (\<lambda>p. p @ sep) (split_on sep r)) = r @ sep"
      using 2(1) [OF True] True by simp_all
    then have "concat (map (\<lambda>p. p @ sep) (split_on sep (c # s))) = sep @ r @ sep" by (simp del: split_on.simps)
    then show ?thesis unfolding r by simp
  next
    case False
    obtain l ls where "split_on sep s = l # ls" using split_on_nonempty [of sep s] by (cases "split_on sep s") auto
    then show ?thesis using 2(2) [OF False] False by auto
  qed
qed simp

lemma concat_pieces: "concat (pieces_of sep s) = s @ sep"
  by (cases "sep = []") (auto simp: pieces_of_def join_split_on)

lemma choose_in: "seps \<noteq> [] \<Longrightarrow> fst (choose_separator (last seps) seps s) \<in> set seps"
proof -
  have "fst (choose_separator d seps s) \<in> insert d (set seps)" for d by (induction seps) auto
  from this [of "last seps"] show "seps \<noteq> [] \<Longrightarrow> fst (choose_separator (last seps) seps s) \<in> set seps"
    by (metis insertE last_in_set)
qed

lemma choose_finer: "set (snd (choose_separator d seps s)) \<subseteq> set seps"
  by (induction seps) auto

text \<open>Predicates that no separator meets count the same characters before and after.\<close>

lemma split_text_filter:
  "seps \<noteq> [] \<Longrightarrow> solid P \<Longrightarrow> \<forall>d \<in> set seps. filter P d = [] \<Longrightarrow>
     filter P (concat (split_text sp seps s)) = filter P s"
  "solid P \<Longrightarrow> \<forall>d \<in> set finer. filter P d = [] \<Longrightarrow>
     filter P (concat (merge_pieces sp finer buf ps)) = filter P (buf @ concat ps)"
proof (induction sp seps s and sp finer buf ps rule: split_text_merge_pieces.induct)
  case (1 sp seps s)
  let ?c = "choose_separator (last seps) seps s"
  have "filter P (fst ?c) = []" "\<forall>d \<in> set (snd ?c). filter P d = []"
    using choose_in [OF 1(2)] choose_finer 1(4) by blast+
  then show ?case using 1(1) [OF 1(3)] by (simp add: split_text.simps concat_pieces)
next
  case (2 sp finer buf)
  then show ?case by (simp add: filter_flush)
next
  case (3 sp finer buf p ps)
  show ?case
  proof (cases "count_tokens (sp_tokenizer sp) (buf @ p) \<le> sp_size sp")
    case True
    then show ?thesis using 3(1) [OF True 3(5,6)] by (simp add: merge_pieces.simps)
  next
    case False
    show ?thesis
    proof (cases "sp_size sp < count_tokens (sp_tokenizer sp) p \<and> finer \<noteq> []")
      case big: True
      then show ?thesis using 3(2) [OF False big _ 3(5,6)] 3(3) [OF False big 3(5,6)] False 3(5)
        by (simp add: merge_pieces.simps filter_flush)
    next
      case small: False
      then show ?thesis using 3(4) [OF False small 3(5,6)] False 3(5) by (auto simp: merge_pieces.simps filter_flush)
    qed
  qed
qed

text \<open>Separators are only ever added.\<close>

lemma split_text_subseq:
  "seps \<noteq> [] \<Longrightarrow> solid P \<Longrightarrow> subseq (filter P s) (filter P (concat (split_text sp seps s)))"
  "solid P \<Longrightarrow> subseq (filter P (buf @ concat ps)) (filter P (concat (merge_pieces sp finer buf ps)))"
proof (induction sp seps s and sp finer buf ps rule: split_text_merge_pieces.induct)
  case (1 sp seps s)
  have "subseq (filter P s) (filter P (s @ fst (choose_separator (last seps) seps s)))"
    by (simp add: list_emb_prefix)
  then show ?case using 1(1) [OF 1(3)] subseq_order.trans by (fastforce simp: split_text.simps concat_pieces)
next
  case (2 sp finer buf)
  then show ?case by (simp add: filter_flush)
next
  case (3 sp finer buf p ps)
  show ?case
  proof (cases "count_tokens (sp_tokenizer sp) (buf @ p) \<le> sp_size sp")
    case True
    then show ?thesis using 3(1) [OF True 3(5)] by (simp add: merge_pieces.simps)
  next
    case False
    show ?thesis
    proof (cases "sp_size sp < count_tokens (sp_tokenizer sp) p \<and> finer \<noteq> []")
      case big: True
      have "subseq (filter P p @ filter P (concat ps))
          (filter P (concat (split_text sp finer p)) @ filter P (concat (merge_pieces sp finer [] ps)))"
        using 3(2) [OF False big _ 3(5)] 3(3) [OF False big 3(5)] big by (intro list_emb_append_mono) simp_all
      then show ?thesis using False big 3(5) by (simp add: merge_pieces.simps filter_flush subseq_append')
    next
      case small: False
      then show ?thesis using 3(4) [OF False small 3(5)] False 3(5)
        by (auto simp: merge_pieces.simps filter_flush subseq_append')
    qed
  qed
qed

lemma overlap_subseq: "subseq (filter P (concat cs)) (filter P (concat (with_overlap sp cs)))"
proof -
  have later: "subseq (filter P (concat cs)) (filter P (concat (overlap_from sp prev cs)))" for prev cs
  proof (induction cs arbitrary: prev)
    case (Cons c cs)
    then show ?case by (simp add: subseq_append' list_emb_append2)
  qed simp
  show ?thesis using later by (auto simp: with_overlap_def apply_overlap_def subseq_append' split: list.splits)
qed

text \<open>The sections of a document cover it.\<close>

lemma heading_starts_sorted: "sorted (heading_starts i b s) \<and> (\<forall>j \<in> set (heading_starts i b s). i \<le> j)"
  by (induction i b s rule: heading_starts.induct) (force split: option.splits if_splits)+

lemma filter_drop_split: "i \<le> j \<Longrightarrow> filter P (take (j - i) (drop i s)) @ filter P (drop j s) = filter P (drop i s)"
  by (metis append_take_drop_id drop_drop filter_append le_add_diff_inverse2)

lemma filter_sections:
  "solid P \<Longrightarrow> sorted (i # js) \<Longrightarrow> filter P (concat (sections_from s (i # js))) = filter P (drop i s)"
proof (induction js arbitrary: i)
  case (Cons j js)
  then show ?case using filter_drop_split [of i j P s] by (simp add: filter_strip)
qed (simp add: filter_strip)

lemma filter_markdown:
  assumes "solid P" "markdown_sections s \<noteq> []"
  shows "filter P (concat (markdown_sections s)) = filter P s"
proof -
  let ?starts = "heading_starts 0 True s"
  obtain i js where st: "?starts = i # js" using assms(2) by (cases ?starts) (auto simp: markdown_sections_def)
  have "sorted (i # js)" using heading_starts_sorted [of 0 True s] st by simp
  note secs = filter_sections [OF assms(1) this, of s]
  let ?pre = "if 0 < i \<and> u_strip (take i s) \<noteq> [] then [u_strip (take i s)] else []"
  have pre: "filter P (concat ?pre) = filter P (take i s)"
    using filter_strip [OF assms(1), of "take i s"] by auto
  have "\<not> length ?starts < 2" using assms(2) by (auto simp: markdown_sections_def Let_def)
  then have "markdown_sections s = filter (\<lambda>x. x \<noteq> []) (?pre @ sections_from s ?starts)"
    using st unfolding markdown_sections_def Let_def by (simp only: if_False list.sel)
  moreover have "concat (filter (\<lambda>x. x \<noteq> []) xs) = concat xs" for xs :: "utext list" by (induction xs) auto
  ultimately have "filter P (concat (markdown_sections s)) = filter P (concat ?pre) @ filter P (concat (sections_from s (i # js)))"
    unfolding st by (simp only: concat_append filter_append)
  then show ?thesis unfolding pre secs by (metis append_take_drop_id filter_append)
qed

lemma separators_solid: "SEPARATORS \<noteq> []" "d \<in> set SEPARATORS \<Longrightarrow> set d \<subseteq> {10, 32, 35, 46, 0x3002}"
  by (auto simp: SEPARATORS_def)

lemma split_oversized_subseq: "solid P \<Longrightarrow> subseq (filter P s) (filter P (concat (split_oversized sp s)))"
  using split_text_subseq(1) [OF separators_solid(1)] by (simp add: split_oversized_def filter_not_blank)

lemma split_oversized_filter:
  "solid P \<Longrightarrow> \<forall>d \<in> set SEPARATORS. filter P d = [] \<Longrightarrow> filter P (concat (split_oversized sp s)) = filter P s"
  using split_text_filter(1) [OF separators_solid(1)] by (simp add: split_oversized_def filter_not_blank)

lemma subseq_concat_map:
  "(\<And>x. x \<in> set xs \<Longrightarrow> subseq (filter P x) (filter P (concat (f x)))) \<Longrightarrow>
     subseq (filter P (concat xs)) (filter P (concat (concat (map f xs))))"
  by (induction xs) (auto intro: list_emb_append_mono)

lemma split_document_subseq:
  assumes P: "solid P"
  shows "subseq (filter P s) (filter P (concat (split_document sp s)))"
proof -
  have one: "subseq (filter P x) (filter P (concat (with_overlap sp (split_oversized sp x))))" for x
    using split_oversized_subseq [OF P] overlap_subseq subseq_order.trans by blast
  have "subseq (filter P (concat secs)) (filter P (concat (concat (map (\<lambda>x. with_overlap sp (split_oversized sp x)) secs))))" for secs
    by (rule subseq_concat_map) (rule one)
  from this [of "markdown_sections s"] filter_markdown [OF P]
  have md: "markdown_sections s \<noteq> [] \<Longrightarrow>
      subseq (filter P s) (filter P (concat (concat (map (\<lambda>x. with_overlap sp (split_oversized sp x)) (markdown_sections s)))))"
    by simp
  have "subseq (filter P s) (filter P (concat (with_overlap sp (split_text sp SEPARATORS s))))"
    using split_text_subseq(1) [OF separators_solid(1) P] overlap_subseq subseq_order.trans by blast
  moreover have "u_strip s = [] \<Longrightarrow> filter P s = []" using filter_strip [OF P, of s] by simp
  ultimately show ?thesis using md by (simp add: split_document_def filter_not_blank [OF P])
qed

lemma split_document_filter:
  assumes P: "solid P" "\<forall>d \<in> set SEPARATORS. filter P d = []" and "sp_overlap sp = 0"
  shows "filter P (concat (split_document sp s)) = filter P s"
proof -
  have "with_overlap sp cs = cs" for cs using assms(3) by (simp add: with_overlap_def)
  moreover have "filter P (concat (concat (map (split_oversized sp) secs))) = filter P (concat secs)" for secs
    by (induction secs) (simp_all add: split_oversized_filter [OF P])
  moreover have "u_strip s = [] \<Longrightarrow> filter P s = []" using filter_strip [OF P(1), of s] by simp
  ultimately show ?thesis
    using filter_markdown [OF P(1), of s] split_text_filter(1) [OF separators_solid(1) P]
    by (simp add: split_document_def filter_not_blank [OF P(1)])
qed

text \<open>C30: Splitting loses no text: the characters of a document that are no white space all occur in its chunks, in
  order; and without overlap the chunks hold nothing more than these, but for hashes and full stops of
  separators.\<close>

theorem split_keeps_text:
  "subseq (ink s) (ink (concat (split_document sp s)))
   \<and> wording (concat (split_document (sp\<lparr>sp_overlap := 0\<rparr>) s)) = wording s"
proof
  show "subseq (ink s) (ink (concat (split_document sp s)))"
    unfolding ink_def by (rule split_document_subseq) (simp add: solid_def)
  let ?P = "\<lambda>c. \<not> u_space c \<and> c \<noteq> 35 \<and> c \<noteq> 46 \<and> c \<noteq> (0x3002 :: nat)"
  have w: "wording x = filter ?P x" for x unfolding wording_def ink_def by (simp add: filter_filter)
  have "\<forall>d \<in> set SEPARATORS. filter ?P d = []" by (simp add: SEPARATORS_def u_space_def)
  then show "wording (concat (split_document (sp\<lparr>sp_overlap := 0\<rparr>) s)) = wording s"
    unfolding w by (intro split_document_filter) (simp_all add: solid_def)
qed

section \<open>Chunks are small\<close>

text \<open>What a chunk is cut from: a text that fits, or a single character.\<close>

definition fits :: "splitter \<Rightarrow> utext \<Rightarrow> bool" where
  "fits sp b \<longleftrightarrow> count_tokens (sp_tokenizer sp) b \<le> sp_size sp \<or> length b = 1"

definition chunk_ok :: "splitter \<Rightarrow> utext \<Rightarrow> bool" where
  "chunk_ok sp c \<longleftrightarrow> (\<exists>b. c = u_strip b \<and> fits sp b)"

lemma fits_Nil: "fits sp []"
  by (simp add: fits_def count_tokens_def)

lemma flush_ok: "fits sp b \<Longrightarrow> c \<in> set (flush_chunk b) \<Longrightarrow> chunk_ok sp c"
  by (auto simp: flush_chunk_def chunk_ok_def split: if_splits)

text \<open>The list of separators ends with the empty one, so only single characters are never split further.\<close>

lemma choose_last:
  "seps \<noteq> [] \<Longrightarrow> last seps = [] \<Longrightarrow> case choose_separator d seps s of (sep, finer) \<Rightarrow>
     (finer = [] \<longrightarrow> sep = []) \<and> (finer \<noteq> [] \<longrightarrow> last finer = [])"
  by (induction seps) (auto split: prod.splits if_splits)

lemma split_text_ok:
  "seps \<noteq> [] \<Longrightarrow> last seps = [] \<Longrightarrow> c \<in> set (split_text sp seps s) \<Longrightarrow> chunk_ok sp c"
  "(finer = [] \<longrightarrow> (\<forall>p \<in> set ps. length p = 1)) \<Longrightarrow> (finer \<noteq> [] \<longrightarrow> last finer = []) \<Longrightarrow> fits sp buf \<Longrightarrow>
     c \<in> set (merge_pieces sp finer buf ps) \<Longrightarrow> chunk_ok sp c"
proof (induction sp seps s and sp finer buf ps rule: split_text_merge_pieces.induct)
  case (1 sp seps s)
  obtain sep finer where ch: "choose_separator (last seps) seps s = (sep, finer)" by fastforce
  then have f: "(finer = [] \<longrightarrow> sep = []) \<and> (finer \<noteq> [] \<longrightarrow> last finer = [])"
    using choose_last [OF 1(2,3), of "last seps" s] by simp
  then have p: "finer = [] \<longrightarrow> (\<forall>p \<in> set (pieces_of sep s). length p = 1)" by (auto simp: pieces_of_def)
  show ?case using 1(1) f p fits_Nil 1(4) unfolding ch by (simp add: split_text.simps ch)
next
  case (2 sp finer buf)
  then show ?case using flush_ok by simp
next
  case (3 sp finer buf p ps)
  show ?case
  proof (cases "count_tokens (sp_tokenizer sp) (buf @ p) \<le> sp_size sp")
    case True
    have "fits sp (buf @ p)" using True by (simp add: fits_def)
    then show ?thesis using 3(1) [OF True _ 3(6)] 3(5,8) True by (simp add: merge_pieces.simps)
  next
    case False
    show ?thesis
    proof (cases "sp_size sp < count_tokens (sp_tokenizer sp) p \<and> finer \<noteq> []")
      case big: True
      have "c \<in> set (flush_chunk buf) \<or> c \<in> set (split_text sp finer p) \<or> c \<in> set (merge_pieces sp finer [] ps)"
        using 3(8) False big by (simp add: merge_pieces.simps)
      then show ?thesis
        using flush_ok [OF 3(7)] 3(2) [OF False big] 3(3) [OF False big _ 3(6) fits_Nil] 3(6) big by blast
    next
      case small: False
      have "fits sp p" using small 3(5) by (auto simp: fits_def)
      moreover have "c \<in> set (flush_chunk buf) \<or> c \<in> set (merge_pieces sp finer p ps)"
        using 3(8) False small by (auto simp: merge_pieces.simps)
      ultimately show ?thesis using flush_ok [OF 3(7)] 3(4) [OF False small _ 3(6)] 3(5) by auto
    qed
  qed
qed

lemma separators_last: "last SEPARATORS = []"
  by (simp add: SEPARATORS_def)

lemma split_oversized_ok: "u_strip s = s \<Longrightarrow> c \<in> set (split_oversized sp s) \<Longrightarrow> chunk_ok sp c"
  using split_text_ok(1) [OF separators_solid(1) separators_last, of c sp s]
  by (auto simp: split_oversized_def chunk_ok_def fits_def split: if_splits intro!: exI [of _ s])

text \<open>An overlapping chunk is the end of some chunk before a chunk.\<close>

definition overlapped :: "splitter \<Rightarrow> utext \<Rightarrow> bool" where
  "overlapped sp c \<longleftrightarrow> (\<exists>prev core. c = take_tail_tokens (sp_tokenizer sp) prev (sp_overlap sp) @ core \<and> chunk_ok sp core) \<or> chunk_ok sp c"

lemma with_overlap_ok:
  assumes "\<And>c. c \<in> set cs \<Longrightarrow> chunk_ok sp c" "c \<in> set (with_overlap sp cs)"
  shows "overlapped sp c"
proof -
  have later: "c \<in> set (overlap_from sp prev cs) \<Longrightarrow> (\<And>c. c \<in> set cs \<Longrightarrow> chunk_ok sp c) \<Longrightarrow> overlapped sp c" for prev cs
    by (induction cs arbitrary: prev) (auto simp: overlapped_def)
  show ?thesis
  proof (cases cs)
    case (Cons d ds)
    then have "c = d \<or> c \<in> set (overlap_from sp d ds) \<or> c \<in> set cs"
      using assms(2) by (auto simp: with_overlap_def apply_overlap_def split: if_splits)
    then show ?thesis using later [of d ds] assms(1) Cons by (auto simp: overlapped_def)
  qed (use assms(2) in \<open>simp add: with_overlap_def apply_overlap_def\<close>)
qed

lemma u_strip_length: "length (u_strip s) \<le> length s"
  unfolding u_strip_def using u_rstrip_length u_lstrip_length le_trans by blast

lemma dropWhile_idem: "dropWhile P (dropWhile P s) = dropWhile P s"
  by (induction s) auto

lemma u_strip_idem: "u_strip (u_strip s) = u_strip s"
proof -
  let ?t = "u_strip s"
  have r: "u_rstrip (u_rstrip x) = u_rstrip x" for x by (simp add: u_rstrip_def dropWhile_idem)
  have "u_lstrip ?t = ?t"
  proof (cases "?t = []")
    case False
    then have "u_lstrip s \<noteq> []" by (auto simp: u_strip_def u_rstrip_def)
    moreover have "hd ?t = hd (u_lstrip s)"
      using False unfolding u_strip_def by (metis hd_append2 u_rstrip_split)
    ultimately have "\<not> u_space (hd ?t)" using u_lstrip_hd by simp
    then show ?thesis using False unfolding u_lstrip_def by (cases ?t) auto
  qed (simp add: u_lstrip_def)
  then show ?thesis unfolding u_strip_def [of ?t] by (simp add: u_strip_def r)
qed

lemma sections_stripped: "x \<in> set (markdown_sections s) \<Longrightarrow> u_strip x = x"
proof -
  have "x \<in> set (sections_from s is) \<Longrightarrow> u_strip x = x" for "is"
    by (induction s "is" rule: sections_from.induct) (auto simp: u_strip_idem)
  then show "x \<in> set (markdown_sections s) \<Longrightarrow> u_strip x = x"
    by (auto simp: markdown_sections_def Let_def u_strip_idem split: if_splits)
qed

lemma split_document_ok: "c \<in> set (split_document sp s) \<Longrightarrow> overlapped sp c"
  using with_overlap_ok [OF split_oversized_ok [OF sections_stripped]]
    with_overlap_ok [OF split_text_ok(1) [OF separators_solid(1) separators_last]]
  by (fastforce simp: split_document_def split: if_splits)

text \<open>C31: With the fallback counter no chunk, its overlap included, counts more tokens than the chunk size and the
  overlap together.\<close>

theorem chunks_bounded:
  "list_all (\<lambda>c. count_tokens char_tokenizer c \<le> max 1 (sp_size sp) + sp_overlap sp)
     (split_document (sp\<lparr>sp_tokenizer := char_tokenizer\<rparr>) s)"
proof (unfold list_all_iff, rule ballI)
  let ?sp = "sp\<lparr>sp_tokenizer := char_tokenizer\<rparr>"
  fix c assume "c \<in> set (split_document ?sp s)"
  then have c: "overlapped ?sp c" by (rule split_document_ok)
  have core: "length d \<le> 4 * max 1 (sp_size sp) + 3" if d: "chunk_ok ?sp d" for d
  proof -
    obtain b where b: "d = u_strip b" "fits ?sp b" using d by (auto simp: chunk_ok_def)
    have "length b \<le> 4 * max 1 (sp_size sp) + 3"
      using b(2) by (auto simp: fits_def count_tokens_def char_tokenizer_def split: if_splits)
    then show ?thesis using u_strip_length [of b] b(1) by simp
  qed
  have tail: "length (take_tail_tokens char_tokenizer p n) \<le> 4 * n" for p n
    by (simp add: take_tail_tokens_def char_tokenizer_def)
  have "length c \<le> 4 * sp_overlap sp + (4 * max 1 (sp_size sp) + 3)"
    using c core tail [of _ "sp_overlap sp"] by (fastforce simp: overlapped_def intro: add_mono)
  then show "count_tokens char_tokenizer c \<le> max 1 (sp_size sp) + sp_overlap sp"
    by (auto simp: count_tokens_def char_tokenizer_def)
qed

text \<open>
  The mark of a heading stays with the text before it, and the last chunk gets a mark of its own: a
  document of a line and one heading becomes two chunks that both end with a hash.
\<close>

lemma heading_mark_moves:
  "split_document \<lparr>sp_size = 1, sp_overlap = 0, sp_tokenizer = char_tokenizer\<rparr> (u ''aaaa'' @ [10, 35, 32] @ u ''bbbb'')
     = [u ''aaaa'' @ [10, 35], u ''bbbb'' @ [10, 35]]"
proof -
  let ?t = "[97, 97, 97, 97, 10, 35, 32, 98, 98, 98, 98] :: utext"
  let ?sp = "\<lparr>sp_size = 1, sp_overlap = 0, sp_tokenizer = char_tokenizer\<rparr>"
  have u: "u ''aaaa'' = [97, 97, 97, 97]" "u ''bbbb'' = [98, 98, 98, 98]" by (simp_all add: u_def)
  have "heading_starts 0 True ?t = [5]"
    by (simp add: heading_length_def u_space_def NL_def)
  then have md: "markdown_sections ?t = []" by (simp add: markdown_sections_def)
  have "split_text ?sp SEPARATORS ?t = [[97, 97, 97, 97, 10, 35], [98, 98, 98, 98, 10, 35]]"
    by (simp add: split_text.simps merge_pieces.simps SEPARATORS_def pieces_of_def count_tokens_def char_tokenizer_def
        flush_chunk_def u_strip_def u_lstrip_def u_rstrip_def u_space_def)
  then show ?thesis
    by (simp add: u md split_document_def with_overlap_def not_blank_def u_strip_def u_lstrip_def u_rstrip_def u_space_def)
qed

end
