(* ===== verification/Retrieval.thy ===== *)
theory Retrieval
  imports Splitter Floats
begin

text \<open>
  From the hits of the searches to the evidence of a turn: fusion and deduplication (\<open>rag/fusion.py\<close>), the
  limits, the relevance gate and the context pack (\<open>rag/rag_service.py\<close>), the packing into a token budget
  (\<open>rag/prompts.py\<close>) and the budget itself (\<open>rag/budget.py\<close>). The two searches, the reranker, the
  tokenizer and the hashes of chunks are parameters. Word characters outside ASCII and the scripts
  listed below, the trace of candidates, the texts of a prompt and the listing of documents are left out.
\<close>

section \<open>Hits\<close>

text \<open>A missing id in the payload is the empty text; \<open>hi_text\<close> is \<open>text or content\<close>.\<close>

record hit =
  hi_id :: utext
  hi_score :: rat
  hi_rerank :: "rat option"
  hi_kb :: utext
  hi_document :: utext
  hi_chunk :: utext
  hi_text :: utext
  hi_tag :: string
  hi_channels :: "(string, nat \<times> rat) dict"

definition effective_score :: "hit \<Rightarrow> rat" where
  "effective_score h = (case hi_rerank h of None \<Rightarrow> hi_score h | Some s \<Rightarrow> s)"

text \<open>\<open>setdefault\<close> of the knowledge base and the channel.\<close>

definition tag_kb :: "utext \<Rightarrow> hit list \<Rightarrow> hit list" where
  "tag_kb kb hits = map (\<lambda>h. h\<lparr>hi_kb := (if hi_kb h = [] then kb else hi_kb h),
     hi_tag := (if hi_tag h = [] then ''dense'' else hi_tag h)\<rparr>) hits"

section \<open>Reciprocal rank fusion\<close>

text \<open>Ranks start at one; the payload of the first list that has a hit stays.\<close>

definition rrf_add :: "int \<Rightarrow> (utext, hit) dict \<Rightarrow> nat \<times> hit \<Rightarrow> (utext, hit) dict" where
  "rrf_add k acc rh =
     (case rh of (rank, h) \<Rightarrow>
        let old = (case dict_get acc (hi_id h) of
                     Some x \<Rightarrow> x
                   | None \<Rightarrow> h\<lparr>hi_score := 0, hi_rerank := None, hi_channels := []\<rparr>);
            tag = (if hi_tag h = [] then ''unknown'' else hi_tag h) in
        dict_set (hi_id h)
          (old\<lparr>hi_score := fadd (hi_score old) (fdiv 1 (float_of_int (k + int rank))),
               hi_channels := dict_set tag (rank, hi_score h) (hi_channels old)\<rparr>) acc)"

definition enumerate_from_1 :: "'a list \<Rightarrow> (nat \<times> 'a) list" where
  "enumerate_from_1 xs = zip [1..<length xs + 1] xs"

definition rrf_fuse :: "hit list list \<Rightarrow> int \<Rightarrow> hit list" where
  "rrf_fuse ranked k =
     sort_key (\<lambda>h. - hi_score h)
       (map snd (foldl (\<lambda>acc hits. foldl (rrf_add k) acc (enumerate_from_1 hits)) [] ranked))"

section \<open>Near duplicates\<close>

definition is_cjk :: "nat \<Rightarrow> bool" where
  "is_cjk c \<longleftrightarrow> (0x3400 \<le> c \<and> c \<le> 0x4DBF) \<or> (0x4E00 \<le> c \<and> c \<le> 0x9FFF) \<or> (0x3040 \<le> c \<and> c \<le> 0x30FF) \<or> (0xAC00 \<le> c \<and> c \<le> 0xD7AF)"

definition is_word :: "nat \<Rightarrow> bool" where
  "is_word c \<longleftrightarrow> u_letter c \<or> u_digit c \<or> c = 95"

text \<open>The maximal runs of a class of characters.\<close>

function runs_of :: "(nat \<Rightarrow> bool) \<Rightarrow> utext \<Rightarrow> utext list" where
  "runs_of p [] = []"
| "runs_of p (c # s) =
     (if p c then (c # takeWhile p s) # runs_of p (dropWhile p s) else runs_of p s)"
  by pat_completeness auto
termination
  by (relation "measure (\<lambda>(p, s). length s)") (auto simp: le_imp_less_Suc length_dropWhile_le)

definition bigrams :: "utext \<Rightarrow> utext list" where
  "bigrams r = (if length r = 1 then [r] else map (\<lambda>i. take 2 (drop i r)) [0..<length r - 1])"

definition word_set :: "utext \<Rightarrow> utext list" where
  "word_set s =
     (let v = u_lower s in
      remdups (filter (\<lambda>w. 1 < length w \<or> list_all u_digit w) (runs_of is_word v)
        @ concat (map bigrams (runs_of is_cjk v))))"

definition too_similar :: "rat \<Rightarrow> utext list \<Rightarrow> utext list \<Rightarrow> bool" where
  "too_similar threshold ws ks \<longleftrightarrow>
     (let inter = length (filter (\<lambda>w. w \<in> set ks) ws); un = length ws + length ks - inter in
      threshold \<le> fdiv (of_nat inter) (of_nat (if un = 0 then 1 else un)))"

fun compress_loop :: "rat \<Rightarrow> utext list list \<Rightarrow> hit list \<Rightarrow> hit list" where
  "compress_loop t kept [] = []"
| "compress_loop t kept (h # hs) =
     (let ws = word_set (hi_text h) in
      if ws = [] \<or> list_ex (too_similar t ws) kept then compress_loop t kept hs
      else h # compress_loop t (kept @ [ws]) hs)"

definition JACCARD_THRESHOLD :: rat where "JACCARD_THRESHOLD = fl64 (85 / 100)"

definition compress_context :: "hit list \<Rightarrow> hit list" where
  "compress_context hits = compress_loop JACCARD_THRESHOLD [] hits"

section \<open>Limits\<close>

record rag_settings =
  rg_hybrid :: bool
  rg_candidates :: int
  rg_max_fused :: int
  rg_per_document :: int
  rg_rrf_k :: int
  rg_dedup :: bool
  rg_min_score :: rat
  rg_context_tokens :: int
  rg_overfetch :: int
  rg_top_k :: int
  rg_max_per_kb :: int

record kb_config =
  kc_id :: utext
  kc_top_k :: "int option"
  kc_threshold :: "rat option"
  kc_rerank :: "bool option"

record kb_retrieval =
  kx_top_k :: int
  kx_threshold :: rat
  kx_rerank :: "bool option"

definition positive_int :: "int option \<Rightarrow> int \<Rightarrow> int" where
  "positive_int v d = (case v of None \<Rightarrow> d | Some n \<Rightarrow> if 0 < n then n else d)"

definition nonneg_float :: "rat option \<Rightarrow> rat \<Rightarrow> rat" where
  "nonneg_float v d = (case v of None \<Rightarrow> d | Some x \<Rightarrow> if 0 \<le> x then x else d)"

definition from_kb :: "rag_settings \<Rightarrow> kb_config \<Rightarrow> kb_retrieval" where
  "from_kb rg kb =
     (let k = positive_int (kc_top_k kb) (rg_top_k rg) in
      \<lparr>kx_top_k = (if 0 < rg_max_per_kb rg then min k (rg_max_per_kb rg) else k),
        kx_threshold = nonneg_float (kc_threshold kb) (rg_min_score rg), kx_rerank = kc_rerank kb\<rparr>)"

definition threshold_of :: "(utext, kb_retrieval) dict \<Rightarrow> rat \<Rightarrow> hit \<Rightarrow> rat" where
  "threshold_of ks d h = (case dict_get ks (hi_kb h) of None \<Rightarrow> d | Some x \<Rightarrow> kx_threshold x)"

fun cap_kb_loop :: "(utext, kb_retrieval) dict \<Rightarrow> (utext, int) dict \<Rightarrow> hit list \<Rightarrow> hit list" where
  "cap_kb_loop ks seen [] = []"
| "cap_kb_loop ks seen (h # hs) =
     (case dict_get ks (hi_kb h) of
        None \<Rightarrow> h # cap_kb_loop ks seen hs
      | Some x \<Rightarrow>
          let n = dict_get_or seen (hi_kb h) 0 + 1; seen1 = dict_set (hi_kb h) n seen in
          if kx_top_k x < n then cap_kb_loop ks seen1 hs else h # cap_kb_loop ks seen1 hs)"

definition cap_per_kb :: "(utext, kb_retrieval) dict \<Rightarrow> hit list \<Rightarrow> hit list" where
  "cap_per_kb ks hits = (if ks = [] then hits else cap_kb_loop ks [] hits)"

text \<open>A hit without a document counts on its own.\<close>

definition document_key :: "hit \<Rightarrow> utext" where
  "document_key h = (if hi_document h = [] then hi_id h else hi_document h)"

fun cap_document_loop :: "int \<Rightarrow> (utext, int) dict \<Rightarrow> hit list \<Rightarrow> hit list" where
  "cap_document_loop limit counts [] = []"
| "cap_document_loop limit counts (h # hs) =
     (let n = dict_get_or counts (document_key h) 0 in
      if limit \<le> n then cap_document_loop limit counts hs
      else h # cap_document_loop limit (dict_set (document_key h) (n + 1) counts) hs)"

definition cap_per_document :: "int \<Rightarrow> hit list \<Rightarrow> hit list" where
  "cap_per_document limit hits = (if limit \<le> 0 then hits else cap_document_loop limit [] hits)"

section \<open>The token budget\<close>

definition CONTEXT_BUDGET_RATIO :: rat where "CONTEXT_BUDGET_RATIO = fl64 (8 / 10)"
definition MIN_CONTEXT_BUDGET :: int where "MIN_CONTEXT_BUDGET = 256"

record budget_breakdown =
  bb_window :: int
  bb_available :: int
  bb_budget :: int
  bb_fallback :: bool

text \<open>The reserves for system text, question, output and tools, each at least zero.\<close>

definition compute_context_budget :: "int option \<Rightarrow> int list \<Rightarrow> int \<Rightarrow> int \<Rightarrow> rat \<Rightarrow> budget_breakdown" where
  "compute_context_budget window reserves fallback hard_ceiling ratio =
     (let total_reserved = (\<Sum>r\<leftarrow>reserves. max 0 r); ceil = max 0 hard_ceiling in
      case window of
        None \<Rightarrow> \<lparr>bb_window = 0, bb_available = 0, bb_budget = max 0 fallback, bb_fallback = True\<rparr>
      | Some w \<Rightarrow>
          if w \<le> 0 then \<lparr>bb_window = 0, bb_available = 0, bb_budget = max 0 fallback, bb_fallback = True\<rparr>
          else let available = max 0 (w - total_reserved);
                   b0 = \<lfloor>fmul (float_of_int available) (max 0 (min 1 ratio))\<rfloor>;
                   b1 = (if 0 < ceil then min b0 ceil else b0);
                   b2 = (if 0 < b1 \<and> b1 < MIN_CONTEXT_BUDGET then max 0 fallback else b1) in
            \<lparr>bb_window = w, bb_available = available, bb_budget = b2, bb_fallback = False\<rparr>)"

section \<open>Packing into the budget\<close>

definition MIN_KEEP_TOKENS :: int where "MIN_KEEP_TOKENS = 64"

text \<open>The longest fitting prefix, by a binary search on its length between \<open>low\<close> and \<open>high\<close>.\<close>

function head_search :: "tokenizer \<Rightarrow> utext \<Rightarrow> int \<Rightarrow> nat \<Rightarrow> nat \<Rightarrow> nat" where
  "head_search counter s budget low high =
     (if low < high
      then let mid = (low + high + 1) div 2 in
        if int (count_tokens counter (take mid s)) \<le> budget then head_search counter s budget mid high
        else head_search counter s budget low (mid - 1)
      else low)"
  by pat_completeness auto
termination by (relation "measure (\<lambda>(c, s, b, low, high). high - low)") auto

declare head_search.simps [simp del]

definition head_to_tokens :: "tokenizer \<Rightarrow> utext \<Rightarrow> int \<Rightarrow> utext" where
  "head_to_tokens counter s budget =
     (if budget \<le> 0 \<or> s = [] \<or> int (count_tokens counter s) \<le> budget then s else take (head_search counter s budget 0 (length s)) s)"

fun fit_loop :: "tokenizer \<Rightarrow> int \<Rightarrow> int \<Rightarrow> hit list \<Rightarrow> hit list" where
  "fit_loop counter budget used [] = []"
| "fit_loop counter budget used (h # hs) =
     (let cost = int (count_tokens counter (hi_text h)); remaining = budget - used in
      if used + cost \<le> budget then h # fit_loop counter budget (used + cost) hs
      else if MIN_KEEP_TOKENS \<le> remaining \<and> hi_text h \<noteq> []
      then [h\<lparr>hi_text := head_to_tokens counter (hi_text h) remaining\<rparr>] else [])"

definition fit_context :: "tokenizer \<Rightarrow> int \<Rightarrow> hit list \<Rightarrow> int option \<Rightarrow> hit list" where
  "fit_context counter setting hits max_tokens =
     (let budget = (case max_tokens of Some n \<Rightarrow> n | None \<Rightarrow> setting) in
      if hits = [] \<or> budget \<le> 0 then hits else fit_loop counter budget 0 hits)"

section \<open>The retrieval\<close>

text \<open>
  What each knowledge base answers for a number of candidates: the hits by keywords and by meaning;
  \<open>None\<close> is an exception, which leaves the other channel alone.
\<close>

type_synonym search = "kb_config \<Rightarrow> int \<Rightarrow> hit list option"

record gathered =
  ga_dense :: "hit list"
  ga_keyword :: "hit list"
  ga_settings :: "(utext, kb_retrieval) dict"
  ga_fallbacks :: "string list"

definition fetch_count :: "rag_settings \<Rightarrow> bool \<Rightarrow> int \<Rightarrow> kb_retrieval \<Rightarrow> int" where
  "fetch_count rg hybrid overfetch ks =
     (if hybrid then max (kx_top_k ks) (positive_int (Some (rg_candidates rg)) 30) else kx_top_k ks * max 1 overfetch)"

definition gather_kb :: "rag_settings \<Rightarrow> bool \<Rightarrow> int \<Rightarrow> search \<Rightarrow> search \<Rightarrow> gathered \<Rightarrow> kb_config \<Rightarrow> gathered" where
  "gather_kb rg hybrid overfetch keyword dense g kb =
     (let ks = from_kb rg kb; n = fetch_count rg hybrid overfetch ks;
          g1 = g\<lparr>ga_settings := dict_set (kc_id kb) ks (ga_settings g)\<rparr>;
          g2 = (if \<not> hybrid then g1
                else case keyword kb n of
                    None \<Rightarrow> g1\<lparr>ga_fallbacks := ga_fallbacks g1 @ [''keyword_failed'']\<rparr>
                  | Some hs \<Rightarrow> g1\<lparr>ga_keyword := ga_keyword g1 @ tag_kb (kc_id kb) hs\<rparr>) in
      case dense kb n of
        None \<Rightarrow> g2\<lparr>ga_fallbacks := ga_fallbacks g2 @ [''dense_failed'']\<rparr>
      | Some hs \<Rightarrow> g2\<lparr>ga_dense := ga_dense g2 @ tag_kb (kc_id kb) hs\<rparr>)"

definition gather :: "rag_settings \<Rightarrow> bool \<Rightarrow> int \<Rightarrow> search \<Rightarrow> search \<Rightarrow> kb_config list \<Rightarrow> gathered" where
  "gather rg hybrid overfetch keyword dense kbs =
     foldl (gather_kb rg hybrid overfetch keyword dense)
       \<lparr>ga_dense = [], ga_keyword = [], ga_settings = [], ga_fallbacks = []\<rparr> kbs"

text \<open>The reranker orders a list anew and gives scores; \<open>None\<close> is the one that does nothing.\<close>

type_synonym reranker = "(hit list \<Rightarrow> hit list) option"

definition rank_hits :: "rag_settings \<Rightarrow> bool \<Rightarrow> reranker \<Rightarrow> gathered \<Rightarrow> hit list" where
  "rank_hits rg hybrid rerank g =
     (let fused = (if hybrid then rrf_fuse [ga_dense g, ga_keyword g] (rg_rrf_k rg) else ga_dense g);
          cut = take (nat (positive_int (Some (rg_max_fused rg)) 60)) fused in
      case rerank of
        Some f \<Rightarrow> if list_all (\<lambda>x. kx_rerank x = Some False) (map snd (ga_settings g)) \<and> ga_settings g \<noteq> [] \<or> cut = []
                   then cut else f cut
      | None \<Rightarrow> cut)"

text \<open>\<open>xs[:n]\<close>, which counts from the end for a negative \<open>n\<close>.\<close>

definition py_take :: "int \<Rightarrow> 'a list \<Rightarrow> 'a list" where
  "py_take n xs = take (nat (if n < 0 then int (length xs) + n else n)) xs"

text \<open>Duplicates, the limits per base and per document, the request's own limit, and the relevance gate.\<close>

definition select_hits :: "rag_settings \<Rightarrow> int \<Rightarrow> (utext, kb_retrieval) dict \<Rightarrow> hit list \<Rightarrow> hit list" where
  "select_hits rg caller_top_k ks ranked =
     (let h1 = (if rg_dedup rg then compress_context ranked else ranked);
          h2 = (if caller_top_k = 0 then cap_per_kb ks h1 else h1);
          h3 = cap_per_document (positive_int (Some (rg_per_document rg)) 3) h2;
          final_k = (if caller_top_k \<noteq> 0 then caller_top_k else (\<Sum>x\<leftarrow>map snd ks. kx_top_k x)) in
      filter (\<lambda>h. threshold_of ks (rg_min_score rg) h \<le> effective_score h) (py_take final_k h3))"

text \<open>The pack: its hits, the budget, and whether the evidence is insufficient.\<close>

record context_pack =
  cp_hits :: "hit list"
  cp_budget :: int
  cp_insufficient :: bool

definition retrieve ::
  "rag_settings \<Rightarrow> bool \<Rightarrow> reranker \<Rightarrow> search \<Rightarrow> search \<Rightarrow> tokenizer \<Rightarrow> int \<Rightarrow> int option \<Rightarrow> kb_config list \<Rightarrow> context_pack" where
  "retrieve rg exact_match rerank keyword dense counter caller_top_k context_budget kbs =
     (let hybrid = (rg_hybrid rg \<or> exact_match);
          overfetch = (if rerank = None then 1 else rg_overfetch rg);
          g = gather rg hybrid overfetch keyword dense kbs;
          ranked = rank_hits rg hybrid rerank g;
          hits = select_hits rg caller_top_k (ga_settings g) ranked;
          budget = bb_budget (compute_context_budget None [0, 0, 0, 0]
            (case context_budget of Some n \<Rightarrow> n | None \<Rightarrow> rg_context_tokens rg) 0 CONTEXT_BUDGET_RATIO);
          packed = fit_context counter (rg_context_tokens rg) hits (if budget = 0 then None else Some budget) in
      if kbs = [] then \<lparr>cp_hits = [], cp_budget = 0, cp_insufficient = False\<rparr>
      else if hits = [] \<or> packed = [] then \<lparr>cp_hits = [], cp_budget = 0, cp_insufficient = True\<rparr>
      else \<lparr>cp_hits = packed, cp_budget = budget, cp_insufficient = False\<rparr>)"

end
