(* ===== verification/Retrieval_Claims.thy ===== *)
theory Retrieval_Claims
  imports Retrieval
begin

text \<open>
  What the retrieval guarantees: fusion lists every hit once, by the sum of its reciprocal ranks; the pack keeps
  every limit.
\<close>

section \<open>Fusion\<close>

text \<open>The score of a hit over the ranked lists, added in the order of the lists.\<close>

definition rrf_term :: "int \<Rightarrow> utext \<Rightarrow> rat \<Rightarrow> nat \<times> hit \<Rightarrow> rat" where
  "rrf_term k i s rh = (if hi_id (snd rh) = i then fadd s (fdiv 1 (float_of_int (k + int (fst rh)))) else s)"

definition rrf_score :: "hit list list \<Rightarrow> int \<Rightarrow> utext \<Rightarrow> rat" where
  "rrf_score ranked k i = foldl (rrf_term k i) 0 (concat (map enumerate_from_1 ranked))"

definition fused :: "int \<Rightarrow> (nat \<times> hit) list \<Rightarrow> (utext, hit) dict" where
  "fused k rhs = foldl (rrf_add k) [] rhs"

lemma rrf_fuse_fused: "rrf_fuse ranked k = sort_key (\<lambda>h. - hi_score h) (map snd (fused k (concat (map enumerate_from_1 ranked))))"
proof -
  have "foldl (\<lambda>acc hits. foldl (rrf_add k) acc (enumerate_from_1 hits)) acc ranked
      = foldl (rrf_add k) acc (concat (map enumerate_from_1 ranked))" for acc
    by (induction ranked arbitrary: acc) auto
  then show ?thesis by (simp add: rrf_fuse_def fused_def)
qed

lemma rrf_term_absent: "i \<notin> (hi_id \<circ> snd) ` set rhs \<Longrightarrow> foldl (rrf_term k i) s rhs = s"
  by (induction rhs arbitrary: s) (auto simp: rrf_term_def)

lemma rrf_term_one:
  "rrf_term k i s (rank, x) = (if hi_id x = i then fadd s (fdiv 1 (float_of_int (k + int rank))) else s)"
  by (simp add: rrf_term_def)

lemma rrf_add_get:
  "dict_get (rrf_add k d (rank, x)) i =
     (if i = hi_id x
      then Some ((case dict_get d i of Some y \<Rightarrow> y | None \<Rightarrow> x\<lparr>hi_score := 0, hi_rerank := None, hi_channels := []\<rparr>)
             \<lparr>hi_score := fadd (case dict_get d i of Some y \<Rightarrow> hi_score y | None \<Rightarrow> 0) (fdiv 1 (float_of_int (k + int rank))),
               hi_channels := dict_set (if hi_tag x = [] then ''unknown'' else hi_tag x) (rank, hi_score x)
                 (case dict_get d i of Some y \<Rightarrow> hi_channels y | None \<Rightarrow> [])\<rparr>)
      else dict_get d i)"
  by (auto simp: rrf_add_def Let_def dict_simps split: option.splits)

lemma rrf_add_keys: "distinct (dict_keys d) \<Longrightarrow> distinct (dict_keys (rrf_add k d rh))"
  by (auto simp: rrf_add_def Let_def dict_keys_distinct(1) split: prod.splits)

lemma fused_inv:
  "distinct (dict_keys (fused k rhs)) \<and> fst ` set (fused k rhs) = (hi_id \<circ> snd) ` set rhs
   \<and> (\<forall>i h. dict_get (fused k rhs) i = Some h \<longrightarrow> hi_id h = i \<and> hi_score h = foldl (rrf_term k i) 0 rhs)"
proof (induction rhs rule: rev_induct)
  case (snoc rh rhs)
  obtain rank x where rh: "rh = (rank, x)" by fastforce
  let ?d = "fused k rhs"
  have step: "fused k (rhs @ [rh]) = rrf_add k ?d (rank, x)" by (simp add: fused_def rh)
  have keys: "fst ` set (rrf_add k ?d (rank, x)) = insert (hi_id x) (fst ` set ?d)"
    by (simp add: rrf_add_def Let_def dict_simps)
  have "hi_id h = i \<and> hi_score h = foldl (rrf_term k i) 0 (rhs @ [rh])"
    if "dict_get (rrf_add k ?d (rank, x)) i = Some h" for i h
  proof (cases "i = hi_id x")
    case True
    show ?thesis
    proof (cases "dict_get ?d i")
      case None
      then have "i \<notin> (hi_id \<circ> snd) ` set rhs" using snoc by (metis map_of_eq_None_iff)
      then show ?thesis using that True None by (auto simp: rrf_add_get rh rrf_term_absent rrf_term_one)
    next
      case (Some y)
      then have "hi_id y = i" "hi_score y = foldl (rrf_term k i) 0 rhs" using snoc by blast+
      then show ?thesis using that True Some by (auto simp: rrf_add_get rh rrf_term_one)
    qed
  next
    case False
    then have "dict_get ?d i = Some h" using that by (simp add: rrf_add_get)
    then show ?thesis using False snoc by (auto simp: rh rrf_term_one)
  qed
  then show ?case using snoc keys rrf_add_keys [of ?d k "(rank, x)"] unfolding step by (auto simp: rh)
qed (simp add: fused_def)

lemma map_enumerate: "map snd (enumerate_from_1 xs) = xs"
  by (simp add: enumerate_from_1_def del: upt_Suc)

lemma set_enumerate: "snd ` set (enumerate_from_1 xs) = set xs"
  using map_enumerate [of xs] by (metis set_map)

text \<open>C32: Fusion lists every hit of the ranked lists once, the best first, and the score of each is the sum of the
  reciprocals of its ranks, added in the order of the lists.\<close>

theorem rrf_fuse_correct:
  "distinct (map hi_id (rrf_fuse ranked k))
   \<and> set (map hi_id (rrf_fuse ranked k)) = hi_id ` (\<Union>hits\<in>set ranked. set hits)
   \<and> sorted (map (\<lambda>h. - hi_score h) (rrf_fuse ranked k))
   \<and> list_all (\<lambda>h. hi_score h = rrf_score ranked k (hi_id h)) (rrf_fuse ranked k)"
proof -
  let ?rhs = "concat (map enumerate_from_1 ranked)"
  let ?d = "fused k ?rhs"
  note inv = fused_inv [of k ?rhs]
  have each: "hi_id h = i \<and> hi_score h = foldl (rrf_term k i) 0 ?rhs" if "(i, h) \<in> set ?d" for i h
    using inv that by (meson map_of_is_SomeI)
  have ids: "map hi_id (map snd ?d) = dict_keys ?d" using each by (simp add: case_prod_beta) 
  have "distinct (map hi_id (rrf_fuse ranked k))"
    using inv unfolding rrf_fuse_fused distinct_map_sort ids by blast
  moreover have "set (map hi_id (rrf_fuse ranked k)) = fst ` set ?d"
    using ids by (simp add: rrf_fuse_fused image_comp)
  moreover have "(hi_id \<circ> snd) ` set ?rhs = hi_id ` (\<Union>hits\<in>set ranked. set hits)"
  proof -
    have "snd ` set ?rhs = (\<Union>hits\<in>set ranked. set hits)" by (simp add: image_UN set_enumerate)
    then show ?thesis by (metis image_comp)
  qed
  moreover have "list_all (\<lambda>h. hi_score h = rrf_score ranked k (hi_id h)) (rrf_fuse ranked k)"
    using each unfolding rrf_fuse_fused rrf_score_def by (auto simp: list_all_iff)
  ultimately show ?thesis using inv by (simp add: rrf_fuse_fused)
qed

section \<open>The limits\<close>

definition count_of :: "('a \<Rightarrow> 'b) \<Rightarrow> 'b \<Rightarrow> 'a list \<Rightarrow> int" where
  "count_of f d xs = int (length (filter (\<lambda>x. f x = d) xs))"

lemma count_of_simps [simp]:
  "count_of f d [] = 0" "count_of f d (x # xs) = (if f x = d then 1 else 0) + count_of f d xs"
  by (simp_all add: count_of_def)

lemma count_of_nonneg [simp]: "0 \<le> count_of f d xs"
  by (simp add: count_of_def)

lemma count_of_subseq: "subseq xs ys \<Longrightarrow> count_of f d xs \<le> count_of f d ys"
  unfolding count_of_def using list_emb_length subseq_filter by (metis of_nat_mono)

text \<open>The text of a hit is the only thing packing changes.\<close>

definition erase :: "hit \<Rightarrow> hit" where
  "erase h = h\<lparr>hi_text := []\<rparr>"

lemma erase_keeps [simp]:
  "document_key (erase h) = document_key h" "hi_kb (erase h) = hi_kb h" "effective_score (erase h) = effective_score h"
  "threshold_of ks d (erase h) = threshold_of ks d h" "hi_id (erase h) = hi_id h"
  by (simp_all add: erase_def document_key_def effective_score_def threshold_of_def split: option.splits)

lemma count_of_erase:
  "(\<And>h. f (erase h) = f h) \<Longrightarrow> count_of f d (map erase hs) = count_of f d hs"
  by (induction hs) simp_all

lemma cap_document_subseq: "subseq (cap_document_loop limit counts hs) hs"
  by (induction limit counts hs rule: cap_document_loop.induct) (auto simp: Let_def)

lemma cap_kb_subseq: "subseq (cap_kb_loop ks seen hs) hs"
  by (induction ks seen hs rule: cap_kb_loop.induct) (auto simp: Let_def split: option.splits)

lemma cap_document_bound:
  "count_of document_key d (cap_document_loop limit counts hs) + dict_get_or counts d 0 \<le> max limit (dict_get_or counts d 0)"
proof (induction limit counts hs rule: cap_document_loop.induct)
  case (2 limit counts h hs)
  show ?case
  proof (cases "limit \<le> dict_get_or counts (document_key h) 0")
    case True
    then show ?thesis using 2(1) [OF refl] by simp
  next
    case False
    then show ?thesis using 2(2) [OF refl False] by (auto simp: Let_def dict_simps split: if_splits)
  qed
qed simp

lemma cap_kb_bound:
  "dict_get ks d = Some x \<Longrightarrow>
     count_of hi_kb d (cap_kb_loop ks seen hs) + dict_get_or seen d 0 \<le> max (kx_top_k x) (dict_get_or seen d 0)"
proof (induction ks seen hs rule: cap_kb_loop.induct)
  case (2 ks seen h hs)
  show ?case
  proof (cases "dict_get ks (hi_kb h)")
    case None
    then show ?thesis using 2(1) [OF None 2(4)] 2(4) by auto
  next
    case (Some y)
    then show ?thesis using 2(2) [OF Some refl refl _ 2(4)] 2(3) [OF Some refl refl _ 2(4)] 2(4)
      by (cases "kx_top_k y < dict_get_or seen (hi_kb h) 0 + 1") (auto simp: Let_def dict_simps split: if_splits)
  qed
qed simp

section \<open>Packing\<close>

lemma head_search_fits:
  "low \<le> high \<Longrightarrow> int (count_tokens tk (take low s)) \<le> budget \<Longrightarrow>
     int (count_tokens tk (take (head_search tk s budget low high) s)) \<le> budget"
proof (induction tk s budget low high rule: head_search.induct)
  case (1 tk s budget low high)
  show ?case
  proof (cases "low < high")
    case True
    let ?mid = "(low + high + 1) div 2"
    show ?thesis
    proof (cases "int (count_tokens tk (take ?mid s)) \<le> budget")
      case fits: True
      then have "int (count_tokens tk (take (head_search tk s budget ?mid high) s)) \<le> budget"
        using 1(1) [OF True refl fits] True by simp
      then show ?thesis using True fits by (subst head_search.simps) (simp add: Let_def)
    next
      case no: False
      then have "int (count_tokens tk (take (head_search tk s budget low (?mid - 1)) s)) \<le> budget"
        using 1(2) [OF True refl no] 1(4) True by simp
      then show ?thesis using True no by (subst head_search.simps) (simp add: Let_def)
    qed
  next
    case False
    then show ?thesis using 1(4) by (subst head_search.simps) simp
  qed
qed

lemma head_to_tokens_fits: "0 < budget \<Longrightarrow> int (count_tokens tk (head_to_tokens tk s budget)) \<le> budget"
  using head_search_fits [of 0 "length s" tk s budget] by (auto simp: head_to_tokens_def count_tokens_def)

definition pack_cost :: "tokenizer \<Rightarrow> hit list \<Rightarrow> int" where
  "pack_cost tk hs = (\<Sum>h\<leftarrow>hs. int (count_tokens tk (hi_text h)))"

lemma fit_loop_cost: "used \<le> budget \<Longrightarrow> used + pack_cost tk (fit_loop tk budget used hs) \<le> budget"
proof (induction tk budget used hs rule: fit_loop.induct)
  case (2 tk budget used h hs)
  show ?case
  proof (cases "used + int (count_tokens tk (hi_text h)) \<le> budget")
    case True
    then show ?thesis using 2(1) [OF refl refl True] by (simp add: pack_cost_def Let_def add.assoc)
  next
    case False
    have "MIN_KEEP_TOKENS \<le> budget - used \<Longrightarrow>
        int (count_tokens tk (head_to_tokens tk (hi_text h) (budget - used))) \<le> budget - used"
      by (rule head_to_tokens_fits) (simp add: MIN_KEEP_TOKENS_def)
    then show ?thesis using False 2(2) by (auto simp: pack_cost_def Let_def)
  qed
qed (simp add: pack_cost_def)

lemma fit_loop_prefix: "prefix (map erase (fit_loop tk budget used hs)) (map erase hs)"
  by (induction tk budget used hs rule: fit_loop.induct) (auto simp: Let_def erase_def)

lemma fit_context_prefix: "prefix (map erase (fit_context tk setting hs m)) (map erase hs)"
  using fit_loop_prefix by (auto simp: fit_context_def Let_def)

lemma py_take_prefix: "prefix (py_take n xs) xs"
  by (simp add: py_take_def take_is_prefix)

lemma prefix_subseq: "prefix xs ys \<Longrightarrow> subseq xs ys"
  by (auto simp: prefix_def list_emb_prefix)

lemma select_subseq:
  "subseq (select_hits rg k ks ranked) (cap_per_document (positive_int (Some (rg_per_document rg)) 3)
     (if k = 0 then cap_per_kb ks (if rg_dedup rg then compress_context ranked else ranked)
      else if rg_dedup rg then compress_context ranked else ranked))"
  unfolding select_hits_def Let_def
  using subseq_order.trans [OF subseq_filter_left prefix_subseq [OF py_take_prefix]] by blast

lemma positive_int_pos: "0 < d \<Longrightarrow> 0 < positive_int v d"
  by (auto simp: positive_int_def split: option.splits)

lemma select_documents: "count_of document_key d (select_hits rg k ks ranked) \<le> positive_int (Some (rg_per_document rg)) 3"
proof -
  let ?l = "positive_int (Some (rg_per_document rg)) 3"
  have "count_of document_key d (cap_document_loop ?l [] hs) \<le> ?l" for hs
    using cap_document_bound [of d ?l "[]" hs] positive_int_pos [of 3] by (simp add: dict_get_or_def)
  then have "count_of document_key d (cap_per_document ?l hs) \<le> ?l" for hs
    using positive_int_pos [of 3 "Some (rg_per_document rg)"] by (simp add: cap_per_document_def)
  then show ?thesis by (rule order.trans [OF count_of_subseq [OF select_subseq]])
qed

lemma select_bases:
  assumes "dict_get ks d = Some x"
  shows "count_of hi_kb d (select_hits rg 0 ks ranked) \<le> max 0 (kx_top_k x)"
proof -
  have "count_of hi_kb d (cap_per_kb ks hs) \<le> max 0 (kx_top_k x)" for hs
    using cap_kb_bound [OF assms, of "[]" hs] assms by (auto simp: cap_per_kb_def dict_get_or_def)
  moreover have "subseq (cap_per_document l hs) hs" for l hs
    by (simp add: cap_per_document_def cap_document_subseq)
  ultimately have "count_of hi_kb d (cap_per_document l (cap_per_kb ks hs)) \<le> max 0 (kx_top_k x)" for l hs
    using count_of_subseq order.trans by metis
  then show ?thesis using count_of_subseq [OF select_subseq [of rg 0 ks ranked], of hi_kb d] by (simp add: order.trans)
qed

lemma packed_count:
  "(\<And>h. f (erase h) = f h) \<Longrightarrow> count_of f d (fit_context tk s hs m) \<le> count_of f d hs"
  using count_of_subseq [OF prefix_subseq [OF fit_context_prefix], of f d tk s hs m] by (simp add: count_of_erase)

lemma packed_gate:
  assumes "\<And>h. P (erase h) = P h" "list_all P hs"
  shows "list_all P (fit_context tk s hs m)"
proof -
  have "list_all P (map erase hs)" using assms by (simp add: list_all_iff)
  then have "list_all P (map erase (fit_context tk s hs m))"
    using set_mono_prefix [OF fit_context_prefix, of tk s hs m] by (auto simp: list_all_iff)
  then show ?thesis using assms(1) by (simp add: list_all_iff)
qed

lemma packed_cost:
  "(if b = 0 then s else b) \<le> 0
   \<or> pack_cost tk (fit_context tk s hs (if b = 0 then None else Some b)) \<le> (if b = 0 then s else b)"
  using fit_loop_cost [of 0 "if b = 0 then s else b" tk hs] by (auto simp: fit_context_def Let_def pack_cost_def)


section \<open>Where the budget is exceeded\<close>

text \<open>A budget too small for a chunk is replaced by the fallback, which neither the window nor the ceiling bounds.\<close>

lemma tiny_budget_becomes_fallback:
  assumes "0 < w" "available = max 0 (w - (\<Sum>r\<leftarrow>reserves. max 0 r))"
    and "b0 = \<lfloor>fmul (float_of_int available) (max 0 (min 1 ratio))\<rfloor>" "0 < b0" "b0 < 256"
  shows "bb_budget (compute_context_budget (Some w) reserves fallback hard_ceiling ratio) = max 0 fallback"
proof -
  let ?b1 = "if 0 < max 0 hard_ceiling then min b0 (max 0 hard_ceiling) else b0"
  have w: "(w \<le> 0) = False" using assms(1) by simp
  have "0 < ?b1" "?b1 < MIN_CONTEXT_BUDGET" using assms(4,5) by (auto simp: MIN_CONTEXT_BUDGET_def less_max_iff_disj min_less_iff_disj)
  then have b: "(0 < ?b1 \<and> ?b1 < MIN_CONTEXT_BUDGET) = True" by simp
  show ?thesis
    unfolding compute_context_budget_def Let_def option.case w if_False assms(2) [symmetric] assms(3) [symmetric] b if_True
    by (simp only: budget_breakdown.select_convs)
qed

text \<open>A window that is used up gives a budget of zero, and a budget of zero is read as none: the setting applies.\<close>

lemma used_up_window_gets_setting:
  assumes "w \<le> (\<Sum>r\<leftarrow>reserves. max 0 r)" "0 < rg_context_tokens rg"
  shows "bb_budget (compute_context_budget (Some w) reserves fallback 0 ratio) = (if w \<le> 0 then max 0 fallback else 0)"
    and "cp_hits (retrieve rg exact rerank keyword dense tk k (Some 0) kbs)
      = cp_hits (retrieve rg exact rerank keyword dense tk k (Some (rg_context_tokens rg)) kbs)"
proof -
  show "bb_budget (compute_context_budget (Some w) reserves fallback 0 ratio) = (if w \<le> 0 then max 0 fallback else 0)"
    using assms(1) by (simp add: compute_context_budget_def Let_def float_of_int_def fmul_def max_absorb1 MIN_CONTEXT_BUDGET_def)
  show "cp_hits (retrieve rg exact rerank keyword dense tk k (Some 0) kbs)
      = cp_hits (retrieve rg exact rerank keyword dense tk k (Some (rg_context_tokens rg)) kbs)"
  proof -
    have b0: "bb_budget (compute_context_budget None [0, 0, 0, 0] (case Some 0 of None \<Rightarrow> rg_context_tokens rg | Some n \<Rightarrow> n) 0 CONTEXT_BUDGET_RATIO) = 0"
      and bs: "bb_budget (compute_context_budget None [0, 0, 0, 0]
        (case Some (rg_context_tokens rg) of None \<Rightarrow> rg_context_tokens rg | Some n \<Rightarrow> n) 0 CONTEXT_BUDGET_RATIO) = rg_context_tokens rg"
      using assms(2) by (simp_all add: compute_context_budget_def)
    have fc: "fit_context tk (rg_context_tokens rg) hs (if (0 :: int) = 0 then None else Some 0)
        = fit_context tk (rg_context_tokens rg) hs (if rg_context_tokens rg = 0 then None else Some (rg_context_tokens rg))" for hs
      using assms(2) by (simp add: fit_context_def)
    show ?thesis unfolding retrieve_def Let_def b0 bs fc by (simp only: if_distrib [of cp_hits] context_pack.select_convs)
  qed
qed

end
