(* ===== verification/Retrieval_Gate.thy ===== *)
theory Retrieval_Gate
  imports Retrieval_Claims Answer_Gate
begin

text \<open>
  The hand-over from the retrieval to the answer gate: the numbered items of the pack are the only sources that
  the claims of an answer can rest on.
\<close>

definition context_id :: "nat \<Rightarrow> utext" where
  "context_id i = u (''ctx-'' @ nat_str i)"

text \<open>The hashes are those of the stored chunks, by their ids.\<close>

definition hit_to_context_item :: "(utext, utext) dict \<Rightarrow> nat \<times> hit \<Rightarrow> context_item" where
  "hit_to_context_item shas ih =
     (let chunk = (if hi_chunk (snd ih) \<noteq> [] then hi_chunk (snd ih) else hi_id (snd ih)) in
      \<lparr>ci_context_id = context_id (fst ih), ci_chunk_id = chunk, ci_sha = dict_get shas chunk\<rparr>)"

definition source_index_of :: "(utext, utext) dict \<Rightarrow> hit list \<Rightarrow> source_index" where
  "source_index_of shas hits = map (\<lambda>ih. (fst ih, hit_to_context_item shas ih)) (enumerate_from_1 hits)"

lemma context_id_inject [simp]: "context_id i = context_id j \<longleftrightarrow> i = j"
proof -
  have "inj (map (of_char :: char \<Rightarrow> nat))" using inj_of_char by (simp add: inj_mapI)
  then show ?thesis by (auto simp: context_id_def u_def dest: injD)
qed

lemma item_id [simp]: "ci_context_id (hit_to_context_item shas ih) = context_id (fst ih)"
  by (simp add: hit_to_context_item_def Let_def)

lemma index_keys: "dict_keys (source_index_of shas hits) = [1..<length hits + 1]"
  by (simp add: source_index_of_def enumerate_from_1_def comp_def del: upt_Suc)

lemma index_get:
  "map_option ci_context_id (dict_get (source_index_of shas hits) n) = (if 1 \<le> n \<and> n \<le> length hits then Some (context_id n) else None)"
proof -
  have "map_option ci_context_id (dict_get (map (\<lambda>ih. (fst ih, hit_to_context_item shas ih)) ihs) n)
      = (if n \<in> fst ` set ihs then Some (context_id n) else None)" for ihs
    by (induction ihs) (force split: if_splits)+
  moreover have "map fst (enumerate_from_1 hits) = [1..<length hits + 1]"
    by (simp add: enumerate_from_1_def del: upt_Suc)
  then have "fst ` set (enumerate_from_1 hits) = set [1..<length hits + 1]" by (metis set_map)
  moreover have "n \<in> set [1..<length hits + 1] \<longleftrightarrow> 1 \<le> n \<and> n \<le> length hits" for n by auto
  ultimately show ?thesis by (simp add: source_index_of_def)
qed

lemma indexes_distinct: "distinct (claim_source_indexes s)"
  unfolding claim_source_indexes_def by (rule foldl_inv) auto

lemma evidence_of_index:
  "claim_evidence (source_index_of shas hits) s
     = map context_id (filter (\<lambda>n. 1 \<le> n \<and> n \<le> length hits) (claim_source_indexes s))"
proof -
  let ?in = "\<lambda>n. 1 \<le> n \<and> n \<le> length hits"
  let ?f = "\<lambda>ev n. case dict_get (source_index_of shas hits) n of None \<Rightarrow> ev
      | Some item \<Rightarrow> if ci_context_id item \<in> set ev then ev else ev @ [ci_context_id item]"
  have step: "?f ev n = (if ?in n \<and> context_id n \<notin> set ev then ev @ [context_id n] else ev)" for ev n
    using index_get [of shas hits n] by (auto split: option.splits if_splits)
  have "distinct ns \<Longrightarrow> foldl ?f [] ns = map context_id (filter ?in ns)" for ns
  proof (induction ns rule: rev_induct)
    case (snoc n ns)
    then have "foldl ?f [] ns = map context_id (filter ?in ns)" "n \<notin> set ns" by simp_all
    then show ?case by (auto simp: step)
  qed simp
  then show ?thesis using indexes_distinct by (simp add: claim_evidence_def)
qed

text \<open>The evidence of a claim is the items of the pack whose numbers it cites, in the order it cites them; and a claim
  is dropped as fabricated exactly when it cites a number outside the pack.\<close>

theorem claims_cite_packed_hits:
  "let idx = source_index_of shas hits in
    distinct (map (ci_context_id \<circ> snd) idx)
    \<and> list_all (\<lambda>c. cl_evidence c = map context_id (filter (\<lambda>n. 1 \<le> n \<and> n \<le> length hits) (claim_source_indexes (cl_text c)))
        \<and> fabricated idx c = list_ex (\<lambda>n. n = 0 \<or> length hits < n) (claim_source_indexes (cl_text c)))
      (build_claims answer idx)"
proof -
  let ?idx = "source_index_of shas hits"
  have "map (ci_context_id \<circ> snd) ?idx = map context_id (dict_keys ?idx)"
    by (simp add: source_index_of_def)
  then have "distinct (map (ci_context_id \<circ> snd) ?idx)"
    unfolding index_keys by (simp add: distinct_map inj_on_def del: upt_Suc)
  moreover have "cl_evidence c = claim_evidence ?idx (cl_text c)" if "c \<in> set (build_claims answer ?idx)" for c
    using that by (auto simp: build_claims_def simp del: upt_Suc)
  moreover have "fabricated ?idx c = list_ex (\<lambda>n. n = 0 \<or> length hits < n) (claim_source_indexes (cl_text c))" for c
  proof -
    have "n \<notin> set [1..<length hits + 1] \<longleftrightarrow> n = 0 \<or> length hits < n" for n by auto
    then show ?thesis by (simp add: fabricated_def index_keys del: upt_Suc)
  qed
  ultimately show ?thesis by (simp add: list_all_iff evidence_of_index)
qed

end
