(* ===== verification/Transcript.thy ===== *)
theory Transcript
  imports Utext Floats
begin

text \<open>
  The transcript a model is called with: messages as the JSON objects the backend passes around,
  their text as \<open>json.dumps\<close> writes it, and the two token estimates
  (\<open>agents/context_compaction.py\<close>, \<open>services/chat_context.py\<close>). The tokenizer of \<open>tiktoken\<close>
  is a parameter, absent when the package or the encoding is missing. Messages hold no
  floating-point numbers; object keys are ASCII.
\<close>

section \<open>JSON objects\<close>

datatype ujson = UNull | UBool bool | UInt int | UStr utext | UList "ujson list" | UDict "(string \<times> ujson) list"

type_synonym message = "(string, ujson) dict"
type_synonym tokenizer = "(utext \<Rightarrow> nat) option"

definition hex_digit :: "nat \<Rightarrow> nat" where
  "hex_digit d = (if d < 10 then 48 + d else 87 + d)"

text \<open>The escapes of a JSON string with \<open>ensure_ascii=False\<close>.\<close>

definition escape_char :: "nat \<Rightarrow> utext" where
  "escape_char c =
     (if c = 34 then [92, 34] else if c = 92 then [92, 92]
      else if c = 10 then [92, 110] else if c = 13 then [92, 114] else if c = 9 then [92, 116]
      else if c = 12 then [92, 102] else if c = 8 then [92, 98]
      else if c < 32 then [92, 117, 48, 48] @ [hex_digit (c div 16), hex_digit (c mod 16)]
      else [c])"

definition dump_str :: "utext \<Rightarrow> utext" where
  "dump_str s = [34] @ concat (map escape_char s) @ [34]"

definition int_text :: "int \<Rightarrow> utext" where
  "int_text n = (if n < 0 then u ''-'' else []) @ u (nat_str (nat \<bar>n\<bar>))"

fun dumps :: "ujson \<Rightarrow> utext" and dump_items :: "ujson list \<Rightarrow> utext" and dump_fields :: "(string \<times> ujson) list \<Rightarrow> utext" where
  "dumps UNull = u ''null''"
| "dumps (UBool b) = u (if b then ''true'' else ''false'')"
| "dumps (UInt n) = int_text n"
| "dumps (UStr s) = dump_str s"
| "dumps (UList xs) = u ''['' @ dump_items xs @ u '']''"
| "dumps (UDict d) = u ''{'' @ dump_fields d @ u ''}''"
| "dump_items [] = []"
| "dump_items [x] = dumps x"
| "dump_items (x # y # ys) = dumps x @ u '', '' @ dump_items (y # ys)"
| "dump_fields [] = []"
| "dump_fields [(k, v)] = dump_str (u k) @ u '': '' @ dumps v"
| "dump_fields ((k, v) # f # fs) = dump_str (u k) @ u '': '' @ dumps v @ u '', '' @ dump_fields (f # fs)"

section \<open>Fields of a message\<close>

definition role_is :: "string \<Rightarrow> message \<Rightarrow> bool" where
  "role_is r m \<longleftrightarrow> dict_get m ''role'' = Some (UStr (u r))"

text \<open>An identifier that counts: a string that is not empty.\<close>

definition usable_id :: "ujson option \<Rightarrow> utext option" where
  "usable_id v = (case v of Some (UStr s) \<Rightarrow> if s = [] then None else Some s | _ \<Rightarrow> None)"

definition tool_calls_of :: "message \<Rightarrow> ujson list" where
  "tool_calls_of m = (case dict_get m ''tool_calls'' of Some (UList calls) \<Rightarrow> calls | _ \<Rightarrow> [])"

definition call_ids :: "message \<Rightarrow> utext list" where
  "call_ids m =
     List.map_filter (\<lambda>tc. case tc of UDict d \<Rightarrow> usable_id (dict_get d ''id'') | _ \<Rightarrow> None) (tool_calls_of m)"

definition result_id :: "message \<Rightarrow> utext option" where
  "result_id m = usable_id (dict_get m ''tool_call_id'')"

section \<open>Estimates\<close>

definition is_cjk :: "nat \<Rightarrow> bool" where
  "is_cjk c \<longleftrightarrow> 19968 \<le> c \<and> c \<le> 40959"

definition ascii_words :: "utext \<Rightarrow> nat" where
  "ascii_words s = length (filter (\<lambda>w. u_strip w \<noteq> []) (split_char 32 (map (\<lambda>c. if c = 10 then 32 else c) s)))"

text \<open>\<open>estimate_tokens\<close>\<close>

definition estimate_tokens :: "tokenizer \<Rightarrow> utext \<Rightarrow> int" where
  "estimate_tokens tik s =
     (if s = [] then 0
      else case tik of Some count \<Rightarrow> int (count s)
      | None \<Rightarrow> int (length (filter is_cjk s)) + \<lfloor>fmul (float_of_int (int (ascii_words s))) (fl64 (133 / 100))\<rfloor> + 1)"

definition estimate_part :: "tokenizer \<Rightarrow> ujson \<Rightarrow> int" where
  "estimate_part tik part =
     (case part of UDict d \<Rightarrow> (case dict_get d ''text'' of Some (UStr s) \<Rightarrow> estimate_tokens tik s | _ \<Rightarrow> 0) | _ \<Rightarrow> 0)"

definition content_tokens :: "tokenizer \<Rightarrow> message \<Rightarrow> int" where
  "content_tokens tik m =
     (case dict_get m ''content'' of
        Some (UStr s) \<Rightarrow> estimate_tokens tik s
      | Some (UList parts) \<Rightarrow> (\<Sum>part\<leftarrow>parts. estimate_part tik part)
      | _ \<Rightarrow> 0)"

definition estimate_messages_tokens :: "tokenizer \<Rightarrow> message list \<Rightarrow> int" where
  "estimate_messages_tokens tik ms = (\<Sum>m\<leftarrow>ms. content_tokens tik m)"

text \<open>The estimate of the chat service, over the serialized message; an image counts a fixed reserve.\<close>

definition chat_estimate :: "tokenizer \<Rightarrow> utext \<Rightarrow> int" where
  "chat_estimate enc s =
     (if s = [] then 0 else case enc of Some count \<Rightarrow> int (count s) | None \<Rightarrow> max 1 (int (length s) div 4))"

definition is_image :: "ujson \<Rightarrow> bool" where
  "is_image part = (case part of UDict d \<Rightarrow> dict_get d ''type'' = Some (UStr (u ''image_url'')) | _ \<Rightarrow> False)"

definition serialized_part :: "ujson \<Rightarrow> ujson option" where
  "serialized_part part =
     (if is_image part then Some (UDict [(''type'', UStr (u ''image_url''))])
      else case part of UDict d \<Rightarrow> Some part | _ \<Rightarrow> None)"

definition estimate_message_tokens :: "tokenizer \<Rightarrow> message \<Rightarrow> int" where
  "estimate_message_tokens enc m =
     (case dict_get m ''content'' of
        Some (UList parts) \<Rightarrow>
          chat_estimate enc (dumps (UDict (dict_set ''content'' (UList (List.map_filter serialized_part parts)) m)))
            + int (length (filter is_image parts)) * 1024
      | _ \<Rightarrow> chat_estimate enc (dumps (UDict m)))"

lemma estimate_tokens_nonneg: "0 \<le> estimate_tokens tik s"
proof -
  have "0 \<le> fmul (float_of_int (int n)) (fl64 (133 / 100))" for n
    by (intro fmul_nonneg) (simp_all add: float_of_int_def fl64_pos less_imp_le fl64_mono [of 0, simplified])
  then show ?thesis by (auto simp: estimate_tokens_def split: option.split intro!: add_nonneg_nonneg)
qed

lemma content_tokens_nonneg: "0 \<le> content_tokens tik m"
  by (auto simp: content_tokens_def estimate_part_def estimate_tokens_nonneg split: option.split ujson.split
      intro!: sum_list_nonneg)

lemma estimate_message_tokens_nonneg: "0 \<le> estimate_message_tokens enc m"
  by (auto simp: estimate_message_tokens_def chat_estimate_def split: option.split ujson.split)

end
