(* ===== verification/Compaction.thy ===== *)
theory Compaction
  imports Transcript Worklist
begin

text \<open>
  Compaction of a transcript (\<open>agents/context_compaction.py\<close>, \<open>agents/context_manager.py\<close>,
  \<open>agents/model_switch.py\<close>): the leading system messages stay, a newest-first tail within a budget
  stays verbatim and is closed under the pairs of tool call and tool result, the rest is
  replaced by a summary. The object identity of a message is its position; the summarizer is a
  parameter.
\<close>

section \<open>When to compact\<close>

definition should_compact :: "int \<Rightarrow> int \<Rightarrow> int \<Rightarrow> int \<Rightarrow> bool" where
  "should_compact all_tokens baseline limit window =
     (let body = max 0 (all_tokens - baseline)
      in if 0 < limit \<and> limit \<le> body then True else 0 < window \<and> window \<le> all_tokens)"

section \<open>Tool pairs\<close>

text \<open>The index of the body: who issued a call, and where its results are.\<close>

type_synonym pair_index = "(utext, nat) dict \<times> (utext, nat list) dict"

definition index_call :: "nat \<Rightarrow> pair_index \<Rightarrow> utext \<Rightarrow> pair_index" where
  "index_call i idx tid =
     (dict_set tid i (fst idx), if dict_get (snd idx) tid = None then dict_set tid [] (snd idx) else snd idx)"

definition index_message :: "pair_index \<Rightarrow> nat \<times> message \<Rightarrow> pair_index" where
  "index_message idx im =
     (let (i, m) = im in
      if role_is ''assistant'' m then foldl (index_call i) idx (call_ids m)
      else if role_is ''tool'' m then
        (case result_id m of None \<Rightarrow> idx
         | Some tid \<Rightarrow> (fst idx, dict_set tid (dict_get_or (snd idx) tid [] @ [i]) (snd idx)))
      else idx)"

definition pair_index :: "message list \<Rightarrow> pair_index" where
  "pair_index body = foldl index_message ([], []) (enumerate 0 body)"

definition called :: "message \<Rightarrow> utext list" where
  "called m = (if role_is ''assistant'' m then call_ids m else [])"

fun opt_list :: "'a option \<Rightarrow> 'a list" where
  "opt_list None = []"
| "opt_list (Some x) = [x]"

lemma in_opt_list: "x \<in> set (opt_list v) \<longleftrightarrow> v = Some x"
  by (cases v) auto

definition returned :: "message \<Rightarrow> utext list" where
  "returned m =
     (if role_is ''assistant'' m then []
      else if role_is ''tool'' m then opt_list (result_id m) else [])"

text \<open>The messages a message pulls in: the callers and the results of the calls it mentions.\<close>

definition unit_members :: "message list \<Rightarrow> nat \<Rightarrow> nat list" where
  "unit_members body i =
     (if length body \<le> i then [] else
      concat (map (\<lambda>tid. opt_list (dict_get (fst (pair_index body)) tid)
                     @ dict_get_or (snd (pair_index body)) tid [])
        (remdups (called (body ! i) @ returned (body ! i)))))"

section \<open>The index is right\<close>

lemma index_calls_get:
  "dict_get (fst (foldl (index_call i) idx tids)) t = (if t \<in> set tids then Some i else dict_get (fst idx) t)"
  "dict_get_or (snd (foldl (index_call i) idx tids)) t [] = dict_get_or (snd idx) t []"
  by (induction tids arbitrary: idx) (auto simp: index_call_def dict_simps dict_get_or_def split: option.split)

lemma pair_index_snoc: "pair_index (body @ [m]) = index_message (pair_index body) (length body, m)"
  by (simp add: pair_index_def enumerate_append_eq)

lemma pair_index_callers:
  "(dict_get (fst (pair_index body)) t = Some j \<longrightarrow> j < length body \<and> t \<in> set (called (body ! j)))
   \<and> (dict_get (fst (pair_index body)) t = None \<longrightarrow> (\<forall>m \<in> set body. t \<notin> set (called m)))"
proof (induction body arbitrary: j rule: rev_induct)
  case (snoc m body)
  then show ?case
    by (auto simp: pair_index_snoc index_message_def index_calls_get called_def nth_append less_Suc_eq
        split: if_splits option.splits)
qed (simp add: pair_index_def)

lemma returned_positions:
  "{j. j < length (body @ [m]) \<and> t \<in> set (returned ((body @ [m]) ! j))}
     = {j. j < length body \<and> t \<in> set (returned (body ! j))} \<union> (if t \<in> set (returned m) then {length body} else {})"
  by (auto simp: nth_append less_Suc_eq)

lemma pair_index_results:
  "set (dict_get_or (snd (pair_index body)) t []) = {j. j < length body \<and> t \<in> set (returned (body ! j))}"
proof (induction body rule: rev_induct)
  case Nil
  show ?case by (simp add: pair_index_def dict_get_or_def)
next
  case (snoc m body)
  have "dict_get_or (snd (index_message idx (n, m))) t []
      = dict_get_or (snd idx) t [] @ (if t \<in> set (returned m) then [n] else [])" for idx n
    by (cases "result_id m") (auto simp: index_message_def index_calls_get returned_def dict_get_or_set)
  then show ?case unfolding pair_index_snoc returned_positions using snoc by auto
qed

lemma unit_members_range: "set (unit_members body i) \<subseteq> set [0..<length body]"
  using pair_index_callers [of body] pair_index_results [of body]
  by (fastforce simp: unit_members_def in_opt_list split: if_splits)

section \<open>The closure of the tail\<close>

function pull_units :: "message list \<Rightarrow> nat list \<Rightarrow> nat list \<Rightarrow> nat list" where
  "pull_units body seen [] = seen"
| "pull_units body seen (i # stack) =
     (let (seen', stack') = foldl push_child (seen, stack) (unit_members body i) in pull_units body seen' stack')"
  by pat_completeness auto
termination
proof (relation "inv_image (less_than <*lex*> less_than)
    (\<lambda>(body, seen, stack). (card (set [0..<length body] - set seen), length stack))", goal_cases)
  case (2 body seen i stack x seen' stack')
  then have "foldl push_child (seen, stack) (unit_members body i) = (seen', stack')" by simp
  from push_children_progress [OF this unit_members_range, of i] show ?case by simp
qed (auto intro!: wf_inv_image)

definition unit_rel :: "message list \<Rightarrow> (nat \<times> nat) set" where
  "unit_rel body = {(i, j). j \<in> set (unit_members body i)}"

lemma pull_units_closure: "visit_inv (unit_rel body) roots seen stack \<Longrightarrow> set (pull_units body seen stack) = (unit_rel body)\<^sup>* `` roots"
proof (induction body seen stack rule: pull_units.induct)
  case (2 body seen i stack)
  obtain seen' stack' where f: "foldl push_child (seen, stack) (unit_members body i) = (seen', stack')"
    by (cases "foldl push_child (seen, stack) (unit_members body i)")
  have "visit_inv (unit_rel body) roots seen' stack'"
    by (rule visit_inv_push [OF 2(2) f]) (auto simp: unit_rel_def)
  then show ?case using 2(1) f by simp
qed (simp add: visit_inv_end)

text \<open>\<open>_enforce_tool_pair_atomicity\<close>, on positions.\<close>

definition enforce_tool_pair_atomicity :: "message list \<Rightarrow> nat list \<Rightarrow> nat list" where
  "enforce_tool_pair_atomicity body tail =
     (if tail = [] then tail
      else filter (\<lambda>i. i \<in> set (pull_units body tail (rev tail))) [0..<length body])"

section \<open>Splitting\<close>

text \<open>The newest-first walk that fills the tail.\<close>

fun walk_tail :: "tokenizer \<Rightarrow> int \<Rightarrow> (nat \<times> message) list \<Rightarrow> nat list \<Rightarrow> int \<Rightarrow> nat list \<times> int" where
  "walk_tail tik keep [] tail used = (tail, used)"
| "walk_tail tik keep ((i, m) # ms) tail used =
     (let t = estimate_messages_tokens tik [m] in
      if tail \<noteq> [] \<and> keep < used + t then (tail, used)
      else if keep \<le> used + t then (i # tail, used + t)
      else walk_tail tik keep ms (i # tail) (used + t))"

record split =
  sys_msgs :: "message list"
  protected_body :: "message list"
  tail_msgs :: "message list"
  older_msgs :: "message list"
  used_tokens :: int

definition split_for_compaction :: "tokenizer \<Rightarrow> int \<Rightarrow> bool \<Rightarrow> int \<Rightarrow> message list \<Rightarrow> split" where
  "split_for_compaction tik keep pairs protected ms =
     (let sys = takeWhile (role_is ''system'') ms;
          rest = dropWhile (role_is ''system'') ms;
          cut = if 0 < protected then min (nat protected) (length rest) else 0;
          body = drop cut rest;
          (walked, used) = walk_tail tik keep (rev (enumerate 0 body)) [] 0;
          kept = if pairs then enforce_tool_pair_atomicity body walked else walked
      in \<lparr>sys_msgs = sys, protected_body = take cut rest, tail_msgs = map ((!) body) kept,
          older_msgs = map ((!) body) (filter (\<lambda>i. i \<notin> set kept) [0..<length body]), used_tokens = used\<rparr>)"

text \<open>The text \<open>[Earlier conversation summary (n tokens), compact baseline=b]:\<close>, a new line and the summary.\<close>

definition summary_message :: "tokenizer \<Rightarrow> int \<Rightarrow> utext \<Rightarrow> message" where
  "summary_message tik baseline summary =
     [(''role'', UStr (u ''system'')),
      (''content'', UStr (u ''[Earlier conversation summary ('' @ int_text (estimate_tokens tik summary)
         @ u '' tokens), compact baseline='' @ int_text baseline @ u '']:'' @ [NL] @ summary))]"

definition assemble_compacted :: "tokenizer \<Rightarrow> int \<Rightarrow> split \<Rightarrow> utext \<Rightarrow> message list" where
  "assemble_compacted tik baseline s summary =
     sys_msgs s @ protected_body s @ [summary_message tik baseline summary] @ tail_msgs s"

definition compact_messages ::
  "tokenizer \<Rightarrow> (message list \<Rightarrow> utext) \<Rightarrow> int \<Rightarrow> int \<Rightarrow> bool \<Rightarrow> int \<Rightarrow> message list \<Rightarrow> message list \<times> utext" where
  "compact_messages tik summarize keep baseline pairs protected ms =
     (let s = split_for_compaction tik keep pairs protected ms in
      if ms = [] \<or> older_msgs s = [] then (ms, [])
      else let summary = summarize (older_msgs s) in (assemble_compacted tik baseline s summary, summary))"

section \<open>The context manager\<close>

record manager =
  auto_compact_fraction :: rat
  recent_keep_fraction :: rat

definition share :: "int \<Rightarrow> rat \<Rightarrow> int" where
  "share n fraction = (let x = fmul (float_of_int n) fraction in if x < 0 then \<lceil>x\<rceil> else \<lfloor>x\<rfloor>)"

definition should_compact_midrun :: "tokenizer \<Rightarrow> manager \<Rightarrow> int \<Rightarrow> int \<Rightarrow> message list \<Rightarrow> bool" where
  "should_compact_midrun tik mgr budget baseline ms =
     should_compact (estimate_messages_tokens tik ms) baseline (max 0 (share budget (auto_compact_fraction mgr))) budget"

definition compact :: "tokenizer \<Rightarrow> manager \<Rightarrow> (message list \<Rightarrow> utext) \<Rightarrow> int \<Rightarrow> int \<Rightarrow> int \<Rightarrow> message list \<Rightarrow> message list" where
  "compact tik mgr summarize budget baseline protected ms =
     (if ms = [] \<or> \<not> should_compact_midrun tik mgr budget baseline ms then ms
      else fst (compact_messages tik summarize (max 256 (share budget (recent_keep_fraction mgr))) baseline True
                 (max 0 protected) ms))"

text \<open>The entry point of the runtime; a summarizer that raises makes the runtime keep its transcript.\<close>

definition compact_async ::
  "tokenizer \<Rightarrow> manager \<Rightarrow> (message list \<Rightarrow> utext option) \<Rightarrow> int \<Rightarrow> int \<Rightarrow> int \<Rightarrow> message list \<Rightarrow> message list option" where
  "compact_async tik mgr summarize budget baseline protected ms =
     (if ms = [] \<or> \<not> should_compact_midrun tik mgr budget baseline ms then Some ms
      else let s = split_for_compaction tik (max 256 (share budget (recent_keep_fraction mgr))) True protected ms in
        if older_msgs s = [] then Some ms
        else map_option (assemble_compacted tik baseline s) (summarize (older_msgs s)))"

definition midrun_step :: "tokenizer \<Rightarrow> manager \<Rightarrow> (message list \<Rightarrow> utext option) \<Rightarrow> int \<Rightarrow> message list \<Rightarrow> message list" where
  "midrun_step tik mgr summarize budget working =
     (if should_compact_midrun tik mgr budget 0 working
      then (case compact_async tik mgr summarize budget 0 0 working of Some ms \<Rightarrow> ms | None \<Rightarrow> working)
      else working)"

definition is_downshift :: "int \<Rightarrow> int \<Rightarrow> int \<Rightarrow> bool" where
  "is_downshift previous current active =
     (if previous \<le> 0 \<or> current \<le> 0 then False else current < previous \<and> current \<le> active)"

record directive =
  must_recompact :: bool
  input_budget :: int
  compacted_messages :: "message list"

definition downshift_compaction :: "tokenizer \<Rightarrow> manager \<Rightarrow> (message list \<Rightarrow> utext) \<Rightarrow> int \<Rightarrow> int \<Rightarrow> message list \<Rightarrow> directive" where
  "downshift_compaction tik mgr summarize previous current active =
     (let budget = max 512 (share current (3 / 4));
          must = is_downshift previous current (estimate_messages_tokens tik active)
      in \<lparr>must_recompact = must, input_budget = budget,
          compacted_messages = (if must then compact tik mgr summarize budget 0 0 active else active)\<rparr>)"

end
