(* ===== verification/Compaction_Claims.thy ===== *)
theory Compaction_Claims
  imports Compaction
begin

text \<open>
  What a compaction keeps: the leading system messages and a tail that is closed under the pairs
  of tool call and result, in their order, so that a transcript a provider accepts stays one.
\<close>

section \<open>Transcripts a provider accepts\<close>

text \<open>Every result answers a call made before it, and every call is answered after it.\<close>

fun coherent :: "utext list \<Rightarrow> message list \<Rightarrow> bool" where
  "coherent calls [] = True"
| "coherent calls (m # ms) =
     (set (returned m) \<subseteq> set calls \<and> set (called m) \<subseteq> set (concat (map returned ms)) \<and> coherent (called m @ calls) ms)"

definition calls_once :: "message list \<Rightarrow> bool" where
  "calls_once ms \<longleftrightarrow> distinct (concat (map called ms))"

lemma role_unique: "role_is r m \<Longrightarrow> u r \<noteq> u r' \<Longrightarrow> \<not> role_is r' m"
  by (auto simp: role_is_def)

lemma system_silent: "role_is ''system'' m \<Longrightarrow> called m = [] \<and> returned m = []"
  using role_unique [of "''system''" m "''assistant''"] role_unique [of "''system''" m "''tool''"]
  by (simp add: called_def returned_def u_def)

lemma coherent_silent:
  "(\<And>m. m \<in> set xs \<Longrightarrow> called m = [] \<and> returned m = []) \<Longrightarrow> coherent calls (xs @ ms) = coherent calls ms"
  by (induction xs) auto

text \<open>Dropping messages keeps the coherence when no call is separated from a result of it.\<close>

lemma coherent_filter:
  assumes "coherent calls (map snd ims)"
    and "\<And>i m j m' t. (i, m) \<in> set ims \<Longrightarrow> (j, m') \<in> set ims \<Longrightarrow> t \<in> set (called m) \<Longrightarrow> t \<in> set (returned m') \<Longrightarrow> K i = K j"
    and "\<And>j m. (j, m) \<in> set ims \<Longrightarrow> K j \<Longrightarrow> set (returned m) \<inter> set calls \<subseteq> set calls'"
  shows "coherent calls' (map snd (filter (\<lambda>p. K (fst p)) ims))"
  using assms
proof (induction ims arbitrary: calls calls')
  case (Cons p ims)
  obtain i m where p: "p = (i, m)" by (cases p)
  have rest: "coherent (called m @ calls) (map snd ims)" using Cons.prems(1) p by simp
  have unsplit: "K i = K j" if "(j, m') \<in> set ims" "t \<in> set (called m)" "t \<in> set (returned m')" for j m' t
    using Cons.prems(2) [of i m j m' t] that p by simp
  have unsplit_rest: "K i1 = K j1"
    if "(i1, m1) \<in> set ims" "(j1, m2) \<in> set ims" "t \<in> set (called m1)" "t \<in> set (returned m2)" for i1 m1 j1 m2 t
    using Cons.prems(2) that by (meson list.set_intros(2))
  have keep_rest: "set (returned m1) \<inter> set calls \<subseteq> set calls'" if "(j1, m1) \<in> set ims" "K j1" for j1 m1
    using Cons.prems(3) that by (meson list.set_intros(2))
  show ?case
  proof (cases "K i")
    case True
    have "coherent (called m @ calls') (map snd (filter (\<lambda>p. K (fst p)) ims))"
    proof (rule Cons.IH [OF rest unsplit_rest])
      fix j m' assume "(j, m') \<in> set ims" "K j"
      then show "set (returned m') \<inter> set (called m @ calls) \<subseteq> set (called m @ calls')"
        using keep_rest [of j m'] by auto
    qed
    moreover have "set (returned m) \<subseteq> set calls'" using Cons.prems(1) Cons.prems(3) [of i m] True p by auto
    moreover have "t \<in> set (concat (map returned (map snd (filter (\<lambda>p. K (fst p)) ims))))" if t: "t \<in> set (called m)" for t
    proof -
      obtain j m' where "(j, m') \<in> set ims" "t \<in> set (returned m')" using Cons.prems(1) t p by fastforce
      moreover from this have "K j" using unsplit t True by blast
      ultimately show ?thesis by force
    qed
    ultimately show ?thesis using True p by auto
  next
    case False
    have "coherent calls' (map snd (filter (\<lambda>p. K (fst p)) ims))"
    proof (rule Cons.IH [OF rest unsplit_rest])
      fix j m' assume j: "(j, m') \<in> set ims" "K j"
      then show "set (returned m') \<inter> set (called m @ calls) \<subseteq> set calls'"
        using unsplit [OF j(1)] False keep_rest [of j m'] by auto
    qed
    then show ?thesis using False p by simp
  qed
qed simp

section \<open>The tail is closed under pairs\<close>

lemma calls_once_unique:
  assumes "calls_once ms" "i < length ms" "j < length ms" "t \<in> set (called (ms ! i))" "t \<in> set (called (ms ! j))"
  shows "i = j"
  using assms
proof (induction ms arbitrary: i j)
  case (Cons m ms)
  have apart: "t \<notin> set (called (ms ! k))" if "t \<in> set (called m)" "k < length ms" for k
    using Cons.prems(1) that nth_mem [OF that(2)] unfolding calls_once_def by fastforce
  have "calls_once ms" using Cons.prems(1) by (simp add: calls_once_def)
  then show ?case using Cons.IH [of "i - 1" "j - 1"] Cons.prems apart by (cases i; cases j) auto
qed simp

lemma pair_in_unit:
  assumes "calls_once body" "i < length body" "j < length body" "t \<in> set (called (body ! i))" "t \<in> set (returned (body ! j))"
  shows "(i, j) \<in> unit_rel body" "(j, i) \<in> unit_rel body"
proof -
  have "j \<in> set (dict_get_or (snd (pair_index body)) t [])" using pair_index_results [of body t] assms by blast
  then show "(i, j) \<in> unit_rel body" using assms(2,4) by (auto simp: unit_rel_def unit_members_def in_opt_list)
  obtain i' where i': "dict_get (fst (pair_index body)) t = Some i'" "i' < length body" "t \<in> set (called (body ! i'))"
    using pair_index_callers [of body t] assms(2,4) nth_mem [OF assms(2)] by (metis option.exhaust)
  have "i' = i" by (rule calls_once_unique [OF assms(1) i'(2) assms(2) i'(3) assms(4)])
  then show "(j, i) \<in> unit_rel body" using i'(1) assms(3,5) by (auto simp: unit_rel_def unit_members_def in_opt_list)
qed

lemma walk_tail_nonempty: "ims \<noteq> [] \<or> tail \<noteq> [] \<Longrightarrow> fst (walk_tail tik keep ims tail used) \<noteq> []"
  by (induction tik keep ims tail used rule: walk_tail.induct) (auto simp: Let_def)

lemma kept_closed:
  assumes "walked \<noteq> []"
  shows "enforce_tool_pair_atomicity body walked
    = filter (\<lambda>i. i \<in> (unit_rel body)\<^sup>* `` set walked) [0..<length body]"
proof -
  have "set (pull_units body walked (rev walked)) = (unit_rel body)\<^sup>* `` set walked"
    by (rule pull_units_closure [OF visit_inv_start]) simp_all
  then show ?thesis using assms by (simp add: enforce_tool_pair_atomicity_def)
qed

lemma nth_filter_enumerate: "map ((!) xs) (filter K [0..<length xs]) = map snd (filter (\<lambda>p. K (fst p)) (enumerate 0 xs))"
proof -
  have "enumerate 0 xs = map (\<lambda>i. (i, xs ! i)) [0..<length xs]"
    by (rule nth_equalityI) (simp_all add: nth_enumerate_eq)
  then show ?thesis by (simp add: filter_map comp_def)
qed

lemma coherent_kept:
  assumes "coherent [] body" "calls_once body" "walked \<noteq> []"
  shows "coherent [] (map ((!) body) (enforce_tool_pair_atomicity body walked))"
  unfolding kept_closed [OF assms(3)] nth_filter_enumerate
proof (rule coherent_filter [where calls = "[]"])
  fix i m j m' t
  assume a: "(i, m) \<in> set (enumerate 0 body)" "(j, m') \<in> set (enumerate 0 body)"
    and t: "t \<in> set (called m)" "t \<in> set (returned m')"
  have "i < length body" "m = body ! i" "j < length body" "m' = body ! j"
    using a by (auto simp: in_set_enumerate_eq)
  then have "(i, j) \<in> unit_rel body" "(j, i) \<in> unit_rel body" using pair_in_unit [OF assms(2)] t by auto
  then show "(i \<in> (unit_rel body)\<^sup>* `` set walked) = (j \<in> (unit_rel body)\<^sup>* `` set walked)"
    by (auto intro: rtrancl_into_rtrancl)
qed (use assms(1) in simp_all)

section \<open>Compaction\<close>

abbreviation leading :: "message list \<Rightarrow> message list" where
  "leading ms \<equiv> takeWhile (role_is ''system'') ms"

abbreviation remaining :: "message list \<Rightarrow> message list" where
  "remaining ms \<equiv> dropWhile (role_is ''system'') ms"

lemma leading_silent: "m \<in> set (leading ms) \<Longrightarrow> called m = [] \<and> returned m = []"
  by (rule system_silent) (auto dest: set_takeWhileD)

lemma split_unprotected:
  obtains walked used where "walk_tail tik keep (rev (enumerate 0 (remaining ms))) [] 0 = (walked, used)"
    and "split_for_compaction tik keep True 0 ms =
      \<lparr>sys_msgs = leading ms, protected_body = [],
       tail_msgs = map ((!) (remaining ms)) (enforce_tool_pair_atomicity (remaining ms) walked),
       older_msgs = map ((!) (remaining ms)) (filter (\<lambda>i. i \<notin> set (enforce_tool_pair_atomicity (remaining ms) walked))
         [0..<length (remaining ms)]), used_tokens = used\<rparr>"
  by (cases "walk_tail tik keep (rev (enumerate 0 (remaining ms))) [] 0")
    (simp add: split_for_compaction_def Let_def)

lemma summary_silent: "called (summary_message tik b s) = []" "returned (summary_message tik b s) = []"
  by (simp_all add: system_silent role_is_def summary_message_def)

lemma coherent_remaining:
  assumes "coherent [] ms" "calls_once ms"
  shows "coherent [] (remaining ms)" "calls_once (remaining ms)"
proof -
  have ms: "ms = leading ms @ remaining ms" by simp
  show "coherent [] (remaining ms)"
    using assms(1) coherent_silent [of "leading ms" "[]" "remaining ms"] leading_silent [of _ ms] ms by metis
  have "concat (map called (leading ms)) = []" using leading_silent by auto
  then show "calls_once (remaining ms)" using assms(2) ms unfolding calls_once_def
    by (metis append_Nil concat_append map_append)
qed

lemma assembled_coherent:
  assumes "coherent [] ms" "calls_once ms" "older_msgs (split_for_compaction tik keep True 0 ms) \<noteq> []"
  shows "coherent [] (assemble_compacted tik b (split_for_compaction tik keep True 0 ms) summary)"
proof -
  obtain walked used where w: "walk_tail tik keep (rev (enumerate 0 (remaining ms))) [] 0 = (walked, used)"
    and s: "split_for_compaction tik keep True 0 ms =
      \<lparr>sys_msgs = leading ms, protected_body = [],
       tail_msgs = map ((!) (remaining ms)) (enforce_tool_pair_atomicity (remaining ms) walked),
       older_msgs = map ((!) (remaining ms)) (filter (\<lambda>i. i \<notin> set (enforce_tool_pair_atomicity (remaining ms) walked))
         [0..<length (remaining ms)]), used_tokens = used\<rparr>"
    by (rule split_unprotected)
  have "remaining ms \<noteq> []"
  proof
    assume e: "remaining ms = []"
    show False using assms(3) unfolding s e by simp
  qed
  then have "rev (enumerate 0 (remaining ms)) \<noteq> []"
    by (metis length_enumerate length_greater_0_conv rev_is_Nil_conv)
  then have "walked \<noteq> []" using walk_tail_nonempty [of "rev (enumerate 0 (remaining ms))" "[]" tik keep 0] w by simp
  then have tail: "coherent [] (map ((!) (remaining ms)) (enforce_tool_pair_atomicity (remaining ms) walked))"
    by (rule coherent_kept [OF coherent_remaining [OF assms(1,2)]])
  have "coherent [] ((leading ms @ [summary_message tik b summary])
      @ map ((!) (remaining ms)) (enforce_tool_pair_atomicity (remaining ms) walked))"
    by (subst coherent_silent) (use tail leading_silent summary_silent in auto)
  then show ?thesis unfolding s by (simp add: assemble_compacted_def)
qed


text \<open>A short run: a question, a call with its result, and a continuation.\<close>

definition said :: "string \<Rightarrow> string \<Rightarrow> message" where
  "said r s = [(''role'', UStr (u r)), (''content'', UStr (u s))]"

definition call_of :: "string \<Rightarrow> message" where
  "call_of i = [(''role'', UStr (u ''assistant'')), (''content'', UStr []),
     (''tool_calls'', UList [UDict [(''id'', UStr (u i)), (''type'', UStr (u ''function''))]])]"

definition result_of :: "string \<Rightarrow> string \<Rightarrow> message" where
  "result_of i s = [(''role'', UStr (u ''tool'')), (''tool_call_id'', UStr (u i)), (''content'', UStr (u s))]"

definition demo_run :: "message list" where
  "demo_run = [said ''system'' ''s'', said ''user'' ''q'', said ''assistant'' ''a'', call_of ''c'', result_of ''c'' ''r'',
     said ''user'' ''go'']"

lemmas message_eval = said_def call_of_def result_of_def u_def role_is_def called_def returned_def call_ids_def
  tool_calls_of_def usable_id_def result_id_def List.map_filter_simps


text \<open>Every message is kept or handed to the summarizer, and the newest one is kept.\<close>

lemma walk_tail_keeps: "set tail \<subseteq> set (fst (walk_tail tik keep ims tail used))"
  by (induction tik keep ims tail used rule: walk_tail.induct) (auto simp: Let_def)

lemma walk_tail_newest: "i \<in> set (fst (walk_tail tik keep ((i, m) # ims) [] used))"
  using walk_tail_keeps [of "[i]" tik keep ims] by (simp add: Let_def)

lemma compaction_keeps_or_summarises:
  assumes "s = split_for_compaction tik keep True 0 ms"
  shows "length (sys_msgs s) + length (tail_msgs s) + length (older_msgs s) = length ms"
    and "remaining ms \<noteq> [] \<Longrightarrow> last (remaining ms) \<in> set (tail_msgs s)"
proof -
  let ?body = "remaining ms"
  let ?n = "length ?body"
  obtain walked used where w: "walk_tail tik keep (rev (enumerate 0 ?body)) [] 0 = (walked, used)"
    and s: "split_for_compaction tik keep True 0 ms =
      \<lparr>sys_msgs = leading ms, protected_body = [],
       tail_msgs = map ((!) ?body) (enforce_tool_pair_atomicity ?body walked),
       older_msgs = map ((!) ?body) (filter (\<lambda>i. i \<notin> set (enforce_tool_pair_atomicity ?body walked)) [0..<?n]),
       used_tokens = used\<rparr>"
    by (rule split_unprotected)
  obtain K where K: "enforce_tool_pair_atomicity ?body walked = filter (\<lambda>i. i \<in> K) [0..<?n]" "set walked \<subseteq> K"
  proof (cases "walked = []")
    case True
    then show ?thesis using that [of "{}"] by (simp add: enforce_tool_pair_atomicity_def)
  next
    case False
    then show ?thesis using that [OF kept_closed] by blast
  qed
  have "filter (\<lambda>i. i \<notin> set (filter (\<lambda>i. i \<in> K) [0..<?n])) [0..<?n] = filter (\<lambda>i. i \<notin> K) [0..<?n]"
    by (rule filter_cong) auto
  then have "length (tail_msgs s) + length (older_msgs s) = ?n"
    using sum_length_filter_compl [of "\<lambda>i. i \<in> K" "[0..<?n]"] unfolding assms s K(1) by simp
  moreover have "length (leading ms) + ?n = length ms" by (metis length_append takeWhile_dropWhile_id)
  ultimately show "length (sys_msgs s) + length (tail_msgs s) + length (older_msgs s) = length ms"
    unfolding assms s by simp
  assume ne: "?body \<noteq> []"
  then have "enumerate 0 ?body = enumerate 0 (butlast ?body) @ [(?n - 1, last ?body)]"
    using enumerate_append_eq [of 0 "butlast ?body" "[last ?body]"] by simp
  then have "?n - 1 \<in> set walked"
    using w walk_tail_newest [of "?n - 1" tik keep "last ?body" "rev (enumerate 0 (butlast ?body))" 0] by simp
  then have "?n - 1 \<in> set (enforce_tool_pair_atomicity ?body walked)" using K ne by auto
  then show "last ?body \<in> set (tail_msgs s)" using ne unfolding assms s by (auto simp: last_conv_nth)
qed

text \<open>A summary is a leading system message of the next compaction: it is never compacted again.\<close>

lemma summaries_accumulate:
  assumes "older_msgs (split_for_compaction tik keep True 0 ms) \<noteq> []"
    and "new = assemble_compacted tik b (split_for_compaction tik keep True 0 ms) summary"
  shows "\<exists>more. sys_msgs (split_for_compaction tik' keep' True 0 new) = leading ms @ [summary_message tik b summary] @ more"
proof -
  obtain walked used where s: "split_for_compaction tik keep True 0 ms =
      \<lparr>sys_msgs = leading ms, protected_body = [],
       tail_msgs = map ((!) (remaining ms)) (enforce_tool_pair_atomicity (remaining ms) walked),
       older_msgs = map ((!) (remaining ms)) (filter (\<lambda>i. i \<notin> set (enforce_tool_pair_atomicity (remaining ms) walked))
         [0..<length (remaining ms)]), used_tokens = used\<rparr>"
    by (rule split_unprotected)
  have sys: "list_all (role_is ''system'') (leading ms @ [summary_message tik b summary])"
    by (auto simp: list_all_iff role_is_def summary_message_def dest: set_takeWhileD)
  have "new = (leading ms @ [summary_message tik b summary]) @ tail_msgs (split_for_compaction tik keep True 0 ms)"
    using assms(2) s by (simp add: assemble_compacted_def)
  then have "leading new = (leading ms @ [summary_message tik b summary]) @ leading (tail_msgs (split_for_compaction tik keep True 0 ms))"
    using sys by (simp only: takeWhile_append2 list_all_iff)
  then show ?thesis by (simp add: split_for_compaction_def Let_def split: prod.split)
qed

text \<open>A call in the protected prefix is kept while its result may be summarized.\<close>

lemma protected_prefix_splits_pair:
  "\<not> coherent [] (fst (compact_messages (Some (\<lambda>s. 300)) (\<lambda>_. []) 256 0 True 1 [call_of ''c'', result_of ''c'' ''r'', said ''user'' ''go'']))"
  by (simp add: compact_messages_def split_for_compaction_def estimate_messages_tokens_def content_tokens_def
      estimate_tokens_def message_eval enforce_tool_pair_atomicity_def unit_members_def pair_index_def
      index_message_def assemble_compacted_def summary_message_def Let_def)

end
