(* ===== verification/Prompt_Admission.thy ===== *)
theory Prompt_Admission
  imports Compaction_Claims
begin

text \<open>
  Admission of a prompt (\<open>agents/token_budget.py\<close>, \<open>model_capabilities.py\<close>,
  \<open>services/chat_context.py\<close>): the budget of a model, the check of the newest user turn, the trimming
  of whole old turns, and the final check. An error is its code.
\<close>

section \<open>Capabilities and budget\<close>

text \<open>A model's row: the values \<open>int()\<close> gives for its two limits, and its flags.\<close>

record model_config =
  cfg_max_context_tokens :: "int option"
  cfg_max_tokens :: "int option"
  cfg_supports_tools :: bool
  cfg_supports_parallel_tools :: bool
  cfg_supports_vision :: bool
  cfg_supports_audio_input :: bool
  cfg_supports_audio_output :: bool
  cfg_supports_image_generation :: bool
  cfg_supports_structured_output :: bool
  cfg_supports_reasoning_effort :: bool
  cfg_output_parameter :: string

record capabilities =
  context_window :: int
  max_output_tokens :: int
  supports_tools :: bool
  supports_parallel_tools :: bool
  supports_vision :: bool
  supports_audio_input :: bool
  supports_audio_output :: bool
  supports_image_generation :: bool
  supports_structured_output :: bool
  supports_reasoning_effort :: bool
  output_token_parameter :: string

definition positive_limit :: "int option \<Rightarrow> int \<Rightarrow> int" where
  "positive_limit v default0 = (case v of None \<Rightarrow> default0 | Some n \<Rightarrow> if 0 < n then n else default0)"

definition capabilities_from_config :: "model_config \<Rightarrow> capabilities" where
  "capabilities_from_config cfg =
     \<lparr>context_window = positive_limit (cfg_max_context_tokens cfg) 131072,
      max_output_tokens = positive_limit (cfg_max_tokens cfg) 8192,
      supports_tools = cfg_supports_tools cfg,
      supports_parallel_tools = cfg_supports_parallel_tools cfg,
      supports_vision = cfg_supports_vision cfg,
      supports_audio_input = cfg_supports_audio_input cfg,
      supports_audio_output = cfg_supports_audio_output cfg,
      supports_image_generation = cfg_supports_image_generation cfg,
      supports_structured_output = cfg_supports_structured_output cfg,
      supports_reasoning_effort = cfg_supports_reasoning_effort cfg,
      output_token_parameter =
        (if cfg_output_parameter cfg \<in> {''max_tokens'', ''max_completion_tokens''} then cfg_output_parameter cfg
         else ''max_tokens'')\<rparr>"

datatype admission_error = InvalidPromptBudget | MessageTooLarge | PromptTooLarge

record token_budget =
  tb_context_window :: int
  tb_requested_output :: int
  tb_reserved_output :: int
  tb_tool_schema :: int
  tb_safety_margin :: int
  tb_input_tokens :: int

definition calculate_prompt_budget :: "capabilities \<Rightarrow> int \<Rightarrow> int \<Rightarrow> rat \<Rightarrow> admission_error + token_budget" where
  "calculate_prompt_budget caps requested tool_schema ratio =
     (if requested \<le> 0 then Inl InvalidPromptBudget
      else if tool_schema < 0 then Inl InvalidPromptBudget
      else if ratio < 0 then Inl InvalidPromptBudget
      else
        let reserved = min requested (max_output_tokens caps);
            margin = max 256 \<lfloor>fmul (float_of_int (context_window caps)) ratio\<rfloor>;
            input = context_window caps - reserved - tool_schema - margin
        in if input \<le> 0 then Inl InvalidPromptBudget
           else Inr \<lparr>tb_context_window = context_window caps, tb_requested_output = requested,
             tb_reserved_output = reserved, tb_tool_schema = tool_schema, tb_safety_margin = margin,
             tb_input_tokens = input\<rparr>)"

definition SAFETY_RATIO :: rat where
  "SAFETY_RATIO = fl64 (1 / 20)"

definition admit_latest_turn :: "int \<Rightarrow> int \<Rightarrow> admission_error + unit" where
  "admit_latest_turn latest budget =
     (if latest < 0 \<or> budget \<le> 0 then Inl InvalidPromptBudget
      else if budget < latest then Inl MessageTooLarge else Inr ())"

section \<open>Trimming whole turns\<close>

text \<open>The position of the newest user message after the first one, or 1.\<close>

definition latest_user_index :: "message list \<Rightarrow> nat" where
  "latest_user_index ms =
     (case List.find (\<lambda>i. role_is ''user'' (ms ! i)) (rev [1..<length ms]) of Some i \<Rightarrow> i | None \<Rightarrow> 1)"

text \<open>The end of the oldest turn: the next user message, but at most the newest one.\<close>

function turn_end :: "message list \<Rightarrow> nat \<Rightarrow> nat \<Rightarrow> nat" where
  "turn_end ms latest cutoff =
     (if cutoff < latest \<and> \<not> role_is ''user'' (ms ! cutoff) then turn_end ms latest (cutoff + 1) else cutoff)"
  by pat_completeness auto
termination by (relation "measure (\<lambda>(ms, latest, cutoff). latest - cutoff)") auto

declare turn_end.simps [simp del]

definition oldest_turn_end :: "message list \<Rightarrow> nat \<Rightarrow> nat" where
  "oldest_turn_end ms latest = (if role_is ''user'' (ms ! 1) then turn_end ms latest 2 else 2)"

lemma turn_end_bounds: "cutoff \<le> turn_end ms latest cutoff \<and> (cutoff \<le> latest \<longrightarrow> turn_end ms latest cutoff \<le> latest)"
proof (induction ms latest cutoff rule: turn_end.induct)
  case (1 ms latest cutoff)
  then show ?case by (subst (1 2) turn_end.simps) auto
qed

lemma oldest_turn_end_bounds: "2 \<le> oldest_turn_end ms latest" "1 < latest \<Longrightarrow> oldest_turn_end ms latest \<le> latest"
  using turn_end_bounds [of 2 ms latest] by (auto simp: oldest_turn_end_def)

text \<open>\<open>del xs[1:cutoff]\<close>\<close>

definition del_slice :: "nat \<Rightarrow> 'a list \<Rightarrow> 'a list" where
  "del_slice cutoff xs = take 1 xs @ drop cutoff xs"

function trim_loop :: "int \<Rightarrow> message list \<Rightarrow> int list \<Rightarrow> int \<Rightarrow> nat \<Rightarrow> message list" where
  "trim_loop max_tokens ms costs all_tokens latest =
     (if 1 < latest \<and> max_tokens < all_tokens then
        let cutoff = oldest_turn_end ms latest in
        trim_loop max_tokens (del_slice cutoff ms) (del_slice cutoff costs)
          (all_tokens - sum_list (drop 1 (take cutoff costs))) (latest - (cutoff - 1))
      else ms)"
  by pat_completeness auto
termination
proof (relation "measure (\<lambda>(max_tokens, ms, costs, all_tokens, latest). latest)", goal_cases)
  case (2 max_tokens ms costs all_tokens latest cutoff)
  then show ?case using oldest_turn_end_bounds(1) [of ms latest] by auto
qed simp

declare trim_loop.simps [simp del]

definition trim_history :: "tokenizer \<Rightarrow> int \<Rightarrow> message list \<Rightarrow> message list" where
  "trim_history enc max_tokens ms =
     (if length ms \<le> 1 then ms
      else
        let costs = map (estimate_message_tokens enc) ms; all_tokens = sum_list costs in
        if all_tokens \<le> max_tokens then ms
        else trim_loop max_tokens ms costs all_tokens (latest_user_index ms))"

definition latest_user_turn_tokens :: "tokenizer \<Rightarrow> message list \<Rightarrow> int" where
  "latest_user_turn_tokens enc ms =
     (case List.find (role_is ''user'') (rev ms) of Some m \<Rightarrow> estimate_message_tokens enc m | None \<Rightarrow> 0)"

definition prompt_tokens :: "tokenizer \<Rightarrow> message list \<Rightarrow> int" where
  "prompt_tokens enc ms = (\<Sum>m\<leftarrow>ms. estimate_message_tokens enc m)"

definition admit_and_trim_history ::
  "tokenizer \<Rightarrow> model_config \<Rightarrow> int \<Rightarrow> message list \<Rightarrow> admission_error + message list" where
  "admit_and_trim_history enc cfg tool_schema ms =
     rbind (calculate_prompt_budget (capabilities_from_config cfg)
         (max_output_tokens (capabilities_from_config cfg)) tool_schema SAFETY_RATIO) (\<lambda>budget.
     rbind (admit_latest_turn (latest_user_turn_tokens enc ms) (tb_input_tokens budget)) (\<lambda>_.
       let admitted = trim_history enc (tb_input_tokens budget) ms in
       if tb_input_tokens budget < prompt_tokens enc admitted then Inl PromptTooLarge else Inr admitted))"

section \<open>One round of the agent loop\<close>

text \<open>Before each call of the model the runtime compacts its transcript and then admits it.\<close>

definition prepare_round ::
  "tokenizer \<Rightarrow> tokenizer \<Rightarrow> manager \<Rightarrow> (message list \<Rightarrow> utext option) \<Rightarrow> model_config \<Rightarrow> int \<Rightarrow> message list
    \<Rightarrow> admission_error + message list" where
  "prepare_round tik enc mgr summarize cfg tool_schema working =
     rbind (calculate_prompt_budget (capabilities_from_config cfg)
         (max_output_tokens (capabilities_from_config cfg)) tool_schema SAFETY_RATIO) (\<lambda>budget.
       admit_and_trim_history enc cfg tool_schema (midrun_step tik mgr summarize (tb_input_tokens budget) working))"

section \<open>What trimming leaves\<close>

definition kept_turn :: "message list \<Rightarrow> message list" where
  "kept_turn ms = take 1 ms @ drop (latest_user_index ms) ms"

lemma prompt_tokens_append: "prompt_tokens enc (xs @ ys) = prompt_tokens enc xs + prompt_tokens enc ys"
  by (simp add: prompt_tokens_def)

lemma prompt_tokens_nonneg: "0 \<le> prompt_tokens enc ms"
  by (auto simp: prompt_tokens_def estimate_message_tokens_nonneg intro!: sum_list_nonneg)

lemma del_slice_cost:
  assumes "1 \<le> cutoff"
  shows "prompt_tokens enc (del_slice cutoff ms) = prompt_tokens enc ms - prompt_tokens enc (drop 1 (take cutoff ms))"
proof -
  have "ms = take 1 ms @ drop 1 (take cutoff ms) @ drop cutoff ms"
    using assms by (cases ms) (simp_all add: take_Cons' drop_Cons')
  then have "prompt_tokens enc ms = prompt_tokens enc (take 1 ms) + prompt_tokens enc (drop 1 (take cutoff ms)) + prompt_tokens enc (drop cutoff ms)"
    by (metis prompt_tokens_append add.assoc)
  then show ?thesis by (simp add: del_slice_def prompt_tokens_append)
qed

text \<open>The loop drops a stretch after the first message: until the rest fits or only the newest turn is left.\<close>

lemma drop_del_slice:
  assumes "1 \<le> cutoff" "cutoff \<le> length ms" "1 \<le> k"
  shows "take 1 (del_slice cutoff ms) @ drop k (del_slice cutoff ms) = take 1 ms @ drop (cutoff + (k - 1)) ms"
proof -
  obtain m ms' where "ms = m # ms'" using assms(1,2) by (cases ms) auto
  moreover obtain k' where "k = Suc k'" using assms(3) by (cases k) auto
  ultimately show ?thesis by (simp add: del_slice_def add.commute)
qed

lemma trim_loop_cuts:
  assumes "1 \<le> latest" "latest < length ms"
  shows "\<exists>k \<ge> 1. k \<le> latest
    \<and> trim_loop max_tokens ms (map (estimate_message_tokens enc) ms) (prompt_tokens enc ms) latest = take 1 ms @ drop k ms
    \<and> (prompt_tokens enc (take 1 ms @ drop k ms) \<le> max_tokens \<or> k = latest)
    \<and> (prompt_tokens enc ms \<le> max_tokens \<longrightarrow> k = 1)"
  using assms
proof (induction latest arbitrary: ms rule: less_induct)
  case (less latest ms)
  have whole: "take 1 ms @ drop 1 ms = ms" by simp
  show ?case
  proof (cases "1 < latest \<and> max_tokens < prompt_tokens enc ms")
    case False
    then have "trim_loop max_tokens ms (map (estimate_message_tokens enc) ms) (prompt_tokens enc ms) latest = ms"
      by (subst trim_loop.simps) auto
    then show ?thesis using False less.prems whole by (intro exI [of _ 1]) auto
  next
    case True
    let ?c = "oldest_turn_end ms latest"
    let ?ms = "del_slice ?c ms"
    have c: "2 \<le> ?c" "?c \<le> latest" using oldest_turn_end_bounds [where ms = ms and latest = latest] True by auto
    have costs: "del_slice ?c (map (estimate_message_tokens enc) ms) = map (estimate_message_tokens enc) ?ms"
      by (simp add: del_slice_def take_map drop_map)
    have left: "prompt_tokens enc ms - sum_list (drop 1 (take ?c (map (estimate_message_tokens enc) ms))) = prompt_tokens enc ?ms"
      using c by (subst del_slice_cost) (simp_all add: prompt_tokens_def take_map drop_map)
    have len: "length ?ms = length ms - (?c - 1)" using c less.prems by (auto simp: del_slice_def)
    have step: "trim_loop max_tokens ms (map (estimate_message_tokens enc) ms) (prompt_tokens enc ms) latest
        = trim_loop max_tokens ?ms (map (estimate_message_tokens enc) ?ms) (prompt_tokens enc ?ms) (latest - (?c - 1))"
      by (subst trim_loop.simps) (simp only: Let_def costs left True if_True simp_thms)
    have small: "latest - (?c - 1) < latest" "1 \<le> latest - (?c - 1)" "latest - (?c - 1) < length ?ms"
      using c less.prems len by auto
    obtain k where k: "1 \<le> k" "k \<le> latest - (?c - 1)"
      "trim_loop max_tokens ?ms (map (estimate_message_tokens enc) ?ms) (prompt_tokens enc ?ms) (latest - (?c - 1)) = take 1 ?ms @ drop k ?ms"
      "prompt_tokens enc (take 1 ?ms @ drop k ?ms) \<le> max_tokens \<or> k = latest - (?c - 1)"
      using less.IH [OF small] by blast
    have cut: "take 1 ?ms @ drop k ?ms = take 1 ms @ drop (?c + (k - 1)) ms"
      using c less.prems k(1) by (intro drop_del_slice) auto
    show ?thesis
      using True k(1,2,4) c unfolding step k(3) cut by (intro exI [of _ "?c + (k - 1)"]) auto
  qed
qed

lemma latest_user_index_bounds: "1 \<le> latest_user_index ms" "2 \<le> length ms \<Longrightarrow> latest_user_index ms < length ms"
  by (auto simp: latest_user_index_def dest!: find_SomeD split: option.split)

lemma trim_history_cuts:
  "\<exists>k \<ge> 1. k \<le> latest_user_index ms \<and> trim_history enc max_tokens ms = take 1 ms @ drop k ms
    \<and> (prompt_tokens enc (trim_history enc max_tokens ms) \<le> max_tokens \<or> trim_history enc max_tokens ms = kept_turn ms)
    \<and> (prompt_tokens enc ms \<le> max_tokens \<longrightarrow> k = 1)"
proof (cases "length ms \<le> 1")
  case True
  then have "trim_history enc max_tokens ms = ms" "kept_turn ms = ms" "latest_user_index ms = 1"
    by (simp_all add: trim_history_def kept_turn_def latest_user_index_def)
  then show ?thesis by (intro exI [of _ 1]) simp
next
  case False
  have t: "trim_history enc max_tokens ms = (if prompt_tokens enc ms \<le> max_tokens then ms
      else trim_loop max_tokens ms (map (estimate_message_tokens enc) ms) (prompt_tokens enc ms) (latest_user_index ms))"
    using False by (simp add: trim_history_def prompt_tokens_def Let_def)
  show ?thesis
  proof (cases "prompt_tokens enc ms \<le> max_tokens")
    case True
    then show ?thesis using t latest_user_index_bounds(1) [of ms] by (intro exI [of _ 1]) simp
  next
    case big: False
    from trim_loop_cuts [OF latest_user_index_bounds(1) latest_user_index_bounds(2), of ms max_tokens enc] False
    obtain k where "1 \<le> k" "k \<le> latest_user_index ms"
      "trim_loop max_tokens ms (map (estimate_message_tokens enc) ms) (prompt_tokens enc ms) (latest_user_index ms) = take 1 ms @ drop k ms"
      "prompt_tokens enc (take 1 ms @ drop k ms) \<le> max_tokens \<or> k = latest_user_index ms" by auto
    then show ?thesis using t big by (intro exI [of _ k]) (auto simp: kept_turn_def)
  qed
qed

lemma kept_turn_least:
  assumes "1 \<le> k" "k \<le> latest_user_index ms"
  shows "prompt_tokens enc (kept_turn ms) \<le> prompt_tokens enc (take 1 ms @ drop k ms)"
proof -
  have "drop k ms = take (latest_user_index ms - k) (drop k ms) @ drop (latest_user_index ms) ms"
    using assms(2) by (metis append_take_drop_id drop_drop le_add_diff_inverse2)
  then have "prompt_tokens enc (drop (latest_user_index ms) ms) \<le> prompt_tokens enc (drop k ms)"
    using prompt_tokens_nonneg [of enc "take (latest_user_index ms - k) (drop k ms)"] by (metis prompt_tokens_append le_add_same_cancel2)
  then show ?thesis by (simp add: kept_turn_def prompt_tokens_append)
qed


definition demo_config :: "model_config" where
  "demo_config = \<lparr>cfg_max_context_tokens = Some 1000, cfg_max_tokens = Some 100, cfg_supports_tools = True,
     cfg_supports_parallel_tools = False, cfg_supports_vision = False, cfg_supports_audio_input = False,
     cfg_supports_audio_output = False, cfg_supports_image_generation = False,
     cfg_supports_structured_output = False, cfg_supports_reasoning_effort = False,
     cfg_output_parameter = ''max_tokens''\<rparr>"

lemma demo_budget:
  "calculate_prompt_budget (capabilities_from_config demo_config) (max_output_tokens (capabilities_from_config demo_config)) 0
     SAFETY_RATIO
   = Inr \<lparr>tb_context_window = 1000, tb_requested_output = 100, tb_reserved_output = 100, tb_tool_schema = 0,
       tb_safety_margin = 256, tb_input_tokens = 644\<rparr>"
proof -
  have "fmul (float_of_int 1000) SAFETY_RATIO < 257" by code_simp
  then have "max 256 \<lfloor>fmul (float_of_int 1000) SAFETY_RATIO\<rfloor> = 256" by linarith
  moreover have "\<not> SAFETY_RATIO < 0" by code_simp
  ultimately show ?thesis
    by (simp add: calculate_prompt_budget_def capabilities_from_config_def demo_config_def positive_limit_def Let_def)
qed


text \<open>Where the oldest entry is not a user message, the loop drops it alone: a tool result loses its call.\<close>

definition after_compaction :: "message list" where
  "after_compaction = [said ''system'' ''s'', said ''system'' ''[summary]'', call_of ''c'', result_of ''c'' ''r'', said ''user'' ''go'']"

lemma trim_orphans_result:
  "coherent [] after_compaction"
  "trim_history (Some (\<lambda>s. 200)) 644 after_compaction = [said ''system'' ''s'', result_of ''c'' ''r'', said ''user'' ''go'']"
  "\<not> coherent [] (trim_history (Some (\<lambda>s. 200)) 644 after_compaction)"
proof -
  let ?w = "after_compaction"
  have two: "prompt_tokens (Some (\<lambda>s. 200)) after_compaction = 1000" 
    by (simp add: after_compaction_def prompt_tokens_def estimate_message_tokens_def chat_estimate_def message_eval dump_str_def)
  show a: "coherent [] ?w" by (simp add: after_compaction_def message_eval)
  show b: "trim_history (Some (\<lambda>s. 200)) 644 ?w = [said ''system'' ''s'', result_of ''c'' ''r'', said ''user'' ''go'']"
    by (simp add: after_compaction_def trim_history_def latest_user_index_def estimate_message_tokens_def chat_estimate_def
        trim_loop.simps oldest_turn_end_def del_slice_def message_eval Let_def upt_rec)
  show "\<not> coherent [] (trim_history (Some (\<lambda>s. 200)) 644 ?w)" unfolding b by (simp add: message_eval)
qed

text \<open>The first message that trimming removes from a compacted transcript with one system prompt is the summary.\<close>

lemma trimming_drops_the_summary:
  assumes "length (sys_msgs s) = 1" "protected_body s = []" "ms = assemble_compacted tik b s summary"
    and "trim_history enc max_tokens ms \<noteq> ms"
  shows "\<exists>k. trim_history enc max_tokens ms = sys_msgs s @ drop k (tail_msgs s)"
proof -
  obtain m where m: "sys_msgs s = [m]" using assms(1) by (cases "sys_msgs s") auto
  obtain k where k: "1 \<le> k" "trim_history enc max_tokens ms = take 1 ms @ drop k ms" using trim_history_cuts by blast
  have "k \<noteq> 1" using k assms(4) by auto
  then obtain k' where "k = Suc (Suc k')" using k(1) by (metis One_nat_def Suc_le_D not_less_eq_eq le_antisym)
  then show ?thesis using k(2) unfolding assms(3) by (intro exI [of _ k']) (simp add: assemble_compacted_def assms(2) m)
qed

end
