(* ===== verification/Quotas.thy ===== *)
theory Quotas
  imports Floats "HOL-Library.List_Lexorder" "HOL-Library.Char_ord"
begin

text \<open>
  The quotas of a tenant (\<open>quotas.py\<close>): admission of runs through a set of active runs, spending
  per accounting period, storage, connectors and the distinct tools of a run. The service reaches its
  sets through four operations, served by Redis or by the process; they are the interface
  \<open>set_store\<close>, and the in-process counters provide it.
\<close>

section \<open>Limits\<close>

record quota_limits =
  ql_enabled :: bool
  ql_runs :: int
  ql_tokens :: int
  ql_cost :: rat
  ql_storage :: int
  ql_connectors :: int
  ql_tools :: int

record quota_settings =
  qs_enabled :: bool
  qs_env :: string
  qs_runs :: int
  qs_tokens :: int
  qs_cost :: rat
  qs_storage :: int
  qs_connectors :: int
  qs_tools :: int

definition limits_from_settings :: "quota_settings \<Rightarrow> quota_limits" where
  "limits_from_settings s =
     \<lparr>ql_enabled = qs_enabled s \<and> qs_env s \<noteq> ''test'', ql_runs = qs_runs s, ql_tokens = qs_tokens s,
      ql_cost = qs_cost s, ql_storage = qs_storage s, ql_connectors = qs_connectors s, ql_tools = qs_tools s\<rparr>"

text \<open>The refusal: the axis, the limit and the usage.\<close>

datatype quota_error = QuotaExceeded string rat rat | BadValue string

section \<open>Sets of members\<close>

record 's set_ops =
  so_add :: "string \<Rightarrow> string \<Rightarrow> 's \<Rightarrow> bool \<times> 's"
  so_remove :: "string \<Rightarrow> string \<Rightarrow> 's \<Rightarrow> nat \<times> 's"
  so_size :: "string \<Rightarrow> 's \<Rightarrow> nat"
  so_members :: "string \<Rightarrow> 's \<Rightarrow> string list"

locale set_store =
  fixes ops :: "'s set_ops" and elems :: "'s \<Rightarrow> string \<Rightarrow> string set"
  assumes add_spec: "so_add ops k x s = (b, s') \<Longrightarrow> b = (x \<notin> elems s k) \<and> elems s' = (elems s)(k := insert x (elems s k))"
    and remove_spec: "so_remove ops k x s = (n, s') \<Longrightarrow> elems s' = (elems s)(k := elems s k - {x})"
    and size_spec: "so_size ops k s = card (elems s k)"
    and members_spec: "set (so_members ops k s) = elems s k"
begin

lemma elems_add: "elems (snd (so_add ops k x s)) = (elems s)(k := insert x (elems s k))"
  using add_spec [of k x s] by (cases "so_add ops k x s") auto

lemma added_iff: "fst (so_add ops k x s) \<longleftrightarrow> x \<notin> elems s k"
  using add_spec [of k x s] by (cases "so_add ops k x s") auto

lemma elems_remove: "elems (snd (so_remove ops k x s)) = (elems s)(k := elems s k - {x})"
  using remove_spec [of k x s] by (cases "so_remove ops k x s") auto

lemma finite_elems: "finite (elems s k)"
  by (metis members_spec List.finite_set)

text \<open>Removing a list of members.\<close>

lemma elems_remove_all:
  "elems (foldl (\<lambda>s x. snd (so_remove ops k x s)) s xs) = (elems s)(k := elems s k - set xs)"
proof (induction xs arbitrary: s)
  case (Cons x xs)
  have "elems s k - {x} - set xs = elems s k - set (x # xs)" by auto
  then show ?case using Cons [of "snd (so_remove ops k x s)"] by (simp add: elems_remove fun_eq_iff)
qed simp

text \<open>Distinct members that are all in the set are no more than its size.\<close>

lemma members_within_size:
  assumes "inj_on f A" "f ` A \<subseteq> elems s k"
  shows "finite A" "card A \<le> so_size ops k s"
proof -
  show "finite A" using assms finite_elems by (meson finite_imageD finite_subset)
  have "card A = card (f ` A)" using assms(1) by (simp add: card_image)
  then show "card A \<le> so_size ops k s" using assms(2) card_mono [OF finite_elems] by (simp add: size_spec)
qed

end

text \<open>The counters of the process; a Python set is a list, up to order and repetition.\<close>

record counters =
  ct_ints :: "(string, int) dict"
  ct_floats :: "(string, rat) dict"
  ct_sets :: "(string, string list) dict"

definition no_counters :: counters where
  "no_counters = \<lparr>ct_ints = [], ct_floats = [], ct_sets = []\<rparr>"

definition incr_int :: "string \<Rightarrow> int \<Rightarrow> counters \<Rightarrow> counters" where
  "incr_int k n c = c\<lparr>ct_ints := dict_set k (dict_get_or (ct_ints c) k 0 + n) (ct_ints c)\<rparr>"

definition incr_float :: "string \<Rightarrow> rat \<Rightarrow> counters \<Rightarrow> counters" where
  "incr_float k x c = c\<lparr>ct_floats := dict_set k (fadd (dict_get_or (ct_floats c) k 0) x) (ct_floats c)\<rparr>"

definition get_int :: "string \<Rightarrow> counters \<Rightarrow> int" where
  "get_int k c = dict_get_or (ct_ints c) k 0"

definition get_float :: "string \<Rightarrow> counters \<Rightarrow> rat" where
  "get_float k c = dict_get_or (ct_floats c) k 0"

definition mem_elems :: "counters \<Rightarrow> string \<Rightarrow> string list" where
  "mem_elems c k = dict_get_or (ct_sets c) k []"

definition mem_set_add :: "string \<Rightarrow> string \<Rightarrow> counters \<Rightarrow> bool \<times> counters" where
  "mem_set_add k x c =
     (if x \<in> set (mem_elems c k) then (False, c)
      else (True, c\<lparr>ct_sets := dict_set k (mem_elems c k @ [x]) (ct_sets c)\<rparr>))"

definition mem_set_remove :: "string \<Rightarrow> string \<Rightarrow> counters \<Rightarrow> nat \<times> counters" where
  "mem_set_remove k x c =
     (if x \<notin> set (mem_elems c k) then (0, c)
      else (1, c\<lparr>ct_sets := dict_set k (filter (\<lambda>y. y \<noteq> x) (mem_elems c k)) (ct_sets c)\<rparr>))"

definition mem_set_size :: "string \<Rightarrow> counters \<Rightarrow> nat" where
  "mem_set_size k c = card (set (mem_elems c k))"

definition mem_set_members :: "string \<Rightarrow> counters \<Rightarrow> string list" where
  "mem_set_members k c = sort (remdups (mem_elems c k))"

definition mem_ops :: "counters set_ops" where
  "mem_ops = \<lparr>so_add = mem_set_add, so_remove = mem_set_remove, so_size = mem_set_size, so_members = mem_set_members\<rparr>"

interpretation mem_store: set_store mem_ops "\<lambda>c k. set (mem_elems c k)"
  by unfold_locales
    (auto simp: mem_ops_def mem_set_add_def mem_set_remove_def mem_set_size_def mem_set_members_def mem_elems_def
      dict_simps split: if_splits)

text \<open>Every set operation tries Redis and falls back to the process; \<open>up\<close> says whether Redis answers.\<close>

definition dispatch :: "bool \<Rightarrow> 'r set_ops \<Rightarrow> 'm set_ops \<Rightarrow> ('r \<times> 'm) set_ops" where
  "dispatch up r m =
     \<lparr>so_add = (\<lambda>k x s. if up then (let (b, t) = so_add r k x (fst s) in (b, (t, snd s)))
                 else (let (b, t) = so_add m k x (snd s) in (b, (fst s, t)))),
      so_remove = (\<lambda>k x s. if up then (let (b, t) = so_remove r k x (fst s) in (b, (t, snd s)))
                 else (let (b, t) = so_remove m k x (snd s) in (b, (fst s, t)))),
      so_size = (\<lambda>k s. if up then so_size r k (fst s) else so_size m k (snd s)),
      so_members = (\<lambda>k s. if up then so_members r k (fst s) else so_members m k (snd s))\<rparr>"

lemma dispatch_store:
  assumes "set_store r er" "set_store m em"
  shows "set_store (dispatch up r m) (\<lambda>s. if up then er (fst s) else em (snd s))"
  using set_store.add_spec [OF assms(1)] set_store.add_spec [OF assms(2)]
    set_store.remove_spec [OF assms(1)] set_store.remove_spec [OF assms(2)]
  by unfold_locales
    (auto simp: dispatch_def set_store.size_spec [OF assms(1)] set_store.size_spec [OF assms(2)]
      set_store.members_spec [OF assms(1)] set_store.members_spec [OF assms(2)] split: prod.splits if_splits)

section \<open>Keys and periods\<close>

definition period_seconds :: "int \<Rightarrow> int" where
  "period_seconds configured = max configured 60"

definition period_bucket :: "int \<Rightarrow> int \<Rightarrow> int" where
  "period_bucket configured now = now div period_seconds configured"

text \<open>\<open>_k\<close>; the bucket of a time after 1970 is not negative.\<close>

definition quota_key :: "int \<Rightarrow> int \<Rightarrow> string \<Rightarrow> string \<Rightarrow> string" where
  "quota_key period now axis tenant =
     (if axis = ''tokens'' \<or> axis = ''cost''
      then ''quota:'' @ axis @ '':'' @ tenant @ '':'' @ nat_str (nat (period_bucket period now))
      else ''quota:'' @ axis @ '':'' @ tenant)"

definition runs_key :: "string \<Rightarrow> string" where
  "runs_key tenant = ''quota:runs:'' @ tenant"

lemma runs_key: "quota_key period now ''runs'' tenant = runs_key tenant"
  by (simp add: quota_key_def runs_key_def)

section \<open>Spending\<close>

text \<open>The reads of \<open>admit_run\<close> and \<open>charge_usage\<close> that refuse a tenant at or over a cap.\<close>

definition check_spend :: "quota_limits \<Rightarrow> int \<Rightarrow> int \<Rightarrow> string \<Rightarrow> counters \<Rightarrow> quota_error + unit" where
  "check_spend lims period now tenant c =
     (let used = get_int (quota_key period now ''tokens'' tenant) c;
          spent = get_float (quota_key period now ''cost'' tenant) c in
      if ql_tokens lims \<le> used then Inl (QuotaExceeded ''tokens'' (of_int (ql_tokens lims)) (of_int used))
      else if ql_cost lims \<le> spent then Inl (QuotaExceeded ''cost'' (ql_cost lims) spent)
      else Inr ())"

definition charge_usage ::
  "quota_limits \<Rightarrow> int \<Rightarrow> int \<Rightarrow> string \<Rightarrow> int \<Rightarrow> int \<Rightarrow> rat \<Rightarrow> counters \<Rightarrow> quota_error + counters" where
  "charge_usage lims period now tenant prompt completion cost c =
     rbind (guard (0 \<le> prompt) (BadValue ''prompt_tokens must be a non-negative integer'')) (\<lambda>_.
     rbind (guard (0 \<le> completion) (BadValue ''completion_tokens must be a non-negative integer'')) (\<lambda>_.
     rbind (guard (0 \<le> cost) (BadValue ''cost_usd must be a non-negative number'')) (\<lambda>_.
       if \<not> ql_enabled lims then Inr c
       else rbind (check_spend lims period now tenant c) (\<lambda>_.
         Inr (incr_float (quota_key period now ''cost'' tenant) cost
               (incr_int (quota_key period now ''tokens'' tenant) (prompt + completion) c))))))"

text \<open>What the chat service does with the refusal of a charge: it logs it, the turn is over anyway.\<close>

definition charge_quota_if_enabled ::
  "quota_limits \<Rightarrow> int \<Rightarrow> int \<Rightarrow> string \<Rightarrow> int \<Rightarrow> int \<Rightarrow> rat \<Rightarrow> counters \<Rightarrow> quota_error + counters" where
  "charge_quota_if_enabled lims period now tenant prompt completion cost c =
     (if \<not> ql_enabled lims then Inr c
      else if prompt = 0 \<and> completion = 0 then Inr c
      else case charge_usage lims period now tenant prompt completion cost c of
        Inl (QuotaExceeded a l n) \<Rightarrow> Inr c
      | r \<Rightarrow> r)"

section \<open>Storage and connectors\<close>

definition record_storage :: "quota_limits \<Rightarrow> string \<Rightarrow> int \<Rightarrow> counters \<Rightarrow> quota_error + counters" where
  "record_storage lims tenant bytes c =
     (if \<not> ql_enabled lims then Inr c
      else if bytes < 0 then Inl (BadValue ''bytes_count must be a non-negative integer'')
      else Inr (incr_int (''quota:storage:'' @ tenant) bytes c))"

definition check_storage :: "quota_limits \<Rightarrow> string \<Rightarrow> int \<Rightarrow> counters \<Rightarrow> quota_error + unit" where
  "check_storage lims tenant bytes c =
     (let used = get_int (''quota:storage:'' @ tenant) c in
      if \<not> ql_enabled lims then Inr ()
      else if ql_storage lims < used + bytes then Inl (QuotaExceeded ''storage'' (of_int (ql_storage lims)) (of_int used))
      else Inr ())"

definition record_connector :: "quota_limits \<Rightarrow> string \<Rightarrow> counters \<Rightarrow> counters" where
  "record_connector lims tenant c = (if \<not> ql_enabled lims then c else incr_int (''quota:connectors:'' @ tenant) 1 c)"

definition check_connector :: "quota_limits \<Rightarrow> string \<Rightarrow> counters \<Rightarrow> quota_error + unit" where
  "check_connector lims tenant c =
     (let used = get_int (''quota:connectors:'' @ tenant) c in
      if \<not> ql_enabled lims then Inr ()
      else if ql_connectors lims \<le> used then Inl (QuotaExceeded ''connectors'' (of_int (ql_connectors lims)) (of_int used))
      else Inr ())"

section \<open>The tools of a run\<close>

definition tools_key :: "string \<Rightarrow> string option \<Rightarrow> string" where
  "tools_key tenant run = ''quota:tools:'' @ tenant @ '':'' @ (case run of None \<Rightarrow> ''global'' | Some r \<Rightarrow> if r = [] then ''global'' else r)"

text \<open>\<open>check_tool\<close> in its two steps: the tool is added; a new tool over the limit is taken back and refused.\<close>

definition reserve_tool :: "'s set_ops \<Rightarrow> string \<Rightarrow> string \<Rightarrow> 's \<Rightarrow> bool \<times> 's" where
  "reserve_tool ops key tool s = so_add ops key tool s"

definition settle_tool :: "'s set_ops \<Rightarrow> quota_limits \<Rightarrow> string \<Rightarrow> string \<Rightarrow> bool \<Rightarrow> 's \<Rightarrow> (quota_error + unit) \<times> 's" where
  "settle_tool ops lims key tool added s =
     (if \<not> added then (Inr (), s)
      else let size0 = int (so_size ops key s) in
        if ql_tools lims < size0
        then (Inl (QuotaExceeded ''tools'' (of_int (ql_tools lims)) (of_int (size0 - 1))), snd (so_remove ops key tool s))
        else (Inr (), s))"

definition check_tool :: "'s set_ops \<Rightarrow> quota_limits \<Rightarrow> string \<Rightarrow> string option \<Rightarrow> string \<Rightarrow> 's \<Rightarrow> (quota_error + unit) \<times> 's" where
  "check_tool ops lims tenant run tool s =
     (if \<not> ql_enabled lims then (Inr (), s)
      else let key = tools_key tenant run; (added, s') = reserve_tool ops key tool s in
        settle_tool ops lims key tool added s')"

section \<open>Admission of runs\<close>

text \<open>A member of the set of active runs is the run's id and its deadline.\<close>

definition run_ttl_seconds :: "int \<Rightarrow> int" where
  "run_ttl_seconds configured = max configured 60"

definition run_member :: "string \<Rightarrow> nat \<Rightarrow> string" where
  "run_member run_id deadline = run_id @ ''@'' @ nat_str deadline"

definition is_decimal :: "string \<Rightarrow> bool" where
  "is_decimal s \<longleftrightarrow> s \<noteq> [] \<and> list_all (\<lambda>c. 48 \<le> (of_char c :: nat) \<and> (of_char c :: nat) \<le> 57) s"

definition member_expired :: "int \<Rightarrow> string \<Rightarrow> bool" where
  "member_expired now m = (let suff = snd (rpartition CHR ''@'' m) in is_decimal suff \<and> int (digits_value suff) < now)"

definition remove_members :: "'s set_ops \<Rightarrow> string \<Rightarrow> (string \<Rightarrow> bool) \<Rightarrow> 's \<Rightarrow> 's" where
  "remove_members ops key P s = foldl (\<lambda>s m. snd (so_remove ops key m s)) s (filter P (so_members ops key s))"

definition purge_expired_runs :: "'s set_ops \<Rightarrow> string \<Rightarrow> int \<Rightarrow> 's \<Rightarrow> 's" where
  "purge_expired_runs ops key now s = remove_members ops key (member_expired now) s"

definition release_run :: "'s set_ops \<Rightarrow> quota_limits \<Rightarrow> string \<Rightarrow> string \<Rightarrow> 's \<Rightarrow> 's" where
  "release_run ops lims tenant run_id s =
     (if \<not> ql_enabled lims \<or> run_id = [] \<or> run_id = ''disabled'' then s
      else remove_members ops (runs_key tenant) (\<lambda>m. fst (rpartition CHR ''@'' m) = run_id) s)"

text \<open>
  \<open>admit_run\<close> awaits its store between its steps, so the steps of several admissions interleave: the
  member is added; the size is read; over the limit the expired members are purged and the size is
  read again; still over the limit the member is taken back.
\<close>

datatype run_phase = Reserved | OverLimit | Purged | TakingBack | Admitted | Refused

record admission =
  am_tenant :: string
  am_deadline :: nat
  am_phase :: run_phase

record 's quota_world =
  qw_store :: 's
  qw_runs :: "(string, admission) dict"

datatype quota_event =
  StartRun string string int
| ReadSize string
| PurgeRuns string int
| TakeBack string
| ReleaseRun string string

definition set_run_phase :: "string \<Rightarrow> run_phase \<Rightarrow> 's quota_world \<Rightarrow> 's quota_world" where
  "set_run_phase r ph w =
     (case dict_get (qw_runs w) r of None \<Rightarrow> w
      | Some a \<Rightarrow> w\<lparr>qw_runs := dict_set r (a\<lparr>am_phase := ph\<rparr>) (qw_runs w)\<rparr>)"

text \<open>A run's id is new and hexadecimal; a step that does not fit the phase of its admission changes nothing.\<close>

fun quota_step :: "'s set_ops \<Rightarrow> quota_limits \<Rightarrow> int \<Rightarrow> 's quota_world \<Rightarrow> quota_event \<Rightarrow> 's quota_world" where
  "quota_step ops lims ttl w (StartRun tenant r now) =
     (if dict_get (qw_runs w) r \<noteq> None \<or> CHR ''@'' \<in> set r then w
      else let deadline = nat (now + run_ttl_seconds ttl) in
        w\<lparr>qw_store := snd (so_add ops (runs_key tenant) (run_member r deadline) (qw_store w)),
          qw_runs := dict_set r \<lparr>am_tenant = tenant, am_deadline = deadline, am_phase = Reserved\<rparr> (qw_runs w)\<rparr>)"
| "quota_step ops lims ttl w (ReadSize r) =
     (case dict_get (qw_runs w) r of None \<Rightarrow> w
      | Some a \<Rightarrow>
          let over = ql_runs lims < int (so_size ops (runs_key (am_tenant a)) (qw_store w)) in
          if am_phase a = Reserved then set_run_phase r (if over then OverLimit else Admitted) w
          else if am_phase a = Purged then set_run_phase r (if over then TakingBack else Admitted) w
          else w)"
| "quota_step ops lims ttl w (PurgeRuns r now) =
     (case dict_get (qw_runs w) r of None \<Rightarrow> w
      | Some a \<Rightarrow>
          if am_phase a = OverLimit
          then set_run_phase r Purged (w\<lparr>qw_store := purge_expired_runs ops (runs_key (am_tenant a)) now (qw_store w)\<rparr>)
          else w)"
| "quota_step ops lims ttl w (TakeBack r) =
     (case dict_get (qw_runs w) r of None \<Rightarrow> w
      | Some a \<Rightarrow>
          if am_phase a = TakingBack
          then set_run_phase r Refused
            (w\<lparr>qw_store := snd (so_remove ops (runs_key (am_tenant a)) (run_member r (am_deadline a)) (qw_store w))\<rparr>)
          else w)"
| "quota_step ops lims ttl w (ReleaseRun tenant r) = w\<lparr>qw_store := release_run ops lims tenant r (qw_store w)\<rparr>"

definition quota_run :: "'s set_ops \<Rightarrow> quota_limits \<Rightarrow> int \<Rightarrow> 's quota_world \<Rightarrow> quota_event list \<Rightarrow> 's quota_world" where
  "quota_run ops lims ttl w evs = foldl (quota_step ops lims ttl) w evs"

text \<open>\<open>admit_run\<close> of one caller without others: the refusal or the ticket.\<close>

definition admit_run ::
  "'s set_ops \<Rightarrow> quota_limits \<Rightarrow> int \<Rightarrow> int \<Rightarrow> int \<Rightarrow> string \<Rightarrow> string \<Rightarrow> counters \<Rightarrow> 's \<Rightarrow> (quota_error + string) \<times> 's" where
  "admit_run ops lims period ttl now tenant r c s =
     (if \<not> ql_enabled lims then (Inr ''disabled'', s)
      else case check_spend lims period now tenant c of
        Inl e \<Rightarrow> (Inl e, s)
      | Inr _ \<Rightarrow>
          let key = runs_key tenant; m = run_member r (nat (now + run_ttl_seconds ttl));
              s1 = snd (so_add ops key m s) in
          if int (so_size ops key s1) \<le> ql_runs lims then (Inr r, s1)
          else
            let s2 = purge_expired_runs ops key now s1; n = int (so_size ops key s2) in
            if n \<le> ql_runs lims then (Inr r, s2)
            else (Inl (QuotaExceeded ''concurrent_runs'' (of_int (ql_runs lims)) (of_int (n - 1))),
                  snd (so_remove ops key m s2)))"

end
