(* ===== verification/Quota_Claims.thy ===== *)
theory Quota_Claims
  imports Quotas
begin

text \<open>
  What the quotas promise: under any interleaving of admissions and releases a tenant never has more
  running runs than the limit allows, and the counters of a period hold what was charged in it.
\<close>

section \<open>Members\<close>

lemma decimal_nat_str: "is_decimal (nat_str n)"
  using nat_str_digits by (auto simp: is_decimal_def list_all_iff)

lemma at_not_digit: "CHR ''@'' \<notin> set (nat_str n)"
  using nat_str_digits [of "CHR ''@''" n] by auto

lemma member_parts: "rpartition CHR ''@'' (run_member r d) = (r, nat_str d)"
  unfolding run_member_def by (simp add: rpartition_last at_not_digit)

lemma member_inject: "run_member r d = run_member r' d' \<longleftrightarrow> r = r' \<and> d = d'"
  using member_parts [of r d] member_parts [of r' d'] by (metis nat_str_inject prod.inject)

lemma member_expired_iff: "member_expired now (run_member r d) \<longleftrightarrow> int d < now"
  by (simp add: member_expired_def member_parts decimal_nat_str digits_value_nat_str)

lemma runs_key_inject [simp]: "runs_key t = runs_key t' \<longleftrightarrow> t = t'"
  by (simp add: runs_key_def)

context set_store begin

lemma elems_remove_members:
  "elems (remove_members ops k P s) = (elems s)(k := {m \<in> elems s k. \<not> P m})"
proof -
  have "set (filter P (so_members ops k s)) = {m \<in> elems s k. P m}" by (auto simp: members_spec)
  then show ?thesis unfolding remove_members_def elems_remove_all by (auto simp: fun_eq_iff)
qed

end

section \<open>The runs that count\<close>

text \<open>A run was released, or its deadline has passed at a purge: the history says so.\<close>

definition released :: "quota_event list \<Rightarrow> string \<Rightarrow> string \<Rightarrow> bool" where
  "released evs tenant r \<longleftrightarrow> ReleaseRun tenant r \<in> set evs"

definition outlived :: "quota_event list \<Rightarrow> nat \<Rightarrow> bool" where
  "outlived evs deadline \<longleftrightarrow> list_ex (\<lambda>e. case e of PurgeRuns r now \<Rightarrow> int deadline < now | _ \<Rightarrow> False) evs"

definition running :: "quota_event list \<Rightarrow> 's quota_world \<Rightarrow> string \<Rightarrow> string set" where
  "running evs w tenant = {r. \<exists>a. dict_get (qw_runs w) r = Some a \<and> am_phase a = Admitted \<and> am_tenant a = tenant
     \<and> \<not> released evs tenant r \<and> \<not> outlived evs (am_deadline a)}"

text \<open>The admitted runs whose members are still in the set.\<close>

definition held :: "('s \<Rightarrow> string \<Rightarrow> string set) \<Rightarrow> 's quota_world \<Rightarrow> string \<Rightarrow> string set" where
  "held elems w tenant = {r. \<exists>a. dict_get (qw_runs w) r = Some a \<and> am_phase a = Admitted \<and> am_tenant a = tenant
     \<and> run_member r (am_deadline a) \<in> elems (qw_store w) (runs_key tenant)}"

definition quota_inv :: "('s \<Rightarrow> string \<Rightarrow> string set) \<Rightarrow> quota_limits \<Rightarrow> quota_event list \<Rightarrow> 's quota_world \<Rightarrow> bool" where
  "quota_inv elems lims evs w \<longleftrightarrow>
     (\<forall>tenant. finite (held elems w tenant) \<and> (held elems w tenant = {} \<or> int (card (held elems w tenant)) \<le> ql_runs lims))
     \<and> (\<forall>r a. dict_get (qw_runs w) r = Some a \<longrightarrow> am_phase a \<noteq> Refused \<longrightarrow> \<not> released evs (am_tenant a) r
          \<longrightarrow> \<not> outlived evs (am_deadline a) \<longrightarrow> run_member r (am_deadline a) \<in> elems (qw_store w) (runs_key (am_tenant a)))"

lemma running_held: "quota_inv elems lims evs w \<Longrightarrow> running evs w tenant \<subseteq> held elems w tenant"
  by (auto simp: quota_inv_def running_def held_def)

lemma history_grows:
  "released evs t r \<Longrightarrow> released (evs @ [e]) t r" "outlived evs d \<Longrightarrow> outlived (evs @ [e]) d"
  by (auto simp: released_def outlived_def)

lemma bound_subset:
  assumes "finite B \<and> (B = {} \<or> int (card B) \<le> n)" "A \<subseteq> B"
  shows "finite A \<and> (A = {} \<or> int (card A) \<le> n)"
  using assms finite_subset [OF assms(2)] card_mono [of B A] by auto

lemma get_set_run_phase:
  "dict_get (qw_runs (set_run_phase r ph w)) r'
     = (if r' = r then map_option (am_phase_update (\<lambda>_. ph)) (dict_get (qw_runs w) r) else dict_get (qw_runs w) r')"
  "qw_store (set_run_phase r ph w) = qw_store w"
  by (auto simp: set_run_phase_def dict_simps split: option.split)

lemma quota_inv_cap:
  assumes "quota_inv elems lims evs w"
  shows "finite (held elems w tenant) \<and> (held elems w tenant = {} \<or> int (card (held elems w tenant)) \<le> ql_runs lims)"
  using assms unfolding quota_inv_def by blast

text \<open>A step that admits no run and removes only members that no longer count keeps the invariant.\<close>

lemma quota_inv_kept:
  assumes inv: "quota_inv elems lims evs w"
    and admitted: "\<And>r a. dict_get (qw_runs w') r = Some a \<Longrightarrow> am_phase a = Admitted \<Longrightarrow>
      (\<exists>b. dict_get (qw_runs w) r = Some b \<and> am_phase b = Admitted \<and> am_tenant b = am_tenant a \<and> am_deadline b = am_deadline a)
      \<and> (run_member r (am_deadline a) \<in> elems (qw_store w') (runs_key (am_tenant a))
          \<longrightarrow> run_member r (am_deadline a) \<in> elems (qw_store w) (runs_key (am_tenant a)))"
    and kept: "\<And>r a. dict_get (qw_runs w') r = Some a \<Longrightarrow> am_phase a \<noteq> Refused \<Longrightarrow> \<not> released (evs @ [e]) (am_tenant a) r
      \<Longrightarrow> \<not> outlived (evs @ [e]) (am_deadline a) \<Longrightarrow> run_member r (am_deadline a) \<in> elems (qw_store w') (runs_key (am_tenant a))"
  shows "quota_inv elems lims (evs @ [e]) w'"
  unfolding quota_inv_def
proof (intro conjI allI impI)
  fix tenant
  have "held elems w' tenant \<subseteq> held elems w tenant"
  proof
    fix r
    assume "r \<in> held elems w' tenant"
    then obtain a where a: "dict_get (qw_runs w') r = Some a" "am_phase a = Admitted" "am_tenant a = tenant"
      "run_member r (am_deadline a) \<in> elems (qw_store w') (runs_key tenant)" by (auto simp: held_def)
    show "r \<in> held elems w tenant" using admitted [OF a(1,2)] a(3,4) unfolding held_def by auto
  qed
  then have "finite (held elems w' tenant) \<and> (held elems w' tenant = {} \<or> int (card (held elems w' tenant)) \<le> ql_runs lims)"
    by (rule bound_subset [OF quota_inv_cap [OF inv]])
  then show "finite (held elems w' tenant)" "held elems w' tenant = {} \<or> int (card (held elems w' tenant)) \<le> ql_runs lims" by auto
qed (use kept in blast)

lemma quota_inv_member:
  assumes "quota_inv elems lims evs w" "dict_get (qw_runs w) r = Some a" "am_phase a \<noteq> Refused"
    and "\<not> released (evs @ [e]) (am_tenant a) r" "\<not> outlived (evs @ [e]) (am_deadline a)"
  shows "run_member r (am_deadline a) \<in> elems (qw_store w) (runs_key (am_tenant a))"
  using assms history_grows unfolding quota_inv_def by meson

context set_store begin

lemma start_inv:
  assumes "quota_inv elems lims evs w"
  shows "quota_inv elems lims (evs @ [e]) (quota_step ops lims ttl w (StartRun tenant r now))"
  by (rule quota_inv_kept [OF assms])
    (auto simp: elems_add member_inject dict_simps Let_def split: if_splits dest: quota_inv_member [OF assms])

lemma phase_inv:
  assumes "quota_inv elems lims evs w" "ph \<noteq> Admitted" "dict_get (qw_runs w) r = Some a" "am_phase a \<noteq> Refused"
  shows "quota_inv elems lims (evs @ [e]) (set_run_phase r ph w)"
  by (rule quota_inv_kept [OF assms(1)])
    (use assms in \<open>auto simp: get_set_run_phase split: if_splits dest: quota_inv_member [OF assms(1)]\<close>)

text \<open>At the moment of an admission the set holds every run that counts and is not larger than the limit.\<close>

lemma admit_inv:
  assumes inv: "quota_inv elems lims evs w" and r: "dict_get (qw_runs w) r = Some a" "am_phase a \<noteq> Refused"
    and room: "int (so_size ops (runs_key (am_tenant a)) (qw_store w)) \<le> ql_runs lims"
  shows "quota_inv elems lims (evs @ [e]) (set_run_phase r Admitted w)"
  unfolding quota_inv_def
proof (intro conjI allI impI)
  let ?w = "set_run_phase r Admitted w"
  fix tenant
  let ?f = "\<lambda>x. run_member x (case dict_get (qw_runs ?w) x of Some b \<Rightarrow> am_deadline b | None \<Rightarrow> 0)"
  have bound: "finite (held elems ?w tenant) \<and> (held elems ?w tenant = {} \<or> int (card (held elems ?w tenant)) \<le> ql_runs lims)"
  proof (cases "tenant = am_tenant a")
    case True
    have "inj_on ?f (held elems ?w tenant)" by (rule inj_onI) (simp add: member_inject)
    moreover have "?f ` held elems ?w tenant \<subseteq> elems (qw_store w) (runs_key tenant)"
      by (auto simp: held_def get_set_run_phase)
    ultimately show ?thesis using members_within_size room True by (metis of_nat_le_iff order_trans)
  next
    case False
    then have "held elems ?w tenant \<subseteq> held elems w tenant"
      using r by (auto simp: held_def get_set_run_phase split: if_splits)
    then show ?thesis by (rule bound_subset [OF quota_inv_cap [OF inv]])
  qed
  then show "finite (held elems ?w tenant)" "held elems ?w tenant = {} \<or> int (card (held elems ?w tenant)) \<le> ql_runs lims" by auto
next
  fix r' b
  assume "dict_get (qw_runs (set_run_phase r Admitted w)) r' = Some b" "\<not> released (evs @ [e]) (am_tenant b) r'"
    "\<not> outlived (evs @ [e]) (am_deadline b)" "am_phase b \<noteq> Refused"
  then show "run_member r' (am_deadline b) \<in> elems (qw_store (set_run_phase r Admitted w)) (runs_key (am_tenant b))"
    using r by (auto simp: get_set_run_phase split: if_splits dest: quota_inv_member [OF inv])
qed

lemma quota_step_inv:
  assumes inv: "quota_inv elems lims evs w"
  shows "quota_inv elems lims (evs @ [e]) (quota_step ops lims ttl w e)"
proof (cases e)
  case (StartRun tenant r now)
  then show ?thesis using start_inv [OF inv] by blast
next
  case (ReadSize r)
  have same: "quota_inv elems lims (evs @ [e]) w"
    by (rule quota_inv_kept [OF inv]) (auto dest: quota_inv_member [OF inv])
  show ?thesis
  proof (cases "dict_get (qw_runs w) r")
    case (Some a)
    let ?over = "ql_runs lims < int (so_size ops (runs_key (am_tenant a)) (qw_store w))"
    have admit: "am_phase a \<noteq> Refused \<Longrightarrow> \<not> ?over \<Longrightarrow> quota_inv elems lims (evs @ [e]) (set_run_phase r Admitted w)"
      using admit_inv [OF inv Some] by simp
    have "quota_inv elems lims (evs @ [e]) (set_run_phase r OverLimit w)" if "am_phase a \<noteq> Refused"
      using phase_inv [OF inv _ Some that] by simp
    moreover have "quota_inv elems lims (evs @ [e]) (set_run_phase r TakingBack w)" if "am_phase a \<noteq> Refused"
      using phase_inv [OF inv _ Some that] by simp
    ultimately show ?thesis using same admit Some unfolding ReadSize by (simp add: Let_def)
  qed (use same ReadSize in simp)
next
  case (PurgeRuns r now)
  show ?thesis
  proof (cases "dict_get (qw_runs w) r")
    case (Some c)
    show ?thesis
    proof (rule quota_inv_kept [OF inv])
      fix r' a
      assume a: "dict_get (qw_runs (quota_step ops lims ttl w e)) r' = Some a"
      show "am_phase a = Admitted \<Longrightarrow> (\<exists>b. dict_get (qw_runs w) r' = Some b \<and> am_phase b = Admitted \<and> am_tenant b = am_tenant a
          \<and> am_deadline b = am_deadline a)
        \<and> (run_member r' (am_deadline a) \<in> elems (qw_store (quota_step ops lims ttl w e)) (runs_key (am_tenant a))
            \<longrightarrow> run_member r' (am_deadline a) \<in> elems (qw_store w) (runs_key (am_tenant a)))"
        using a Some unfolding PurgeRuns
        by (auto simp: get_set_run_phase purge_expired_runs_def elems_remove_members split: if_splits)
      assume "am_phase a \<noteq> Refused" "\<not> released (evs @ [e]) (am_tenant a) r'" "\<not> outlived (evs @ [e]) (am_deadline a)"
      moreover have "\<not> member_expired now (run_member r' (am_deadline a))"
        using \<open>\<not> outlived (evs @ [e]) (am_deadline a)\<close> PurgeRuns by (simp add: outlived_def member_expired_iff)
      ultimately show "run_member r' (am_deadline a) \<in> elems (qw_store (quota_step ops lims ttl w e)) (runs_key (am_tenant a))"
        using a Some unfolding PurgeRuns
        by (auto simp: get_set_run_phase purge_expired_runs_def elems_remove_members split: if_splits
            dest: quota_inv_member [OF inv])
    qed
  next
    case None
    then show ?thesis unfolding PurgeRuns by (intro quota_inv_kept [OF inv]) (auto dest: quota_inv_member [OF inv])
  qed
next
  case (TakeBack r)
  show ?thesis
  proof (cases "dict_get (qw_runs w) r")
    case (Some c)
    show ?thesis
    proof (rule quota_inv_kept [OF inv])
      fix r' a
      assume a: "dict_get (qw_runs (quota_step ops lims ttl w e)) r' = Some a"
      show "am_phase a = Admitted \<Longrightarrow> (\<exists>b. dict_get (qw_runs w) r' = Some b \<and> am_phase b = Admitted \<and> am_tenant b = am_tenant a
          \<and> am_deadline b = am_deadline a)
        \<and> (run_member r' (am_deadline a) \<in> elems (qw_store (quota_step ops lims ttl w e)) (runs_key (am_tenant a))
            \<longrightarrow> run_member r' (am_deadline a) \<in> elems (qw_store w) (runs_key (am_tenant a)))"
        using a Some unfolding TakeBack by (auto simp: get_set_run_phase elems_remove split: if_splits)
      assume "am_phase a \<noteq> Refused" "\<not> released (evs @ [e]) (am_tenant a) r'" "\<not> outlived (evs @ [e]) (am_deadline a)"
      then show "run_member r' (am_deadline a) \<in> elems (qw_store (quota_step ops lims ttl w e)) (runs_key (am_tenant a))"
        using a Some unfolding TakeBack
        by (auto simp: get_set_run_phase elems_remove member_inject split: if_splits dest: quota_inv_member [OF inv])
    qed
  next
    case None
    then show ?thesis unfolding TakeBack by (intro quota_inv_kept [OF inv]) (auto dest: quota_inv_member [OF inv])
  qed
next
  case (ReleaseRun tenant r)
  show ?thesis
  proof (rule quota_inv_kept [OF inv])
    fix r' a
    assume a: "dict_get (qw_runs (quota_step ops lims ttl w e)) r' = Some a"
    show "am_phase a = Admitted \<Longrightarrow> (\<exists>b. dict_get (qw_runs w) r' = Some b \<and> am_phase b = Admitted \<and> am_tenant b = am_tenant a
        \<and> am_deadline b = am_deadline a)
      \<and> (run_member r' (am_deadline a) \<in> elems (qw_store (quota_step ops lims ttl w e)) (runs_key (am_tenant a))
          \<longrightarrow> run_member r' (am_deadline a) \<in> elems (qw_store w) (runs_key (am_tenant a)))"
      using a unfolding ReleaseRun by (auto simp: release_run_def elems_remove_members split: if_splits)
    assume b: "am_phase a \<noteq> Refused" "\<not> released (evs @ [e]) (am_tenant a) r'" "\<not> outlived (evs @ [e]) (am_deadline a)"
    have "run_member r' (am_deadline a) \<in> elems (qw_store w) (runs_key (am_tenant a))"
      using a b quota_inv_member [OF inv] unfolding ReleaseRun by simp
    moreover have "\<not> (am_tenant a = tenant \<and> r' = r)" using b(2) ReleaseRun by (auto simp: released_def)
    ultimately show "run_member r' (am_deadline a) \<in> elems (qw_store (quota_step ops lims ttl w e)) (runs_key (am_tenant a))"
      unfolding ReleaseRun by (auto simp: release_run_def elems_remove_members member_parts)
  qed
qed

lemma quota_run_inv:
  assumes "quota_inv elems lims [] w"
  shows "quota_inv elems lims evs (quota_run ops lims ttl w evs)"
proof (induction evs rule: rev_induct)
  case (snoc e evs)
  then show ?case using quota_step_inv [OF snoc] by (simp add: quota_run_def)
qed (use assms in \<open>simp add: quota_run_def\<close>)

text \<open>Alone, an admission succeeds exactly when fewer members than the limit are there, not counting expired ones.\<close>

lemma admit_run_alone:
  assumes on: "ql_enabled lims" and spend: "check_spend lims period now tenant c = Inr ()" and now: "0 \<le> now"
    and fresh: "run_member r (nat (now + run_ttl_seconds ttl)) \<notin> elems s (runs_key tenant)"
  shows "fst (admit_run ops lims period ttl now tenant r c s) = Inr r
    \<longleftrightarrow> int (card {m \<in> elems s (runs_key tenant). \<not> member_expired now m}) < ql_runs lims"
proof -
  let ?k = "runs_key tenant" and ?m = "run_member r (nat (now + run_ttl_seconds ttl))"
  let ?s1 = "snd (so_add ops ?k ?m s)"
  let ?live = "{m \<in> elems s ?k. \<not> member_expired now m}"
  have alive: "\<not> member_expired now ?m" using now by (simp add: member_expired_iff run_ttl_seconds_def)
  have n1: "so_size ops ?k ?s1 = Suc (card (elems s ?k))"
    using fresh finite_elems by (simp add: size_spec elems_add)
  have "{m \<in> insert ?m (elems s ?k). \<not> member_expired now m} = insert ?m ?live" using alive by auto
  then have n2: "so_size ops ?k (purge_expired_runs ops ?k now ?s1) = Suc (card ?live)"
    using fresh finite_elems by (simp add: size_spec purge_expired_runs_def elems_remove_members elems_add)
  have "card ?live \<le> card (elems s ?k)" by (rule card_mono [OF finite_elems]) auto
  then show ?thesis using on spend n1 n2 by (auto simp: admit_run_def Let_def)
qed

end

text \<open>C36: In every interleaving of the steps of admissions, releases and purges, a tenant never has more runs that were
  admitted, not released and not past their deadline at a purge than the limit of concurrent runs; the
  store of the sets may be any that keeps the contract of the set operations.\<close>

theorem concurrent_runs_bounded:
  assumes "set_store ops elems"
  shows "let w = quota_run ops lims ttl \<lparr>qw_store = s, qw_runs = []\<rparr> evs in
    finite (running evs w tenant) \<and> (running evs w tenant = {} \<or> int (card (running evs w tenant)) \<le> ql_runs lims)"
proof -
  have "quota_inv elems lims [] \<lparr>qw_store = s, qw_runs = []\<rparr>" by (simp add: quota_inv_def held_def)
  from set_store.quota_run_inv [OF assms this]
  have inv: "quota_inv elems lims evs (quota_run ops lims ttl \<lparr>qw_store = s, qw_runs = []\<rparr> evs)" .
  show ?thesis unfolding Let_def by (rule bound_subset [OF quota_inv_cap [OF inv] running_held [OF inv]])
qed

definition one_run :: quota_limits where
  "one_run = \<lparr>ql_enabled = True, ql_runs = 1, ql_tokens = 10, ql_cost = 1, ql_storage = 1, ql_connectors = 1, ql_tools = 1\<rparr>"

definition two_admissions :: "quota_event list" where
  "two_admissions = [StartRun ''t'' ''a'' 0, ReadSize ''a'', StartRun ''t'' ''b'' 5, ReadSize ''b'', PurgeRuns ''b'' 5, ReadSize ''b'']"

text \<open>The first of two admissions runs, the second is about to be refused.\<close>

theorem concurrent_runs_bounded_witness:
  "let w = quota_run mem_ops one_run 60 \<lparr>qw_store = no_counters, qw_runs = []\<rparr> two_admissions in
     map_option am_phase (dict_get (qw_runs w) ''a'') = Some Admitted
     \<and> map_option am_phase (dict_get (qw_runs w) ''b'') = Some TakingBack
     \<and> (running two_admissions w ''t'' = {} \<or> int (card (running two_admissions w ''t'')) \<le> 1)"
proof -
  let ?w = "quota_run mem_ops one_run 60 \<lparr>qw_store = no_counters, qw_runs = []\<rparr> two_admissions"
  have "map_option am_phase (dict_get (qw_runs ?w) ''a'') = Some Admitted
     \<and> map_option am_phase (dict_get (qw_runs ?w) ''b'') = Some TakingBack" by code_simp
  moreover have "running two_admissions ?w ''t'' = {} \<or> int (card (running two_admissions ?w ''t'')) \<le> 1"
    using concurrent_runs_bounded [OF mem_store.set_store_axioms, of one_run 60 no_counters two_admissions "''t''"]
    by (simp add: Let_def one_run_def)
  ultimately show ?thesis by (simp add: Let_def)
qed

section \<open>Spending and tools\<close>

text \<open>The counter of a period grows only by charges made below the cap.\<close>

lemma charge_below_cap:
  assumes "charge_usage lims period now tenant p q x c = Inr c'" "ql_enabled lims"
  shows "get_int (quota_key period now ''tokens'' tenant) c' = get_int (quota_key period now ''tokens'' tenant) c + (p + q)"
    "get_int (quota_key period now ''tokens'' tenant) c < ql_tokens lims" "0 \<le> p" "0 \<le> q"
  using assms by (auto simp: charge_usage_def check_spend_def result_simps Let_def incr_int_def incr_float_def get_int_def
      dict_simps split: if_splits)

text \<open>A turn that ends when the tenant is over a cap leaves no trace in the counters.\<close>

lemma usage_after_cap_is_lost:
  assumes "ql_enabled lims" "0 \<le> p" "0 \<le> q" "0 \<le> x" "ql_tokens lims \<le> get_int (quota_key period now ''tokens'' tenant) c"
  shows "charge_quota_if_enabled lims period now tenant p q x c = Inr c"
  using assms by (auto simp: charge_quota_if_enabled_def charge_usage_def check_spend_def guard_def Let_def)

text \<open>While a new tool is being refused, another call of it is let through.\<close>

lemma refused_tool_runs:
  "let c0 = snd (mem_set_add ''k'' ''a'' no_counters);
       (added1, c1) = reserve_tool mem_ops ''k'' ''b'' c0;
       (added2, c2) = reserve_tool mem_ops ''k'' ''b'' c1;
       (second, c3) = settle_tool mem_ops one_run ''k'' ''b'' added2 c2;
       (first, c4) = settle_tool mem_ops one_run ''k'' ''b'' added1 c3
   in second = Inr () \<and> first = Inl (QuotaExceeded ''tools'' 1 1)"
  by code_simp

end
