(* ===== verification/Email_Codes.thy ===== *)
theory Email_Codes
  imports Auth_Tokens
begin

text \<open>
  One-time codes by mail (\<open>services/email_code_service.py\<close>): issue, throttle, verify, consume. The
  commands of Redis are a parameter with their documented effect on a view of the keys: each key
  holds a value and, perhaps, the time it expires. Times are whole seconds.
\<close>

section \<open>Keys that expire\<close>

datatype rvalue = RText string | RCount int | RMembers "string list"

type_synonym rview = "string \<Rightarrow> (rvalue \<times> int option) option"

definition live_entry :: "int \<Rightarrow> (rvalue \<times> int option) option \<Rightarrow> (rvalue \<times> int option) option" where
  "live_entry now x = (case x of Some (v, Some d) \<Rightarrow> if d \<le> now then None else x | _ \<Rightarrow> x)"

record 'r redis_keys =
  rk_get :: "int \<Rightarrow> string \<Rightarrow> 'r \<Rightarrow> string option"
  rk_set :: "int \<Rightarrow> string \<Rightarrow> string \<Rightarrow> int \<Rightarrow> 'r \<Rightarrow> 'r"
  rk_set_nx :: "int \<Rightarrow> string \<Rightarrow> string \<Rightarrow> int \<Rightarrow> 'r \<Rightarrow> bool \<times> 'r"
  rk_ttl :: "int \<Rightarrow> string \<Rightarrow> 'r \<Rightarrow> int"
  rk_delete :: "int \<Rightarrow> string \<Rightarrow> 'r \<Rightarrow> 'r"
  rk_incr :: "int \<Rightarrow> string \<Rightarrow> 'r \<Rightarrow> int \<times> 'r"
  rk_expire :: "int \<Rightarrow> string \<Rightarrow> int \<Rightarrow> 'r \<Rightarrow> 'r"
  rk_zcard :: "int \<Rightarrow> string \<Rightarrow> 'r \<Rightarrow> nat"
  rk_zadd :: "int \<Rightarrow> string \<Rightarrow> string \<Rightarrow> 'r \<Rightarrow> 'r"
  rk_exists :: "int \<Rightarrow> string \<Rightarrow> 'r \<Rightarrow> bool"

definition text_of :: "(rvalue \<times> int option) option \<Rightarrow> string option" where
  "text_of x = (case x of Some (RText s, _) \<Rightarrow> Some s | _ \<Rightarrow> None)"

definition count_in :: "(rvalue \<times> int option) option \<Rightarrow> int" where
  "count_in x = (case x of Some (RCount n, _) \<Rightarrow> n | _ \<Rightarrow> 0)"

definition members_in :: "(rvalue \<times> int option) option \<Rightarrow> string list" where
  "members_in x = (case x of Some (RMembers ms, _) \<Rightarrow> ms | _ \<Rightarrow> [])"

definition deadline_of :: "(rvalue \<times> int option) option \<Rightarrow> int option" where
  "deadline_of x = (case x of Some (_, d) \<Rightarrow> d | None \<Rightarrow> None)"

text \<open>The documented effects.\<close>

definition redis_keys_ok :: "'r redis_keys \<Rightarrow> ('r \<Rightarrow> rview) \<Rightarrow> bool" where
  "redis_keys_ok ops view \<longleftrightarrow>
     (\<forall>now k r. rk_get ops now k r = text_of (live_entry now (view r k)))
     \<and> (\<forall>now k s ex r. view (rk_set ops now k s ex r) = (view r)(k := Some (RText s, Some (now + ex))))
     \<and> (\<forall>now k s ex r. fst (rk_set_nx ops now k s ex r) = (live_entry now (view r k) = None)
          \<and> view (snd (rk_set_nx ops now k s ex r))
              = (if live_entry now (view r k) = None then (view r)(k := Some (RText s, Some (now + ex))) else view r))
     \<and> (\<forall>now k r. rk_ttl ops now k r = (case live_entry now (view r k) of None \<Rightarrow> - 2 | Some (_, None) \<Rightarrow> - 1
          | Some (_, Some d) \<Rightarrow> d - now))
     \<and> (\<forall>now k r. view (rk_delete ops now k r) = (view r)(k := None))
     \<and> (\<forall>now k r. fst (rk_incr ops now k r) = count_in (live_entry now (view r k)) + 1
          \<and> view (snd (rk_incr ops now k r))
              = (view r)(k := Some (RCount (count_in (live_entry now (view r k)) + 1), deadline_of (live_entry now (view r k)))))
     \<and> (\<forall>now k ttl r. view (rk_expire ops now k ttl r)
          = (case live_entry now (view r k) of None \<Rightarrow> view r | Some (v, _) \<Rightarrow> (view r)(k := Some (v, Some (now + ttl)))))
     \<and> (\<forall>now k r. rk_zcard ops now k r = length (members_in (live_entry now (view r k))))
     \<and> (\<forall>now k m r. view (rk_zadd ops now k m r)
          = (view r)(k := Some (RMembers (List.insert m (members_in (live_entry now (view r k)))), deadline_of (live_entry now (view r k)))))
     \<and> (\<forall>now k r. rk_exists ops now k r = (live_entry now (view r k) \<noteq> None))"

section \<open>Settings and keys\<close>

record code_settings =
  es_ttl :: int
  es_interval :: int
  es_burst_limit :: nat
  es_burst_window :: int
  es_max_attempts :: int
  es_mail_enabled :: bool
  es_is_prod :: bool

datatype purpose = Register | Reset

definition purpose_text :: "purpose \<Rightarrow> string" where
  "purpose_text p = (case p of Register \<Rightarrow> ''register'' | Reset \<Rightarrow> ''reset'')"

definition code_key :: "string \<Rightarrow> purpose \<Rightarrow> string" where
  "code_key email p = ''mychat:email_code:'' @ purpose_text p @ '':'' @ email"

definition interval_key :: "string \<Rightarrow> string" where
  "interval_key email = ''mychat:email_code_interval:'' @ email"

definition burst_key :: "string \<Rightarrow> string" where
  "burst_key email = ''mychat:email_code_burst:'' @ email"

definition attempts_key :: "string \<Rightarrow> string" where
  "attempts_key email = ''mychat:email_code_attempts:'' @ email"

lemma email_keys_differ:
  "code_key e p = code_key e' p' \<longleftrightarrow> e = e' \<and> p = p'"
  "interval_key e = interval_key e' \<longleftrightarrow> e = e'" "burst_key e = burst_key e' \<longleftrightarrow> e = e'"
  "attempts_key e = attempts_key e' \<longleftrightarrow> e = e'"
  "code_key e p \<noteq> interval_key e'" "code_key e p \<noteq> burst_key e'" "code_key e p \<noteq> attempts_key e'"
  "interval_key e \<noteq> code_key e' p'" "burst_key e \<noteq> code_key e' p'" "attempts_key e \<noteq> code_key e' p'"
  "interval_key e \<noteq> attempts_key e'" "attempts_key e \<noteq> interval_key e'"
  "burst_key e \<noteq> attempts_key e'" "attempts_key e \<noteq> burst_key e'"
  "burst_key e \<noteq> interval_key e'" "interval_key e \<noteq> burst_key e'"
  by (auto simp: code_key_def interval_key_def burst_key_def attempts_key_def purpose_text_def split: purpose.splits)

section \<open>Requesting a code\<close>

text \<open>The refusals: too soon, with the seconds to wait; too many; the mail server failed.\<close>

datatype code_error = TooSoon int | TooManySends | MailFailed | CodeInvalidated | BadGuess

text \<open>
  \<open>token\<close> is the random suffix of the send event, \<open>code\<close> the random code; \<open>mail_ok\<close> says whether the mail
  was accepted.
\<close>

definition request_code ::
  "code_settings \<Rightarrow> 'r redis_keys \<Rightarrow> int \<Rightarrow> string \<Rightarrow> string \<Rightarrow> bool \<Rightarrow> string \<Rightarrow> purpose \<Rightarrow> 'r \<Rightarrow> (code_error + string option) \<times> 'r" where
  "request_code cfg ops now token code mail_ok raw_email p r =
     (let email = normalize_email raw_email;
          (got, r1) = (if 0 < es_interval cfg then rk_set_nx ops now (interval_key email) ''1'' (es_interval cfg) r else (True, r)) in
      if \<not> got then (Inl (TooSoon (max (rk_ttl ops now (interval_key email) r1) 1)), r1)
      else if es_burst_limit cfg \<le> rk_zcard ops now (burst_key email) r1 then (Inl TooManySends, r1)
      else
        let r2 = rk_zadd ops now (burst_key email) (purpose_text p @ '':'' @ token) r1;
            r3 = rk_expire ops now (burst_key email) (es_burst_window cfg) r2;
            r4 = rk_set ops now (code_key email p) code (es_ttl cfg) r3 in
        if \<not> mail_ok then (Inl MailFailed, r4)
        else (Inr (if \<not> es_mail_enabled cfg \<and> \<not> es_is_prod cfg \<and> p = Register then Some code else None), r4))"

section \<open>Verifying a code\<close>

text \<open>\<open>hmac.compare_digest\<close> raises on text that is not ASCII.\<close>

definition ascii_text :: "string \<Rightarrow> bool" where
  "ascii_text s \<longleftrightarrow> list_all (\<lambda>c. (of_char c :: nat) < 128) s"

text \<open>The two moments of a verification: the stored code is read and compared; the outcome is written.\<close>

definition compare_code :: "'r redis_keys \<Rightarrow> int \<Rightarrow> string \<Rightarrow> string \<Rightarrow> purpose \<Rightarrow> 'r \<Rightarrow> code_error + bool option" where
  "compare_code ops now raw_email guess p r =
     (case rk_get ops now (code_key (normalize_email raw_email) p) r of
        None \<Rightarrow> Inr None
      | Some stored \<Rightarrow>
          if stored = [] then Inr None
          else if \<not> ascii_text (py_strip guess) then Inl BadGuess
          else Inr (Some (stored = py_strip guess)))"

definition settle_code ::
  "code_settings \<Rightarrow> 'r redis_keys \<Rightarrow> int \<Rightarrow> string \<Rightarrow> purpose \<Rightarrow> bool option \<Rightarrow> 'r \<Rightarrow> (code_error + bool) \<times> 'r" where
  "settle_code cfg ops now raw_email p compared r =
     (let email = normalize_email raw_email in
      case compared of
        None \<Rightarrow> (Inr False, r)
      | Some True \<Rightarrow>
          (Inr True, rk_delete ops now (attempts_key email)
             (rk_delete ops now (interval_key email) (rk_delete ops now (code_key email p) r)))
      | Some False \<Rightarrow>
          let (attempts, r1) = rk_incr ops now (attempts_key email) r;
              r2 = rk_expire ops now (attempts_key email) (es_ttl cfg) r1 in
          if es_max_attempts cfg \<le> attempts
          then (Inl CodeInvalidated, rk_delete ops now (attempts_key email) (rk_delete ops now (code_key email p) r2))
          else (Inr False, r2))"

definition verify_and_consume ::
  "code_settings \<Rightarrow> 'r redis_keys \<Rightarrow> int \<Rightarrow> string \<Rightarrow> string \<Rightarrow> purpose \<Rightarrow> 'r \<Rightarrow> (code_error + bool) \<times> 'r" where
  "verify_and_consume cfg ops now email guess p r =
     (case compare_code ops now email guess p r of
        Inl e \<Rightarrow> (Inl e, r)
      | Inr compared \<Rightarrow> settle_code cfg ops now email p compared r)"

definition has_pending_code :: "'r redis_keys \<Rightarrow> int \<Rightarrow> string \<Rightarrow> purpose \<Rightarrow> 'r \<Rightarrow> bool" where
  "has_pending_code ops now email p r = rk_exists ops now (code_key (normalize_email email) p) r"

section \<open>Histories\<close>

datatype code_op =
  RequestCode int string string bool string purpose
| VerifyCode int string string purpose

fun code_step :: "code_settings \<Rightarrow> 'r redis_keys \<Rightarrow> 'r \<Rightarrow> code_op \<Rightarrow> 'r" where
  "code_step cfg ops r (RequestCode now token code mail_ok email p) = snd (request_code cfg ops now token code mail_ok email p r)"
| "code_step cfg ops r (VerifyCode now email guess p) = snd (verify_and_consume cfg ops now email guess p r)"

definition code_run :: "code_settings \<Rightarrow> 'r redis_keys \<Rightarrow> 'r \<Rightarrow> code_op list \<Rightarrow> 'r" where
  "code_run cfg ops r evs = foldl (code_step cfg ops) r evs"

definition op_time :: "code_op \<Rightarrow> int" where
  "op_time e = (case e of RequestCode now _ _ _ _ _ \<Rightarrow> now | VerifyCode now _ _ _ \<Rightarrow> now)"

definition op_email :: "code_op \<Rightarrow> string" where
  "op_email e = normalize_email (case e of RequestCode _ _ _ _ email _ \<Rightarrow> email | VerifyCode _ email _ _ \<Rightarrow> email)"

definition op_purpose :: "code_op \<Rightarrow> purpose" where
  "op_purpose e = (case e of RequestCode _ _ _ _ _ p \<Rightarrow> p | VerifyCode _ _ _ p \<Rightarrow> p)"

end
