(* ===== verification/Code_Claims.thy ===== *)
theory Code_Claims
  imports Email_Codes
begin

text \<open>
  What a mailed code is worth: it is accepted once, only for its address and purpose and only while it
  lives, and the guesses against it are bounded as long as the address has codes of one purpose.
\<close>

section \<open>What the commands do to the view\<close>

lemma redis_effects:
  assumes "redis_keys_ok ops view"
  shows "rk_get ops now k r = text_of (live_entry now (view r k))"
    and "view (rk_set ops now k s ex r) = (view r)(k := Some (RText s, Some (now + ex)))"
    and "fst (rk_set_nx ops now k s ex r) = (live_entry now (view r k) = None)"
    and "view (snd (rk_set_nx ops now k s ex r))
      = (if live_entry now (view r k) = None then (view r)(k := Some (RText s, Some (now + ex))) else view r)"
    and "view (rk_delete ops now k r) = (view r)(k := None)"
    and "fst (rk_incr ops now k r) = count_in (live_entry now (view r k)) + 1"
    and "view (snd (rk_incr ops now k r))
      = (view r)(k := Some (RCount (count_in (live_entry now (view r k)) + 1), deadline_of (live_entry now (view r k))))"
    and "view (rk_expire ops now k ttl r)
      = (case live_entry now (view r k) of None \<Rightarrow> view r | Some (v, _) \<Rightarrow> (view r)(k := Some (v, Some (now + ttl))))"
    and "view (rk_zadd ops now k m r)
      = (view r)(k := Some (RMembers (List.insert m (members_in (live_entry now (view r k)))), deadline_of (live_entry now (view r k))))"
  using assms unfolding redis_keys_ok_def by simp_all

lemma live_entry_cases: "live_entry now x = None \<or> live_entry now x = x"
  by (auto simp: live_entry_def split: option.split prod.split)

lemma live_entry_later: "live_entry now x = None \<Longrightarrow> now \<le> now' \<Longrightarrow> live_entry now' x = None"
  by (auto simp: live_entry_def split: option.splits prod.splits if_splits)

lemma view_set_nx_other: "redis_keys_ok ops view \<Longrightarrow> k' \<noteq> k \<Longrightarrow> view (snd (rk_set_nx ops now k s ex r)) k' = view r k'"
  by (simp add: redis_effects(4))

lemma view_expire_other: "redis_keys_ok ops view \<Longrightarrow> k' \<noteq> k \<Longrightarrow> view (rk_expire ops now k ttl r) k' = view r k'"
  by (simp add: redis_effects(8) split: option.split prod.split)

lemma request_code_cases:
  obtains (unchanged) r1 where "r1 = r \<or> r1 = snd (rk_set_nx ops now (interval_key (normalize_email raw)) ''1'' (es_interval cfg) r)"
      "snd (request_code cfg ops now token code mail_ok raw p r) = r1" "\<not> is_ok (fst (request_code cfg ops now token code mail_ok raw p r))"
  | (issued) r1 where "r1 = r \<or> r1 = snd (rk_set_nx ops now (interval_key (normalize_email raw)) ''1'' (es_interval cfg) r)"
      "snd (request_code cfg ops now token code mail_ok raw p r) =
        rk_set ops now (code_key (normalize_email raw) p) code (es_ttl cfg)
          (rk_expire ops now (burst_key (normalize_email raw)) (es_burst_window cfg)
            (rk_zadd ops now (burst_key (normalize_email raw)) (purpose_text p @ '':'' @ token) r1))"
proof -
  let ?e = "normalize_email raw"
  let ?x = "if 0 < es_interval cfg then rk_set_nx ops now (interval_key ?e) ''1'' (es_interval cfg) r else (True, r)"
  have r1: "snd ?x = r \<or> snd ?x = snd (rk_set_nx ops now (interval_key ?e) ''1'' (es_interval cfg) r)" by simp
  consider "\<not> fst ?x" | "fst ?x" "es_burst_limit cfg \<le> rk_zcard ops now (burst_key ?e) (snd ?x)"
    | "fst ?x" "\<not> es_burst_limit cfg \<le> rk_zcard ops now (burst_key ?e) (snd ?x)" by blast
  then show ?thesis
  proof cases
    case 1
    then show ?thesis using r1 by (intro unchanged [of "snd ?x"]) (simp_all add: request_code_def Let_def case_prod_beta)
  next
    case 2
    then show ?thesis using r1 by (intro unchanged [of "snd ?x"]) (simp_all add: request_code_def Let_def case_prod_beta)
  next
    case 3
    then show ?thesis using r1 by (intro issued [of "snd ?x"]) (simp_all add: request_code_def Let_def case_prod_beta)
  qed
qed

lemma request_frame:
  assumes ok: "redis_keys_ok ops view" and k: "k \<noteq> interval_key (normalize_email raw)" "k \<noteq> burst_key (normalize_email raw)"
    "k \<noteq> code_key (normalize_email raw) p"
  shows "view (snd (request_code cfg ops now token code mail_ok raw p r)) k = view r k"
proof (cases rule: request_code_cases [of r ops now raw cfg token code mail_ok p])
  case (unchanged r1)
  then show ?thesis using view_set_nx_other [OF ok k(1)] by auto
next
  case (issued r1)
  then show ?thesis using view_set_nx_other [OF ok k(1)] k by (auto simp: redis_effects(2,9) [OF ok] view_expire_other [OF ok])
qed

lemma verify_frame:
  assumes ok: "redis_keys_ok ops view" and k: "k \<noteq> interval_key (normalize_email raw)" "k \<noteq> attempts_key (normalize_email raw)"
    "k \<noteq> code_key (normalize_email raw) p"
  shows "view (snd (verify_and_consume cfg ops now raw guess p r)) k = view r k"
proof -
  let ?i = "rk_incr ops now (attempts_key (normalize_email raw)) r"
  have "view (snd ?i) k = view r k" using k by (simp add: redis_effects(7) [OF ok])
  then show ?thesis
    using k by (simp add: verify_and_consume_def settle_code_def redis_effects(5) [OF ok] view_expire_other [OF ok] Let_def
        case_prod_beta split: sum.split option.split bool.split)
qed

section \<open>Counters are never negative\<close>

definition counts_ok :: "rview \<Rightarrow> bool" where
  "counts_ok v \<longleftrightarrow> (\<forall>k. 0 \<le> count_in (v k))"

lemma counts_okD: "counts_ok v \<Longrightarrow> 0 \<le> count_in (live_entry now (v k))"
  using live_entry_cases [of now "v k"]
proof
  assume "live_entry now (v k) = v k" "counts_ok v"
  then show ?thesis by (simp add: counts_ok_def)
qed (simp add: count_in_def)

lemma counts_ok_commands:
  assumes ok: "redis_keys_ok ops view" and c: "counts_ok (view r)"
  shows "counts_ok (view (rk_set ops now k s ex r))" "counts_ok (view (snd (rk_set_nx ops now k s ex r)))"
    "counts_ok (view (rk_delete ops now k r))" "counts_ok (view (snd (rk_incr ops now k r)))"
    "counts_ok (view (rk_expire ops now k ttl r))" "counts_ok (view (rk_zadd ops now k m r))"
proof -
  have one: "0 \<le> count_in (view r x)" for x using c by (simp add: counts_ok_def)
  show "counts_ok (view (rk_set ops now k s ex r))" "counts_ok (view (snd (rk_set_nx ops now k s ex r)))"
    "counts_ok (view (rk_delete ops now k r))" "counts_ok (view (rk_zadd ops now k m r))"
    using one by (auto simp: counts_ok_def redis_effects [OF ok] count_in_def)
  show "counts_ok (view (snd (rk_incr ops now k r)))"
    using one counts_okD [OF c, of now k] by (auto simp: counts_ok_def redis_effects(7) [OF ok] count_in_def)
  have "0 \<le> count_in (Some (v, d))" if "live_entry now (view r k) = Some (v, x)" for v x d
    using counts_okD [OF c, of now k] that by (simp add: count_in_def)
  then show "counts_ok (view (rk_expire ops now k ttl r))"
    using one by (auto simp: counts_ok_def redis_effects(8) [OF ok] split: option.split)
qed

lemma counts_ok_step:
  assumes ok: "redis_keys_ok ops view" and c: "counts_ok (view r)"
  shows "counts_ok (view (code_step cfg ops r e))"
proof (cases e)
  case (RequestCode now token code mail_ok raw p)
  show ?thesis
  proof (cases rule: request_code_cases [of r ops now raw cfg token code mail_ok p])
    case (unchanged r1)
    then show ?thesis using c counts_ok_commands(2) [OF ok c] RequestCode by auto
  next
    case (issued r1)
    then have "counts_ok (view r1)" using c counts_ok_commands(2) [OF ok c] by auto
    then show ?thesis using issued(2) RequestCode by (simp add: counts_ok_commands [OF ok])
  qed
next
  case (VerifyCode now raw guess p)
  then show ?thesis
    using c by (simp add: verify_and_consume_def settle_code_def counts_ok_commands [OF ok] Let_def case_prod_beta
        split: sum.split option.split bool.split)
qed

lemma counts_ok_run:
  assumes "redis_keys_ok ops view" "counts_ok (view r)"
  shows "counts_ok (view (code_run cfg ops r evs))"
  using assms(2) counts_ok_step [OF assms(1)] unfolding code_run_def
  by (intro foldl_inv [where P = "\<lambda>r. counts_ok (view r)"]) simp_all

section \<open>Guesses against one code\<close>

definition wrong_at :: "'r redis_keys \<Rightarrow> string \<Rightarrow> purpose \<Rightarrow> 'r \<Rightarrow> code_op \<Rightarrow> bool" where
  "wrong_at ops email p r e = (case e of
     VerifyCode now raw guess q \<Rightarrow> normalize_email raw = email \<and> q = p \<and> compare_code ops now raw guess q r = Inr (Some False)
   | _ \<Rightarrow> False)"

definition right_at :: "'r redis_keys \<Rightarrow> string \<Rightarrow> purpose \<Rightarrow> 'r \<Rightarrow> code_op \<Rightarrow> (int \<times> string) option" where
  "right_at ops email p r e = (case e of
     VerifyCode now raw guess q \<Rightarrow>
       if normalize_email raw = email \<and> q = p \<and> compare_code ops now raw guess q r = Inr (Some True) then Some (now, guess) else None
   | _ \<Rightarrow> None)"

fun wrong_guesses :: "code_settings \<Rightarrow> 'r redis_keys \<Rightarrow> string \<Rightarrow> purpose \<Rightarrow> 'r \<Rightarrow> code_op list \<Rightarrow> int" where
  "wrong_guesses cfg ops email p r [] = 0"
| "wrong_guesses cfg ops email p r (e # es) =
     (if wrong_at ops email p r e then 1 else 0) + wrong_guesses cfg ops email p (code_step cfg ops r e) es"

fun accepted_guesses :: "code_settings \<Rightarrow> 'r redis_keys \<Rightarrow> string \<Rightarrow> purpose \<Rightarrow> 'r \<Rightarrow> code_op list \<Rightarrow> (int \<times> string) list" where
  "accepted_guesses cfg ops email p r [] = []"
| "accepted_guesses cfg ops email p r (e # es) =
     (case right_at ops email p r e of None \<Rightarrow> [] | Some g \<Rightarrow> [g]) @ accepted_guesses cfg ops email p (code_step cfg ops r e) es"

text \<open>A stretch in which the clock does not go back and the address is only asked to verify codes of this purpose.\<close>

definition only_verifies :: "string \<Rightarrow> purpose \<Rightarrow> code_op \<Rightarrow> bool" where
  "only_verifies email p e =
     (if op_email e = email then (case e of VerifyCode _ _ _ q \<Rightarrow> q = p | _ \<Rightarrow> False) else True)"

fun quiet :: "string \<Rightarrow> purpose \<Rightarrow> int \<Rightarrow> code_op list \<Rightarrow> bool" where
  "quiet email p t [] = True"
| "quiet email p t (e # es) = (t \<le> op_time e \<and> only_verifies email p e \<and> quiet email p (op_time e) es)"

text \<open>The code is gone, or it is the one that was issued and the counter, which outlives it, has seen every wrong guess.\<close>

definition counted :: "code_settings \<Rightarrow> string \<Rightarrow> int \<Rightarrow> int \<Rightarrow> rview \<Rightarrow> bool" where
  "counted cfg email dl k v \<longleftrightarrow> k = 0 \<or> (\<exists>a d. v (attempts_key email) = Some (RCount a, Some d) \<and> dl \<le> d \<and> k \<le> a \<and> a < es_max_attempts cfg)"

definition guarded :: "code_settings \<Rightarrow> string \<Rightarrow> purpose \<Rightarrow> string \<Rightarrow> int \<Rightarrow> int \<Rightarrow> int \<Rightarrow> rview \<Rightarrow> bool" where
  "guarded cfg email p code dl t k v \<longleftrightarrow> counts_ok v \<and> dl \<le> t + es_ttl cfg \<and> k \<le> max 1 (es_max_attempts cfg)
     \<and> (live_entry t (v (code_key email p)) = None
        \<or> v (code_key email p) = Some (RText code, Some dl) \<and> counted cfg email dl k v)"

lemma guarded_later:
  assumes "guarded cfg email p code dl t k v" "t \<le> t'" "counts_ok v'"
    and "v' (code_key email p) = v (code_key email p)" "v' (attempts_key email) = v (attempts_key email)"
  shows "guarded cfg email p code dl t' k v'"
  using assms live_entry_later [of t _ t'] by (auto simp: guarded_def counted_def)

lemma dead_guarded:
  assumes "live_entry t (v (code_key email p)) = None" "counts_ok v" "dl \<le> t + es_ttl cfg" "k \<le> max 1 (es_max_attempts cfg)"
  shows "guarded cfg email p code dl t k v"
  using assms by (simp add: guarded_def)

text \<open>What a verification does to a guarded code.\<close>

lemma verify_dead:
  assumes ok: "redis_keys_ok ops view" and "live_entry now (view r (code_key (normalize_email raw) p)) = None"
  shows "compare_code ops now raw guess p r = Inr None" "snd (verify_and_consume cfg ops now raw guess p r) = r"
  using assms(2) by (simp_all add: compare_code_def redis_effects(1) [OF ok] text_of_def verify_and_consume_def settle_code_def)

lemma verify_live:
  assumes ok: "redis_keys_ok ops view" and code: "view r (code_key (normalize_email raw) p) = Some (RText code, Some dl)" and "now < dl"
  shows "compare_code ops now raw guess p r =
    (if code = [] then Inr None else if \<not> ascii_text (py_strip guess) then Inl BadGuess else Inr (Some (code = py_strip guess)))"
  using assms(2,3) by (simp add: compare_code_def redis_effects(1) [OF ok] text_of_def live_entry_def)

lemma verify_right:
  assumes ok: "redis_keys_ok ops view" and "compare_code ops now raw guess p r = Inr (Some True)"
  shows "view (snd (verify_and_consume cfg ops now raw guess p r)) (code_key (normalize_email raw) p) = None"
  using assms(2) by (simp add: verify_and_consume_def settle_code_def redis_effects(5) [OF ok] email_keys_differ Let_def)

lemma verify_wrong:
  assumes ok: "redis_keys_ok ops view" and "compare_code ops now raw guess p r = Inr (Some False)"
    and a: "a = count_in (live_entry now (view r (attempts_key (normalize_email raw)))) + 1"
  shows "es_max_attempts cfg \<le> a \<Longrightarrow> view (snd (verify_and_consume cfg ops now raw guess p r)) (code_key (normalize_email raw) p) = None"
    and "a < es_max_attempts cfg \<Longrightarrow>
      view (snd (verify_and_consume cfg ops now raw guess p r)) (code_key (normalize_email raw) p) = view r (code_key (normalize_email raw) p)
      \<and> view (snd (verify_and_consume cfg ops now raw guess p r)) (attempts_key (normalize_email raw)) = Some (RCount a, Some (now + es_ttl cfg))"
proof -
  let ?e = "normalize_email raw"
  let ?i = "rk_incr ops now (attempts_key ?e) r"
  let ?x = "rk_expire ops now (attempts_key ?e) (es_ttl cfg) (snd ?i)"
  have f: "fst ?i = a" using a by (simp add: redis_effects(6) [OF ok])
  have "live_entry now (Some (RCount a, deadline_of (live_entry now (view r (attempts_key ?e))))) \<noteq> None"
    by (auto simp: live_entry_def deadline_of_def split: option.splits prod.splits if_splits)
  then have i: "live_entry now (view (snd ?i) (attempts_key ?e)) = Some (RCount a, deadline_of (live_entry now (view r (attempts_key ?e))))"
    using a live_entry_cases [of now "view (snd ?i) (attempts_key ?e)"] by (auto simp: redis_effects(7) [OF ok])
  have x: "view ?x (attempts_key ?e) = Some (RCount a, Some (now + es_ttl cfg))" using i by (simp add: redis_effects(8) [OF ok])
  have c: "view ?x (code_key ?e p) = view r (code_key ?e p)"
    by (simp add: view_expire_other [OF ok] redis_effects(7) [OF ok] email_keys_differ)
  have v: "snd (verify_and_consume cfg ops now raw guess p r)
      = (if es_max_attempts cfg \<le> a then rk_delete ops now (attempts_key ?e) (rk_delete ops now (code_key ?e p) ?x) else ?x)"
    using assms(2) f by (simp add: verify_and_consume_def settle_code_def Let_def case_prod_beta)
  show "es_max_attempts cfg \<le> a \<Longrightarrow> view (snd (verify_and_consume cfg ops now raw guess p r)) (code_key ?e p) = None"
    unfolding v by (simp add: redis_effects(5) [OF ok] email_keys_differ)
  show "a < es_max_attempts cfg \<Longrightarrow>
      view (snd (verify_and_consume cfg ops now raw guess p r)) (code_key ?e p) = view r (code_key ?e p)
      \<and> view (snd (verify_and_consume cfg ops now raw guess p r)) (attempts_key ?e) = Some (RCount a, Some (now + es_ttl cfg))"
    unfolding v using x c by simp
qed

text \<open>An operation on another address leaves the code and its counter alone.\<close>

lemma step_frame:
  assumes ok: "redis_keys_ok ops view" and "k \<noteq> interval_key (op_email e)" "k \<noteq> burst_key (op_email e)"
    "k \<noteq> attempts_key (op_email e)" "\<And>p. k \<noteq> code_key (op_email e) p"
  shows "view (code_step cfg ops r e) k = view r k"
proof (cases e)
  case (RequestCode now token code mail_ok raw p)
  show ?thesis using assms(2-) unfolding RequestCode by (simp add: op_email_def request_frame [OF ok])
next
  case (VerifyCode now raw guess p)
  show ?thesis using assms(2-) unfolding VerifyCode by (simp add: op_email_def verify_frame [OF ok])
qed

lemma other_address_frame:
  assumes ok: "redis_keys_ok ops view" and "op_email e \<noteq> email"
  shows "view (code_step cfg ops r e) (code_key email p) = view r (code_key email p)"
    and "view (code_step cfg ops r e) (attempts_key email) = view r (attempts_key email)"
    and "\<not> wrong_at ops email p r e" and "right_at ops email p r e = None"
proof -
  have ne: "email \<noteq> op_email e" using assms(2) by blast
  show "view (code_step cfg ops r e) (code_key email p) = view r (code_key email p)"
    by (rule step_frame [OF ok]) (use ne in \<open>simp_all add: email_keys_differ\<close>)
  show "view (code_step cfg ops r e) (attempts_key email) = view r (attempts_key email)"
    by (rule step_frame [OF ok]) (use ne in \<open>simp_all add: email_keys_differ\<close>)
  show "\<not> wrong_at ops email p r e" "right_at ops email p r e = None"
    using assms(2) by (auto simp: wrong_at_def right_at_def op_email_def split: code_op.split)
qed

lemma guarded_step:
  assumes ok: "redis_keys_ok ops view" and g: "guarded cfg email p code dl t k (view r)" and t: "t \<le> op_time e"
    and only: "only_verifies email p e"
  shows "guarded cfg email p code dl (op_time e) (k + (if wrong_at ops email p r e then 1 else 0)) (view (code_step cfg ops r e))"
    and "right_at ops email p r e = Some (now, guess) \<Longrightarrow> py_strip guess = code \<and> now < dl
      \<and> live_entry (op_time e) (view (code_step cfg ops r e) (code_key email p)) = None"
proof -
  have counts: "counts_ok (view (code_step cfg ops r e))" using g by (intro counts_ok_step [OF ok]) (simp add: guarded_def)
  have dl: "dl \<le> op_time e + es_ttl cfg" and k: "k \<le> max 1 (es_max_attempts cfg)" using g t by (simp_all add: guarded_def)
  have "guarded cfg email p code dl (op_time e) (k + (if wrong_at ops email p r e then 1 else 0)) (view (code_step cfg ops r e))
      \<and> (right_at ops email p r e = Some (now, guess) \<longrightarrow> py_strip guess = code \<and> now < dl
          \<and> live_entry (op_time e) (view (code_step cfg ops r e) (code_key email p)) = None)"
  proof (cases "op_email e = email")
    case False
    then show ?thesis
      using guarded_later [OF g t counts] other_address_frame [OF ok False] by simp
  next
    case True
    then obtain at raw x where e: "e = VerifyCode at raw x p" and raw: "normalize_email raw = email"
      using only by (auto simp: only_verifies_def op_email_def split: code_op.splits)
    have time: "op_time e = at" by (simp add: e op_time_def)
    have here: "guarded cfg email p code dl at k (view r)"
      using guarded_later [OF g t, of "view r"] g by (simp add: time guarded_def)
    show ?thesis
    proof (cases "live_entry at (view r (code_key email p)) = None")
      case True
      then show ?thesis
        using verify_dead [OF ok, of at r raw p] here by (simp add: e raw wrong_at_def right_at_def op_time_def)
    next
      case False
      then have live: "view r (code_key email p) = Some (RText code, Some dl)" "counted cfg email dl k (view r)"
        using g t live_entry_later [of t _ at] by (auto simp: guarded_def time)
      then have "at < dl" using False by (auto simp: live_entry_def split: if_splits)
      note cmp = verify_live [OF ok live(1) [folded raw] this, of x]
      consider (same) "compare_code ops at raw x p r \<noteq> Inr (Some True)" "compare_code ops at raw x p r \<noteq> Inr (Some False)"
        | (right) "compare_code ops at raw x p r = Inr (Some True)" | (wrong) "compare_code ops at raw x p r = Inr (Some False)" by blast
      then show ?thesis
      proof cases
        case same
        then have "snd (verify_and_consume cfg ops at raw x p r) = r"
          unfolding verify_and_consume_def using cmp by (auto simp: settle_code_def Let_def split: if_splits)
        then show ?thesis
          using same here by (simp add: e raw wrong_at_def right_at_def op_time_def)
      next
        case right
        then show ?thesis
          using verify_right [OF ok right, of cfg] cmp \<open>at < dl\<close> counts dl k
          by (auto simp: e raw wrong_at_def right_at_def op_time_def live_entry_def time [unfolded e] intro!: dead_guarded split: if_splits)
      next
        case wrong
        let ?a = "count_in (live_entry at (view r (attempts_key email))) + 1"
        note w = verify_wrong [OF ok wrong, of ?a cfg, unfolded raw, OF refl]
        have a: "k + 1 \<le> ?a \<and> (k = 0 \<or> k < es_max_attempts cfg)"
        proof (cases "k = 0")
          case True
          have "0 \<le> count_in (live_entry at (view r (attempts_key email)))"
            using g by (intro counts_okD) (simp add: guarded_def)
          then show ?thesis using True by simp
        next
          case False
          then obtain n d where n: "view r (attempts_key email) = Some (RCount n, Some d)" "dl \<le> d" "k \<le> n" "n < es_max_attempts cfg"
            using live(2) by (auto simp: counted_def)
          then have "live_entry at (view r (attempts_key email)) = Some (RCount n, Some d)"
            using \<open>at < dl\<close> by (simp add: live_entry_def)
          then show ?thesis using n by (simp add: count_in_def)
        qed
        have flags: "wrong_at ops email p r e" "right_at ops email p r e = None" using wrong by (simp_all add: e raw wrong_at_def right_at_def)
        show ?thesis
        proof (cases "es_max_attempts cfg \<le> ?a")
          case True
          have "view (code_step cfg ops r e) (code_key email p) = None" using w(1) True by (simp add: e)
          then show ?thesis using flags a counts dl by (auto simp: live_entry_def intro!: dead_guarded)
        next
          case False
          then show ?thesis
            using w(2) flags a counts dl live(1) by (auto simp: e guarded_def counted_def time [unfolded e] op_time_def)
        qed
      qed
    qed
  qed
  then show "guarded cfg email p code dl (op_time e) (k + (if wrong_at ops email p r e then 1 else 0)) (view (code_step cfg ops r e))"
    and "right_at ops email p r e = Some (now, guess) \<Longrightarrow> py_strip guess = code \<and> now < dl
      \<and> live_entry (op_time e) (view (code_step cfg ops r e) (code_key email p)) = None" by blast+
qed

lemma guarded_run:
  assumes ok: "redis_keys_ok ops view"
  shows "guarded cfg email p code dl t k (view r) \<Longrightarrow> quiet email p t evs \<Longrightarrow>
    k + wrong_guesses cfg ops email p r evs \<le> max 1 (es_max_attempts cfg)
    \<and> (live_entry t (view r (code_key email p)) = None \<longrightarrow> accepted_guesses cfg ops email p r evs = [])
    \<and> (accepted_guesses cfg ops email p r evs = []
        \<or> (\<exists>now guess. accepted_guesses cfg ops email p r evs = [(now, guess)] \<and> py_strip guess = code \<and> now < dl))"
proof (induction evs arbitrary: r t k)
  case Nil
  then show ?case by (simp add: guarded_def)
next
  case (Cons e es)
  let ?r = "code_step cfg ops r e"
  have step: "t \<le> op_time e" "only_verifies email p e" "quiet email p (op_time e) es" using Cons.prems(2) by auto
  note now = guarded_step [OF ok Cons.prems(1) step(1,2)]
  note rest = Cons.IH [OF now(1) step(3)]
  have dead: "right_at ops email p r e = None \<and> live_entry (op_time e) (view ?r (code_key email p)) = None"
    if gone: "live_entry t (view r (code_key email p)) = None"
  proof (cases "op_email e = email")
    case True
    then obtain at raw x where e: "e = VerifyCode at raw x p" "normalize_email raw = email"
      using step(2) by (auto simp: only_verifies_def op_email_def split: code_op.splits)
    have "live_entry at (view r (code_key email p)) = None" using live_entry_later [OF gone] step(1) by (simp add: e op_time_def)
    then show ?thesis using verify_dead [OF ok, of at r raw p] e by (simp add: right_at_def op_time_def)
  next
    case False
    then show ?thesis using other_address_frame [OF ok False] live_entry_later [OF gone step(1)] by simp
  qed
  show ?case
  proof (cases "right_at ops email p r e")
    case None
    then show ?thesis using rest dead by auto
  next
    case (Some g)
    obtain at x where g: "g = (at, x)" by (cases g)
    have right: "py_strip x = code \<and> at < dl \<and> live_entry (op_time e) (view ?r (code_key email p)) = None"
      using now(2) [of at x] Some g by simp
    then have "accepted_guesses cfg ops email p ?r es = []" using rest by simp
    moreover have "live_entry t (view r (code_key email p)) \<noteq> None"
    proof
      assume gone: "live_entry t (view r (code_key email p)) = None"
      show False using dead [OF gone] Some by simp
    qed
    ultimately show ?thesis using rest Some g right by simp
  qed
qed


section \<open>A store\<close>

definition kv_redis :: "(string, rvalue \<times> int option) dict redis_keys" where
  "kv_redis =
     \<lparr>rk_get = (\<lambda>now k r. text_of (live_entry now (dict_get r k))),
      rk_set = (\<lambda>now k s ex r. dict_set k (RText s, Some (now + ex)) r),
      rk_set_nx = (\<lambda>now k s ex r. if live_entry now (dict_get r k) = None then (True, dict_set k (RText s, Some (now + ex)) r)
        else (False, r)),
      rk_ttl = (\<lambda>now k r. case live_entry now (dict_get r k) of None \<Rightarrow> - 2 | Some (_, None) \<Rightarrow> - 1 | Some (_, Some d) \<Rightarrow> d - now),
      rk_delete = (\<lambda>now k r. dict_pop k r),
      rk_incr = (\<lambda>now k r. let x = live_entry now (dict_get r k) in
        (count_in x + 1, dict_set k (RCount (count_in x + 1), deadline_of x) r)),
      rk_expire = (\<lambda>now k ttl r. case live_entry now (dict_get r k) of None \<Rightarrow> r | Some (v, _) \<Rightarrow> dict_set k (v, Some (now + ttl)) r),
      rk_zcard = (\<lambda>now k r. length (members_in (live_entry now (dict_get r k)))),
      rk_zadd = (\<lambda>now k m r. let x = live_entry now (dict_get r k) in
        dict_set k (RMembers (List.insert m (members_in x)), deadline_of x) r),
      rk_exists = (\<lambda>now k r. live_entry now (dict_get r k) \<noteq> None)\<rparr>"

lemma kv_redis_ok: "redis_keys_ok kv_redis (\<lambda>r. dict_get r)"
  by (simp add: redis_keys_ok_def kv_redis_def dict_simps fun_eq_iff Let_def split: option.split)

definition code_cfg :: code_settings where
  "code_cfg = \<lparr>es_ttl = 300, es_interval = 60, es_burst_limit = 5, es_burst_window = 3600, es_max_attempts = 2,
     es_mail_enabled = True, es_is_prod = True\<rparr>"

definition mailed :: "(string, rvalue \<times> int option) dict" where
  "mailed = snd (request_code code_cfg kv_redis 0 ''a'' ''123456'' True ''x@y'' Register [])"

definition three_guesses :: "code_op list" where
  "three_guesses = [VerifyCode 1 ''x@y'' ''000000'' Register, VerifyCode 2 ''x@y'' ''123456'' Register, VerifyCode 3 ''x@y'' ''123456'' Register]"


section \<open>Where the promises of the module fail\<close>

text \<open>
  The counter is shared by the purposes of an address: with a code for each pending, wrong guesses at
  the registration code end that code and clear the counter, and the reset code takes more wrong
  guesses than the limit.
\<close>

definition both_mailed :: "(string, rvalue \<times> int option) dict" where
  "both_mailed = code_run code_cfg kv_redis []
     [RequestCode 0 ''a'' ''123456'' True ''x@y'' Reset, RequestCode 60 ''b'' ''654321'' True ''x@y'' Register]"

lemma shared_counter_is_cleared:
  "wrong_guesses code_cfg kv_redis (normalize_email ''x@y'') Reset both_mailed
     [VerifyCode 61 ''x@y'' ''000000'' Reset, VerifyCode 62 ''x@y'' ''000000'' Register, VerifyCode 63 ''x@y'' ''000001'' Reset,
      VerifyCode 64 ''x@y'' ''000002'' Reset] = 3"
  by code_simp

text \<open>Reading and deleting the code are separate commands: two requests that overlap both consume it.\<close>

lemma code_consumed_twice:
  "let first = compare_code kv_redis 1 ''x@y'' ''123456'' Register mailed;
       second = compare_code kv_redis 1 ''x@y'' ''123456'' Register mailed;
       (out1, r1) = settle_code code_cfg kv_redis 1 ''x@y'' Register (case first of Inr b \<Rightarrow> b | _ \<Rightarrow> None) mailed;
       (out2, r2) = settle_code code_cfg kv_redis 1 ''x@y'' Register (case second of Inr b \<Rightarrow> b | _ \<Rightarrow> None) r1
   in out1 = Inr True \<and> out2 = Inr True"
  by code_simp

text \<open>The set of sends is not trimmed: five sends fifty minutes apart block the sixth.\<close>

lemma burst_window_does_not_slide:
  "fst (request_code code_cfg kv_redis 15000 ''f'' ''1'' True ''x@y'' Register
     (code_run code_cfg kv_redis []
       [RequestCode 0 ''a'' ''1'' True ''x@y'' Register, RequestCode 3000 ''b'' ''1'' True ''x@y'' Register,
        RequestCode 6000 ''c'' ''1'' True ''x@y'' Register, RequestCode 9000 ''d'' ''1'' True ''x@y'' Register,
        RequestCode 12000 ''e'' ''1'' True ''x@y'' Register])) = Inl TooManySends"
  by code_simp

end
