(* ===== verification/Traffic.thy ===== *)
theory Traffic
  imports Floats Texts
begin

text \<open>
  Throttling: the limiter of requests per identity (\<open>core/rate_limit.py\<close>) with its address of the
  client, and the circuit breaker before model calls (\<open>core/concurrency.py\<close>). Clock readings are doubles,
  and their sums and differences round; the parsing and matching of IP addresses and the counter script that Redis runs are
  parameters.
\<close>

section \<open>The client's address\<close>

text \<open>
  \<open>trusted\<close> says of an address text whether it parses and lies in one of the trusted networks; \<open>peer\<close> is
  the other end of the connection, \<open>forwarded\<close> the header \<open>X-Forwarded-For\<close>, empty when absent.
\<close>

fun split_on_char :: "char \<Rightarrow> string \<Rightarrow> string list" where
  "split_on_char sep [] = [[]]"
| "split_on_char sep (c # s) =
     (if c = sep then [] # split_on_char sep s
      else case split_on_char sep s of [] \<Rightarrow> [[c]] | l # ls \<Rightarrow> (c # l) # ls)"

definition forwarded_chain :: "string \<Rightarrow> string list" where
  "forwarded_chain s = filter (\<lambda>h. h \<noteq> []) (map py_strip (split_on_char CHR '','' s))"

definition ip_of :: "(string \<Rightarrow> bool) \<Rightarrow> string option \<Rightarrow> string \<Rightarrow> string" where
  "ip_of trusted client forwarded =
     (let peer = (case client of Some p \<Rightarrow> p | None \<Rightarrow> ''unknown'') in
      if \<not> trusted peer then peer
      else if forwarded = [] then peer
      else
        let chain = forwarded_chain forwarded in
        case List.find (\<lambda>h. \<not> trusted h) (rev chain) of
          Some hop \<Rightarrow> hop
        | None \<Rightarrow> (case chain of [] \<Rightarrow> peer | h # _ \<Rightarrow> h))"

section \<open>The sliding window of the process\<close>

text \<open>\<open>int\<close> of a float drops the fraction.\<close>

definition py_int :: "rat \<Rightarrow> int" where
  "py_int x = (if 0 \<le> x then \<lfloor>x\<rfloor> else - \<lfloor>- x\<rfloor>)"

datatype verdict = Allowed | TooMany int

definition window_check :: "int \<Rightarrow> rat \<Rightarrow> rat \<Rightarrow> string \<Rightarrow> (string, rat list) dict \<Rightarrow> verdict \<times> (string, rat list) dict" where
  "window_check limit window now key memory =
     (let bucket = filter (\<lambda>t. fsub now window < t) (dict_get_or memory key []) in
      if limit \<le> int (length bucket)
      then (TooMany (max (py_int (fsub (fadd (hd bucket) window) now) + 1) 1), memory)
      else (Allowed, dict_set key (bucket @ [now]) memory))"

text \<open>
  \<open>_check\<close>: the Redis counter when it answers (its script returns the count of the running window and
  the seconds left), the process otherwise; nothing is limited in the test environment.
\<close>

definition check_rate ::
  "string \<Rightarrow> (int \<times> int) option \<Rightarrow> int \<Rightarrow> rat \<Rightarrow> rat \<Rightarrow> string \<Rightarrow> string \<Rightarrow> (string, rat list) dict \<Rightarrow> verdict \<times> (string, rat list) dict" where
  "check_rate env redis limit window now scope identity memory =
     (if env = ''test'' then (Allowed, memory)
      else case redis of
        Some (n, ttl) \<Rightarrow> (if limit < n then TooMany (max ttl 1) else Allowed, memory)
      | None \<Rightarrow> window_check limit window now (scope @ '':'' @ identity) memory)"

definition rate_limit_ip ::
  "(string \<Rightarrow> bool) \<Rightarrow> string \<Rightarrow> (int \<times> int) option \<Rightarrow> int \<Rightarrow> rat \<Rightarrow> rat \<Rightarrow> string \<Rightarrow> string option \<Rightarrow> string
    \<Rightarrow> (string, rat list) dict \<Rightarrow> verdict \<times> (string, rat list) dict" where
  "rate_limit_ip trusted env redis limit window now scope client forwarded memory =
     check_rate env redis limit window now scope (''ip:'' @ ip_of trusted client forwarded) memory"

definition rate_limit_user ::
  "string \<Rightarrow> (int \<times> int) option \<Rightarrow> int \<Rightarrow> rat \<Rightarrow> rat \<Rightarrow> string \<Rightarrow> string \<Rightarrow> (string, rat list) dict \<Rightarrow> verdict \<times> (string, rat list) dict" where
  "rate_limit_user env redis limit window now scope user memory =
     check_rate env redis limit window now scope (''user:'' @ user) memory"

text \<open>The calls of one history that are let through by the process's window: their identities and times.\<close>

fun allowed_calls :: "int \<Rightarrow> rat \<Rightarrow> (string, rat list) dict \<Rightarrow> (string \<times> rat) list \<Rightarrow> (string \<times> rat) list" where
  "allowed_calls limit window memory [] = []"
| "allowed_calls limit window memory ((key, now) # calls) =
     (case window_check limit window now key memory of
        (Allowed, memory') \<Rightarrow> (key, now) # allowed_calls limit window memory' calls
      | (TooMany _, memory') \<Rightarrow> allowed_calls limit window memory' calls)"

section \<open>The circuit breaker\<close>

record breaker_entry =
  be_failures :: int
  be_opened_at :: "rat option"

record breaker =
  br_threshold :: int
  br_cooldown :: rat
  br_state :: "(string, breaker_entry) dict"

text \<open>\<open>before\<close>: is the call let through, and the breaker afterwards.\<close>

definition breaker_before :: "rat \<Rightarrow> string \<Rightarrow> breaker \<Rightarrow> bool \<times> breaker" where
  "breaker_before now key b =
     (case dict_get (br_state b) key of
        None \<Rightarrow> (True, b)
      | Some st \<Rightarrow>
          (case be_opened_at st of
             None \<Rightarrow> (True, b)
           | Some opened \<Rightarrow>
               if br_cooldown b \<le> fsub now opened
               then (True, b\<lparr>br_state := dict_set key (st\<lparr>be_opened_at := None\<rparr>) (br_state b)\<rparr>)
               else (False, b)))"

definition record_success :: "string \<Rightarrow> breaker \<Rightarrow> breaker" where
  "record_success key b = b\<lparr>br_state := dict_pop key (br_state b)\<rparr>"

definition record_failure :: "rat \<Rightarrow> string \<Rightarrow> breaker \<Rightarrow> breaker" where
  "record_failure now key b =
     (let st = dict_get_or (br_state b) key \<lparr>be_failures = 0, be_opened_at = None\<rparr>;
          st1 = st\<lparr>be_failures := be_failures st + 1\<rparr>;
          st2 = (if br_threshold b \<le> be_failures st1 then st1\<lparr>be_opened_at := Some now\<rparr> else st1)
      in b\<lparr>br_state := dict_set key st2 (br_state b)\<rparr>)"

section \<open>The window bounds every stretch of its length\<close>

text \<open>The bucket of a key holds the allowed calls that are still inside the window.\<close>

definition recent :: "rat \<Rightarrow> rat \<Rightarrow> (string \<times> rat) list \<Rightarrow> string \<Rightarrow> rat list" where
  "recent window now past key = filter (\<lambda>t. fsub now window < t) (map snd (filter (\<lambda>(k, t). k = key) past))"

definition buckets_ok :: "rat \<Rightarrow> (string \<times> rat) list \<Rightarrow> (string, rat list) dict \<Rightarrow> bool" where
  "buckets_ok window past memory \<longleftrightarrow>
     (\<forall>key now. list_all (\<lambda>(k, t). t \<le> now) past \<longrightarrow>
        filter (\<lambda>t. fsub now window < t) (dict_get_or memory key []) = recent window now past key)"

lemma fsub_mono_left: "a \<le> b \<Longrightarrow> fsub a c \<le> fsub b c"
  by (simp add: fsub_def fl64_mono)

lemma recent_snoc:
  "recent window now (past @ [(k, t)]) key = recent window now past key @ (if k = key \<and> fsub now window < t then [t] else [])"
  by (simp add: recent_def)

lemma filter_recent: "now \<le> now' \<Longrightarrow> filter (\<lambda>t. fsub now' window < t) (recent window now past key) = recent window now' past key"
  unfolding recent_def filter_filter
  by (rule filter_cong [OF refl]) (meson fsub_mono_left order_le_less_trans)

lemma buckets_ok_allowed:
  assumes "buckets_ok window past memory" "window_check limit window now key memory = (Allowed, memory')"
    and "list_all (\<lambda>(k, t). t \<le> now) past"
  shows "buckets_ok window (past @ [(key, now)]) memory'" "int (length (recent window now past key)) < limit"
proof -
  have b: "filter (\<lambda>t. fsub now window < t) (dict_get_or memory key []) = recent window now past key"
    using assms(1,3) by (simp add: buckets_ok_def)
  then show "int (length (recent window now past key)) < limit"
    using assms(2) by (simp add: window_check_def Let_def split: if_splits)
  have m: "memory' = dict_set key (recent window now past key @ [now]) memory"
    using assms(2) b by (simp add: window_check_def Let_def split: if_splits)
  show "buckets_ok window (past @ [(key, now)]) memory'"
    unfolding buckets_ok_def
  proof (intro allI impI)
    fix key' now'
    assume later: "list_all (\<lambda>(k, t). t \<le> now') (past @ [(key, now)])"
    then have "now \<le> now'" "list_all (\<lambda>(k, t). t \<le> now') past" by simp_all
    then show "filter (\<lambda>t. fsub now' window < t) (dict_get_or memory' key' []) = recent window now' (past @ [(key, now)]) key'"
      using assms(1) unfolding m recent_snoc by (simp add: dict_simps filter_recent buckets_ok_def)
  qed
qed

text \<open>How many calls of an identity lie in the stretch of the window's length that ends at \<open>T\<close>.\<close>

definition calls_within :: "rat \<Rightarrow> rat \<Rightarrow> string \<Rightarrow> (string \<times> rat) list \<Rightarrow> nat" where
  "calls_within window T key calls = length (filter (\<lambda>(k, t). k = key \<and> fsub T window < t \<and> t \<le> T) calls)"

lemma calls_within_recent:
  assumes "list_all (\<lambda>(k, t). t \<le> now) past" "now \<le> T"
  shows "calls_within window T key past \<le> length (recent window now past key)"
  using assms
  by (induction past) (auto simp: calls_within_def recent_def dest: order_le_less_trans [OF fsub_mono_left])

lemma allowed_bounded:
  assumes "buckets_ok window past memory" "list_all (\<lambda>(k, t). t \<le> now0) past" "sorted (map snd calls)"
    and "list_all (\<lambda>(k, t). now0 \<le> t) calls" "calls_within window T key past \<le> nat limit" "0 \<le> limit"
  shows "calls_within window T key (past @ allowed_calls limit window memory calls) \<le> nat limit"
  using assms(1-5)
proof (induction calls arbitrary: past memory now0)
  case (Cons c calls)
  obtain k now where c: "c = (k, now)" by (cases c)
  have past: "list_all (\<lambda>(k, t). t \<le> now) past" using Cons.prems(2,4) c by (auto simp: list_all_iff)
  have rest: "sorted (map snd calls)" "list_all (\<lambda>(k, t). now \<le> t) calls" using Cons.prems(3) c by (auto simp: list_all_iff)
  show ?case
  proof (cases "window_check limit window now k memory")
    case (Pair v memory')
    show ?thesis
    proof (cases v)
      case Allowed
      note ok = buckets_ok_allowed [OF Cons.prems(1) Pair [unfolded Allowed] past]
      have "calls_within window T key (past @ [(k, now)]) \<le> nat limit"
      proof (cases "k = key \<and> fsub T window < now \<and> now \<le> T")
        case True
        then have "calls_within window T key past \<le> length (recent window now past key)" by (intro calls_within_recent [OF past]) simp
        then show ?thesis using ok(2) True by (simp add: calls_within_def)
      next
        case False
        then show ?thesis using Cons.prems(5) by (auto simp: calls_within_def)
      qed
      from Cons.IH [OF ok(1) _ rest this] past show ?thesis using c Pair Allowed by simp
    next
      case (TooMany n)
      then have "memory' = memory" using Pair by (simp add: window_check_def Let_def split: if_splits)
      then show ?thesis using Cons.IH [OF Cons.prems(1) past rest Cons.prems(5)] c Pair TooMany by simp
    qed
  qed
qed simp

text \<open>With a clock that does not go back, the window of the process lets at most the limit of calls of one
  identity through in any stretch of time as long as the window, wherever it begins.\<close>

theorem window_bounds_every_stretch:
  assumes "sorted (map snd calls)" "0 \<le> limit"
  shows "int (calls_within window T key (allowed_calls limit window [] calls)) \<le> limit"
proof -
  have "buckets_ok window [] []" by (simp add: buckets_ok_def recent_def dict_get_or_def)
  moreover have "list_all (\<lambda>(k, t). hd (map snd calls) \<le> t) calls"
    using assms(1) by (cases calls) (auto simp: list_all_iff)
  ultimately have "calls_within window T key ([] @ allowed_calls limit window [] calls) \<le> nat limit"
    by (intro allowed_bounded [OF _ _ assms(1)]) (simp_all add: calls_within_def assms(2))
  then show ?thesis using assms(2) by simp
qed

text \<open>Three calls in two seconds against a limit of two in ten: the third is refused.\<close>

theorem window_bounds_every_stretch_witness:
  "int (calls_within 10 11 ''k'' (allowed_calls 2 10 [] [(''k'', 1), (''k'', 2), (''k'', 3), (''k'', 12)])) \<le> 2
   \<and> allowed_calls 2 10 [] [(''k'', 1), (''k'', 2), (''k'', 3), (''k'', 12)] = [(''k'', 1), (''k'', 2), (''k'', 12)]"
proof -
  have w: "fsub 1 10 = - 9" "fsub 2 10 = - 8" "fsub 3 10 = - 7" "fsub 12 10 = 2"
    using fl64_int [of "- 9"] fl64_int [of "- 8"] fl64_int [of "- 7"] fl64_int [of 2] by (simp_all add: fsub_def)
  show ?thesis
    using window_bounds_every_stretch [of "[(''k'', 1), (''k'', 2), (''k'', 3), (''k'', 12)]" 2 10 11 "''k''"]
    by (simp add: window_check_def Let_def dict_get_or_def dict_simps w)
qed

section \<open>The address cannot be chosen by the client\<close>

text \<open>
  The address does not depend on what a client put into the header: a peer that is not trusted is the
  address, and otherwise the hop before the trusted ones is, whatever stands before it.
\<close>

lemma ip_of_untrusted_peer: "\<not> trusted p \<Longrightarrow> ip_of trusted (Some p) forwarded = p"
  by (simp add: ip_of_def)

lemma find_append_none: "List.find P xs = None \<Longrightarrow> List.find P (xs @ ys) = List.find P ys"
  by (induction xs) (auto split: if_splits)

lemma ip_of_first_untrusted:
  assumes "trusted p" "forwarded_chain forwarded = spoofed @ [hop] @ proxies" "\<not> trusted hop" "list_all trusted proxies"
  shows "ip_of trusted (Some p) forwarded = hop"
proof -
  have "forwarded \<noteq> []" using assms(2) by (auto simp: forwarded_chain_def)
  moreover have "List.find (\<lambda>h. \<not> trusted h) (rev proxies) = None" using assms(4) by (auto simp: find_None_iff list_all_iff)
  then have "List.find (\<lambda>h. \<not> trusted h) (rev proxies @ hop # rev spoofed) = Some hop"
    using assms(3) by (simp add: find_append_none)
  ultimately show ?thesis using assms by (simp add: ip_of_def Let_def)
qed

section \<open>The breaker\<close>

lemma breaker_opens:
  assumes "br_threshold b \<le> be_failures (dict_get_or (br_state b) key \<lparr>be_failures = 0, be_opened_at = None\<rparr>) + 1"
    and "fsub now opened < br_cooldown b"
  shows "breaker_before now key (record_failure opened key b) = (False, record_failure opened key b)"
  using assms by (simp add: breaker_before_def record_failure_def Let_def dict_simps)

lemma success_closes: "fst (breaker_before now key (record_success key b))"
  by (simp add: breaker_before_def record_success_def dict_simps)

text \<open>After the cooldown the breaker is closed, not half open: every call passes until the next failure, not one probe.\<close>

lemma every_call_is_a_probe:
  assumes "fst (breaker_before now key b)"
  shows "fst (breaker_before later key (snd (breaker_before now key b)))"
  using assms by (auto simp: breaker_before_def dict_simps split: option.splits if_splits)

end
