(* ===== verification/Leader.thy ===== *)
theory Leader
  imports Floats "HOL-Library.Word"
begin

unbundle bit_operations_syntax

text \<open>
  Leader election for the periodic loops (\<open>core/leader.py\<close>): one advisory lock of the database per loop,
  a leader per process that holds it, and the gate that asks before every tick. The lock service is a
  parameter with its documented laws, and every call to it may fail before or after it took effect.
\<close>

section \<open>The key of a loop\<close>

text \<open>\<open>_lock_key\<close>: the first four bytes of the digest of the name, without the sign bit.\<close>

definition lock_key :: "(string \<Rightarrow> int list) \<Rightarrow> string \<Rightarrow> int" where
  "lock_key digest name = foldl (\<lambda>n b. n * 256 + b) 0 (take 4 (digest name)) AND 0x7FFFFFFF"

lemma lock_key_signed_32: "0 \<le> lock_key digest name \<and> lock_key digest name < 2 ^ 31"
proof -
  have m: "n AND 0x7FFFFFFF = n mod 2 ^ 31" for n :: int
    using take_bit_eq_mask [of 31 n] by (simp add: mask_eq_exp_minus_1 take_bit_eq_mod)
  show ?thesis unfolding lock_key_def m by simp
qed

section \<open>The lock service\<close>

record 's lock_service =
  ls_try :: "int \<times> int \<Rightarrow> nat \<Rightarrow> 's \<Rightarrow> bool \<times> 's"
  ls_unlock :: "int \<times> int \<Rightarrow> nat \<Rightarrow> 's \<Rightarrow> 's"
  ls_holds :: "int \<times> int \<Rightarrow> nat \<Rightarrow> 's \<Rightarrow> bool"

text \<open>
  What the server documents: a session-level advisory lock has one holder, an attempt that succeeds makes
  the session the holder, and an attempt takes no lock from anyone.
\<close>

definition advisory_ok :: "'s lock_service \<Rightarrow> bool" where
  "advisory_ok svc \<longleftrightarrow>
     (\<forall>k a b s. ls_holds svc k a s \<and> ls_holds svc k b s \<longrightarrow> a = b)
     \<and> (\<forall>k a s. fst (ls_try svc k a s) \<longrightarrow> ls_holds svc k a (snd (ls_try svc k a s)))
     \<and> (\<forall>k k' a b s. ls_holds svc k' b s \<longrightarrow> ls_holds svc k' b (snd (ls_try svc k a s)))"

lemma advisory_unique: "advisory_ok svc \<Longrightarrow> ls_holds svc k a s \<Longrightarrow> ls_holds svc k b s \<Longrightarrow> a = b"
  unfolding advisory_ok_def by blast

lemma advisory_grant: "advisory_ok svc \<Longrightarrow> ls_try svc k a s = (True, s') \<Longrightarrow> ls_holds svc k a s'"
  unfolding advisory_ok_def by (metis fst_conv snd_conv)

lemma advisory_keeps: "advisory_ok svc \<Longrightarrow> ls_holds svc k' b s \<Longrightarrow> ls_holds svc k' b (snd (ls_try svc k a s))"
  unfolding advisory_ok_def by blast

text \<open>Another session's attempt at a lock that is held fails.\<close>

lemma advisory_refuses:
  "advisory_ok svc \<Longrightarrow> ls_holds svc k a s \<Longrightarrow> a \<noteq> b \<Longrightarrow> \<not> fst (ls_try svc k b s)"
  using advisory_grant [of svc k b s "snd (ls_try svc k b s)"] advisory_keeps [of svc k a s k b]
    advisory_unique [of svc k a "snd (ls_try svc k b s)" b]
  by (cases "ls_try svc k b s") auto

section \<open>One leader\<close>

datatype dialect = NoEngine | OtherDialect | Postgres

datatype reply = Answered | FailedBefore | FailedAfter

text \<open>What the database does to one tick: the session that a connect returns, if it returns, and the statement's fate.\<close>

record db_luck =
  dl_connect :: "nat option"
  dl_reply :: reply

record leader =
  ld_conn :: "nat option"
  ld_held :: bool

definition fresh_leader :: leader where
  "fresh_leader = \<lparr>ld_conn = None, ld_held = False\<rparr>"

definition try_acquire ::
  "'s lock_service \<Rightarrow> int \<times> int \<Rightarrow> dialect \<Rightarrow> db_luck \<Rightarrow> leader \<Rightarrow> 's \<Rightarrow> bool \<times> leader \<times> 's" where
  "try_acquire svc keys d luck l s =
     (if ld_held l then (True, l, s)
      else case d of
        NoEngine \<Rightarrow> (True, l, s)
      | OtherDialect \<Rightarrow> (True, l\<lparr>ld_held := True\<rparr>, s)
      | Postgres \<Rightarrow>
          (case dl_connect luck of
             None \<Rightarrow> (False, l, s)
           | Some c \<Rightarrow>
               (case dl_reply luck of
                  FailedBefore \<Rightarrow> (False, l, s)
                | FailedAfter \<Rightarrow> (False, l, snd (ls_try svc keys c s))
                | Answered \<Rightarrow>
                    (case ls_try svc keys c s of
                       (granted, s') \<Rightarrow>
                         if granted then (True, \<lparr>ld_conn = Some c, ld_held = True\<rparr>, s') else (False, l, s')))))"

definition renew :: "'s lock_service \<Rightarrow> int \<times> int \<Rightarrow> db_luck \<Rightarrow> leader \<Rightarrow> 's \<Rightarrow> bool \<times> leader" where
  "renew svc keys luck l s =
     (if \<not> ld_held l then (False, l)
      else case ld_conn l of
        None \<Rightarrow> (True, l)
      | Some c \<Rightarrow>
          if dl_reply luck = Answered \<and> ls_holds svc keys c s then (True, l) else (False, fresh_leader))"

definition release :: "'s lock_service \<Rightarrow> int \<times> int \<Rightarrow> db_luck \<Rightarrow> leader \<Rightarrow> 's \<Rightarrow> leader \<times> 's" where
  "release svc keys luck l s =
     (if \<not> ld_held l then (l, s)
      else (fresh_leader,
            case ld_conn l of
              None \<Rightarrow> s
            | Some c \<Rightarrow> if dl_reply luck = FailedBefore then s else ls_unlock svc keys c s))"

section \<open>The gate\<close>

definition gate_acquire ::
  "bool \<Rightarrow> 's lock_service \<Rightarrow> int \<times> int \<Rightarrow> dialect \<Rightarrow> db_luck \<Rightarrow> leader \<Rightarrow> 's \<Rightarrow> bool \<times> leader \<times> 's" where
  "gate_acquire enabled svc keys d luck l s =
     (if \<not> enabled then (True, l, s)
      else if ld_held l then (case renew svc keys luck l s of (ok, l') \<Rightarrow> (ok, l', s))
      else try_acquire svc keys d luck l s)"

definition gate_leads :: "bool \<Rightarrow> leader \<Rightarrow> bool" where
  "gate_leads enabled l \<longleftrightarrow> \<not> enabled \<or> ld_held l"

text \<open>\<open>step\<close>: the guarded body runs only when the gate admits the tick.\<close>

definition gate_tick ::
  "bool \<Rightarrow> 's lock_service \<Rightarrow> int \<times> int \<Rightarrow> dialect \<Rightarrow> db_luck \<Rightarrow> (unit \<Rightarrow> 'a) \<Rightarrow> leader \<Rightarrow> 's \<Rightarrow> 'a option \<times> leader \<times> 's" where
  "gate_tick enabled svc keys d luck fn l s =
     (case gate_acquire enabled svc keys d luck l s of
        (ok, l', s') \<Rightarrow> (if ok then Some (fn ()) else None, l', s'))"

section \<open>The processes of a deployment\<close>

record 's cluster =
  cl_leaders :: "nat \<Rightarrow> leader"
  cl_service :: 's

text \<open>
  One step: a tick of a process's gate, its release on shutdown, or whatever happens at the server (sessions
  end, other programs lock). \<open>proc\<close> tells which process a session belongs to; a pool connects for its process only.
\<close>

definition tick ::
  "'s lock_service \<Rightarrow> int \<times> int \<Rightarrow> nat \<Rightarrow> db_luck \<Rightarrow> 's cluster \<Rightarrow> bool \<times> 's cluster" where
  "tick svc keys p luck w =
     (case gate_acquire True svc keys Postgres luck (cl_leaders w p) (cl_service w) of
        (ok, l, s) \<Rightarrow> (ok, \<lparr>cl_leaders = (cl_leaders w)(p := l), cl_service = s\<rparr>))"

definition own_session :: "(nat \<Rightarrow> nat) \<Rightarrow> nat \<Rightarrow> db_luck \<Rightarrow> bool" where
  "own_session proc p luck = (case dl_connect luck of None \<Rightarrow> True | Some c \<Rightarrow> proc c = p)"

inductive cluster_reachable :: "'s lock_service \<Rightarrow> int \<times> int \<Rightarrow> (nat \<Rightarrow> nat) \<Rightarrow> 's cluster \<Rightarrow> bool"
  for svc :: "'s lock_service" and keys :: "int \<times> int" and proc :: "nat \<Rightarrow> nat" where
  booted: "cluster_reachable svc keys proc \<lparr>cl_leaders = (\<lambda>_. fresh_leader), cl_service = s\<rparr>"
| ticked: "cluster_reachable svc keys proc w \<Longrightarrow> own_session proc p luck
    \<Longrightarrow> cluster_reachable svc keys proc (snd (tick svc keys p luck w))"
| released: "cluster_reachable svc keys proc w \<Longrightarrow> release svc keys luck (cl_leaders w p) (cl_service w) = (l, s)
    \<Longrightarrow> cluster_reachable svc keys proc \<lparr>cl_leaders = (cl_leaders w)(p := l), cl_service = s\<rparr>"
| server: "cluster_reachable svc keys proc w \<Longrightarrow> cluster_reachable svc keys proc (w\<lparr>cl_service := s\<rparr>)"

text \<open>A leader that holds has a session, and it is one of its own process.\<close>

definition leader_ok :: "(nat \<Rightarrow> nat) \<Rightarrow> nat \<Rightarrow> leader \<Rightarrow> bool" where
  "leader_ok proc p l = (case ld_conn l of None \<Rightarrow> \<not> ld_held l | Some c \<Rightarrow> proc c = p)"

lemma leader_ok_fresh [simp]: "leader_ok proc p fresh_leader"
  by (simp add: leader_ok_def fresh_leader_def)

text \<open>An admitted tick leaves the process's own session as the holder of the lock.\<close>

lemma gate_acquire_leader_ok:
  assumes "leader_ok proc p l" "own_session proc p luck" "gate_acquire True svc keys Postgres luck l s = (ok, l', s')"
  shows "leader_ok proc p l'"
  using assms
  by (auto simp: gate_acquire_def renew_def try_acquire_def leader_ok_def own_session_def fresh_leader_def
      split: if_splits option.splits reply.splits prod.splits)

lemma gate_acquire_admitted:
  assumes "leader_ok proc p l" "own_session proc p luck" "gate_acquire True svc keys Postgres luck l s = (True, l', s')"
    and svc: "advisory_ok svc"
  shows "\<exists>c. ls_holds svc keys c s' \<and> proc c = p"
proof (cases "ld_held l")
  case True
  then show ?thesis using assms(1-3)
    by (auto simp: gate_acquire_def renew_def leader_ok_def split: if_splits option.splits)
next
  case False
  then obtain c where c: "dl_connect luck = Some c" "ls_try svc keys c s = (True, s')"
    using assms(3)
    by (auto simp: gate_acquire_def try_acquire_def split: if_splits option.splits reply.splits prod.splits)
  then show ?thesis using advisory_grant [OF svc c(2)] assms(2) by (auto simp: own_session_def)
qed

lemma gate_acquire_keeps:
  assumes "gate_acquire True svc keys Postgres luck l s = (ok, l', s')" "advisory_ok svc" "ls_holds svc keys a s"
  shows "ls_holds svc keys a s'"
proof -
  have "s' = s \<or> (\<exists>c. s' = snd (ls_try svc keys c s))"
    using assms(1)
    by (auto simp: gate_acquire_def try_acquire_def split: if_splits option.splits reply.splits prod.splits) (metis snd_conv)+
  then show ?thesis using advisory_keeps [OF assms(2,3)] assms(3) by metis
qed

lemma tick_result:
  assumes "tick svc keys p luck w = (ok, w')"
  obtains l s where "gate_acquire True svc keys Postgres luck (cl_leaders w p) (cl_service w) = (ok, l, s)"
    and "w' = \<lparr>cl_leaders = (cl_leaders w)(p := l), cl_service = s\<rparr>"
  using assms by (auto simp: tick_def split: prod.splits)

lemma reachable_leader_ok: "cluster_reachable svc keys proc w \<Longrightarrow> leader_ok proc p (cl_leaders w p)"
proof (induction rule: cluster_reachable.induct)
  case (ticked w q luck)
  obtain ok w' where t: "tick svc keys q luck w = (ok, w')" by (cases "tick svc keys q luck w")
  then obtain l s where l: "gate_acquire True svc keys Postgres luck (cl_leaders w q) (cl_service w) = (ok, l, s)"
    and w': "w' = \<lparr>cl_leaders = (cl_leaders w)(q := l), cl_service = s\<rparr>" by (rule tick_result)
  show ?case using gate_acquire_leader_ok [OF _ _ l, of proc p] ticked t w' by (cases "p = q") simp_all
next
  case (released w luck q l s)
  then show ?case by (auto simp: release_def split: if_splits)
qed simp_all

text \<open>C38: At any instant at most one process passes the gate of a loop: if the tick of one process is admitted and,
  with nothing happening at the server in between, the tick of another is admitted too, they are the same process,
  whatever ticks, releases, lost sessions and failed statements came before.\<close>

theorem one_leader_at_a_time:
  assumes "advisory_ok svc" "cluster_reachable svc keys proc w" "own_session proc p luck" "own_session proc q luck'"
    and "tick svc keys p luck w = (True, w1)" "tick svc keys q luck' w1 = (True, w2)"
  shows "p = q"
proof -
  have r: "cluster_reachable svc keys proc w1" using cluster_reachable.ticked [OF assms(2,3)] assms(5) by simp
  from assms(5) obtain l s where l: "gate_acquire True svc keys Postgres luck (cl_leaders w p) (cl_service w) = (True, l, s)"
    and w1: "w1 = \<lparr>cl_leaders = (cl_leaders w)(p := l), cl_service = s\<rparr>" by (rule tick_result)
  from assms(6) obtain l' s' where l': "gate_acquire True svc keys Postgres luck' (cl_leaders w1 q) (cl_service w1) = (True, l', s')"
    by (rule tick_result)
  obtain c where c: "ls_holds svc keys c (cl_service w1)" "proc c = p"
    using gate_acquire_admitted [OF reachable_leader_ok [OF assms(2)] assms(3) l assms(1)] w1 by auto
  obtain c' where "ls_holds svc keys c' s'" "proc c' = q"
    using gate_acquire_admitted [OF reachable_leader_ok [OF r] assms(4) l' assms(1)] by blast
  moreover have "ls_holds svc keys c s'" using gate_acquire_keeps [OF l' assms(1) c(1)] .
  ultimately show ?thesis using advisory_unique [OF assms(1)] c(2) by blast
qed

text \<open>A server that keeps a list of locks and their sessions; two processes with one session each.\<close>

definition listed_locks :: "((int \<times> int) \<times> nat) list lock_service" where
  "listed_locks = \<lparr>ls_try = (\<lambda>k c s. case map_of s k of None \<Rightarrow> (True, (k, c) # s) | Some c' \<Rightarrow> (c = c', s)),
     ls_unlock = (\<lambda>k c s. filter (\<lambda>x. x \<noteq> (k, c)) s), ls_holds = (\<lambda>k c s. map_of s k = Some c)\<rparr>"

lemma listed_locks_ok: "advisory_ok listed_locks"
  by (auto simp: advisory_ok_def listed_locks_def split: option.splits)

definition two_processes :: "((int \<times> int) \<times> nat) list cluster" where
  "two_processes = \<lparr>cl_leaders = (\<lambda>_. fresh_leader), cl_service = []\<rparr>"

definition session_of :: "nat \<Rightarrow> db_luck" where
  "session_of c = \<lparr>dl_connect = Some c, dl_reply = Answered\<rparr>"

lemma first_tick:
  "tick listed_locks (7, 9) 1 (session_of 1) two_processes
   = (True, \<lparr>cl_leaders = (\<lambda>_. fresh_leader)(1 := \<lparr>ld_conn = Some 1, ld_held = True\<rparr>), cl_service = [((7, 9), 1)]\<rparr>)"
  by (simp add: tick_def gate_acquire_def try_acquire_def listed_locks_def two_processes_def session_of_def fresh_leader_def)

text \<open>Process 1 takes the lock, its next tick is admitted again, and process 2 is not.\<close>

theorem one_leader_at_a_time_witness:
  "fst (tick listed_locks (7, 9) 1 (session_of 1) (snd (tick listed_locks (7, 9) 1 (session_of 1) two_processes)))
   \<and> \<not> fst (tick listed_locks (7, 9) 2 (session_of 2) (snd (tick listed_locks (7, 9) 1 (session_of 1) two_processes)))"
proof
  have r: "cluster_reachable listed_locks (7, 9) (\<lambda>c. c) two_processes"
    unfolding two_processes_def by (rule cluster_reachable.booted)
  show "fst (tick listed_locks (7, 9) 1 (session_of 1) (snd (tick listed_locks (7, 9) 1 (session_of 1) two_processes)))"
    unfolding first_tick
    by (simp add: tick_def gate_acquire_def renew_def listed_locks_def session_of_def)
  show "\<not> fst (tick listed_locks (7, 9) 2 (session_of 2) (snd (tick listed_locks (7, 9) 1 (session_of 1) two_processes)))"
  proof
    assume "fst (tick listed_locks (7, 9) 2 (session_of 2) (snd (tick listed_locks (7, 9) 1 (session_of 1) two_processes)))"
    then have "\<exists>w2. tick listed_locks (7, 9) 2 (session_of 2) (snd (tick listed_locks (7, 9) 1 (session_of 1) two_processes)) = (True, w2)"
      by (metis prod.collapse)
    then have "(1::nat) = 2"
      using one_leader_at_a_time [OF listed_locks_ok r, of 1 "session_of 1" 2 "session_of 2"] first_tick
      by (auto simp: own_session_def session_of_def)
    then show False by simp
  qed
qed

section \<open>Losing the lock and giving it back\<close>

text \<open>A leader whose session was ended by the server skips the next tick and starts over with a new session.\<close>

lemma lost_session_demotes:
  assumes "ld_held l" "ld_conn l = Some c" "\<not> ls_holds svc keys c s"
  shows "gate_acquire True svc keys Postgres luck l s = (False, fresh_leader, s)"
  using assms by (simp add: gate_acquire_def renew_def)

text \<open>Without advisory locks a process leads from its first tick on.\<close>

lemma sqlite_always_leads:
  assumes "ld_conn l = None"
  shows "fst (gate_acquire True svc keys OtherDialect luck l s)"
    and "ld_conn (fst (snd (gate_acquire True svc keys OtherDialect luck l s))) = None"
  using assms by (simp_all add: gate_acquire_def renew_def try_acquire_def)

text \<open>
  When the unlock fails, closing the connection gives its session back to the pool, and the lock is still held:
  until that session ends no other process can lead, and this one only with the same session.
\<close>

lemma failed_unlock_keeps_the_lock:
  assumes "advisory_ok svc" "ld_held l" "ld_conn l = Some c" "ls_holds svc keys c s" "dl_reply luck = FailedBefore"
  shows "release svc keys luck l s = (fresh_leader, s)"
    and "dl_connect luck' = Some c' \<Longrightarrow> c' \<noteq> c \<Longrightarrow> dl_reply luck' = Answered \<Longrightarrow>
      \<not> fst (gate_acquire True svc keys Postgres luck' fresh_leader s)"
  using assms advisory_refuses [OF assms(1,4), of c']
  by (auto simp: release_def gate_acquire_def try_acquire_def fresh_leader_def split: prod.splits)

text \<open>A tick that is not admitted does not run the body.\<close>

lemma gate_tick_runs:
  "fst (gate_tick enabled svc keys d luck fn l s)
   = (if fst (gate_acquire enabled svc keys d luck l s) then Some (fn ()) else None)"
  by (simp add: gate_tick_def split: prod.splits)

end
