(* ===== verification/Message_Versions.thy ===== *)
theory Message_Versions
  imports Json "HOL-Library.Product_Lexorder"
begin

text \<open>
  The version history of messages (\<open>services/message_versions.py\<close>) and the operations that overwrite or
  delete a message: editing, truncating (\<open>api/messages.py\<close>), switching versions
  (\<open>api/message_versions.py\<close>) and regenerating (\<open>services/chat_service.py\<close>). Ids are numbers, times
  integers; the ids and times of new versions are a parameter.
\<close>

section \<open>Rows\<close>

type_synonym meta = "(string, json) dict"

record message =
  me_id :: nat
  me_conversation :: nat
  me_role :: string
  me_content :: string
  me_meta :: meta
  me_model :: "string option"
  me_tokens :: "int option"
  me_cost :: "rat option"
  me_created :: int

record version =
  mv_id :: nat
  mv_message :: nat
  mv_conversation :: nat
  mv_role :: string
  mv_content :: string
  mv_meta :: meta
  mv_model :: "string option"
  mv_tokens :: "int option"
  mv_cost :: "rat option"
  mv_origin :: string
  mv_created :: int

definition MAX_VERSIONS_PER_MESSAGE :: nat where "MAX_VERSIONS_PER_MESSAGE = 20"
definition MAX_VERSIONS_PER_CONVERSATION :: nat where "MAX_VERSIONS_PER_CONVERSATION = 200"

section \<open>Pruning\<close>

definition age_key :: "version \<Rightarrow> int \<times> nat" where
  "age_key v = (mv_created v, mv_id v)"

definition newest_versions :: "version list \<Rightarrow> version list" where
  "newest_versions rows = rev (sort_key age_key rows)"

text \<open>\<open>row_number() over (partition by message_id order by created_at desc, id desc)\<close>.\<close>

definition row_number :: "version list \<Rightarrow> version \<Rightarrow> nat" where
  "row_number scoped v = length (filter (\<lambda>w. mv_message w = mv_message v \<and> age_key v \<le> age_key w) scoped)"

definition doomed_versions :: "nat \<Rightarrow> version list \<Rightarrow> nat list" where
  "doomed_versions conv rows =
     (let scoped = filter (\<lambda>v. mv_conversation v = conv) rows in
      remdups (map mv_id (filter (\<lambda>v. MAX_VERSIONS_PER_MESSAGE < row_number scoped v) scoped)
        @ map mv_id (drop MAX_VERSIONS_PER_CONVERSATION (newest_versions scoped))))"

definition prune_versions :: "nat \<Rightarrow> version list \<Rightarrow> nat \<times> version list" where
  "prune_versions conv rows =
     (let doomed = doomed_versions conv rows in
      (length doomed, filter (\<lambda>v. mv_id v \<notin> set doomed) rows))"

definition version_of :: "nat \<times> int \<Rightarrow> string \<Rightarrow> message \<Rightarrow> version" where
  "version_of stamp origin m =
     \<lparr>mv_id = fst stamp, mv_message = me_id m, mv_conversation = me_conversation m, mv_role = me_role m,
      mv_content = me_content m, mv_meta = me_meta m, mv_model = me_model m, mv_tokens = me_tokens m,
      mv_cost = me_cost m, mv_origin = origin, mv_created = snd stamp\<rparr>"

definition snapshot_message :: "nat \<times> int \<Rightarrow> string \<Rightarrow> message \<Rightarrow> version list \<Rightarrow> version \<times> version list" where
  "snapshot_message stamp origin m rows =
     (let v = version_of stamp origin m in (v, snd (prune_versions (mv_conversation v) (rows @ [v]))))"

definition latest_versions :: "nat \<Rightarrow> nat \<Rightarrow> version list \<Rightarrow> version list" where
  "latest_versions conv limit rows = take limit (newest_versions (filter (\<lambda>v. mv_conversation v = conv) rows))"

definition list_versions :: "nat \<Rightarrow> nat \<Rightarrow> version list \<Rightarrow> version list" where
  "list_versions mid limit rows = take limit (newest_versions (filter (\<lambda>v. mv_message v = mid) rows))"

definition get_version :: "nat \<Rightarrow> nat \<Rightarrow> version list \<Rightarrow> version option" where
  "get_version mid vid rows = List.find (\<lambda>v. mv_id v = vid \<and> mv_message v = mid) rows"

section \<open>Switching to a version\<close>

text \<open>Two dictionaries are equal when they have the same entries, in whatever order.\<close>

definition same_dict :: "meta \<Rightarrow> meta \<Rightarrow> bool" where
  "same_dict a b \<longleftrightarrow>
     list_all (\<lambda>(k, _). dict_get b k = dict_get a k) a \<and> list_all (\<lambda>(k, _). dict_get a k = dict_get b k) b"

definition or_empty :: "string option \<Rightarrow> string" where
  "or_empty x = (case x of None \<Rightarrow> [] | Some s \<Rightarrow> s)"

definition same_answer :: "message \<Rightarrow> version \<Rightarrow> bool" where
  "same_answer m v \<longleftrightarrow>
     me_content m = mv_content v \<and> same_dict (me_meta m) (mv_meta v) \<and> or_empty (me_model m) = or_empty (mv_model v)"

definition restored :: "version \<Rightarrow> message \<Rightarrow> message" where
  "restored v m =
     m\<lparr>me_content := mv_content v, me_meta := mv_meta v, me_model := mv_model v, me_tokens := mv_tokens v,
       me_cost := mv_cost v\<rparr>"

text \<open>
  \<open>activate_version\<close>: whether anything changed, the message, and the versions. The last call prunes with the
  message's id where a conversation's is expected, as the source does.
\<close>

definition activate_version ::
  "nat \<times> int \<Rightarrow> message \<Rightarrow> version \<Rightarrow> version list \<Rightarrow> bool \<times> message \<times> version list" where
  "activate_version stamp m v rows =
     (if same_answer m v then (False, m, rows)
      else (True, restored v m, snd (prune_versions (me_id m) (snd (snapshot_message stamp ''restore'' m rows)))))"

section \<open>The endpoints\<close>

datatype endpoint_error = NotFound | Conflict string | Unprocessable | BadRequest string

record store =
  st_owners :: "(nat, nat) dict"
  st_messages :: "message list"
  st_versions :: "version list"
  st_tool_calls :: "nat list"
  st_previews :: "(nat, string) dict"
  st_made :: nat

record caller =
  ca_id :: nat
  ca_admin :: bool

definition may_touch :: "caller \<Rightarrow> nat \<Rightarrow> store \<Rightarrow> bool" where
  "may_touch who conv st = (case dict_get (st_owners st) conv of None \<Rightarrow> False | Some u \<Rightarrow> u = ca_id who \<or> ca_admin who)"

definition load_owned_message :: "nat \<Rightarrow> caller \<Rightarrow> store \<Rightarrow> endpoint_error + message" where
  "load_owned_message mid who st =
     (case List.find (\<lambda>m. me_id m = mid) (st_messages st) of
        None \<Rightarrow> Inl NotFound
      | Some m \<Rightarrow> if may_touch who (me_conversation m) st then Inr m else Inl NotFound)"

definition is_generating :: "message \<Rightarrow> bool" where
  "is_generating m \<longleftrightarrow>
     dict_get (me_meta m) ''status'' = Some (JStr ''pending'')
     \<and> (case dict_get (me_meta m) ''finish_reason'' of None \<Rightarrow> True | Some v \<Rightarrow> \<not> truthy v)"

definition put_message :: "message \<Rightarrow> store \<Rightarrow> store" where
  "put_message m st = st\<lparr>st_messages := map_at me_id (me_id m) (\<lambda>_. m) (st_messages st)\<rparr>"

text \<open>Keep a version of a message with the next id and time.\<close>

definition keep_version :: "(nat \<Rightarrow> nat \<times> int) \<Rightarrow> string \<Rightarrow> message \<Rightarrow> store \<Rightarrow> store" where
  "keep_version stamps origin m st =
     st\<lparr>st_versions := snd (snapshot_message (stamps (st_made st)) origin m (st_versions st)), st_made := st_made st + 1\<rparr>"

definition edit_message_content ::
  "(nat \<Rightarrow> nat \<times> int) \<Rightarrow> nat \<Rightarrow> string \<Rightarrow> caller \<Rightarrow> store \<Rightarrow> endpoint_error + (message \<times> store)" where
  "edit_message_content stamps mid content who st =
     rbind (load_owned_message mid who st) (\<lambda>m.
       if is_generating m then Inl (Conflict ''turn_in_progress'')
       else let new = py_strip content in
         if new = [] then Inl Unprocessable
         else if new = me_content m then Inr (m, st)
         else let m' = m\<lparr>me_content := new, me_meta := dict_pop ''citations'' (me_meta m)\<rparr>
              in Inr (m', put_message m' (keep_version stamps ''edit'' m st)))"

text \<open>A message, its tool calls, and a version kept of it first.\<close>

definition drop_message :: "(nat \<Rightarrow> nat \<times> int) \<Rightarrow> string \<Rightarrow> message \<Rightarrow> store \<Rightarrow> store" where
  "drop_message stamps origin m st =
     (let st1 = keep_version stamps origin m st in
      st1\<lparr>st_tool_calls := filter (\<lambda>t. t \<noteq> me_id m) (st_tool_calls st1),
          st_messages := filter (\<lambda>x. me_id x \<noteq> me_id m) (st_messages st1)\<rparr>)"

definition truncated_messages :: "message \<Rightarrow> store \<Rightarrow> message list" where
  "truncated_messages anchor st =
     filter (\<lambda>m. me_created anchor < me_created m \<and> me_id m \<noteq> me_id anchor)
       (sort_key (\<lambda>m. (me_created m, me_id m))
         (filter (\<lambda>m. me_conversation m = me_conversation anchor) (st_messages st)))"

definition truncate_after_message ::
  "(nat \<Rightarrow> nat \<times> int) \<Rightarrow> nat \<Rightarrow> caller \<Rightarrow> store \<Rightarrow> endpoint_error + (nat \<times> store)" where
  "truncate_after_message stamps mid who st =
     rbind (load_owned_message mid who st) (\<lambda>anchor.
       let doomed = truncated_messages anchor st in
       if list_ex is_generating doomed then Inl (Conflict ''turn_in_progress'')
       else let st1 = fold (drop_message stamps ''truncate'') doomed st;
                preview = take 280 (py_strip (me_content anchor))
            in Inr (length doomed, st1\<lparr>st_previews := dict_set (me_conversation anchor) preview (st_previews st1)\<rparr>))"

definition activate_message_version ::
  "(nat \<Rightarrow> nat \<times> int) \<Rightarrow> nat \<Rightarrow> nat \<Rightarrow> nat \<Rightarrow> caller \<Rightarrow> store \<Rightarrow> endpoint_error + (bool \<times> store)" where
  "activate_message_version stamps conv mid vid who st =
     (if \<not> may_touch who conv st then Inl NotFound
      else case List.find (\<lambda>m. me_id m = mid) (st_messages st) of
        None \<Rightarrow> Inl NotFound
      | Some m \<Rightarrow>
          if me_conversation m \<noteq> conv then Inl NotFound
          else case get_version mid vid (st_versions st) of
            None \<Rightarrow> Inl NotFound
          | Some v \<Rightarrow>
              if mv_conversation v \<noteq> conv then Inl NotFound
              else case activate_version (stamps (st_made st)) m v (st_versions st) of
                (changed, m', rows) \<Rightarrow>
                  Inr (changed,
                    put_message m' (st\<lparr>st_versions := rows, st_made := (if changed then st_made st + 1 else st_made st)\<rparr>)))"

text \<open>\<open>_delete_last_assistant_message\<close>: the user's question that the regenerated turn replays.\<close>

definition delete_last_assistant_message ::
  "(nat \<Rightarrow> nat \<times> int) \<Rightarrow> nat \<Rightarrow> store \<Rightarrow> endpoint_error + (string \<times> store)" where
  "delete_last_assistant_message stamps conv st =
     (case take 2 (rev (sort_key me_created (filter (\<lambda>m. me_conversation m = conv) (st_messages st)))) of
        [] \<Rightarrow> Inl (BadRequest ''nothing_to_regenerate'')
      | m # earlier \<Rightarrow>
          if me_role m = ''assistant'' then
            if is_generating m then Inl (Conflict ''turn_in_progress'')
            else (case earlier of
                q # _ \<Rightarrow>
                  if me_role q = ''user'' then Inr (me_content q, drop_message stamps ''regenerate'' m st)
                  else Inl (BadRequest ''nothing_to_regenerate'')
              | [] \<Rightarrow> Inl (BadRequest ''nothing_to_regenerate''))
          else Inr (me_content m, st))"

end
