(* ===== verification/Version_Claims.thy ===== *)
theory Version_Claims
  imports Message_Versions
begin

text \<open>
  What the version history keeps: the limits of pruning, exactly; the way back from a switch; what
  truncation and regeneration leave behind.
\<close>

section \<open>The first of a descending list\<close>

lemma filter_rank:
  fixes k :: "'a \<Rightarrow> 'b::linorder"
  assumes "sorted_wrt (\<lambda>x y. k y < k x) xs"
  shows "filter (\<lambda>v. length (filter (\<lambda>w. k v \<le> k w) xs) \<le> n) xs = take n xs"
  using assms
proof (induction xs arbitrary: n)
  case (Cons x xs)
  have none: "filter (\<lambda>w. k x \<le> k w) xs = []" using Cons.prems by (auto simp: filter_empty_conv)
  have later: "length (filter (\<lambda>w. k v \<le> k w) (x # xs)) = Suc (length (filter (\<lambda>w. k v \<le> k w) xs))" if "v \<in> set xs" for v
    using Cons.prems that by auto
  show ?case
  proof (cases n)
    case 0
    have "filter (\<lambda>v. length (filter (\<lambda>w. k v \<le> k w) (x # xs)) \<le> 0) (x # xs) = []"
      by (auto simp: filter_empty_conv)
    then show ?thesis using 0 by simp
  next
    case (Suc m)
    have "filter (\<lambda>v. length (filter (\<lambda>w. k v \<le> k w) (x # xs)) \<le> Suc m) xs
        = filter (\<lambda>v. length (filter (\<lambda>w. k v \<le> k w) xs) \<le> m) xs"
      by (rule filter_cong [OF refl]) (use later in simp)
    then show ?thesis using Suc none Cons by simp
  qed
qed simp

lemma in_drop_iff:
  fixes k :: "'a \<Rightarrow> 'b::linorder"
  assumes "sorted_wrt (\<lambda>x y. k y < k x) xs" "v \<in> set xs"
  shows "v \<in> set (drop n xs) \<longleftrightarrow> n < length (filter (\<lambda>w. k v \<le> k w) xs)"
proof -
  have "v \<in> set (take n xs) \<longleftrightarrow> length (filter (\<lambda>w. k v \<le> k w) xs) \<le> n"
    using filter_rank [OF assms(1), of n] assms(2) by (metis (mono_tags, lifting) mem_Collect_eq set_filter)
  moreover have "distinct xs" using assms(1) by (induction xs) auto
  then have "v \<in> set (drop n xs) \<longleftrightarrow> v \<notin> set (take n xs)"
    using assms(2) set_append [of "take n xs" "drop n xs"] set_take_disj_set_drop_if_distinct [of xs n n] by auto
  ultimately show ?thesis by auto
qed

section \<open>Pruning, exactly\<close>

definition newer_of_message :: "version list \<Rightarrow> version \<Rightarrow> nat" where
  "newer_of_message rows v = length (filter (\<lambda>w. mv_conversation w = mv_conversation v \<and> mv_message w = mv_message v
     \<and> age_key v < age_key w) rows)"

definition newer_of_conversation :: "version list \<Rightarrow> version \<Rightarrow> nat" where
  "newer_of_conversation rows v = length (filter (\<lambda>w. mv_conversation w = mv_conversation v \<and> age_key v < age_key w) rows)"

lemma newest_versions_desc:
  assumes "distinct (map mv_id rows)"
  shows "sorted_wrt (\<lambda>x y. age_key y < age_key x) (newest_versions rows)"
proof -
  have "distinct (map age_key rows)" using assms by (auto simp: distinct_map age_key_def inj_on_def)
  then have "sorted_wrt (<) (map age_key (sort_key age_key rows))"
    using sorted_sort_key [of age_key rows] by (simp add: strict_sorted_iff distinct_map del: sorted_sort_key)
  then show "sorted_wrt (\<lambda>x y. age_key y < age_key x) (newest_versions rows)"
    by (simp add: newest_versions_def sorted_wrt_rev sorted_wrt_map)
qed

lemma newest_versions_count: "length (filter P (newest_versions rows)) = length (filter P rows)"
  by (simp add: newest_versions_def rev_filter [symmetric] filter_sort)

lemma length_filter_at_least:
  assumes "distinct (map mv_id rows)" "v \<in> set rows" "P v"
  shows "length (filter (\<lambda>w. P w \<and> age_key v \<le> age_key w) rows) = Suc (length (filter (\<lambda>w. P w \<and> age_key v < age_key w) rows))"
  using assms
proof (induction rows)
  case (Cons r rows)
  show ?case
  proof (cases "r = v")
    case True
    have "filter (\<lambda>w. P w \<and> age_key v \<le> age_key w) rows = filter (\<lambda>w. P w \<and> age_key v < age_key w) rows"
      using Cons.prems(1) True by (intro filter_cong) (force simp: age_key_def image_iff)+
    then show ?thesis using True Cons.prems(3) by simp
  next
    case False
    moreover have "age_key r \<noteq> age_key v" using Cons.prems(1,2) False by (auto simp: age_key_def)
    ultimately show ?thesis using Cons by auto
  qed
qed simp

lemma prune_versions_iff:
  assumes d: "distinct (map mv_id rows)"
  shows "v \<in> set (snd (prune_versions conv rows)) \<longleftrightarrow>
    v \<in> set rows \<and> (mv_conversation v = conv \<longrightarrow>
      newer_of_message rows v < MAX_VERSIONS_PER_MESSAGE \<and> newer_of_conversation rows v < MAX_VERSIONS_PER_CONVERSATION)"
proof (cases "v \<in> set rows")
  case True
  let ?s = "filter (\<lambda>v. mv_conversation v = conv) rows"
  have ds: "distinct (map mv_id ?s)" using d by (rule distinct_map_filter)
  have id: "mv_id v \<in> mv_id ` A \<longleftrightarrow> v \<in> A" if "A \<subseteq> set rows" for A
    using that True d by (auto simp: distinct_map inj_on_def)
  have n: "set (newest_versions ?s) = set ?s" by (simp add: newest_versions_def)
  have c: "mv_id v \<in> set (doomed_versions conv rows) \<longleftrightarrow>
      v \<in> set (filter (\<lambda>v. MAX_VERSIONS_PER_MESSAGE < row_number ?s v) ?s)
      \<or> v \<in> set (drop MAX_VERSIONS_PER_CONVERSATION (newest_versions ?s))"
    unfolding doomed_versions_def Let_def set_remdups set_append set_map
    using id [of "set (filter (\<lambda>v. MAX_VERSIONS_PER_MESSAGE < row_number ?s v) ?s)"]
      id [of "set (drop MAX_VERSIONS_PER_CONVERSATION (newest_versions ?s))"]
      set_drop_subset [of MAX_VERSIONS_PER_CONVERSATION "newest_versions ?s"] n by auto
  show ?thesis
  proof (cases "mv_conversation v = conv")
    case same: True
    have vs: "v \<in> set ?s" using True same by simp
    have r: "row_number ?s v = Suc (newer_of_message rows v)"
      unfolding row_number_def newer_of_message_def
      using length_filter_at_least [OF ds vs, of "\<lambda>w. mv_message w = mv_message v"] same
      by (simp add: conj_commute conj_left_commute)
    have o: "v \<in> set (drop MAX_VERSIONS_PER_CONVERSATION (newest_versions ?s))
        \<longleftrightarrow> MAX_VERSIONS_PER_CONVERSATION < Suc (newer_of_conversation rows v)"
      using in_drop_iff [OF newest_versions_desc [OF ds], of v] vs n
        newest_versions_count [of "\<lambda>w. age_key v \<le> age_key w" ?s]
        length_filter_at_least [OF ds vs, of "\<lambda>_. True"] same
      by (simp add: newer_of_conversation_def conj_commute)
    show ?thesis using c r o vs same True by (auto simp: prune_versions_def Let_def)
  next
    case False
    then have "mv_id v \<notin> set (doomed_versions conv rows)"
      using c n set_drop_subset [of MAX_VERSIONS_PER_CONVERSATION "newest_versions ?s"] by auto
    then show ?thesis using True False by (simp add: prune_versions_def Let_def)
  qed
qed (simp add: prune_versions_def Let_def)

lemma few_newest:
  assumes d: "distinct (map mv_id rows)"
  shows "length (filter (\<lambda>v. P v \<and> length (filter (\<lambda>w. P w \<and> age_key v < age_key w) rows) < n) rows) \<le> n"
proof -
  let ?s = "filter P rows" and ?C = "\<lambda>v. length (filter (\<lambda>w. P w \<and> age_key v < age_key w) rows) < n"
  have ds: "distinct (map mv_id ?s)" using d by (rule distinct_map_filter)
  have "?C v \<longleftrightarrow> length (filter (\<lambda>w. age_key v \<le> age_key w) (newest_versions ?s)) \<le> n"
    if "v \<in> set (newest_versions ?s)" for v
  proof -
    have v: "v \<in> set rows" "P v" using that by (simp_all add: newest_versions_def)
    show ?thesis
      using length_filter_at_least [OF d v(1), of P] v(2) by (simp add: newest_versions_count Suc_le_eq conj_commute)
  qed
  then have "filter ?C (newest_versions ?s) = filter (\<lambda>v. length (filter (\<lambda>w. age_key v \<le> age_key w) (newest_versions ?s)) \<le> n) (newest_versions ?s)"
    by (intro filter_cong) simp_all
  then have "filter ?C (newest_versions ?s) = take n (newest_versions ?s)"
    using filter_rank [OF newest_versions_desc [OF ds], of n] by simp
  moreover have "length (filter (\<lambda>v. P v \<and> ?C v) rows) = length (filter ?C (newest_versions ?s))"
    by (simp add: newest_versions_count conj_commute)
  ultimately show ?thesis by simp
qed

lemma prune_versions_filter: "\<exists>P. snd (prune_versions conv rows) = filter P rows"
  by (auto simp: prune_versions_def Let_def)

lemma filter_filter_mono: "(\<And>x. x \<in> set xs \<Longrightarrow> P x \<Longrightarrow> Q x) \<Longrightarrow> length (filter P xs) \<le> length (filter Q xs)"
  by (induction xs) auto

lemma pruned_limits:
  assumes d: "distinct (map mv_id rows)"
  shows "length (filter (\<lambda>v. mv_conversation v = conv) (snd (prune_versions conv rows))) \<le> MAX_VERSIONS_PER_CONVERSATION"
    and "length (filter (\<lambda>v. mv_conversation v = conv \<and> mv_message v = mid) (snd (prune_versions conv rows)))
      \<le> MAX_VERSIONS_PER_MESSAGE"
proof -
  obtain P where P: "snd (prune_versions conv rows) = filter P rows" using prune_versions_filter by blast
  have iff: "P v \<longleftrightarrow> (mv_conversation v = conv \<longrightarrow>
      newer_of_message rows v < MAX_VERSIONS_PER_MESSAGE \<and> newer_of_conversation rows v < MAX_VERSIONS_PER_CONVERSATION)"
    if "v \<in> set rows" for v
    using prune_versions_iff [OF d, of v conv] that by (simp add: P)
  have "length (filter (\<lambda>v. mv_conversation v = conv \<and> P v) rows)
      \<le> length (filter (\<lambda>v. mv_conversation v = conv \<and> length (filter (\<lambda>w. mv_conversation w = conv \<and> age_key v < age_key w) rows)
          < MAX_VERSIONS_PER_CONVERSATION) rows)"
    by (rule filter_filter_mono) (use iff in \<open>auto simp: newer_of_conversation_def\<close>)
  then show "length (filter (\<lambda>v. mv_conversation v = conv) (snd (prune_versions conv rows))) \<le> MAX_VERSIONS_PER_CONVERSATION"
    using few_newest [OF d, of "\<lambda>v. mv_conversation v = conv" MAX_VERSIONS_PER_CONVERSATION] by (simp add: P conj_commute)
  have "length (filter (\<lambda>v. (mv_conversation v = conv \<and> mv_message v = mid) \<and> P v) rows)
      \<le> length (filter (\<lambda>v. (mv_conversation v = conv \<and> mv_message v = mid)
          \<and> length (filter (\<lambda>w. (mv_conversation w = conv \<and> mv_message w = mid) \<and> age_key v < age_key w) rows)
            < MAX_VERSIONS_PER_MESSAGE) rows)"
    by (rule filter_filter_mono) (use iff in \<open>auto simp: newer_of_message_def conj_assoc\<close>)
  then show "length (filter (\<lambda>v. mv_conversation v = conv \<and> mv_message v = mid) (snd (prune_versions conv rows)))
      \<le> MAX_VERSIONS_PER_MESSAGE"
    using few_newest [OF d, of "\<lambda>v. mv_conversation v = conv \<and> mv_message v = mid" MAX_VERSIONS_PER_MESSAGE]
    by (simp add: P conj_commute conj_left_commute)
qed

text \<open>A snapshot that is newer than the conversation's versions has none before it.\<close>

lemma new_version_first:
  fixes origin :: string
  assumes "list_all (\<lambda>w. mv_conversation w = me_conversation m \<longrightarrow> age_key w < (snd stamp, fst stamp)) rows"
  defines "v \<equiv> version_of stamp origin m"
  shows "newer_of_message (rows @ [v]) v = 0" "newer_of_conversation (rows @ [v]) v = 0"
proof -
  have "length (filter (\<lambda>w. (mv_conversation w = mv_conversation v \<and> P w) \<and> age_key v < age_key w) (rows @ [v])) = 0" for P
    using assms(1) by (auto simp: v_def version_of_def age_key_def filter_empty_conv list_all_iff dest: order.asym)
  from this [of "\<lambda>w. mv_message w = mv_message v"] this [of "\<lambda>_. True"]
  show "newer_of_message (rows @ [v]) v = 0" "newer_of_conversation (rows @ [v]) v = 0"
    unfolding newer_of_message_def newer_of_conversation_def by (simp_all only: conj_assoc simp_thms)
qed

lemma snapshot_kept:
  assumes "distinct (map mv_id rows)" "fst stamp \<notin> mv_id ` set rows"
    and "list_all (\<lambda>w. mv_conversation w = me_conversation m \<longrightarrow> age_key w < (snd stamp, fst stamp)) rows"
  shows "version_of stamp origin m \<in> set (snd (snapshot_message stamp origin m rows))"
proof -
  have "distinct (map mv_id (rows @ [version_of stamp origin m]))" using assms(1,2) by (simp add: version_of_def)
  then show ?thesis
    using prune_versions_iff new_version_first [OF assms(3), of origin]
    by (simp add: snapshot_message_def Let_def MAX_VERSIONS_PER_MESSAGE_def MAX_VERSIONS_PER_CONVERSATION_def)
qed

text \<open>A snapshot leaves at most twenty versions of any message and two hundred of the conversation, keeps itself,
  leaves every other conversation alone, and drops a version only when twenty newer ones of its message or two
  hundred newer ones of its conversation are there.\<close>

theorem snapshot_within_limits:
  assumes ids: "distinct (map mv_id rows)" and fresh: "fst stamp \<notin> mv_id ` set rows"
    and newest: "list_all (\<lambda>w. mv_conversation w = me_conversation m \<longrightarrow> age_key w < (snd stamp, fst stamp)) rows"
  shows "case snapshot_message stamp origin m rows of (v, rows') \<Rightarrow>
    v \<in> set rows'
    \<and> length (filter (\<lambda>w. mv_conversation w = me_conversation m) rows') \<le> 200
    \<and> length (filter (\<lambda>w. mv_conversation w = me_conversation m \<and> mv_message w = mid) rows') \<le> 20
    \<and> (\<forall>w. w \<in> set rows' \<longleftrightarrow> (w \<in> set rows \<or> w = v) \<and> (mv_conversation w = me_conversation m \<longrightarrow>
          newer_of_message (rows @ [v]) w < 20 \<and> newer_of_conversation (rows @ [v]) w < 200))"
proof -
  let ?v = "version_of stamp origin m" and ?c = "me_conversation m"
  have c: "mv_conversation ?v = ?c" by (simp add: version_of_def)
  have d: "distinct (map mv_id (rows @ [?v]))" using ids fresh by (simp add: version_of_def)
  show ?thesis
    using prune_versions_iff [OF d, of _ ?c] pruned_limits [OF d, of ?c] new_version_first [OF newest, of origin]
    by (simp add: snapshot_message_def Let_def c MAX_VERSIONS_PER_MESSAGE_def MAX_VERSIONS_PER_CONVERSATION_def disj_commute)
qed

definition sample_message :: message where
  "sample_message = \<lparr>me_id = 1, me_conversation = 7, me_role = ''assistant'', me_content = ''new'', me_meta = [],
     me_model = None, me_tokens = None, me_cost = None, me_created = 0\<rparr>"

definition sample_rows :: "version list" where
  "sample_rows = map (\<lambda>i. version_of (i, int i) ''edit'' sample_message) [0..<20]"

text \<open>The twenty-first version of a message: the oldest goes.\<close>

theorem snapshot_within_limits_witness:
  "case snapshot_message (20, 20) ''edit'' sample_message sample_rows of
     (v, rows') \<Rightarrow> v \<in> set rows'
       \<and> length (filter (\<lambda>w. mv_conversation w = 7 \<and> mv_message w = 1) rows') \<le> 20
       \<and> version_of (0, 0) ''edit'' sample_message \<notin> set rows'"
proof -
  let ?v = "version_of (20, 20) ''edit'' sample_message" and ?old = "version_of (0, 0) ''edit'' sample_message"
  have "map mv_id sample_rows = [0..<20]" by (simp add: sample_rows_def version_of_def comp_def)
  then have d: "distinct (map mv_id sample_rows)" by simp
  have f: "fst (20 :: nat, 20 :: int) \<notin> mv_id ` set sample_rows" by (simp add: sample_rows_def image_image version_of_def)
  have l: "list_all (\<lambda>w. mv_conversation w = me_conversation sample_message
      \<longrightarrow> age_key w < (snd (20 :: nat, 20 :: int), fst (20 :: nat, 20 :: int))) sample_rows"
    by (auto simp: sample_rows_def list_all_iff version_of_def age_key_def)
  have old: "newer_of_message (sample_rows @ [?v]) ?old = 20"
    by (simp add: sample_rows_def newer_of_message_def version_of_def age_key_def upt_rec)
  have c: "mv_conversation ?old = me_conversation sample_message" "me_conversation sample_message = 7"
    by (simp_all add: version_of_def sample_message_def)
  obtain rows' where r: "snapshot_message (20, 20) ''edit'' sample_message sample_rows = (?v, rows')"
    by (simp add: snapshot_message_def Let_def)
  have "?v \<in> set rows' \<and> length (filter (\<lambda>w. mv_conversation w = me_conversation sample_message \<and> mv_message w = 1) rows') \<le> 20
      \<and> (?old \<in> set rows' \<longrightarrow> newer_of_message (sample_rows @ [?v]) ?old < 20)"
    using snapshot_within_limits [OF d f l, where origin = "''edit''" and mid = 1] c(1) unfolding r prod.case by blast
  then show ?thesis by (simp only: r prod.case old c(2) less_irrefl simp_thms)
qed

section \<open>There and back\<close>

lemma same_dict_sym: "same_dict a b = same_dict b a"
  by (auto simp: same_dict_def)

lemma prune_absent:
  assumes "list_all (\<lambda>v. mv_conversation v \<noteq> conv) rows"
  shows "snd (prune_versions conv rows) = rows"
proof -
  have "filter (\<lambda>v. mv_conversation v = conv) rows = []" using assms by (auto simp: filter_empty_conv list_all_iff)
  then show ?thesis by (simp add: prune_versions_def doomed_versions_def newest_versions_def)
qed

lemma find_version:
  assumes "distinct (map mv_id rows)" "v \<in> set rows"
  shows "get_version (mv_message v) (mv_id v) rows = Some v"
  unfolding get_version_def using assms by (induction rows) force+

text \<open>C39: Switching to a version can be undone: the message's answer before the switch is listed as a version, and
  switching to that version gives back the message exactly; when the version is the current answer already,
  nothing is written.\<close>

theorem switch_and_back:
  assumes "distinct (map mv_id rows)" "fst stamp \<notin> mv_id ` set rows"
    and "list_all (\<lambda>w. mv_conversation w = me_conversation m \<longrightarrow> age_key w < (snd stamp, fst stamp)) rows"
    and "list_all (\<lambda>w. mv_conversation w \<noteq> me_id m) rows" "me_conversation m \<noteq> me_id m"
  shows "case activate_version stamp m v rows of (changed, m1, rows1) \<Rightarrow>
    (if changed
     then (case get_version (me_id m) (fst stamp) rows1 of
             None \<Rightarrow> False
           | Some s \<Rightarrow> (case activate_version stamp' m1 s rows1 of (again, m2, _) \<Rightarrow> again \<and> m2 = m))
     else m1 = m \<and> rows1 = rows)"
proof (cases "same_answer m v")
  case True
  then show ?thesis by (simp add: activate_version_def)
next
  case False
  let ?s = "version_of stamp ''restore'' m"
  obtain kept where kept: "snapshot_message stamp ''restore'' m rows = (?s, kept)" by (simp add: snapshot_message_def Let_def)
  obtain P where "snd (prune_versions (mv_conversation ?s) (rows @ [?s])) = filter P (rows @ [?s])"
    using prune_versions_filter by blast
  then have P: "kept = filter P (rows @ [?s])" using kept by (simp add: snapshot_message_def Let_def)
  have "list_all (\<lambda>w. mv_conversation w \<noteq> me_id m) kept"
    using assms(4,5) P by (auto simp: list_all_iff version_of_def)
  then have pruned: "snd (prune_versions (me_id m) kept) = kept" by (rule prune_absent)
  have "?s \<in> set kept" using snapshot_kept [OF assms(1-3), of "''restore''"] kept by simp
  moreover have "distinct (map mv_id kept)"
    unfolding P by (rule distinct_map_filter) (use assms(1,2) in \<open>simp add: version_of_def\<close>)
  ultimately have found: "get_version (me_id m) (fst stamp) kept = Some ?s"
    using find_version [of kept ?s] by (simp add: version_of_def)
  have "\<not> same_answer (restored v m) ?s"
    using False same_dict_sym [of "mv_meta v"] by (auto simp: same_answer_def restored_def version_of_def)
  moreover have "restored ?s (restored v m) = m" by (simp add: restored_def version_of_def)
  ultimately show ?thesis using False kept found pruned by (simp add: activate_version_def)
qed

text \<open>An answer with an older version: switched to it and back.\<close>

theorem switch_and_back_witness:
  "case activate_version (3, 9) sample_message (version_of (2, 5) ''edit'' (sample_message\<lparr>me_content := ''old''\<rparr>)) [] of
     (changed, m1, rows1) \<Rightarrow> changed \<and> me_content m1 = ''old''
       \<and> (case get_version 1 3 rows1 of
            None \<Rightarrow> False
          | Some s \<Rightarrow> fst (snd (activate_version (4, 10) m1 s rows1)) = sample_message)"
proof -
  let ?v = "version_of (2, 5) ''edit'' (sample_message\<lparr>me_content := ''old''\<rparr>)"
  have "\<not> same_answer sample_message ?v" by (simp add: same_answer_def version_of_def sample_message_def)
  then obtain rows1 where a: "activate_version (3, 9) sample_message ?v [] = (True, restored ?v sample_message, rows1)"
    by (simp add: activate_version_def)
  then show ?thesis
    using switch_and_back [where rows = "[]" and stamp = "(3, 9)" and m = sample_message and v = ?v and stamp' = "(4, 10)"]
    by (auto simp: restored_def version_of_def sample_message_def split: option.splits)
qed

section \<open>Endpoints\<close>

lemma keep_version_messages [simp]: "st_messages (keep_version stamps origin m st) = st_messages st"
  by (simp add: keep_version_def)

lemma drop_message_messages: "st_messages (drop_message stamps origin m st) = filter (\<lambda>x. me_id x \<noteq> me_id m) (st_messages st)"
  by (simp add: drop_message_def Let_def)

lemma fold_drop_messages:
  "st_messages (fold (drop_message stamps origin) ms st) = filter (\<lambda>x. me_id x \<notin> me_id ` set ms) (st_messages st)"
  by (induction ms arbitrary: st) (auto simp: drop_message_messages intro!: filter_cong)

text \<open>Truncation removes exactly the later messages of the conversation.\<close>

lemma truncate_leaves:
  assumes "distinct (map me_id (st_messages st))" "truncate_after_message stamps mid who st = Inr (n, st')"
    and "List.find (\<lambda>m. me_id m = mid) (st_messages st) = Some anchor"
  shows "st_messages st' = filter (\<lambda>m. \<not> (me_conversation m = me_conversation anchor \<and> me_created anchor < me_created m)) (st_messages st)"
proof -
  have a: "anchor \<in> set (st_messages st)" using find_SomeD [OF assms(3)] by simp
  let ?ms = "truncated_messages anchor st"
  have "st_messages st' = filter (\<lambda>x. me_id x \<notin> me_id ` set ?ms) (st_messages st)"
    using assms(2,3)
    by (auto simp: truncate_after_message_def load_owned_message_def Let_def fold_drop_messages rbind_Inr_iff split: if_splits)
  also have "\<dots> = filter (\<lambda>m. \<not> (me_conversation m = me_conversation anchor \<and> me_created anchor < me_created m)) (st_messages st)"
  proof (rule filter_cong [OF refl])
    fix x assume x: "x \<in> set (st_messages st)"
    have same: "y = x" if "y \<in> set (st_messages st)" "me_id y = me_id x" for y
      using assms(1) x that by (auto simp: distinct_map inj_on_def)
    have "me_id x \<in> me_id ` set ?ms \<longleftrightarrow> x \<in> set ?ms"
      using same by (force simp: truncated_messages_def)
    moreover have "x \<in> set ?ms \<longleftrightarrow> me_conversation x = me_conversation anchor \<and> me_created anchor < me_created x"
      using x same [OF a] by (auto simp: truncated_messages_def)
    ultimately show "(me_id x \<notin> me_id ` set ?ms) = (\<not> (me_conversation x = me_conversation anchor \<and> me_created anchor < me_created x))" by blast
  qed
  finally show ?thesis .
qed

text \<open>
  The answer that a regeneration replaces is kept as a version, but of a message that no longer exists: no call
  of the endpoint that switches versions finds it, by its old message or by any other.
\<close>

lemma regenerated_version_unreachable:
  assumes "distinct (map mv_id (st_versions st'))" "v \<in> set (st_versions st')"
    and "list_all (\<lambda>m. me_id m \<noteq> mv_message v) (st_messages st')"
  shows "activate_message_version stamps conv mid (mv_id v) who st' = Inl NotFound"
proof (cases "mid = mv_message v")
  case True
  then have "List.find (\<lambda>m. me_id m = mid) (st_messages st') = None" using assms(3) by (auto simp: find_None_iff list_all_iff)
  then show ?thesis by (simp add: activate_message_version_def)
next
  case False
  have "get_version mid (mv_id v) (st_versions st') = None"
    unfolding get_version_def find_None_iff using assms(1,2) False by (auto simp: distinct_map inj_on_def)
  then show ?thesis by (auto simp: activate_message_version_def split: option.splits)
qed

lemma regenerate_orphans_version:
  assumes "delete_last_assistant_message stamps conv st = Inr (q, st')" "st' \<noteq> st"
  shows "\<exists>m. st' = drop_message stamps ''regenerate'' m st \<and> list_all (\<lambda>x. me_id x \<noteq> me_id m) (st_messages st')"
  using assms
  by (auto simp: delete_last_assistant_message_def drop_message_messages list_all_iff split: list.splits if_splits)

end
