(* ===== verification/Settlement.thy ===== *)
theory Settlement
  imports Ledger_Claims Quotas Json
begin

text \<open>
  Settling what a request used (\<open>core/pricing.py\<close>, \<open>services/chat_accounting.py\<close>,
  \<open>services/speech_service.py\<close>): the usage is priced, the quota counters are charged and then the
  credits. The token counts of a payload are integers, absent or null; its cost is any JSON value.
\<close>

section \<open>The price of a payload\<close>

record price_row =
  pr_name :: string
  pr_prompt :: rat
  pr_completion :: rat

text \<open>
  \<open>float(v)\<close> of a JSON value; \<open>float_text\<close> reads a string. None where Python raises a \<open>TypeError\<close> or
  \<open>ValueError\<close>.
\<close>

fun py_float :: "(string \<Rightarrow> rat option) \<Rightarrow> json \<Rightarrow> rat option" where
  "py_float float_text (JInt n) = Some (float_of_int n)"
| "py_float float_text (JFloat x) = Some x"
| "py_float float_text (JBool b) = Some (if b then 1 else 0)"
| "py_float float_text (JStr s) = float_text s"
| "py_float float_text _ = None"

definition price_row_of :: "(string \<Rightarrow> rat option) \<Rightarrow> string \<times> json \<Rightarrow> price_row option" where
  "price_row_of float_text kv =
     (case snd kv of
        JDict d \<Rightarrow>
          (case (py_float float_text (dict_get_or d ''prompt'' (JInt 0)), py_float float_text (dict_get_or d ''completion'' (JInt 0))) of
             (Some p, Some c) \<Rightarrow> Some \<lparr>pr_name = py_lower (fst kv), pr_prompt = p, pr_completion = c\<rparr>
           | _ \<Rightarrow> None)
      | _ \<Rightarrow> None)"

text \<open>The entries of the configured object that can be read, longest name first.\<close>

definition pricing_table :: "(string \<Rightarrow> rat option) \<Rightarrow> (string \<times> json) list \<Rightarrow> price_row list" where
  "pricing_table float_text data =
     sort_key (\<lambda>r. - int (length (pr_name r))) (List.map_filter (price_row_of float_text) data)"

record payload =
  up_prompt :: "int option"
  up_completion :: "int option"
  up_total :: "int option"
  up_cost :: json

text \<open>\<open>round(x, 6)\<close>: the nearest decimal of six places, and then the nearest float.\<close>

definition round6 :: "rat \<Rightarrow> rat" where
  "round6 x = fl64 (of_int (round_half_even (x * 1000000)) / 1000000)"

definition int_or_0 :: "int option \<Rightarrow> int" where
  "int_or_0 x = (case x of None \<Rightarrow> 0 | Some n \<Rightarrow> n)"

definition token_price :: "price_row \<Rightarrow> int \<Rightarrow> int \<Rightarrow> rat" where
  "token_price r prompt completion =
     round6 (fadd (fmul (fdiv (float_of_int prompt) 1000000) (pr_prompt r))
                  (fmul (fdiv (float_of_int completion) 1000000) (pr_completion r)))"

definition matching_row :: "price_row list \<Rightarrow> string \<Rightarrow> price_row option" where
  "matching_row table name = List.find (\<lambda>r. pr_name r \<noteq> [] \<and> py_contains (pr_name r) name) table"

text \<open>A payload that is None or empty is None here; a name that is None or empty is empty.\<close>

definition compute_cost :: "price_row list \<Rightarrow> string \<Rightarrow> payload option \<Rightarrow> rat option" where
  "compute_cost table model_name usage =
     (case usage of
        None \<Rightarrow> None
      | Some u \<Rightarrow>
          if model_name = [] then None
          else map_option (\<lambda>r. token_price r (int_or_0 (up_prompt u)) (int_or_0 (up_completion u)))
                 (matching_row table (py_lower model_name)))"

definition usage_cost :: "price_row list \<Rightarrow> string \<Rightarrow> payload option \<Rightarrow> rat option" where
  "usage_cost table model_name usage =
     (case usage of
        Some u \<Rightarrow>
          (case up_cost u of
             JInt n \<Rightarrow> if 0 \<le> float_of_int n then Some (float_of_int n) else compute_cost table model_name usage
           | JFloat x \<Rightarrow> if 0 \<le> x then Some x else compute_cost table model_name usage
           | _ \<Rightarrow> compute_cost table model_name usage)
      | None \<Rightarrow> None)"

text \<open>The three counts, a missing total filled in; None when none of them is there.\<close>

definition normalized_counts :: "payload option \<Rightarrow> (int option \<times> int option \<times> int option) option" where
  "normalized_counts usage =
     (case usage of
        None \<Rightarrow> None
      | Some u \<Rightarrow>
          let pt = up_prompt u; ct = up_completion u;
              tt = (case up_total u of
                      None \<Rightarrow> if int_or_0 pt \<noteq> 0 \<or> int_or_0 ct \<noteq> 0 then Some (int_or_0 pt + int_or_0 ct) else None
                    | Some n \<Rightarrow> Some n)
          in if pt = None \<and> ct = None \<and> tt = None then None else Some (pt, ct, tt))"

section \<open>Settling a turn\<close>

definition apply_usage_accounting :: "price_row list \<Rightarrow> string \<Rightarrow> payload option \<Rightarrow> message_usage \<Rightarrow> message_usage" where
  "apply_usage_accounting table model_name usage m =
     (case normalized_counts usage of
        None \<Rightarrow> m
      | Some (pt, ct, tt) \<Rightarrow>
          m\<lparr>prompt_tokens := pt, completion_tokens := ct, total_tokens := tt, cost_usd := usage_cost table model_name usage\<rparr>)"

record settlement =
  se_limits :: quota_limits
  se_period :: int
  se_table :: "price_row list"
  se_policy :: credit_policy

definition or_zero :: "rat option \<Rightarrow> rat" where
  "or_zero x = (case x of None \<Rightarrow> 0 | Some y \<Rightarrow> y)"

text \<open>
  \<open>settle_turn_usage\<close>: the message with its usage, the counters, and the amount with the ledger; a negative
  count makes the quota service raise before the credits are charged.
\<close>

definition settle_turn_usage ::
  "settlement \<Rightarrow> (uuid \<Rightarrow> string) \<Rightarrow> int \<Rightarrow> stamp \<Rightarrow> uuid \<Rightarrow> string \<Rightarrow> payload option \<Rightarrow> message_usage \<Rightarrow> counters \<Rightarrow> credit_db
    \<Rightarrow> quota_error + (int \<times> message_usage \<times> counters \<times> credit_db)" where
  "settle_turn_usage cfg tenant_of now st user model_name usage m c db =
     (let m1 = apply_usage_accounting (se_table cfg) model_name usage m in
      rbind (charge_quota_if_enabled (se_limits cfg) (se_period cfg) now (tenant_of user)
          (int_or_0 (prompt_tokens m1)) (int_or_0 (completion_tokens m1)) (or_zero (cost_usd m1)) c) (\<lambda>c1.
        case charge_message_credits st (se_policy cfg) user m1 db of
          (amount, db1) \<Rightarrow> Inr (amount, m1, c1, db1)))"

section \<open>Settling a speech request\<close>

text \<open>\<open>settle_usage\<close> of the speech service; \<open>ref\<close> is the kind of request with a new id, cut to 64 characters.\<close>

definition settle_speech ::
  "settlement \<Rightarrow> (uuid \<Rightarrow> string) \<Rightarrow> int \<Rightarrow> stamp \<Rightarrow> uuid \<Rightarrow> string \<Rightarrow> payload option \<Rightarrow> string \<Rightarrow> string \<Rightarrow> counters \<Rightarrow> credit_db
    \<Rightarrow> quota_error + (counters \<times> credit_db)" where
  "settle_speech cfg tenant_of now st user model_name usage ref note c db =
     (case normalized_counts usage of
        None \<Rightarrow> Inr (c, db)
      | Some (pt, ct, tt) \<Rightarrow>
          let prompt = int_or_0 pt; completion = int_or_0 ct in
          if prompt = 0 \<and> completion = 0 then Inr (c, db)
          else
            let cost = usage_cost (se_table cfg) model_name usage in
            rbind (charge_quota_if_enabled (se_limits cfg) (se_period cfg) now (tenant_of user) prompt completion (or_zero cost) c) (\<lambda>c1.
              Inr (c1, snd (Ledger.charge_usage st user (compute_charge cost (Some (int_or_0 tt)) (se_policy cfg))
                             ''speech'' (take 64 ref) (Some (take 200 note)) db))))"

section \<open>Prices\<close>

lemma fl64_nonneg: "0 \<le> x \<Longrightarrow> 0 \<le> fl64 x"
  using fl64_mono [of 0 x] by simp

lemma round6_mono: "x \<le> y \<Longrightarrow> round6 x \<le> round6 y"
  unfolding round6_def
  by (intro fl64_mono divide_right_mono) (simp_all add: round_half_even_mono)

lemma float_of_int_mono: "a \<le> b \<Longrightarrow> float_of_int a \<le> float_of_int b"
  by (simp add: float_of_int_def fl64_mono)

text \<open>More tokens never cost less.\<close>

lemma token_price_mono:
  assumes "prompt \<le> prompt'" "completion \<le> completion'" "0 \<le> pr_prompt r" "0 \<le> pr_completion r"
  shows "token_price r prompt completion \<le> token_price r prompt' completion'"
  unfolding token_price_def fadd_def fmul_def fdiv_def
  by (intro round6_mono fl64_mono add_mono mult_right_mono divide_right_mono float_of_int_mono assms) simp_all

text \<open>The row that prices a model is one of those whose name occurs in it, and none of those has a longer name.\<close>

lemma matching_row_longest:
  assumes "matching_row (pricing_table ft data) name = Some r"
  shows "r \<in> set (pricing_table ft data)" "py_contains (pr_name r) name"
    and "\<And>r'. r' \<in> set (pricing_table ft data) \<Longrightarrow> pr_name r' \<noteq> [] \<Longrightarrow> py_contains (pr_name r') name
      \<Longrightarrow> length (pr_name r') \<le> length (pr_name r)"
proof -
  let ?t = "pricing_table ft data"
  from assms obtain i where i: "i < length ?t" "r = ?t ! i" "py_contains (pr_name r) name"
    and first: "\<forall>j < i. \<not> (pr_name (?t ! j) \<noteq> [] \<and> py_contains (pr_name (?t ! j)) name)"
    by (auto simp: matching_row_def find_Some_iff)
  show "r \<in> set ?t" "py_contains (pr_name r) name" using i by simp_all
  fix r' assume r': "r' \<in> set ?t" "pr_name r' \<noteq> []" "py_contains (pr_name r') name"
  then obtain j where j: "j < length ?t" "r' = ?t ! j" by (auto simp: in_set_conv_nth)
  have "i \<le> j" using first r'(2,3) j(2) by (meson not_le)
  moreover have "sorted (map (\<lambda>r. - int (length (pr_name r))) ?t)" by (simp add: pricing_table_def)
  ultimately show "length (pr_name r') \<le> length (pr_name r)"
    using i(1,2) j sorted_nth_mono [of "map (\<lambda>r. - int (length (pr_name r))) ?t" i j] by simp
qed

section \<open>Settling once and twice\<close>

lemma apply_usage_again:
  "apply_usage_accounting table name usage (apply_usage_accounting table name usage m) = apply_usage_accounting table name usage m"
  by (simp add: apply_usage_accounting_def split: option.split)

lemma apply_usage_id [simp]: "msg_id (apply_usage_accounting table name usage m) = msg_id m"
  by (simp add: apply_usage_accounting_def split: option.split)

lemma settle_result:
  assumes "settle_turn_usage cfg ten now st user name usage m c db = Inr (n, m1, c1, db1)"
  shows "m1 = apply_usage_accounting (se_table cfg) name usage m"
    and "charge_quota_if_enabled (se_limits cfg) (se_period cfg) now (ten user) (int_or_0 (prompt_tokens m1))
      (int_or_0 (completion_tokens m1)) (or_zero (cost_usd m1)) c = Inr c1"
    and "charge_message_credits st (se_policy cfg) user m1 db = (n, db1)"
  using assms
  by (cases "charge_message_credits st (se_policy cfg) user (apply_usage_accounting (se_table cfg) name usage m) db";
      auto simp: settle_turn_usage_def Let_def rbind_Inr_iff)+

text \<open>A settlement that charges credits charges none when it is repeated for the same message, whatever the usage is then.\<close>

lemma settled_again_charges_no_credits:
  assumes "settle_turn_usage cfg ten now st user name usage m c db = Inr (n, m1, c1, db1)" "0 < n"
    and "settle_turn_usage cfg' ten' now' st' user' name' usage' m1 c1 db1 = Inr (n2, m2, c2, db2)"
  shows "n2 = 0 \<and> ledger db2 = ledger db1"
proof -
  have id: "msg_id m2 = msg_id m1" using settle_result(1) [OF assms(3)] by simp
  show ?thesis
    using charge_message_once [OF settle_result(3) [OF assms(1)] assms(2) credit_run.run_refl [of "se_policy cfg" "(db1, [])"] id,
        of st' "se_policy cfg'" user'] settle_result(3) [OF assms(3)] by auto
qed

text \<open>The quota counts the repeated settlement again.\<close>

lemma quota_counts:
  assumes "charge_quota_if_enabled lims period now tenant p q x c = Inr c'" "ql_enabled lims" "0 \<le> p" "0 \<le> q" "0 \<le> x" "p + q \<noteq> 0"
    and "get_int (quota_key period now ''tokens'' tenant) c < ql_tokens lims"
    and "get_float (quota_key period now ''cost'' tenant) c < ql_cost lims"
  shows "get_int (quota_key period now ''tokens'' tenant) c' = get_int (quota_key period now ''tokens'' tenant) c + p + q"
proof -
  have "\<not> (p = 0 \<and> q = 0)" using assms(6) by auto
  then have "c' = incr_float (quota_key period now ''cost'' tenant) x (incr_int (quota_key period now ''tokens'' tenant) (p + q) c)"
    using assms by (auto simp: charge_quota_if_enabled_def Quotas.charge_usage_def check_spend_def guard_def Let_def split: if_splits)
  then show ?thesis by (simp add: get_int_def incr_int_def incr_float_def dict_simps)
qed

lemma settled_again_charges_quota:
  assumes "settle_turn_usage cfg ten now st user name usage m c db = Inr (n, m1, c1, db1)"
    and "settle_turn_usage cfg ten now st' user name usage m1 c1 db1 = Inr (n2, m2, c2, db2)"
    and "ql_enabled (se_limits cfg)" "normalized_counts usage = Some (Some p, Some q, tt)"
    and "usage_cost (se_table cfg) name usage = Some x" "0 < p" "0 \<le> q" "0 \<le> x"
    and "get_int (quota_key (se_period cfg) now ''tokens'' (ten user)) c1 < ql_tokens (se_limits cfg)"
    and "get_float (quota_key (se_period cfg) now ''cost'' (ten user)) c1 < ql_cost (se_limits cfg)"
  shows "get_int (quota_key (se_period cfg) now ''tokens'' (ten user)) c2
    = get_int (quota_key (se_period cfg) now ''tokens'' (ten user)) c1 + p + q"
proof -
  have "m2 = m1" using settle_result(1) [OF assms(1)] settle_result(1) [OF assms(2)] apply_usage_again by simp
  moreover have "prompt_tokens m1 = Some p" "completion_tokens m1 = Some q" "cost_usd m1 = Some x"
    using settle_result(1) [OF assms(1)] assms(4,5) by (simp_all add: apply_usage_accounting_def)
  ultimately show ?thesis
    using quota_counts [OF settle_result(2) [OF assms(2)] assms(3)] assms(6-10) by (simp add: int_or_0_def or_zero_def)
qed

text \<open>A speech request whose payload states only its total and its cost is not charged; a turn with the same payload is.\<close>

lemma speech_total_only_is_free:
  "settle_speech cfg ten now st user name (Some \<lparr>up_prompt = None, up_completion = None, up_total = Some n, up_cost = JFloat x\<rparr>) ref note c db
   = Inr (c, db)"
  by (simp add: settle_speech_def normalized_counts_def int_or_0_def Let_def)

end
