(* ===== verification/Spec2Isabelle.thy ===== *)
theory Spec2Isabelle
  imports Ledger_Claims Ledger_Sweep Ledger_Pages Redeem_Claims Budget_Claims Revision_Plans Review_Claims
    Engine_Claims Engine_Run Run_Commands Recovery_Claims
    Graph_Claims Lifecycle_Claims Apply_Patch Gateway_Claims Permission_Profiles
    Ingest_Claims Usage Continuation Gate_Proofs Session_Proofs Retrieval_Gate
    Prompt_Admission Quota_Claims Code_Claims Traffic Leader Version_Claims Settlement Prompt_Boundary
begin

text \<open>
  A verification library for the backend of MyGPT (\<open>backend/app\<close>): the parts of the service that
  decide by themselves, without a model provider or a network, and that money, durability and
  the shape of an agent run depend on.

  \<^bold>\<open>The program.\<close> A user's message becomes a turn. Before the turn the credit service reserves
  an estimated price; afterwards it charges the real price and releases the reservation. A
  deep-research message becomes a durable run: the HTTP handler appends a command, the run
  queue hands the run to a worker, the worker takes a lease and executes a plan whose steps
  are agents, under a budget, reviewing the outcome and revising the plan. Each agent's
  progress is an event in an append-only log that the browser follows and a node of the graph
  that it draws. A recovery pass takes over runs whose worker died.

  A document a user uploads is queued, claimed by an ingestion worker, split into chunks and
  indexed. A question retrieves chunks from several bases by two searches, fuses and packs them
  as numbered sources; the answer's claims are checked against these sources before the client
  sees them. Every request carries a token that \<open>get_current_user\<close> accepts; refresh, logout,
  a change of password and a deactivation end tokens.

  Before each call of a model the transcript of the turn is compacted, trimmed and admitted to the
  model's window. Requests are throttled by address and by user, runs and usage by quotas of the
  tenant, mailed codes by their own limits. Every process ticks the periodic loops, and the gate of a
  database lock lets one of them run. What an edit, a truncation or a regeneration overwrites is kept
  as a version of the message.

  \<^bold>\<open>The theories.\<close> \<open>Prelude\<close> holds the result type, dictionaries as association lists (Python's
  insertion order), and the lemmas shared by all; \<open>Texts\<close> the text functions
  (\<open>strip\<close>, \<open>LIKE\<close> patterns of \<open>core/like.py\<close>); \<open>Floats\<close> binary64 arithmetic as exact
  operations followed by rounding to 53 bits; \<open>Worklist\<close> the loop that several components use to close a set under a
  relation.

  \<^item> \<open>Credits\<close>: \<open>credits.py\<close>. The price of a turn and the text of redemption codes.
    Charges are bounded and monotone, a mistyped code normalises to the code.
  \<^item> \<open>Ledger\<close>, \<open>Ledger_Runs\<close>, \<open>Ledger_Claims\<close>, \<open>Ledger_Sweep\<close>, \<open>Ledger_Pages\<close>:
    \<open>services/credit_service.py\<close>. A state is the accounts and the ledger rows; every
    service function is a function on it. Histories are lists of operations; the invariant
    ties balances to rows, then follow idempotence of charges, no overdraft
    under concurrent admission, the sweep of dangling reservations and the keyset pagination.
  \<^item> \<open>Redeem\<close>, \<open>Redeem_Claims\<close>: \<open>services/redeem_service.py\<close>. Requests are interleaved in two
    steps (the check, then the compare-and-swap with the credit); a code pays once.
  \<^item> \<open>Budget\<close>, \<open>Budget_Claims\<close>: \<open>agents/policies/budget_policy.py\<close>. Limits and the guard
    every agent loop asks before it spends.
  \<^item> \<open>Plans\<close>, \<open>Plan_Claims\<close>, \<open>Revision_Plans\<close>: \<open>agents/workflow/schemas.py\<close>, \<open>planner.py\<close>.
    Validation, the topological order and the rewriting of a plan for a revision.
  \<^item> \<open>Review\<close>, \<open>Review_Claims\<close>: \<open>verifier.py\<close>, \<open>revision.py\<close>, \<open>checkpoints.py\<close>.
    The verdict on a run, the decision to revise, and what a resumed run may reuse.
  \<^item> \<open>Engine\<close>, \<open>Engine_Claims\<close>, \<open>Engine_Run\<close>: \<open>engine.py\<close>, \<open>executor.py\<close>. One execution of a plan
    is a transition system whose steps are the points where the tasks of the event loop
    interleave (a step begins, takes a semaphore slot, ends an attempt); the run loop over
    executions, verifications and revisions is a function.
  \<^item> \<open>Run_Commands\<close>, \<open>Leases\<close>, \<open>Run_Queue\<close>, \<open>Run_Events\<close>, \<open>Run_Recovery\<close>,
    \<open>Recovery_Claims\<close>: \<open>repository.py\<close>, \<open>queue.py\<close>, \<open>recovery.py\<close>, \<open>worker.py\<close>,
    \<open>agents/events.py\<close>. Rows and transactions of durable runs. The queue's contract is the
    locale \<open>run_queue\<close>, interpreted by the in-process queue.
  \<^item> \<open>Agent_Graph\<close>, \<open>Graph_Claims\<close>, \<open>Lifecycle\<close>, \<open>Lifecycle_Claims\<close>: \<open>agents/graph.py\<close>,
    \<open>agents/lifecycle.py\<close>, \<open>topology.py\<close>. The static and planned graphs and the callbacks that
    move nodes and edges through their statuses.
  \<^item> \<open>Apply_Patch\<close>: \<open>agents/apply_patch.py\<close>. The patch format and its applier.
  \<^item> \<open>Exec_Policy\<close>, \<open>Tool_Policy\<close>, \<open>Permission_Profiles\<close>: \<open>agents/exec_policy.py\<close>,
    \<open>agents/policies/tool_policy.py\<close>, \<open>agents/permission_profiles.py\<close>. Which commands, tools,
    SQL statements and capabilities are allowed; \<open>Json\<close> holds the JSON values they read.
  \<^item> \<open>Approvals\<close>, \<open>Tool_Gateway\<close>, \<open>Gateway_Claims\<close>: \<open>agents/gateway/tool_gateway.py\<close>,
    \<open>approval_coordinator.py\<close>, \<open>hooks/engine.py\<close>, \<open>guardian.py\<close>, \<open>api/agent_runs.py\<close>. A
    tool call passes the checks in order and leaves an audit row; the histories interleave the calls
    of any number of runs with the decisions of users.

  \<^item> \<open>Ingest_Queue\<close>, \<open>Ingest_Claims\<close>: \<open>services/ingestion_queue.py\<close>, \<open>document_service.py\<close>. The
    rows of documents with claims, leases, versions and verdicts; the steps of any number of workers,
    uploads and deletions interleave.
  \<^item> \<open>Splitter\<close>: \<open>rag/splitter.py\<close>. Recursive splitting by separators, Markdown sections, overlap.
  \<^item> \<open>Retrieval\<close>, \<open>Retrieval_Claims\<close>, \<open>Retrieval_Gate\<close>: \<open>rag/rag_service.py\<close>, \<open>fusion.py\<close>,
    \<open>budget.py\<close>. Gathering, fusing, capping and packing hits; the packed list is the input
    of the answer gate.
  \<^item> \<open>Utext\<close>, \<open>Answer_Claims\<close>, \<open>Risk_Pii\<close>, \<open>Answer_Gate\<close>, \<open>Gate_Proofs\<close>: \<open>rag/claims.py\<close>,
    \<open>citations.py\<close>, \<open>risk.py\<close>, \<open>postprocess.py\<close>, \<open>services/answer_gate.py\<close>. The text of an answer is a
    list of code points; claims are stretches of it; a chain of checks repairs or refuses it.
  \<^item> \<open>Usage\<close>, \<open>Continuation\<close>: \<open>agents/continuation.py\<close>. Metering of several calls as one, and the
    removal of what a continuation repeats, at once and on a stream.
  \<^item> \<open>Auth_Tokens\<close>, \<open>Session_Proofs\<close>: \<open>services/auth_service.py\<close>, \<open>core/deps.py\<close>,
    \<open>api/auth.py\<close>, \<open>services/admin_service.py\<close>. Users with a token version, the revocation sets
    with their expiry, and the requests of any number of clients with a moving clock.
  \<^item> \<open>Transcript\<close>, \<open>Compaction\<close>, \<open>Compaction_Claims\<close>, \<open>Prompt_Admission\<close>:
    \<open>agents/context_compaction.py\<close>, \<open>context_manager.py\<close>, \<open>token_budget.py\<close>,
    \<open>services/chat_context.py\<close>. Messages as JSON objects; compaction keeps tool calls with their
    results, admission is exact, and \<open>prepare_round\<close> composes the two as the native runtime does.
  \<^item> \<open>Quotas\<close>, \<open>Quota_Claims\<close>: \<open>quotas.py\<close>, \<open>services/chat_accounting.py\<close>. Counters and sets of a
    tenant; the steps of admissions interleave. The sets are the locale \<open>set_store\<close>, which the
    in-process counters interpret.
  \<^item> \<open>Settlement\<close>: \<open>core/pricing.py\<close>, \<open>services/chat_accounting.py\<close>, \<open>speech_service.py\<close>. The price
    of a payload, and the settlement that charges quotas and ledger for it.
  \<^item> \<open>Prompt_Boundary\<close>: \<open>security/prompt_boundary.py\<close>. The fence around documents and tool results in
    a prompt; no text can forge its closing mark.
  \<^item> \<open>Email_Codes\<close>, \<open>Code_Claims\<close>: \<open>services/email_code_service.py\<close>. Codes by mail on a view of the
    keys of Redis with their expiry.
  \<^item> \<open>Traffic\<close>: \<open>core/rate_limit.py\<close>, \<open>core/concurrency.py\<close>. The client's address, the sliding
    window of requests, the circuit breaker.
  \<^item> \<open>Leader\<close>: \<open>core/leader.py\<close>. The gate of the periodic loops, and a cluster of processes as an
    inductive set of reachable states in which sessions may end at any time.
  \<^item> \<open>Message_Versions\<close>, \<open>Version_Claims\<close>: \<open>services/message_versions.py\<close>, \<open>api/messages.py\<close>,
    \<open>api/message_versions.py\<close>. Version rows with their pruning, and the endpoints that overwrite
    or delete messages.

  \<^bold>\<open>Parameters.\<close> Code outside the repository is an argument: the token codec (decoding gives
  back what was encoded, and only that), the password hash, the availability of Redis at each
  request, the vector and keyword searches, the reranker, the tokenizer, the parsing of
  identifiers, the database's \<open>ILIKE\<close>, the keyed hash of redemption codes, the outcome of tool
  runs and of hooks, the summarizer of transcripts, the commands of Redis on keys and sets, the
  advisory locks of the database, the trusted networks. Laws they are assumed to have are premises of the theorems that need them.

  \<^bold>\<open>How state is modelled.\<close> A database table is a list or map of row records. A service
  function that runs in one transaction is one function on the tables, with its early returns
  and exceptions as values of a sum type. Where the code commits in between, or relies on a
  conditional update or a unique constraint against other transactions, the model has several
  steps and the theorems quantify over all their interleavings. Clocks, generated ids, random
  choices and the keyed hash are parameters.

  \<^bold>\<open>Bounds and fuel.\<close> The ordering loop \<open>topo_loop\<close> gets as fuel the number of steps, since each
  round emits one; the engine's \<open>run_loop\<close> gets \<open>max_replans + 1\<close>, since each further round
  spends one revision; \<open>read_pages\<close> gets the number of rows plus one, since each page that
  continues is not empty; the append of an event is retried \<open>MAX_SEQUENCE_ATTEMPTS = 3\<close> times,
  as in the code. That the fuel is enough is part of the theorems about them. The closure
  loops and \<open>resume_loop\<close> are total by a termination proof, and so are the splitter (each
  recursive call drops a separator or takes a smaller piece), the overlap scan (the matched
  length decreases in each fall-back), the trimming of a prompt (each round drops a message), the two substitutions of the prompt boundary and the search for the longest head that fits a context. Integers of Python are unbounded;
  amounts of money are integers, floating-point prices go through \<open>Floats\<close>.

  \<^bold>\<open>Not modelled.\<close> Calls of model providers, embedding services, CrewAI, connectors, containers and the
  file system are outside the program; the agent runtimes, the orchestrator and the chat
  service mostly translate between them and the services above. The HTTP handlers parse
  requests and call the services. Texts shown to the user, metrics and observation hooks are left
  out of the modelled functions, as are the Redis transport of the queue and the feedback on messages. Of retrieval the query plan, the
  candidates' trace and the listing of documents, of the gate the audit by a judge model, and of the
  accounts the login by WeChat, of the context window the spilling of long outputs to files and
  the text of the system prompt are left out. Patches, policies and continuations are texts of one-byte
  characters, answers texts of code points with the letters and digits of the ranges in \<open>Utext\<close>.
  The frontend is another language.
\<close>

end
